(* ===== verification/Prelude.thy ===== *)
theory Prelude
  imports Main "HOL-Library.Word" "HOL-Library.Sublist"
begin

text \<open>
  What the components of the proxies share: the C++ integer types, the ways a C++ call can
  end (normally, by an exception, by a fault that the language leaves undefined), the
  operations of \<open>std::string\<close> and \<open>std::list\<close> that the sources use, and the lemmas on
  them that the component theories rest on. \<open>cxx_int\<close> collects the facts that turn
  fixed-width comparisons into arithmetic on \<open>int\<close> and \<open>nat\<close>; \<open>outcome\<close>
  collects the equations of the result type.
\<close>

named_theorems cxx_int
named_theorems outcome

section \<open>Integer types\<close>

text \<open>
  \<open>int\<close> has 32 bits and \<open>long long int\<close> and \<open>size_t\<close> have 64. Both 64-bit types are
  the same words, read by \<open>sint\<close> (signed) or \<open>unat\<close> (unsigned); a conversion between
  them keeps the bits, as on every platform these sources compile on. A conversion from
  64 to 32 bits keeps the low half (\<open>ucast\<close>); from signed 32 to 64 bits it extends
  the sign (\<open>scast\<close>).
\<close>

type_synonym int32 = "32 word"
type_synonym int64 = "64 word"

definition size_of :: "'a list \<Rightarrow> int64" where
  "size_of s = of_nat (length s)"

lemma sint_of_nat_small [cxx_int]:
  "n < 2 ^ 63 \<Longrightarrow> sint (of_nat n :: int64) = int n"
  by transfer (simp add: take_bit_int_eq_self signed_take_bit_int_eq_self)

lemma unat_of_nat_small [cxx_int]:
  "n < 2 ^ 64 \<Longrightarrow> unat (of_nat n :: int64) = n"
  by (simp add: unat_of_nat)

lemma sint_diff_small:
  assumes "- (2 ^ 63) \<le> sint a - sint b" and "sint a - sint b < 2 ^ 63"
  shows "sint (a - b :: int64) = sint a - sint b"
  unfolding sint_word_diff
  by (rule signed_take_bit_int_eq_self) (use assms in simp_all)

lemma sint_add_small:
  assumes "- (2 ^ 63) \<le> sint a + sint b" and "sint a + sint b < 2 ^ 63"
  shows "sint (a + b :: int64) = sint a + sint b"
  unfolding sint_word_add
  by (rule signed_take_bit_int_eq_self) (use assms in simp_all)

lemma sint_size_of [cxx_int]:
  "length s < 2 ^ 63 \<Longrightarrow> sint (size_of s) = int (length s)"
  by (simp add: size_of_def sint_of_nat_small)

lemma unat_size_of [cxx_int]:
  "length s < 2 ^ 64 \<Longrightarrow> unat (size_of s) = length s"
  by (simp add: size_of_def unat_of_nat_small)

lemma size_of_append [simp]: "size_of (xs @ ys) = size_of xs + size_of ys"
  by (simp add: size_of_def)

lemma size_of_Nil [simp]: "size_of [] = 0"
  by (simp add: size_of_def)

section \<open>How a call ends\<close>

text \<open>
  An exception keeps the state the throwing code left behind, because the handlers of
  these programs go on with it. A fault is a step the C++ standard gives no meaning to
  (or, for \<open>OutOfFuel\<close>, a model that was not given enough fuel); nothing follows it.
  \<open>Indeterminate\<close> is the use of a variable that was never set, \<open>Terminate\<close> is
  \<open>std::terminate\<close>, which ends the process when an exception leaves a thread.
\<close>

datatype exn = ParseException string | ConnectException string | LengthError string | BadArrayLength
  | CashContextException string

datatype fault = NullDereference | UseAfterFree | OutOfBounds | Indeterminate | SignedOverflow | Terminate
  | OutOfFuel

datatype ('v, 's) outcome = Done 'v 's | Throws exn 's | Fault fault

fun bind :: "('v, 's) outcome \<Rightarrow> ('v \<Rightarrow> 's \<Rightarrow> ('w, 's) outcome) \<Rightarrow> ('w, 's) outcome" where
  "bind (Done v s) f = f v s"
| "bind (Throws e s) f = Throws e s"
| "bind (Fault x) f = Fault x"

lemma bind_eq_Done [outcome]:
  "bind m f = Done v s \<longleftrightarrow> (\<exists>w t. m = Done w t \<and> f w t = Done v s)"
  by (cases m) auto

lemma bind_eq_Throws [outcome]:
  "bind m f = Throws e s \<longleftrightarrow> m = Throws e s \<or> (\<exists>w t. m = Done w t \<and> f w t = Throws e s)"
  by (cases m) auto

lemma bind_eq_Fault [outcome]:
  "bind m f = Fault x \<longleftrightarrow> m = Fault x \<or> (\<exists>w t. m = Done w t \<and> f w t = Fault x)"
  by (cases m) auto

lemma bind_cong [fundef_cong]:
  "m = m' \<Longrightarrow> (\<And>v s. m' = Done v s \<Longrightarrow> f v s = g v s) \<Longrightarrow> bind m f = bind m' g"
  by (cases m') auto

lemma bind_assoc [simp]: "bind (bind m f) g = bind m (\<lambda>v s. bind (f v s) g)"
  by (cases m) auto

text \<open>
  \<open>ends_in P m\<close>: the call meets no fault, and whether it returns or throws, the state it leaves
  satisfies \<open>P\<close>.
\<close>

fun ends_in :: "('s \<Rightarrow> bool) \<Rightarrow> ('v, 's) outcome \<Rightarrow> bool" where
  "ends_in P (Done v s) = P s"
| "ends_in P (Throws e s) = P s"
| "ends_in P (Fault x) = False"

lemma ends_in_bind:
  assumes "ends_in P m" and "\<And>v s. m = Done v s \<Longrightarrow> P s \<Longrightarrow> ends_in Q (f v s)"
    and "\<And>s. P s \<Longrightarrow> Q s"
  shows "ends_in Q (bind m f)"
  using assms by (cases m) auto

lemma ends_in_mono: "ends_in P m \<Longrightarrow> (\<And>s. P s \<Longrightarrow> Q s) \<Longrightarrow> ends_in Q m"
  by (cases m) auto

section \<open>Strings\<close>

text \<open>
  A \<open>std::string\<close> of bytes is a list of characters. \<open>find_sub\<close> is the search of
  \<open>std::string::find\<close> on positions as natural numbers; \<open>str_find\<close> is its \<open>size_t\<close>
  result, with \<open>npos\<close> for no occurrence.
\<close>

definition npos :: int64 where
  "npos = -1"

fun find_sub :: "string \<Rightarrow> string \<Rightarrow> nat option" where
  "find_sub pat [] = (if pat = [] then Some 0 else None)"
| "find_sub pat (c # s) =
     (if prefix pat (c # s) then Some 0 else map_option Suc (find_sub pat s))"

definition str_find :: "string \<Rightarrow> string \<Rightarrow> int64" where
  "str_find s pat = (case find_sub pat s of None \<Rightarrow> npos | Some i \<Rightarrow> of_nat i)"

text \<open>The string of C in a block of bytes: those before the first zero.\<close>

definition c_string :: "string \<Rightarrow> string" where
  "c_string bs = takeWhile (\<lambda>c. c \<noteq> CHR 0x00) bs"

text \<open>\<open>s.substr(0, n)\<close>, where \<open>n\<close> is an \<open>int\<close> converted to \<open>size_t\<close>.\<close>

definition substr0 :: "string \<Rightarrow> int32 \<Rightarrow> string" where
  "substr0 s n = take (unat (scast n :: int64)) s"

lemma find_sub_Some:
  "find_sub pat s = Some i \<Longrightarrow> prefix pat (drop i s) \<and> i \<le> length s"
proof (induction pat s arbitrary: i rule: find_sub.induct)
  case (2 pat c s)
  then show ?case by (auto split: if_splits)
qed (auto split: if_splits)

lemma find_sub_least:
  "find_sub pat s = Some i \<Longrightarrow> j < i \<Longrightarrow> \<not> prefix pat (drop j s)"
proof (induction pat s arbitrary: i j rule: find_sub.induct)
  case (2 pat c s)
  then show ?case by (cases j) (auto split: if_splits)
qed (auto split: if_splits)

lemma find_sub_None:
  "find_sub pat s = None \<Longrightarrow> \<not> prefix pat (drop j s)"
proof (induction pat s arbitrary: j rule: find_sub.induct)
  case (1 pat)
  then show ?case by (auto split: if_splits)
next
  case (2 pat c s)
  then show ?case by (cases j) (auto split: if_splits)
qed

lemma find_sub_eq_None_iff: "find_sub pat s = None \<longleftrightarrow> \<not> sublist pat s"
proof
  assume "find_sub pat s = None"
  then have n: "\<not> prefix pat (drop j s)" for j
    by (rule find_sub_None)
  show "\<not> sublist pat s"
  proof
    assume "sublist pat s"
    then obtain ps ss where "s = ps @ pat @ ss" by (auto simp: sublist_def)
    with n [of "length ps"] show False by simp
  qed
next
  assume ns: "\<not> sublist pat s"
  show "find_sub pat s = None"
  proof (rule ccontr)
    assume "find_sub pat s \<noteq> None"
    then obtain i where "find_sub pat s = Some i" by auto
    then have "prefix pat (drop i s)" by (simp add: find_sub_Some)
    then have "sublist pat (drop i s)" by simp
    then have "sublist pat s"
      by (meson sublist_drop sublist_order.order_trans)
    with ns show False by simp
  qed
qed

lemma find_sub_bound: "find_sub pat s = Some i \<Longrightarrow> i + length pat \<le> length s"
  using find_sub_Some [of pat s i] prefix_length_le [of pat "drop i s"] by auto

lemma narrow_small [cxx_int]:
  "n < 2 ^ 31 \<Longrightarrow> (ucast (of_nat n :: int64) :: int32) = of_nat n"
  by transfer (simp add: take_bit_int_eq_self signed_take_bit_int_eq_self)

lemma widen_small [cxx_int]:
  "n < 2 ^ 31 \<Longrightarrow> (scast (of_nat n :: int32) :: int64) = of_nat n"
  by transfer (simp add: take_bit_int_eq_self signed_take_bit_int_eq_self)

lemma sint32_of_nat_small [cxx_int]:
  "n < 2 ^ 31 \<Longrightarrow> sint (of_nat n :: int32) = int n"
  by transfer (simp add: take_bit_int_eq_self signed_take_bit_int_eq_self)

lemma narrow_port: "n < 2 ^ 31 \<Longrightarrow> (ucast (of_nat n :: int32) :: 16 word) = of_nat (n mod 65536)"
proof -
  assume "n < 2 ^ 31"
  then have "unat (of_nat n :: int32) = n" by (simp add: unat_of_nat)
  then have "unat (ucast (of_nat n :: int32) :: 16 word) = unat (of_nat (n mod 65536) :: 16 word)"
    by (simp add: unsigned_ucast_eq unat_of_nat take_bit_eq_mod)
  then show ?thesis by (simp only: word_unat_eq_iff)
qed

lemma of_nat_neq_npos [cxx_int]:
  "n < 2 ^ 63 \<Longrightarrow> (of_nat n :: int64) \<noteq> npos"
proof
  assume "n < 2 ^ 63" and "(of_nat n :: int64) = npos"
  then have "sint (npos :: int64) = int n" by (metis sint_of_nat_small)
  then show False by (simp add: npos_def)
qed

lemma npos_roundtrip [simp]: "scast (ucast npos :: int32) = npos"
  unfolding npos_def by code_simp

lemma substr0_small [cxx_int]:
  "n < 2 ^ 31 \<Longrightarrow> substr0 s (of_nat n) = take n s"
  by (simp add: substr0_def widen_small unat_of_nat_small)

end
