(* ===== verification/Regex.thy ===== *)
theory Regex
  imports Prelude
begin

text \<open>
  The part of \<open>std::regex\<close> (ECMAScript grammar, backtracking) that the parsers use: single
  characters, sequences, greedy repetition and capture groups. \<open>alts r (s, k)\<close> lists, in the
  order the backtracking matcher tries them, the ways \<open>r\<close> can match a prefix of \<open>s\<close>: the
  text that is left and the captures so far. The first one is the match. A round of a
  repetition that consumes nothing is rejected, as ECMAScript prescribes, so a repetition
  over \<open>s\<close> has at most \<open>length s\<close> rounds: the fuel of \<open>star_iter\<close>.
\<close>

type_synonym captures = "nat \<rightharpoonup> string"

datatype re =
    Eps
  | Cls "char \<Rightarrow> bool"
  | Seq re re
  | Star re
  | Group nat re

fun star_iter :: "(string \<times> captures \<Rightarrow> (string \<times> captures) list) \<Rightarrow> nat
    \<Rightarrow> string \<times> captures \<Rightarrow> (string \<times> captures) list" where
  "star_iter f 0 x = [x]"
| "star_iter f (Suc n) x =
     concat (map (star_iter f n) (filter (\<lambda>y. length (fst y) < length (fst x)) (f x))) @ [x]"

primrec alts :: "re \<Rightarrow> string \<times> captures \<Rightarrow> (string \<times> captures) list" where
  "alts Eps x = [x]"
| "alts (Cls p) x =
     (case fst x of [] \<Rightarrow> [] | c # s \<Rightarrow> if p c then [(s, snd x)] else [])"
| "alts (Seq a b) x = concat (map (alts b) (alts a x))"
| "alts (Star a) x = star_iter (alts a) (length (fst x)) x"
| "alts (Group n a) x =
     map (\<lambda>(s', k). (s', k(n \<mapsto> take (length (fst x) - length s') (fst x)))) (alts a x)"

definition Plus :: "re \<Rightarrow> re" where
  "Plus r = Seq r (Star r)"

fun Lit :: "string \<Rightarrow> re" where
  "Lit [] = Eps"
| "Lit (c # s) = Seq (Cls (\<lambda>d. d = c)) (Lit s)"

text \<open>\<open>std::regex_search\<close>: the captures of the match that starts leftmost.\<close>

fun regex_search :: "re \<Rightarrow> string \<Rightarrow> captures option" where
  "regex_search r [] = (case alts r ([], Map.empty) of [] \<Rightarrow> None | x # _ \<Rightarrow> Some (snd x))"
| "regex_search r (c # s) =
     (case alts r (c # s, Map.empty) of [] \<Rightarrow> regex_search r s | x # _ \<Rightarrow> Some (snd x))"

text \<open>\<open>smatch::size()\<close> is the number of groups plus one, whichever groups matched.\<close>

primrec groups :: "re \<Rightarrow> nat" where
  "groups Eps = 0"
| "groups (Cls p) = 0"
| "groups (Seq a b) = groups a + groups b"
| "groups (Star a) = groups a"
| "groups (Group n a) = Suc (groups a)"

definition match_size :: "re \<Rightarrow> nat" where
  "match_size r = Suc (groups r)"

lemma groups_Lit [simp]: "groups (Lit s) = 0"
  by (induction s) auto

text \<open>\<open>resRegex[n].str()\<close> is empty for a group that took no part in the match.\<close>

definition sub_str :: "captures \<Rightarrow> nat \<Rightarrow> string" where
  "sub_str k n = (case k n of None \<Rightarrow> [] | Some s \<Rightarrow> s)"

section \<open>The first alternative\<close>

lemma alts_Lit:
  "alts (Lit p) (s, k) = (if prefix p s then [(drop (length p) s, k)] else [])"
proof (induction p arbitrary: s)
  case (Cons c p)
  then show ?case by (cases s) auto
qed simp

lemma star_iter_nonempty [simp]: "star_iter f n x \<noteq> []"
  by (cases n) auto

lemma concat_map_Cons:
  "f x = y # ys \<Longrightarrow> \<exists>zs. concat (map f (x # xs)) = y # zs"
  by simp

text \<open>
  The next lemmas take the matcher of the repeated part as a function \<open>f\<close> with the equation
  they need, so that the simplifier does not unfold it inside \<open>star_iter\<close>.
\<close>

lemma star_cls_iter:
  assumes f: "\<And>s k. f (s, k) = (case s of [] \<Rightarrow> [] | c # t \<Rightarrow> if p c then [(t, k)] else [])"
  shows "length s \<le> n \<Longrightarrow> \<exists>ys. star_iter f n (s, k) = (dropWhile p s, k) # ys"
proof (induction n arbitrary: s)
  case (Suc n)
  show ?case
  proof (cases s)
    case (Cons c t)
    with Suc.prems have "length t \<le> n" by simp
    from Suc.IH [OF this] obtain ys where "star_iter f n (t, k) = (dropWhile p t, k) # ys" ..
    with Cons show ?thesis by (simp add: f)
  qed (simp add: f)
qed simp

lemma star_group_iter:
  assumes f: "\<And>s k. f (s, k) =
    (case s of [] \<Rightarrow> [] | c # t \<Rightarrow> if p c then [(t, k(g \<mapsto> [c]))] else [])"
  shows "length s \<le> n \<Longrightarrow> \<exists>k' ys. star_iter f n (s, k) = (dropWhile p s, k') # ys
    \<and> (\<forall>i. i \<noteq> g \<longrightarrow> k' i = k i)"
proof (induction n arbitrary: s k)
  case (Suc n)
  show ?case
  proof (cases s)
    case (Cons c t)
    with Suc.prems have "length t \<le> n" by simp
    from Suc.IH [OF this, of "k(g \<mapsto> [c])"] obtain k' ys where
      "star_iter f n (t, k(g \<mapsto> [c])) = (dropWhile p t, k') # ys"
      and "\<forall>i. i \<noteq> g \<longrightarrow> k' i = (k(g \<mapsto> [c])) i"
      by blast
    with Cons show ?thesis by (auto simp: f)
  qed (auto simp: f)
qed auto

lemma alts_Star_Cls:
  "\<exists>ys. alts (Star (Cls p)) (s, k) = (dropWhile p s, k) # ys"
proof -
  have "alts (Cls p) (t, k') = (case t of [] \<Rightarrow> [] | c # u \<Rightarrow> if p c then [(u, k')] else [])" for t k'
    by (cases t) simp_all
  from star_cls_iter [where f = "alts (Cls p)", OF this order.refl, of s k] show ?thesis
    by (simp only: alts.simps fst_conv)
qed

lemma alts_Group_Cls:
  "alts (Group g (Cls p)) (s, k) =
     (case s of [] \<Rightarrow> [] | c # t \<Rightarrow> if p c then [(t, k(g \<mapsto> [c]))] else [])"
  by (auto split: list.splits)

lemma alts_Plus_Group:
  "\<exists>k' ys. alts (Plus (Group g (Cls p))) (s, k) =
     (if takeWhile p s = [] then [] else (dropWhile p s, k') # ys)
     \<and> (\<forall>i. i \<noteq> g \<longrightarrow> k' i = k i)"
proof (cases "takeWhile p s = []")
  case True
  then have "alts (Group g (Cls p)) (s, k) = []"
    by (cases s) (auto split: if_splits)
  then have "alts (Plus (Group g (Cls p))) (s, k) = []"
    by (simp only: Plus_def alts.simps(3)) simp
  with True show ?thesis by auto
next
  case False
  then obtain c t where s: "s = c # t" "p c"
    by (cases s) (auto split: if_splits)
  from star_group_iter [where f = "alts (Group g (Cls p))", OF alts_Group_Cls order.refl,
      of t "k(g \<mapsto> [c])"]
  obtain k' ys where
    "alts (Star (Group g (Cls p))) (t, k(g \<mapsto> [c])) = (dropWhile p t, k') # ys"
    and "\<forall>i. i \<noteq> g \<longrightarrow> k' i = (k(g \<mapsto> [c])) i"
    by (auto simp only: alts.simps fst_conv)
  moreover have "alts (Group g (Cls p)) (s, k) = [(t, k(g \<mapsto> [c]))]"
    using s by simp
  ultimately have "alts (Plus (Group g (Cls p))) (s, k) = (dropWhile p s, k') # ys"
    and "\<forall>i. i \<noteq> g \<longrightarrow> k' i = k i"
    using s by (simp_all only: Plus_def alts.simps(3)) simp_all
  with False show ?thesis by auto
qed

text \<open>
  A pattern that begins with a literal and then matches anything is found where the literal
  occurs first.
\<close>

lemma regex_search_Lit:
  assumes "\<And>s k. alts r (s, k) \<noteq> []"
  shows "regex_search (Seq (Lit p) r) s =
    map_option (\<lambda>i. snd (hd (alts r (drop (i + length p) s, Map.empty)))) (find_sub p s)"
proof (induction p s rule: find_sub.induct)
  case (1 pat)
  then show ?case by (auto simp: alts_Lit assms neq_Nil_conv split: list.splits)
next
  case (2 pat c s)
  show ?case
  proof (cases "prefix pat (c # s)")
    case True
    with assms [of "drop (length pat) (c # s)" Map.empty] show ?thesis
      by (auto simp: alts_Lit neq_Nil_conv)
  next
    case False
    with 2 show ?thesis by (simp add: alts_Lit option.map_comp o_def)
  qed
qed

end
