(* ===== verification/Parser.thy ===== *)
theory Parser
  imports Regex
begin

text \<open>
  \<open>lab32v2/parser\<close>: the heading parser of the multi-threaded proxy. The types are those of
  \<open>ParserTypeRequest.h\<close> and \<open>ResultParseHeading.h\<close>, the functions those of
  \<open>ParserImpl.cpp\<close>, the two patterns those of \<open>Constants.h\<close>. Log lines are left out. The
  lemmas compare the searches with direct scanners, and the pointer arithmetic in \<open>int\<close> with
  positions in the text.
\<close>

section \<open>Types\<close>

datatype TypeRequestAndResponse =
    GET_REQUEST
  | NORMAL_RESPONSE
  | NOT_CASH_RESPONSE
  | GET_REQUEST_NOT_CASH
  | NOT_GET_REQUEST
  | INVALID

datatype ResultPars = END_HEADING | END_BODY | NOTHING

text \<open>
  The member \<open>type\<close> has no initialiser; every function below sets it before anything reads
  it, so \<open>INVALID\<close> stands for its indeterminate value.
\<close>

record ResultParseHeading =
  hostName :: string
  contentLength :: int64
  rtype :: TypeRequestAndResponse
  responseWithError :: bool
  port :: int32
  haveContentLength :: bool

definition new_ResultParseHeading :: ResultParseHeading where
  "new_ResultParseHeading = \<lparr>hostName = [], contentLength = 0, rtype = INVALID,
     responseWithError = False, port = 80, haveContentLength = False\<rparr>"

section \<open>Numbers\<close>

text \<open>
  \<open>atoi\<close> as in the C library these programs run on: \<open>strtol\<close> in base 10 (white space, a
  sign, digits, saturating at the ends of \<open>long\<close>), then the low 32 bits.
\<close>

definition is_digit :: "char \<Rightarrow> bool" where
  "is_digit c = (let n = (of_char c :: nat) in 48 \<le> n \<and> n \<le> 57)"

definition is_space :: "char \<Rightarrow> bool" where
  "is_space c = (let n = (of_char c :: nat) in n = 32 \<or> (9 \<le> n \<and> n \<le> 13))"

definition digit_value :: "char \<Rightarrow> int" where
  "digit_value c = of_char c - 48"

definition digits_value :: "string \<Rightarrow> int" where
  "digits_value ds = foldl (\<lambda>v c. 10 * v + digit_value c) 0 ds"

definition strtol10 :: "string \<Rightarrow> int64" where
  "strtol10 s =
     (let t = dropWhile is_space s;
          neg = (case t of c # _ \<Rightarrow> c = CHR ''-'' | [] \<Rightarrow> False);
          u = (case t of c # r \<Rightarrow> if c = CHR ''-'' \<or> c = CHR ''+'' then r else t | [] \<Rightarrow> t);
          v = digits_value (takeWhile is_digit u)
      in word_of_int (if neg then max (- v) (- (2 ^ 63)) else min v (2 ^ 63 - 1)))"

definition atoi :: "string \<Rightarrow> int32" where
  "atoi s = ucast (strtol10 s)"

section \<open>Searches\<close>

definition findEndHeading :: "string \<Rightarrow> ResultPars \<times> int32" where
  "findEndHeading buf =
     (let resultFinding = (ucast (str_find buf [CHR 0x0D, CHR 0x0A, CHR 0x0D, CHR 0x0A]) :: int32)
      in if scast resultFinding = npos then (NOTHING, -1)
         else (END_HEADING, resultFinding + 4))"

definition findEndBody :: "string \<Rightarrow> ResultPars \<times> int32" where
  "findEndBody buffer =
     (let resultFinding =
        (ucast (str_find buffer [CHR ''0'', CHR 0x0D, CHR 0x0A, CHR 0x0D, CHR 0x0A]) :: int32)
      in if scast resultFinding = npos then (NOTHING, -1)
         else (END_BODY, resultFinding + 5))"

definition word_char :: "char \<Rightarrow> bool" where
  "word_char c = (let n = (of_char c :: nat) in
     (48 \<le> n \<and> n \<le> 57) \<or> (65 \<le> n \<and> n \<le> 90) \<or> n = 95 \<or> (97 \<le> n \<and> n \<le> 122))"

definition host_char :: "char \<Rightarrow> bool" where
  "host_char c = (word_char c \<or> c = CHR ''.'' \<or> is_digit c \<or> c = CHR ''-'')"

text \<open>
  \<open>"Host: ([\\w.\\d-]*)(:(\\d)+)*"\<close> and \<open>"Content-Length: ([\\d]*)"\<close>, each as its literal
  and the pattern after it.
\<close>

definition port_pattern :: re where
  "port_pattern = Group 2 (Seq (Cls (\<lambda>c. c = CHR '':'')) (Plus (Group 3 (Cls is_digit))))"

definition host_pattern :: re where
  "host_pattern = Seq (Group 1 (Star (Cls host_char))) (Star port_pattern)"

definition length_pattern :: re where
  "length_pattern = Group 1 (Star (Cls is_digit))"

definition REGEX_FOR_HOST_AND_PORT :: re where
  "REGEX_FOR_HOST_AND_PORT = Seq (Lit ''Host: '') host_pattern"

definition REGEX_FOR_CONTENT_LENGTH :: re where
  "REGEX_FOR_CONTENT_LENGTH = Seq (Lit ''Content-Length: '') length_pattern"

definition findHostAndPort :: "ResultParseHeading \<Rightarrow> string \<Rightarrow> exn + ResultParseHeading" where
  "findHostAndPort result buf =
     (case regex_search REGEX_FOR_HOST_AND_PORT buf of
        Some resRegex \<Rightarrow>
          if match_size REGEX_FOR_HOST_AND_PORT = 2 then Inr (result\<lparr>hostName := sub_str resRegex 1\<rparr>)
          else
            let result = result\<lparr>hostName := sub_str resRegex 1\<rparr>
            in if length (sub_str resRegex 2) > 1
               then Inr (result\<lparr>port := atoi (drop 1 (sub_str resRegex 2))\<rparr>)
               else Inr (result\<lparr>port := 80\<rparr>)
      | None \<Rightarrow> Inl (ParseException ''incorrect heading''))"

definition findContentLength :: "ResultParseHeading \<Rightarrow> string \<Rightarrow> ResultParseHeading" where
  "findContentLength result buf =
     (case regex_search REGEX_FOR_CONTENT_LENGTH buf of
        Some resRegex \<Rightarrow>
          if match_size REGEX_FOR_CONTENT_LENGTH = 2
          then result\<lparr>contentLength := scast (atoi (sub_str resRegex 1)), haveContentLength := True\<rparr>
          else result
      | None \<Rightarrow> result\<lparr>haveContentLength := False\<rparr>)"

section \<open>Headings\<close>

definition parsingRequest :: "string \<Rightarrow> string \<Rightarrow> TypeRequestAndResponse" where
  "parsingRequest buf host = NOT_GET_REQUEST"

definition parsingHeading :: "string \<Rightarrow> exn + ResultParseHeading" where
  "parsingHeading heading =
     (let result = new_ResultParseHeading
      in if length heading > 3 then
           let result = (if take 3 heading = ''GET'' then result\<lparr>rtype := GET_REQUEST\<rparr>
                         else result\<lparr>rtype := NOT_GET_REQUEST\<rparr>);
               result = findContentLength result heading
           in findHostAndPort result heading
         else Inl (ParseException ''incorrect heading''))"

definition parsingResponseHeading :: "string \<Rightarrow> ResultParseHeading" where
  "parsingResponseHeading heading =
     (let result = new_ResultParseHeading;
          statusResponse = (ucast (str_find heading ''HTTP/1.1 200 OK'') :: int32)
      in if scast statusResponse = npos then
           let test = (ucast (str_find heading ''200 OK'') :: int32)
           in if scast test \<noteq> npos then
                findContentLength (result\<lparr>rtype := NORMAL_RESPONSE, responseWithError := False\<rparr>) heading
              else
                findContentLength (result\<lparr>rtype := INVALID, responseWithError := True\<rparr>) heading
         else
           findContentLength (result\<lparr>rtype := NORMAL_RESPONSE, responseWithError := False\<rparr>) heading)"

section \<open>The searches against direct scanners\<close>

text \<open>
  \<open>host_scan\<close> reads what the host pattern is meant to find: the run of host characters after
  the first \<open>Host: \<close>, and the last of the groups \<open>:digits\<close> that follow it.
\<close>

function last_port :: "string \<Rightarrow> string option \<Rightarrow> string option" where
  "last_port [] acc = acc"
| "last_port (c # t) acc =
     (if c = CHR '':'' \<and> takeWhile is_digit t \<noteq> []
      then last_port (dropWhile is_digit t) (Some (c # takeWhile is_digit t)) else acc)"
  by pat_completeness auto
termination
  by (relation "measure (\<lambda>(s, acc). length s)") (auto simp: le_imp_less_Suc length_dropWhile_le)

definition host_scan :: "string \<Rightarrow> (string \<times> string option) option" where
  "host_scan s = map_option
     (\<lambda>i. let t = drop (i + length ''Host: '') s
          in (takeWhile host_char t, last_port (dropWhile host_char t) None))
     (find_sub ''Host: '' s)"

definition length_scan :: "string \<Rightarrow> string option" where
  "length_scan s = map_option (\<lambda>i. takeWhile is_digit (drop (i + length ''Content-Length: '') s))
     (find_sub ''Content-Length: '' s)"

lemma take_run: "take (length s - length (dropWhile p s)) s = takeWhile p s"
proof -
  have "length s = length (takeWhile p s) + length (dropWhile p s)"
    by (metis length_append takeWhile_dropWhile_id)
  then show ?thesis
    by (metis add_diff_cancel_right' takeWhile_eq_take)
qed

lemma star_ports_iter:
  assumes f: "\<And>s k. \<exists>k' ys. f (s, k) = (case s of [] \<Rightarrow> [] | c # t \<Rightarrow>
      if c = CHR '':'' \<and> takeWhile is_digit t \<noteq> []
      then (dropWhile is_digit t, k'(2 \<mapsto> c # takeWhile is_digit t)) # ys else [])
    \<and> (\<forall>i. i \<noteq> 3 \<longrightarrow> k' i = k i)"
  shows "length s \<le> n \<Longrightarrow> \<exists>r k' ys. star_iter f n (s, k) = (r, k') # ys
    \<and> k' 2 = last_port s (k 2) \<and> k' 1 = k 1"
proof (induction n arbitrary: s k)
  case (Suc n)
  show ?case
  proof (cases s)
    case Nil
    with f [of "[]" k] show ?thesis by simp
  next
    case (Cons c t)
    from f [of s k] obtain k1 ys1 where
      f1: "f (s, k) = (if c = CHR '':'' \<and> takeWhile is_digit t \<noteq> []
        then (dropWhile is_digit t, k1(2 \<mapsto> c # takeWhile is_digit t)) # ys1 else [])"
      and k1: "\<forall>i. i \<noteq> 3 \<longrightarrow> k1 i = k i"
      using Cons by auto
    show ?thesis
    proof (cases "c = CHR '':'' \<and> takeWhile is_digit t \<noteq> []")
      case True
      have len: "length (dropWhile is_digit t) < length s"
        using Cons by (simp add: le_imp_less_Suc length_dropWhile_le)
      with Suc.prems have "length (dropWhile is_digit t) \<le> n" by simp
      define k2 where "k2 = k1(2 \<mapsto> c # takeWhile is_digit t)"
      with k1 have k2: "k2 2 = Some (c # takeWhile is_digit t)" "k2 1 = k 1" by auto
      from Suc.IH [OF \<open>length (dropWhile is_digit t) \<le> n\<close>, of k2] obtain r k' ys where
        "star_iter f n (dropWhile is_digit t, k2) = (r, k') # ys"
        "k' 2 = last_port (dropWhile is_digit t) (k2 2)" "k' 1 = k2 1"
        by blast
      with True f1 len k2 Cons show ?thesis by (auto simp: k2_def)
    qed (use f1 Cons in auto)
  qed
qed auto

lemma alts_port_pattern:
  "\<exists>k' ys. alts port_pattern (s, k) = (case s of [] \<Rightarrow> [] | c # t \<Rightarrow>
          if c = CHR '':'' \<and> takeWhile is_digit t \<noteq> []
          then (dropWhile is_digit t, k'(2 \<mapsto> c # takeWhile is_digit t)) # ys else [])
     \<and> (\<forall>i. i \<noteq> 3 \<longrightarrow> k' i = k i)"
proof (cases s)
  case (Cons c t)
  from alts_Plus_Group [of 3 is_digit t k] obtain k' ys where
    P: "alts (Plus (Group 3 (Cls is_digit))) (t, k) =
     (if takeWhile is_digit t = [] then [] else (dropWhile is_digit t, k') # ys)"
    and k': "\<forall>i. i \<noteq> 3 \<longrightarrow> k' i = k i" by blast
  have run: "take (Suc (length t) - length (dropWhile is_digit t)) (c # t) = c # takeWhile is_digit t"
    using take_run [of t is_digit] length_dropWhile_le [of is_digit t] by (simp add: Suc_diff_le)
  have seq: "alts (Seq (Cls (\<lambda>c. c = CHR '':'')) (Plus (Group 3 (Cls is_digit)))) (s, k) =
    (if c = CHR '':'' then alts (Plus (Group 3 (Cls is_digit))) (t, k) else [])"
    unfolding Cons alts.simps(2,3) by simp
  show ?thesis
    unfolding port_pattern_def alts.simps(5) seq P
    by (rule exI [of _ k']) (use k' run in \<open>auto simp: Cons\<close>)
qed (auto simp: port_pattern_def)

lemma alts_host_pattern:
  "\<exists>r k' ys. alts host_pattern (t, k) = (r, k') # ys
     \<and> k' 1 = Some (takeWhile host_char t) \<and> k' 2 = last_port (dropWhile host_char t) (k 2)"
proof -
  define k1 where "k1 = k(1 \<mapsto> takeWhile host_char t)"
  have k1: "k1 1 = Some (takeWhile host_char t)" "k1 2 = k 2"
    by (auto simp: k1_def)
  from alts_Star_Cls [of host_char t k] obtain ys0 where
    "alts (Star (Cls host_char)) (t, k) = (dropWhile host_char t, k) # ys0" ..
  then obtain ys1 where
    G: "alts (Group 1 (Star (Cls host_char))) (t, k) = (dropWhile host_char t, k1) # ys1"
    by (simp only: alts.simps(5) list.map prod.case fst_conv take_run k1_def)
  from star_ports_iter [where f = "alts port_pattern", OF alts_port_pattern order.refl,
      of "dropWhile host_char t" k1]
  obtain r k' ys where
    "alts (Star port_pattern) (dropWhile host_char t, k1) = (r, k') # ys"
    "k' 2 = last_port (dropWhile host_char t) (k1 2)" "k' 1 = k1 1"
    by (auto simp only: alts.simps(4) fst_conv)
  with G k1 show ?thesis
    by (simp only: host_pattern_def alts.simps(3) list.map concat.simps append_Cons) blast
qed

lemma alts_length_pattern:
  "\<exists>r k' ys. alts length_pattern (t, k) = (r, k') # ys \<and> k' 1 = Some (takeWhile is_digit t)"
proof -
  from alts_Star_Cls [of is_digit t k] obtain ys where
    "alts (Star (Cls is_digit)) (t, k) = (dropWhile is_digit t, k) # ys" ..
  then show ?thesis
    by (simp only: length_pattern_def alts.simps(5) list.map prod.case fst_conv take_run) simp
qed

lemma search_host:
  "map_option (\<lambda>k. (k 1, k 2)) (regex_search REGEX_FOR_HOST_AND_PORT s)
   = map_option (\<lambda>(h, p). (Some h, p)) (host_scan s)"
proof -
  have ne: "alts host_pattern (t, k) \<noteq> []" for t k
    using alts_host_pattern [of t k] by auto
  have "snd (hd (alts host_pattern (t, Map.empty))) 1 = Some (takeWhile host_char t)
    \<and> snd (hd (alts host_pattern (t, Map.empty))) 2 = last_port (dropWhile host_char t) None" for t
    using alts_host_pattern [of t Map.empty] by fastforce
  then show ?thesis
    by (cases "find_sub ''Host: '' s")
       (auto simp: REGEX_FOR_HOST_AND_PORT_def regex_search_Lit [OF ne] host_scan_def Let_def
          simp del: find_sub.simps Lit.simps)
qed

lemma search_length:
  "map_option (\<lambda>k. k 1) (regex_search REGEX_FOR_CONTENT_LENGTH s) = map_option Some (length_scan s)"
proof -
  have ne: "alts length_pattern (t, k) \<noteq> []" for t k
    using alts_length_pattern [of t k] by auto
  have "snd (hd (alts length_pattern (t, Map.empty))) 1 = Some (takeWhile is_digit t)" for t
    using alts_length_pattern [of t Map.empty] by fastforce
  then show ?thesis
    by (cases "find_sub ''Content-Length: '' s")
       (auto simp: REGEX_FOR_CONTENT_LENGTH_def regex_search_Lit [OF ne] length_scan_def
          simp del: find_sub.simps Lit.simps)
qed

end
