(* ===== verification/Parser_Correct.thy ===== *)
theory Parser_Correct
  imports Parser
begin

text \<open>
  What the parser of \<open>lab32v2\<close> computes: the positions of \<open>findEndHeading\<close> and
  \<open>findEndBody\<close>, the host, port and length that the patterns select, the numbers \<open>atoi\<close>
  reads, the errors, and the round trip of a request heading through \<open>parsingHeading\<close>.
\<close>

section \<open>Decimal numbers\<close>

fun dec :: "nat \<Rightarrow> string" where
  "dec n = (if n < 10 then [char_of (48 + n)] else dec (n div 10) @ [char_of (48 + n mod 10)])"

declare dec.simps [simp del]

lemma digit_char:
  "n < 10 \<Longrightarrow> is_digit (char_of (48 + n)) \<and> digit_value (char_of (48 + n)) = int n"
proof -
  assume n: "n < 10"
  then have c: "of_char (char_of (48 + n)) = 48 + n"
    by simp
  have "(of_char (char_of (48 + n)) :: int) = int (of_char (char_of (48 + n)))"
    by (rule of_nat_of_char [symmetric])
  with c n show ?thesis
    by (simp add: is_digit_def digit_value_def)
qed

lemma digits_value_snoc: "digits_value (ds @ [c]) = 10 * digits_value ds + digit_value c"
  by (simp add: digits_value_def)

lemma dec_digits: "list_all is_digit (dec n)"
proof (induction n rule: dec.induct)
  case (1 n)
  then show ?case
    by (subst dec.simps) (auto simp: digit_char)
qed

lemma dec_nonempty: "dec n \<noteq> []"
  by (subst dec.simps) simp

lemma digits_value_dec: "digits_value (dec n) = int n"
proof (induction n rule: dec.induct)
  case (1 n)
  show ?case
  proof (cases "n < 10")
    case True
    then show ?thesis
      using digit_char [of n] by (subst dec.simps) (simp add: digits_value_def)
  next
    case False
    with 1 digit_char [of "n mod 10"] show ?thesis
      by (subst dec.simps) (simp add: digits_value_snoc zdiv_int zmod_int)
  qed
qed

lemma is_digit_facts:
  "is_digit c \<Longrightarrow> \<not> is_space c \<and> c \<noteq> CHR ''-'' \<and> c \<noteq> CHR ''+''"
  by (auto simp: is_digit_def is_space_def Let_def)

lemma strtol10_digits:
  assumes "list_all is_digit ds"
  shows "strtol10 ds = word_of_int (min (digits_value ds) (2 ^ 63 - 1))"
proof (cases ds)
  case (Cons c r)
  from assms Cons have d: "is_digit c" by simp
  from assms Cons have "\<forall>x\<in>set r. is_digit x"
    by (simp add: list_all_iff)
  with Cons d is_digit_facts [OF d] show ?thesis
    by (simp add: strtol10_def Let_def takeWhile_eq_all_conv [THEN iffD2])
qed (simp add: strtol10_def digits_value_def)

lemma atoi_digits:
  assumes "list_all is_digit ds"
  shows "atoi ds = word_of_int (min (digits_value ds) (2 ^ 63 - 1))"
  unfolding atoi_def strtol10_digits [OF assms]
  by transfer simp

lemma atoi_dec: "n < 2 ^ 63 \<Longrightarrow> atoi (dec n) = of_nat n"
  by (simp add: atoi_digits dec_digits digits_value_dec min_def)

section \<open>Positions\<close>

text \<open>
  A search result that fits in an \<open>int\<close> survives the two conversions; the comparison with
  \<open>npos\<close> then says whether there is an occurrence.
\<close>

lemma str_find_int:
  assumes "length s < 2 ^ 31"
  shows "(scast (ucast (str_find s pat) :: int32) = npos) = (find_sub pat s = None)"
    and "find_sub pat s = Some i \<Longrightarrow> (ucast (str_find s pat) :: int32) = of_nat i"
proof -
  have small: "i < 2 ^ 31" if "find_sub pat s = Some i" for i
    using find_sub_Some [OF that] assms by simp
  show "(scast (ucast (str_find s pat) :: int32) = npos) = (find_sub pat s = None)"
  proof (cases "find_sub pat s")
    case None
    then show ?thesis by (simp add: str_find_def)
  next
    case (Some i)
    with small [OF Some] show ?thesis
      by (simp add: str_find_def narrow_small widen_small of_nat_neq_npos)
  qed
  show "(ucast (str_find s pat) :: int32) = of_nat i" if "find_sub pat s = Some i"
    using small [OF that] that by (simp add: str_find_def narrow_small)
qed

definition crlf :: string where
  "crlf = [CHR 0x0D, CHR 0x0A]"

lemma findEndHeading_eq:
  assumes "length buf < 2 ^ 31"
  shows "findEndHeading buf = (case find_sub (crlf @ crlf) buf of
    None \<Rightarrow> (NOTHING, -1) | Some i \<Rightarrow> (END_HEADING, of_nat (i + 4)))"
  using str_find_int [OF assms, of "crlf @ crlf"]
  by (auto simp: findEndHeading_def Let_def crlf_def split: option.splits)

lemma findEndBody_eq:
  assumes "length buf < 2 ^ 31"
  shows "findEndBody buf = (case find_sub (CHR ''0'' # crlf @ crlf) buf of
    None \<Rightarrow> (NOTHING, -1) | Some i \<Rightarrow> (END_BODY, of_nat (i + 5)))"
  using str_find_int [OF assms, of "CHR ''0'' # crlf @ crlf"]
  by (auto simp: findEndBody_def Let_def crlf_def split: option.splits)

text \<open>The heading that the buffer code cuts off, \<open>substr(0, posEnd)\<close>.\<close>

lemma find_sub_split:
  "find_sub pat s = Some i \<Longrightarrow> \<exists>u v. s = u @ pat @ v \<and> length u = i"
proof -
  assume a: "find_sub pat s = Some i"
  from find_sub_Some [OF this] obtain v where "drop i s = pat @ v" "i \<le> length s"
    by (auto elim: prefixE)
  then have "s = take i s @ pat @ v \<and> length (take i s) = i"
    by (metis append_take_drop_id length_take min.absorb2)
  then show ?thesis by blast
qed

lemma find_sub_first:
  assumes "\<And>u v. s = u @ pat @ v \<Longrightarrow> length u \<ge> i" and "s = u @ pat @ v" and "length u = i"
  shows "find_sub pat s = Some i"
proof (cases "find_sub pat s")
  case None
  with assms(2) show ?thesis by (auto simp: find_sub_eq_None_iff sublist_def)
next
  case (Some j)
  from find_sub_split [OF Some] assms(1) have "i \<le> j" by blast
  moreover have "\<not> i < j"
    using find_sub_least [OF Some, of i] assms(2,3) by auto
  ultimately show ?thesis using Some by simp
qed

section \<open>What the patterns select\<close>

lemma findHostAndPort_eq:
  "findHostAndPort result buf = (case host_scan buf of
     None \<Rightarrow> Inl (ParseException ''incorrect heading'')
   | Some (h, p) \<Rightarrow> Inr (result\<lparr>hostName := h,
       port := (case p of None \<Rightarrow> 80 | Some q \<Rightarrow> if length q > 1 then atoi (drop 1 q) else 80)\<rparr>))"
proof -
  have "match_size REGEX_FOR_HOST_AND_PORT \<noteq> 2"
    by (simp add: match_size_def REGEX_FOR_HOST_AND_PORT_def host_pattern_def port_pattern_def
        Plus_def)
  with search_host [of buf] show ?thesis
    by (cases "regex_search REGEX_FOR_HOST_AND_PORT buf"; cases "host_scan buf")
       (auto simp: findHostAndPort_def sub_str_def Let_def split: option.splits)
qed

lemma findContentLength_eq:
  "findContentLength result buf = (case length_scan buf of
     None \<Rightarrow> result\<lparr>haveContentLength := False\<rparr>
   | Some d \<Rightarrow> result\<lparr>contentLength := scast (atoi d), haveContentLength := True\<rparr>)"
proof -
  have "match_size REGEX_FOR_CONTENT_LENGTH = 2"
    by (simp add: match_size_def REGEX_FOR_CONTENT_LENGTH_def length_pattern_def)
  with search_length [of buf] show ?thesis
    by (cases "regex_search REGEX_FOR_CONTENT_LENGTH buf"; cases "length_scan buf")
       (auto simp: findContentLength_def sub_str_def)
qed

lemma length_scan_digits: "length_scan s = Some d \<Longrightarrow> list_all is_digit d"
  by (auto simp: length_scan_def list_all_iff dest: set_takeWhileD)

text \<open>
  A pattern that does not overlap itself is found where it was written, if the text before it
  does not hold it.
\<close>

definition unbordered :: "string \<Rightarrow> bool" where
  "unbordered pat \<longleftrightarrow> list_all (\<lambda>k. take k pat \<noteq> drop (length pat - k) pat) [1..<length pat]"

lemma find_sub_written:
  assumes "\<not> sublist pat pre" and "unbordered pat"
  shows "find_sub pat (pre @ pat @ t) = Some (length pre)"
proof (rule find_sub_first)
  fix u v assume eq: "pre @ pat @ t = u @ pat @ v"
  show "length pre \<le> length u"
  proof (rule ccontr)
    assume "\<not> length pre \<le> length u"
    then have lt: "length u < length pre" by simp
    show False
    proof (cases "length u + length pat \<le> length pre")
      case True
      have "take (length pre) (pre @ pat @ t) = take (length pre) (u @ pat @ v)"
        by (simp only: eq)
      with True have "pre = u @ pat @ take (length pre - length u - length pat) v"
        by (simp add: add.commute)
      with assms(1) show False by (auto simp: sublist_def)
    next
      case False
      define k where "k = length u + length pat - length pre"
      have "take k (drop (length pre) (pre @ pat @ t)) = take k (drop (length pre) (u @ pat @ v))"
        by (simp only: eq)
      then have "take k pat = drop (length pat - k) pat"
        using lt False by (simp add: k_def)
      moreover have "k \<in> set [1..<length pat]"
        using lt False by (auto simp: k_def)
      ultimately show False
        using assms(2) by (auto simp: unbordered_def list_all_iff)
    qed
  qed
qed simp_all

lemma host_scan_written:
  assumes "\<not> sublist ''Host: '' pre"
  shows "host_scan (pre @ ''Host: '' @ t) =
    Some (takeWhile host_char t, last_port (dropWhile host_char t) None)"
proof -
  have "unbordered ''Host: ''" by (simp add: unbordered_def upt_rec)
  from find_sub_written [OF assms this, of t] show ?thesis
    by (simp add: host_scan_def Let_def del: find_sub.simps)
qed

lemma length_scan_written:
  assumes "\<not> sublist ''Content-Length: '' pre"
  shows "length_scan (pre @ ''Content-Length: '' @ t) = Some (takeWhile is_digit t)"
proof -
  have "unbordered ''Content-Length: ''" by (simp add: unbordered_def upt_rec)
  from find_sub_written [OF assms this, of t] show ?thesis
    by (simp add: length_scan_def del: find_sub.simps)
qed

lemma crlf_chars [simp]:
  "\<not> is_digit (CHR 0x0D)" "\<not> host_char (CHR 0x0D)" "\<not> host_char (CHR '':'')"
  by (simp_all add: is_digit_def host_char_def word_char_def)

lemma last_port_written:
  assumes "list_all is_digit d" and "d \<noteq> []"
  shows "last_port (CHR '':'' # d @ crlf @ t) acc = Some (CHR '':'' # d)"
proof -
  have "takeWhile is_digit (d @ crlf @ t) = d" "dropWhile is_digit (d @ crlf @ t) = crlf @ t"
    using assms(1) by (auto simp: crlf_def list_all_iff)
  with assms(2) show ?thesis by (simp add: crlf_def)
qed

section \<open>Properties\<close>

text \<open>
  \<open>findEndHeading\<close> reports \<open>END_HEADING\<close> exactly when the buffer holds the blank line
  that ends a heading; the position it returns is the end of the first such line, so that
  \<open>substr(0, posEnd)\<close> is the heading with its blank line. Otherwise it returns \<open>NOTHING\<close>
  and -1. The position is an \<open>int\<close>, which bounds the buffer.
\<close>

theorem findEndHeading_spec:
  assumes "length buf < 2 ^ 31 - 4"
  shows "(\<not> sublist (crlf @ crlf) buf \<and> findEndHeading buf = (NOTHING, -1)) \<or>
    (\<exists>h t. buf = h @ crlf @ crlf @ t \<and> \<not> sublist (crlf @ crlf) (h @ butlast (crlf @ crlf))
      \<and> fst (findEndHeading buf) = END_HEADING
      \<and> sint (snd (findEndHeading buf)) = int (length h) + 4
      \<and> substr0 buf (snd (findEndHeading buf)) = h @ crlf @ crlf)"
proof (cases "find_sub (crlf @ crlf) buf")
  case None
  then have "\<not> sublist (crlf @ crlf) buf" by (simp add: find_sub_eq_None_iff)
  with assms None show ?thesis by (simp add: findEndHeading_eq)
next
  case (Some i)
  from find_sub_split [OF this] obtain h t where
    buf: "buf = h @ (crlf @ crlf) @ t" "length h = i" by blast
  have first: "\<not> sublist (crlf @ crlf) (h @ butlast (crlf @ crlf))"
  proof
    assume "sublist (crlf @ crlf) (h @ butlast (crlf @ crlf))"
    then obtain u v where uv: "h @ butlast (crlf @ crlf) = u @ (crlf @ crlf) @ v"
      by (auto simp: sublist_def)
    have cc: "crlf @ crlf = butlast (crlf @ crlf) @ [CHR 0x0A]" by (simp add: crlf_def)
    from uv have "length u < i"
      using buf(2) by (auto simp: crlf_def dest!: arg_cong [where f = length])
    moreover have "buf = u @ (crlf @ crlf) @ v @ [CHR 0x0A] @ t"
      using arg_cong [OF uv, of "\<lambda>x. x @ [CHR 0x0A] @ t"] cc buf(1) by (metis append.assoc)
    then have "prefix (crlf @ crlf) (drop (length u) buf)" by simp
    ultimately show False using find_sub_least [OF Some] by blast
  qed
  have "i + 4 < 2 ^ 31"
    using assms buf by (simp add: crlf_def)
  then have "sint (of_nat (i + 4) :: int32) = int (i + 4)"
    and "substr0 buf (of_nat (i + 4)) = take (i + 4) buf"
    by (intro sint32_of_nat_small substr0_small, simp)+
  with assms Some buf first show ?thesis
    by (intro disjI2 exI [of _ h] exI [of _ t]) (simp add: findEndHeading_eq crlf_def)
qed

theorem findEndHeading_spec_witness:
  "(\<exists>h t. ''GET /'' @ crlf @ crlf @ ''x'' = h @ crlf @ crlf @ t
     \<and> sint (snd (findEndHeading (''GET /'' @ crlf @ crlf @ ''x''))) = int (length h) + 4)"
proof -
  have "length (''GET /'' @ crlf @ crlf @ ''x'') < 2 ^ 31 - 4" by (simp add: crlf_def)
  moreover have "sublist (crlf @ crlf) (''GET /'' @ crlf @ crlf @ ''x'')"
    by (metis append.assoc sublist_appendI)
  ultimately show ?thesis using findEndHeading_spec by metis
qed

lemma parsingHeading_written:
  assumes "\<not> sublist ''Host: '' pre" and "length pre \<ge> 3"
    and "list_all host_char host" and "p < 2 ^ 31"
  shows "\<exists>res. parsingHeading (pre @ ''Host: '' @ host @ CHR '':'' # dec p @ crlf @ t) = Inr res
    \<and> hostName res = host \<and> sint (port res) = int p
    \<and> rtype res = (if take 3 pre = ''GET'' then GET_REQUEST else NOT_GET_REQUEST)"
proof -
  define h where "h = pre @ ''Host: '' @ host @ CHR '':'' # dec p @ crlf @ t"
  have run: "takeWhile host_char (host @ CHR '':'' # dec p @ crlf @ t) = host"
    "dropWhile host_char (host @ CHR '':'' # dec p @ crlf @ t) = CHR '':'' # dec p @ crlf @ t"
    using assms(3) by (auto simp: list_all_iff)
  have scan: "host_scan h = Some (host, Some (CHR '':'' # dec p))"
    unfolding h_def host_scan_written [OF assms(1)] run last_port_written [OF dec_digits dec_nonempty] ..
  have "length (dec p) > 0" using dec_nonempty by simp
  moreover have "sint (atoi (dec p)) = int p"
    using assms(4) by (simp add: atoi_dec sint32_of_nat_small)
  moreover have "rtype (findContentLength r s) = rtype r" for r s
    by (auto simp: findContentLength_def split: option.split)
  moreover have "take 3 h = take 3 pre" "length h > 3"
    using assms(2) by (simp_all add: h_def)
  ultimately show ?thesis
    unfolding h_def [symmetric] by (auto simp: parsingHeading_def Let_def findHostAndPort_eq scan)
qed

text \<open>
  A heading as a user agent writes it: what comes before the host (method and first line), the
  host, its port if it has one, what comes between, and the announced length if there is one.
\<close>

definition host_line :: "string \<Rightarrow> string \<Rightarrow> nat option \<Rightarrow> string \<Rightarrow> string" where
  "host_line first host p mid = first @ ''Host: '' @ host
     @ (case p of None \<Rightarrow> [] | Some k \<Rightarrow> CHR '':'' # dec k) @ crlf @ mid"

definition write_heading :: "string \<Rightarrow> string \<Rightarrow> nat option \<Rightarrow> string \<Rightarrow> nat option \<Rightarrow> string" where
  "write_heading first host p mid n = host_line first host p mid
     @ (case n of None \<Rightarrow> [] | Some k \<Rightarrow> ''Content-Length: '' @ dec k @ crlf) @ crlf"

lemma host_scan_line:
  assumes "\<not> sublist ''Host: '' first" and "list_all host_char host"
  shows "host_scan (host_line first host p mid @ t) =
    Some (host, map_option (\<lambda>k. CHR '':'' # dec k) p)"
proof -
  define q where "q = (case p of None \<Rightarrow> [] | Some k \<Rightarrow> CHR '':'' # dec k) @ crlf @ mid @ t"
  have "host_line first host p mid @ t = first @ ''Host: '' @ host @ q"
    by (simp add: host_line_def q_def)
  moreover have "takeWhile host_char (host @ q) = host" "dropWhile host_char (host @ q) = q"
    using assms(2) by (auto simp: list_all_iff q_def crlf_def split: option.split)
  moreover have "last_port q None = map_option (\<lambda>k. CHR '':'' # dec k) p"
  proof (cases p)
    case None
    then show ?thesis by (simp add: q_def crlf_def)
  next
    case (Some k)
    with last_port_written [OF dec_digits dec_nonempty, of k "mid @ t" None] show ?thesis
      by (simp add: q_def)
  qed
  ultimately show ?thesis by (simp only: host_scan_written [OF assms(1)])
qed

lemma length_scan_heading:
  assumes "\<not> sublist ''Content-Length: '' (host_line first host p mid @ crlf)"
  shows "length_scan (write_heading first host p mid n) = map_option dec n"
proof (cases n)
  case None
  with assms show ?thesis
    by (simp add: write_heading_def length_scan_def flip: find_sub_eq_None_iff)
next
  case (Some k)
  have "\<not> sublist ''Content-Length: '' (host_line first host p mid)"
    using assms sublist_order.order_trans [OF _ sublist_appendI [of _ "[]" crlf]] by (auto simp only: append_Nil)
  moreover have "takeWhile is_digit (dec k @ crlf @ crlf) = dec k"
    using dec_digits [of k] by (auto simp: crlf_def list_all_iff)
  ultimately show ?thesis
    using length_scan_written [of "host_line first host p mid" "dec k @ crlf @ crlf"]
    by (simp add: write_heading_def Some)
qed

text \<open>
  C12: a request heading that is written is read back. \<open>parsingHeading\<close> returns the type the
  first three characters stand for, the host, the port written after it or 80 when there is
  none, and the announced length, or that there is none. The numbers are below 2^31, and
  neither \<open>Host: \<close> nor \<open>Content-Length: \<close> occurs before the place it is written at.
\<close>

theorem parsingHeading_roundtrip:
  assumes "\<not> sublist ''Host: '' first" and "length first \<ge> 3" and "list_all host_char host"
    and "\<not> sublist ''Content-Length: '' (host_line first host p mid @ crlf)"
    and "pred_option (\<lambda>k. k < 2 ^ 31) p" and "pred_option (\<lambda>k. k < 2 ^ 31) n"
  shows "\<exists>res. parsingHeading (write_heading first host p mid n) = Inr res
    \<and> hostName res = host \<and> sint (port res) = (case p of None \<Rightarrow> 80 | Some k \<Rightarrow> int k)
    \<and> rtype res = (if take 3 first = ''GET'' then GET_REQUEST else NOT_GET_REQUEST)
    \<and> haveContentLength res = (n \<noteq> None)
    \<and> sint (contentLength res) = (case n of None \<Rightarrow> 0 | Some k \<Rightarrow> int k)"
proof -
  define h where "h = write_heading first host p mid n"
  define ty where "ty = (if take 3 first = ''GET'' then GET_REQUEST else NOT_GET_REQUEST)"
  have hs: "host_scan h = Some (host, map_option (\<lambda>k. CHR '':'' # dec k) p)"
    unfolding h_def write_heading_def by (rule host_scan_line [OF assms(1,3)])
  have ls: "length_scan h = map_option dec n"
    unfolding h_def by (rule length_scan_heading [OF assms(4)])
  have "take 3 h = take 3 first" "length h > 3"
    using assms(2) by (simp_all add: h_def write_heading_def host_line_def)
  then have "parsingHeading h = findHostAndPort (findContentLength (new_ResultParseHeading\<lparr>rtype := ty\<rparr>) h) h"
    by (simp add: parsingHeading_def ty_def Let_def)
  moreover have "sint (scast (of_nat k :: int32) :: int64) = int k" if "k < 2 ^ 31" for k
  proof -
    have "sint (scast (of_nat k :: int32) :: int64) = signed_take_bit 31 (int k)" by transfer simp
    with that show ?thesis unfolding signed_take_bit_int_eq_self_iff by (simp add: signed_take_bit_int_eq_self)
  qed
  moreover have "sint (of_nat k :: int32) = int k" if "k < 2 ^ 31" for k
    using sint32_of_nat_small [OF that] .
  moreover have "length (dec k) > 0" for k using dec_nonempty [of k] by simp
  ultimately show ?thesis
    unfolding h_def [symmetric] ty_def [symmetric] using assms(5,6)
    by (cases p; cases n) (simp_all add: findHostAndPort_eq findContentLength_eq hs ls atoi_dec new_ResultParseHeading_def)
qed

theorem parsingHeading_roundtrip_witness:
  "\<exists>res. parsingHeading (write_heading ''POST / HTTP/1.1 '' ''ab.c-d'' (Some 8080) ''Accept: * '' (Some 123)) = Inr res
     \<and> hostName res = ''ab.c-d'' \<and> sint (port res) = 8080 \<and> rtype res = NOT_GET_REQUEST
     \<and> haveContentLength res \<and> sint (contentLength res) = 123"
proof -
  have "char_of (48 :: nat) = CHR ''0''" "char_of (56 :: nat) = CHR ''8''" by code_simp+
  then have "dec 8080 = ''8080''" by (simp add: dec.simps)
  then have l: "\<not> sublist ''Content-Length: '' (host_line ''POST / HTTP/1.1 '' ''ab.c-d'' (Some 8080) ''Accept: * '' @ crlf)"
    by (simp add: host_line_def crlf_def flip: find_sub_eq_None_iff)
  have "\<not> sublist ''Host: '' ''POST / HTTP/1.1 ''"
    by (simp flip: find_sub_eq_None_iff)
  then have "\<exists>res. parsingHeading (write_heading ''POST / HTTP/1.1 '' ''ab.c-d'' (Some 8080) ''Accept: * '' (Some 123)) = Inr res
    \<and> hostName res = ''ab.c-d'' \<and> sint (port res) = (case Some 8080 of None \<Rightarrow> 80 | Some k \<Rightarrow> int k)
    \<and> rtype res = (if take 3 ''POST / HTTP/1.1 '' = ''GET'' then GET_REQUEST else NOT_GET_REQUEST)
    \<and> haveContentLength res = (Some (123::nat) \<noteq> None)
    \<and> sint (contentLength res) = (case Some 123 of None \<Rightarrow> 0 | Some k \<Rightarrow> int k)"
    by (rule parsingHeading_roundtrip [OF _ _ _ l]) (simp_all add: host_char_def word_char_def)
  then show ?thesis by auto
qed

text \<open>
  \<open>parsingHeading\<close> throws its \<open>ParseException\<close> exactly when the heading has at most
  three characters or no \<open>Host: \<close> anywhere; on every other heading it returns a result
  whose type is never \<open>INVALID\<close>.
\<close>

theorem parsingHeading_errors:
  "(parsingHeading h = Inl (ParseException ''incorrect heading''))
     = (length h \<le> 3 \<or> \<not> sublist ''Host: '' h)
   \<and> (\<forall>e. parsingHeading h = Inl e \<longrightarrow> e = ParseException ''incorrect heading'')
   \<and> (\<forall>r. parsingHeading h = Inr r \<longrightarrow> rtype r \<noteq> INVALID)"
proof -
  have "rtype (findContentLength r s) = rtype r" for r s
    by (auto simp: findContentLength_def split: option.split)
  moreover have "host_scan h = None \<longleftrightarrow> \<not> sublist ''Host: '' h"
    by (simp add: host_scan_def find_sub_eq_None_iff)
  ultimately show ?thesis
    by (auto simp: parsingHeading_def Let_def findHostAndPort_eq split: option.splits)
qed

theorem parsingHeading_errors_witness:
  "parsingHeading ''GET'' = Inl (ParseException ''incorrect heading'')"
proof -
  have "length ''GET'' \<le> 3" by simp
  with parsingHeading_errors [of "''GET''", THEN conjunct1] show ?thesis by blast
qed

text \<open>
  The length a \<open>Content-Length\<close> line announces is read correctly exactly when it is
  below 2 GiB, because it passes through \<open>atoi\<close>, an \<open>int\<close>; from there on it is the
  announced length modulo 2^32, read as a signed number.
\<close>

theorem content_length_read:
  assumes "\<not> sublist ''Content-Length: '' pre" and "n < 2 ^ 63"
  shows "haveContentLength (findContentLength r (pre @ ''Content-Length: '' @ dec n @ crlf @ t))
    \<and> sint (contentLength (findContentLength r (pre @ ''Content-Length: '' @ dec n @ crlf @ t)))
        = signed_take_bit 31 (int n)
    \<and> (sint (contentLength (findContentLength r (pre @ ''Content-Length: '' @ dec n @ crlf @ t)))
        = int n) = (n < 2 ^ 31)"
proof -
  define h where "h = pre @ ''Content-Length: '' @ dec n @ crlf @ t"
  have "takeWhile is_digit (dec n @ crlf @ t) = dec n"
    using dec_digits [of n] by (auto simp: crlf_def list_all_iff)
  then have scan: "length_scan h = Some (dec n)"
    unfolding h_def using length_scan_written [OF assms(1)] by simp
  have "sint (scast (of_nat n :: int32) :: int64) = signed_take_bit 31 (int n)"
    by transfer simp
  moreover have "signed_take_bit 31 (int n) = int n \<longleftrightarrow> n < 2 ^ 31"
    unfolding signed_take_bit_int_eq_self_iff by auto
  ultimately show ?thesis
    unfolding h_def [symmetric] using assms(2) by (simp add: findContentLength_eq scan atoi_dec)
qed

theorem content_length_read_witness:
  "sint (contentLength (findContentLength new_ResultParseHeading
     (''Content-Length: '' @ dec 4294967196 @ crlf))) = -100"
  using content_length_read [of "[]" 4294967196 new_ResultParseHeading "[]"] by simp

text \<open>
  A response counts as an error response exactly when \<open>200 OK\<close> occurs nowhere in its
  heading; the test for the full status line \<open>HTTP/1.1 200 OK\<close> decides nothing more. Its
  length fields are those of the \<open>Content-Length\<close> line in every case.
\<close>

theorem parsingResponseHeading_error:
  assumes "length h < 2 ^ 31"
  shows "responseWithError (parsingResponseHeading h) = (\<not> sublist ''200 OK'' h)
    \<and> rtype (parsingResponseHeading h) = (if sublist ''200 OK'' h then NORMAL_RESPONSE else INVALID)
    \<and> haveContentLength (parsingResponseHeading h) = sublist ''Content-Length: '' h"
proof -
  have f: "responseWithError (findContentLength r s) = responseWithError r"
    "rtype (findContentLength r s) = rtype r" for r s
    by (auto simp: findContentLength_def split: option.split)
  have l: "haveContentLength (findContentLength r h) = sublist ''Content-Length: '' h" for r
  proof -
    have "length_scan h = None \<longleftrightarrow> \<not> sublist ''Content-Length: '' h"
      by (simp add: length_scan_def find_sub_eq_None_iff)
    then show ?thesis
      by (auto simp: findContentLength_eq split: option.split)
  qed
  have sub: "sublist ''200 OK'' h" if "sublist ''HTTP/1.1 200 OK'' h"
  proof -
    have "''HTTP/1.1 200 OK'' = ''HTTP/1.1 '' @ ''200 OK'' @ []" by simp
    then have "sublist ''200 OK'' ''HTTP/1.1 200 OK''" by (metis sublist_appendI)
    from this that show ?thesis by (rule sublist_order.order_trans)
  qed
  show ?thesis
    using sub by (simp add: parsingResponseHeading_def Let_def str_find_int(1) [OF assms] f l
        find_sub_eq_None_iff)
qed

theorem parsingResponseHeading_error_witness:
  "responseWithError (parsingResponseHeading ''HTTP/1.1 404 Not Found'')"
proof -
  have "\<not> sublist ''200 OK'' ''HTTP/1.1 404 Not Found''"
    by (simp flip: find_sub_eq_None_iff)
  with parsingResponseHeading_error [of "''HTTP/1.1 404 Not Found''"] show ?thesis by simp
qed

end
