(* ===== verification/CashElement.thy ===== *)
theory CashElement
  imports Prelude
begin

text \<open>
  \<open>lab32v2/cash/CashElementImpl\<close>: one cached response, shared by the thread that downloads it
  and the threads that read it. The mutex and the read-write lock are left out of the state:
  every operation runs with the lock of the data it touches, so it is one step, and what the
  locks contribute is the return code of the call that takes them, a parameter of each
  operation that tests it. A condition variable is a number; the operations that signal give
  the list of the variables signalled. Unlock codes are only logged. The destructor is left out.
\<close>

definition SUCCESS :: int32 where
  "SUCCESS = 0"

record CashElement =
  e_countConnectedUsers :: int32
  e_isDownloadEnd :: bool
  e_isServerConnected :: bool
  e_hashRequestHeading :: int64
  e_requestHeading :: string
  e_cash :: string
  e_listSubscribers :: "nat list"

definition isDownloadEnd :: "CashElement \<Rightarrow> bool" where
  "isDownloadEnd e = e_isDownloadEnd e"

definition setDownloadEnd :: "bool \<Rightarrow> CashElement \<Rightarrow> CashElement" where
  "setDownloadEnd var e = e\<lparr>e_isDownloadEnd := var\<rparr>"

definition getCash :: "CashElement \<Rightarrow> string" where
  "getCash e = e_cash e"

text \<open>
  \<open>std::string::max_size()\<close> of libstdc++; a \<open>resize\<close> beyond it throws
  \<open>std::length_error\<close>. The constructor resizes to reserve the memory and clears again.
  \<open>std::hash\<close> is a parameter.
\<close>

definition string_max_size :: int64 where
  "string_max_size = 4611686018427387903"

definition new_CashElementImpl :: "(string \<Rightarrow> int64) \<Rightarrow> string \<Rightarrow> int64 \<Rightarrow> exn + CashElement" where
  "new_CashElementImpl hasher heading dataSize =
     (if dataSize - size_of heading > string_max_size
      then Inl (LengthError ''basic_string::_M_replace_aux'')
      else Inr \<lparr>e_countConnectedUsers = 0, e_isDownloadEnd = False, e_isServerConnected = False,
        e_hashRequestHeading = hasher heading, e_requestHeading = heading, e_cash = [],
        e_listSubscribers = []\<rparr>)"

definition getHash :: "CashElement \<Rightarrow> int64" where
  "getHash e = e_hashRequestHeading e"

definition getCountUsers :: "CashElement \<Rightarrow> int32" where
  "getCountUsers e = e_countConnectedUsers e"

definition addCountUsers :: "int32 \<Rightarrow> CashElement \<Rightarrow> CashElement" where
  "addCountUsers lockCode e =
     (if lockCode \<noteq> SUCCESS then e
      else e\<lparr>e_countConnectedUsers := e_countConnectedUsers e + 1\<rparr>)"

definition minusCountUsers :: "int32 \<Rightarrow> CashElement \<Rightarrow> CashElement" where
  "minusCountUsers lockCode e =
     (if lockCode \<noteq> SUCCESS then e
      else e\<lparr>e_countConnectedUsers := e_countConnectedUsers e - 1\<rparr>)"

definition isIsServerConnected :: "CashElement \<Rightarrow> bool" where
  "isIsServerConnected e = e_isServerConnected e"

definition signalUsers :: "int32 \<Rightarrow> CashElement \<Rightarrow> nat list" where
  "signalUsers lockCode e = (if lockCode \<noteq> SUCCESS then [] else e_listSubscribers e)"

definition setIsServerConnect :: "int32 \<Rightarrow> bool \<Rightarrow> CashElement \<Rightarrow> CashElement \<times> nat list" where
  "setIsServerConnect lockCode isServerConnected e =
     (let e = e\<lparr>e_isServerConnected := isServerConnected\<rparr>
      in (e, if \<not> isServerConnected then signalUsers lockCode e else []))"

definition getHeading :: "CashElement \<Rightarrow> string" where
  "getHeading e = e_requestHeading e"

definition getLength :: "CashElement \<Rightarrow> int64" where
  "getLength e = size_of (e_cash e)"

text \<open>
  \<open>memcpy(target, cash + offset, sizeCopy)\<close>: \<open>None\<close> when it would read or write outside
  the two strings.
\<close>

definition memCopyFromCash :: "CashElement \<Rightarrow> string \<Rightarrow> int64 \<Rightarrow> int64 \<Rightarrow> string option" where
  "memCopyFromCash e target offset sizeCopy =
     (let n = unat sizeCopy; i = unat offset
      in if i + n \<le> length (e_cash e) \<and> n \<le> length target
         then Some (take n (drop i (e_cash e)) @ drop n target) else None)"

definition appendStringToCash ::
    "int32 \<Rightarrow> int32 \<Rightarrow> string \<Rightarrow> CashElement \<Rightarrow> CashElement \<times> nat list" where
  "appendStringToCash wrlockCode lockCode binaryString e =
     (if wrlockCode \<noteq> SUCCESS then (e, [])
      else let e = e\<lparr>e_cash := e_cash e @ binaryString\<rparr> in (e, signalUsers lockCode e))"

definition addCondVar :: "int32 \<Rightarrow> nat \<Rightarrow> CashElement \<Rightarrow> CashElement" where
  "addCondVar lockCode condVar e =
     (if lockCode \<noteq> SUCCESS then e
      else e\<lparr>e_listSubscribers := condVar # e_listSubscribers e\<rparr>)"

fun erase_first :: "nat \<Rightarrow> nat list \<Rightarrow> nat list" where
  "erase_first condVar [] = []"
| "erase_first condVar (it # its) = (if it = condVar then its else it # erase_first condVar its)"

definition dellCondVar :: "int32 \<Rightarrow> nat \<Rightarrow> CashElement \<Rightarrow> CashElement" where
  "dellCondVar lockCode condVar e =
     (if lockCode \<noteq> SUCCESS then e
      else e\<lparr>e_listSubscribers := erase_first condVar (e_listSubscribers e)\<rparr>)"

section \<open>Facts about the operations\<close>

lemma erase_first_remove1: "erase_first x xs = remove1 x xs"
  by (induction xs) auto

lemmas cash_element_defs =
  isDownloadEnd_def setDownloadEnd_def getCash_def getHash_def getCountUsers_def
  isIsServerConnected_def getHeading_def getLength_def

lemma new_CashElementImpl_Inr:
  "new_CashElementImpl h r n = Inr e \<Longrightarrow>
     getHash e = h r \<and> getHeading e = r \<and> e_cash e = [] \<and> getCountUsers e = 0
     \<and> e_listSubscribers e = [] \<and> \<not> isDownloadEnd e \<and> \<not> isIsServerConnected e"
  by (auto simp: new_CashElementImpl_def cash_element_defs split: if_splits)

lemma add_dell_CondVar [simp]:
  "dellCondVar SUCCESS c (addCondVar SUCCESS c e) = e"
  by (simp add: dellCondVar_def addCondVar_def)

lemma add_minus_CountUsers [simp]:
  "minusCountUsers SUCCESS (addCountUsers SUCCESS e) = e"
  by (simp add: minusCountUsers_def addCountUsers_def)

lemma memCopyFromCash_exact:
  assumes "i + n \<le> length (e_cash e)" and "length (e_cash e) < 2 ^ 63" and "length t = n"
  shows "memCopyFromCash e t (of_nat i) (of_nat n) = Some (take n (drop i (e_cash e)))"
proof -
  have "unat (of_nat i :: int64) = i" "unat (of_nat n :: int64) = n"
    using assms by (simp_all add: unat_of_nat_small)
  then show ?thesis using assms by (simp add: memCopyFromCash_def Let_def)
qed

text \<open>
  The operations keep the heading and its hash, and only \<open>appendStringToCash\<close> changes the
  bytes, at the end.
\<close>

lemma element_frame [simp]:
  "e_hashRequestHeading (setDownloadEnd b e) = e_hashRequestHeading e"
  "e_requestHeading (setDownloadEnd b e) = e_requestHeading e"
  "e_cash (setDownloadEnd b e) = e_cash e"
  "e_countConnectedUsers (setDownloadEnd b e) = e_countConnectedUsers e"
  "e_hashRequestHeading (addCountUsers c e) = e_hashRequestHeading e"
  "e_requestHeading (addCountUsers c e) = e_requestHeading e"
  "e_cash (addCountUsers c e) = e_cash e"
  "e_hashRequestHeading (minusCountUsers c e) = e_hashRequestHeading e"
  "e_requestHeading (minusCountUsers c e) = e_requestHeading e"
  "e_cash (minusCountUsers c e) = e_cash e"
  "e_hashRequestHeading (fst (setIsServerConnect c b e)) = e_hashRequestHeading e"
  "e_requestHeading (fst (setIsServerConnect c b e)) = e_requestHeading e"
  "e_cash (fst (setIsServerConnect c b e)) = e_cash e"
  "e_countConnectedUsers (fst (setIsServerConnect c b e)) = e_countConnectedUsers e"
  "e_hashRequestHeading (fst (appendStringToCash w c s e)) = e_hashRequestHeading e"
  "e_requestHeading (fst (appendStringToCash w c s e)) = e_requestHeading e"
  "e_countConnectedUsers (fst (appendStringToCash w c s e)) = e_countConnectedUsers e"
  "e_isDownloadEnd (fst (appendStringToCash w c s e)) = e_isDownloadEnd e"
  by (simp_all add: setDownloadEnd_def addCountUsers_def minusCountUsers_def
      setIsServerConnect_def appendStringToCash_def Let_def)

lemma append_cash:
  "prefix (e_cash e) (e_cash (fst (appendStringToCash w c s e)))"
  by (simp add: appendStringToCash_def Let_def)

end
