(* ===== verification/CashImpl.thy ===== *)
theory CashImpl
  imports CashElement "HOL-Library.Multiset"
begin

text \<open>
  \<open>lab32v2/cash/CashImpl\<close>: the cache, a list of pointers to elements in the order of their
  last use, and the number of bytes charged to it. Elements live in a store from addresses to
  elements; no element is ever freed while the program runs (an evicted one is only taken off
  the list), so the store is total and \<open>fresh\<close> is the next address \<open>new\<close> gives out.
  Every operation holds the cache's mutex from its first to its last access, so it is one step;
  the code of the lock call is a parameter. The constructor does not initialise
  \<open>byteInCash\<close>, so its first value is a parameter too.

  The eviction loop increments its iterator after an \<open>erase\<close>. When the erased element was the
  last one, that increments \<open>end()\<close>: undefined by the standard, and in libstdc++, whose lists
  are circular, \<open>begin()\<close> again. The model follows libstdc++ and records the event in the
  ghost field \<open>endPassed\<close>.
\<close>

definition SIZE_EACH_CASH_ELEMENT :: int64 where
  "SIZE_EACH_CASH_ELEMENT = 9223372036854775000"

definition MAX_CASH_SIZE :: int64 where
  "MAX_CASH_SIZE = 1024 * 1024 * 1024"

record CashImpl =
  listCash :: "nat list"
  byteInCash :: int64
  store :: "nat \<Rightarrow> CashElement"
  fresh :: nat
  endPassed :: bool

definition new_CashImpl :: "int64 \<Rightarrow> (nat \<Rightarrow> CashElement) \<Rightarrow> CashImpl" where
  "new_CashImpl garbage mem =
     \<lparr>listCash = [], byteInCash = garbage, store = mem, fresh = 0, endPassed = False\<rparr>"

fun find_hash :: "(nat \<Rightarrow> CashElement) \<Rightarrow> int64 \<Rightarrow> nat list \<Rightarrow> nat option" where
  "find_hash s hashHeading [] = None"
| "find_hash s hashHeading (it # its) =
     (if getHash (s it) = hashHeading then Some it else find_hash s hashHeading its)"

definition findResponseInCash ::
    "(string \<Rightarrow> int64) \<Rightarrow> int32 \<Rightarrow> string \<Rightarrow> CashImpl \<Rightarrow> nat option \<times> CashImpl" where
  "findResponseInCash hasher lockCode heading c =
     (if lockCode \<noteq> SUCCESS then (None, c)
      else case find_hash (store c) (hasher heading) (listCash c) of
        Some it \<Rightarrow> (Some it, c\<lparr>listCash := erase_first it (listCash c) @ [it]\<rparr>)
      | None \<Rightarrow> (None, c))"

definition isElementInCash :: "(string \<Rightarrow> int64) \<Rightarrow> int32 \<Rightarrow> string \<Rightarrow> CashImpl \<Rightarrow> bool" where
  "isElementInCash hasher lockCode request c =
     (if lockCode \<noteq> SUCCESS then False
      else case find_hash (store c) (hasher request) (listCash c) of
        Some it \<Rightarrow> True
      | None \<Rightarrow> False)"

text \<open>
  The eviction loop: \<open>pre\<close> is the list before the iterator, the next argument the list from
  the iterator on, \<open>b\<close> the byte counter and \<open>p\<close> the ghost flag.
\<close>

function evict :: "(nat \<Rightarrow> CashElement) \<Rightarrow> int64 \<Rightarrow> nat list \<Rightarrow> nat list \<Rightarrow> int64 \<Rightarrow> bool
    \<Rightarrow> nat list \<times> int64 \<times> bool" where
  "evict s dataSize pre [] b p = (pre, b, p)"
| "evict s dataSize pre (it # suf) b p =
     (if sint (getCountUsers (s it)) \<le> 0 then
        let b = b - getLength (s it);
            b = b - size_of (getHeading (s it))
        in if sint (b + dataSize) < sint MAX_CASH_SIZE then (pre @ suf, b, p)
           else (case suf of
               next # suf \<Rightarrow> evict s dataSize (pre @ [next]) suf b p
             | [] \<Rightarrow> evict s dataSize [] pre b True)
      else evict s dataSize (pre @ [it]) suf b p)"
  by pat_completeness auto
termination
  by (relation "measures [\<lambda>(s, d, pre, suf, b, p). length pre + length suf,
        \<lambda>(s, d, pre, suf, b, p). length suf]") auto

definition addStringToCash ::
    "(string \<Rightarrow> int64) \<Rightarrow> int32 \<Rightarrow> string \<Rightarrow> int64 \<Rightarrow> CashImpl \<Rightarrow> (nat option, CashImpl) outcome" where
  "addStringToCash hasher lockCode request dataSize c =
     (let dataSize = dataSize + size_of request
      in if lockCode \<noteq> SUCCESS then Done None c
      else if sint dataSize > sint SIZE_EACH_CASH_ELEMENT then Done None c
      else
        let full = sint (byteInCash c + dataSize) \<ge> sint MAX_CASH_SIZE;
            (l, b, p) = (if full then evict (store c) dataSize [] (listCash c) (byteInCash c) (endPassed c)
                         else (listCash c, byteInCash c, endPassed c));
            c = c\<lparr>listCash := l, byteInCash := b, endPassed := p\<rparr>
        in if full \<and> sint (byteInCash c + dataSize) \<ge> sint MAX_CASH_SIZE then Done None c
        else
          let c = c\<lparr>byteInCash := byteInCash c + dataSize\<rparr>
          in case new_CashElementImpl hasher request dataSize of
               Inl e \<Rightarrow> Throws e c
             | Inr cash \<Rightarrow>
                 Done (Some (fresh c))
                   (c\<lparr>store := (store c)(fresh c := cash), fresh := Suc (fresh c),
                      listCash := listCash c @ [fresh c]\<rparr>))"

end
