(* ===== verification/CacheInterface.thy ===== *)
theory CacheInterface
  imports Prelude
begin

text \<open>
  \<open>cash/Cash.h\<close>: what the buffer code asks of a response cache. The three operations are those
  of the abstract class \<open>Cash\<close>, for a cache no other thread changes in between; the laws are
  what the callers rely on when they test \<open>isElementInCash\<close> and then use the pointer they
  get, for callers that, as the code does, add a key only after they found it absent. The lemmas of the locale are proved once for every implementation.
\<close>

locale response_cache =
  fixes contains :: "string \<Rightarrow> 'c \<Rightarrow> bool"
    and lookup :: "string \<Rightarrow> 'c \<Rightarrow> 'e option \<times> 'c"
    and add :: "string \<Rightarrow> int64 \<Rightarrow> 'c \<Rightarrow> ('e option, 'c) outcome"
    and invar :: "'c \<Rightarrow> bool"
  assumes contains_lookup: "invar c \<Longrightarrow> contains k c \<longleftrightarrow> fst (lookup k c) \<noteq> None"
    and lookup_contains: "invar c \<Longrightarrow> contains k' (snd (lookup k c)) \<longleftrightarrow> contains k' c"
    and lookup_invar: "invar c \<Longrightarrow> invar (snd (lookup k c))"
    and lookup_stable: "invar c \<Longrightarrow> fst (lookup k (snd (lookup k c))) = fst (lookup k c)"
    and add_invar: "invar c \<Longrightarrow> \<not> contains k c \<Longrightarrow> add k n c = Done r c' \<Longrightarrow> invar c'"
    and add_lookup: "invar c \<Longrightarrow> \<not> contains k c \<Longrightarrow> add k n c = Done (Some e) c'
      \<Longrightarrow> fst (lookup k c') = Some e"
begin

lemma hit_gives_element:
  "invar c \<Longrightarrow> contains k c \<Longrightarrow> \<exists>e c'. lookup k c = (Some e, c') \<and> invar c' \<and> contains k c'"
  using contains_lookup lookup_contains lookup_invar
  by (metis option.exhaust prod.collapse)

lemma miss_gives_nothing:
  "invar c \<Longrightarrow> \<not> contains k c \<Longrightarrow> fst (lookup k c) = None"
  using contains_lookup by blast

lemma added_is_found:
  assumes "invar c" and "\<not> contains k c" and "add k n c = Done (Some e) c'"
  shows "contains k c' \<and> (\<exists>c''. lookup k c' = (Some e, c'') \<and> fst (lookup k c'') = Some e)"
proof -
  from assms have c': "invar c'" "fst (lookup k c') = Some e"
    by (auto intro: add_invar add_lookup)
  then have "contains k c'"
    using contains_lookup by simp
  with c' lookup_stable [OF c'(1), of k] show ?thesis
    by (metis prod.collapse)
qed

end

end
