(* ===== verification/Lru.thy ===== *)
theory Lru
  imports Prelude
begin

text \<open>
  What the caches of \<open>lab31/v2\<close> and \<open>lab32v2\<close> share, over lists of any kind of element: the
  look-up by hash, which moves the element found to the back, and the eviction loop. The loop is
  written over what it uses of the cache: which elements no one reads (\<open>idle\<close>), what each is charged (\<open>weight\<close>) and whether a
  counter leaves room for the element to add (\<open>room\<close>). \<open>pre\<close> is the list before the iterator and
  the next argument the list from the iterator on. After an \<open>erase\<close> the iterator is incremented
  once more, past \<open>end()\<close> when the last element was erased; libstdc++'s circular list then starts
  again at the front, and the flag records it. The facts about the loop are proved here once; each
  cache shows that its own loop is this one.
\<close>

section \<open>Look-up\<close>

fun find_key :: "('a \<Rightarrow> int64) \<Rightarrow> int64 \<Rightarrow> 'a list \<Rightarrow> 'a option" where
  "find_key k h [] = None"
| "find_key k h (x # xs) = (if k x = h then Some x else find_key k h xs)"

lemma find_key_Some: "find_key k h l = Some a \<Longrightarrow> a \<in> set l \<and> k a = h"
  by (induction l) (auto split: if_splits)

lemma find_key_None_iff: "find_key k h l = None \<longleftrightarrow> (\<forall>a \<in> set l. k a \<noteq> h)"
  by (induction l) auto

lemma find_key_append:
  "find_key k h (u @ v) = (case find_key k h u of None \<Rightarrow> find_key k h v | r \<Rightarrow> r)"
  by (induction u) auto

lemma find_key_unique:
  "distinct (map k l) \<Longrightarrow> a \<in> set l \<Longrightarrow> find_key k (k a) l = Some a"
  by (induction l) force+

lemma find_key_moved:
  assumes "distinct (map k l)" and "find_key k h l = Some a"
  shows "find_key k g (remove1 a l @ [a]) = find_key k g l"
proof -
  have d: "distinct (map k (remove1 a l @ [a]))"
    using assms find_key_Some [OF assms(2)] by (auto simp: distinct_map inj_on_def)
  have a: "a \<in> set l" using find_key_Some [OF assms(2)] by simp
  have same: "set (remove1 a l @ [a]) = set l"
    using a assms(1) by (auto simp: distinct_map dest: notin_set_remove1)
  show ?thesis
  proof (cases "find_key k g l")
    case None
    then have "\<forall>x \<in> set (remove1 a l @ [a]). k x \<noteq> g" unfolding same by (simp only: find_key_None_iff)
    then have "find_key k g (remove1 a l @ [a]) = None" by (simp only: find_key_None_iff)
    with None show ?thesis by simp
  next
    case (Some b)
    with find_key_Some [OF Some] same find_key_unique [OF d, of b] show ?thesis by auto
  qed
qed

section \<open>Eviction\<close>

function evict_by :: "('a \<Rightarrow> bool) \<Rightarrow> ('a \<Rightarrow> int64) \<Rightarrow> (int64 \<Rightarrow> bool) \<Rightarrow> 'a list \<Rightarrow> 'a list \<Rightarrow> int64
    \<Rightarrow> bool \<Rightarrow> 'a list \<times> int64 \<times> bool" where
  "evict_by idle weight room pre [] b p = (pre, b, p)"
| "evict_by idle weight room pre (it # suf) b p =
     (if idle it then
        let b = b - weight it
        in if room b then (pre @ suf, b, p)
           else (case suf of
               next # suf \<Rightarrow> evict_by idle weight room (pre @ [next]) suf b p
             | [] \<Rightarrow> evict_by idle weight room [] pre b True)
      else evict_by idle weight room (pre @ [it]) suf b p)"
  by pat_completeness auto
termination
  by (relation "measures [\<lambda>(i, w, r, pre, suf, b, p). length pre + length suf,
        \<lambda>(i, w, r, pre, suf, b, p). length suf]") auto

text \<open>The four ways a round of the loop ends, and the induction along them.\<close>

lemma evict_by_simps:
  "evict_by i w r pre [] b p = (pre, b, p)"
  "\<not> i it \<Longrightarrow> evict_by i w r pre (it # suf) b p = evict_by i w r (pre @ [it]) suf b p"
  "i it \<Longrightarrow> r (b - w it) \<Longrightarrow> evict_by i w r pre (it # suf) b p = (pre @ suf, b - w it, p)"
  "i it \<Longrightarrow> \<not> r (b - w it) \<Longrightarrow>
     evict_by i w r pre (it # x # suf) b p = evict_by i w r (pre @ [x]) suf (b - w it) p"
  "i it \<Longrightarrow> \<not> r (b - w it) \<Longrightarrow>
     evict_by i w r pre [it] b p = evict_by i w r [] pre (b - w it) True"
  by (simp_all add: Let_def)

declare evict_by.simps [simp del]

lemma evict_by_induct [case_names stop keep enough skip wrap]:
  assumes "\<And>pre b p. P pre [] b p"
    and "\<And>pre it suf b p. \<not> i it \<Longrightarrow> P (pre @ [it]) suf b p \<Longrightarrow> P pre (it # suf) b p"
    and "\<And>pre it suf b p. i it \<Longrightarrow> r (b - w it) \<Longrightarrow> P pre (it # suf) b p"
    and "\<And>pre it x suf b p. i it \<Longrightarrow> \<not> r (b - w it)
      \<Longrightarrow> P (pre @ [x]) suf (b - w it) p \<Longrightarrow> P pre (it # x # suf) b p"
    and "\<And>pre it b p. i it \<Longrightarrow> \<not> r (b - w it) \<Longrightarrow> P [] pre (b - w it) True \<Longrightarrow> P pre [it] b p"
  shows "P pre suf b p"
proof (induction "(pre, suf, b, p)" arbitrary: pre suf b p
    rule: wf_induct [OF wf_measures [of
      "[\<lambda>(pre, suf, b, p). length pre + length suf, \<lambda>(pre, suf, b, p). length suf]"]])
  case (1 pre suf b p)
  show ?case
  proof (cases suf)
    case (Cons it suf')
    with 1 assms show ?thesis
      by (cases "i it"; cases "r (b - w it)"; cases suf') auto
  qed (simp add: assms)
qed

lemma evict_by_subseq: "subseq (fst (evict_by i w r pre suf b p)) (pre @ suf)"
proof (induction pre suf b p rule: evict_by_induct [where i = i and w = w and r = r])
  case (skip pre it x suf b p)
  moreover have "subseq (pre @ x # suf) (pre @ it # x # suf)"
    by (rule list_emb_append_mono [OF subseq_order.order_refl])
       (rule list_emb_Cons, rule subseq_order.order_refl)
  ultimately show ?case
    by (auto simp: evict_by_simps intro: subseq_order.order_trans)
next
  case (wrap pre it b p)
  then show ?case
    by (auto simp: evict_by_simps intro: subseq_order.order_trans)
qed (auto simp: evict_by_simps subseq_append')

lemma evict_by_idle:
  "a \<in> set (pre @ suf) \<Longrightarrow> a \<notin> set (fst (evict_by i w r pre suf b p)) \<Longrightarrow> i a"
  by (induction pre suf b p rule: evict_by_induct [where i = i and w = w and r = r])
     (auto simp: evict_by_simps)

lemma evict_by_bytes:
  "fst (snd (evict_by i w r pre suf b p)) - (\<Sum>a\<leftarrow>fst (evict_by i w r pre suf b p). w a)
     = b - (\<Sum>a\<leftarrow>pre @ suf. w a)"
  by (induction pre suf b p rule: evict_by_induct [where i = i and w = w and r = r])
     (auto simp: evict_by_simps algebra_simps)

lemma subseq_wf: "subseq l m \<Longrightarrow> distinct m \<Longrightarrow> distinct l \<and> set l \<subseteq> set m"
  by (auto simp: subseq_conv_nths dest: in_set_nthsD)

lemma subseq_sub: "subseq l m \<Longrightarrow> set l \<subseteq> set m"
  by (auto simp: subseq_conv_nths dest: in_set_nthsD)

lemma distinct_map_subseq: "subseq l m \<Longrightarrow> distinct (map f m) \<Longrightarrow> distinct (map f l)"
  using subseq_wf [OF subseq_map] by blast

lemma evict_by_set:
  assumes "evict_by i w r [] l b p = (l', b', p')"
  shows "set l' \<subseteq> set l" and "distinct l \<Longrightarrow> distinct l'"
    and "\<And>a. a \<in> set l \<Longrightarrow> \<not> i a \<Longrightarrow> a \<in> set l'"
proof -
  from evict_by_subseq [of i w r "[]" l b p] assms have s: "subseq l' l" by simp
  then show "set l' \<subseteq> set l" by (rule subseq_sub)
  from s show "distinct l \<Longrightarrow> distinct l'" using subseq_wf by blast
  show "\<And>a. a \<in> set l \<Longrightarrow> \<not> i a \<Longrightarrow> a \<in> set l'"
    using evict_by_idle [of _ "[]" l i w r b p] assms by auto
qed

end
