(* ===== verification/CashImpl_Correct.thy ===== *)
theory CashImpl_Correct
  imports CashImpl CacheInterface Lru
begin

text \<open>
  The cache of \<open>lab32v2\<close> against its contract: it implements the interface of \<open>Cash.h\<close>, keeps
  its list well formed, evicts only elements no client reads, orders the list by last use, and
  accounts for bytes exactly; and the places where the code departs from what it means to do.
\<close>

section \<open>Lookup\<close>

definition wf_cash :: "CashImpl \<Rightarrow> bool" where
  "wf_cash c \<longleftrightarrow> distinct (listCash c) \<and> (\<forall>a \<in> set (listCash c). a < fresh c)"

lemma find_hash_Some:
  "find_hash s h l = Some a \<Longrightarrow> a \<in> set l \<and> getHash (s a) = h"
  by (induction l) (auto split: if_splits)

lemma find_hash_None_iff:
  "find_hash s h l = None \<longleftrightarrow> (\<forall>a \<in> set l. getHash (s a) \<noteq> h)"
  by (induction l) auto

lemma find_hash_moved:
  "find_hash s h l = Some a \<Longrightarrow> distinct l \<Longrightarrow>
     find_hash s h' (remove1 a l @ [a]) =
       (if h' = h then (case find_hash s h (remove1 a l) of None \<Rightarrow> Some a | Some b \<Rightarrow> Some b)
        else find_hash s h' l)"
proof (induction l)
  case (Cons x l)
  have app: "find_hash s g (u @ v) = (case find_hash s g u of None \<Rightarrow> find_hash s g v | r \<Rightarrow> r)"
    for g u v by (induction u) auto
  from Cons show ?case
    by (auto simp: app split: if_splits option.splits dest: find_hash_Some)
qed simp

lemma isElementInCash_iff:
  "isElementInCash h SUCCESS r c \<longleftrightarrow> (\<exists>a \<in> set (listCash c). getHash (store c a) = h r)"
  using find_hash_None_iff [of "store c" "h r" "listCash c"]
  by (auto simp: isElementInCash_def split: option.splits dest: find_hash_Some)

lemma findResponseInCash_set:
  "wf_cash c \<Longrightarrow> set (listCash (snd (findResponseInCash h l r c))) = set (listCash c)
    \<and> store (snd (findResponseInCash h l r c)) = store c
    \<and> fresh (snd (findResponseInCash h l r c)) = fresh c
    \<and> byteInCash (snd (findResponseInCash h l r c)) = byteInCash c"
  by (auto simp: findResponseInCash_def erase_first_remove1 wf_cash_def split: option.splits
      dest: find_hash_Some)

lemma findResponseInCash_wf: "wf_cash c \<Longrightarrow> wf_cash (snd (findResponseInCash h l r c))"
  by (auto simp: findResponseInCash_def erase_first_remove1 wf_cash_def split: option.splits
      dest: find_hash_Some)

section \<open>Eviction\<close>

definition weight :: "CashElement \<Rightarrow> int64" where
  "weight e = getLength e + size_of (getHeading e)"

definition total_weight :: "(nat \<Rightarrow> CashElement) \<Rightarrow> nat list \<Rightarrow> int64" where
  "total_weight s l = (\<Sum>a\<leftarrow>l. weight (s a))"

lemma total_weight_simps [simp]:
  "total_weight s [] = 0"
  "total_weight s (a # l) = weight (s a) + total_weight s l"
  "total_weight s (l @ m) = total_weight s l + total_weight s m"
  by (simp_all add: total_weight_def)

definition room :: "int64 \<Rightarrow> int64 \<Rightarrow> bool" where
  "room b d \<longleftrightarrow> sint (b + d) < sint MAX_CASH_SIZE"

lemma full_iff: "sint MAX_CASH_SIZE \<le> sint (b + d) \<longleftrightarrow> \<not> room b d"
  by (auto simp: room_def)

definition idle :: "CashElement \<Rightarrow> bool" where
  "idle e \<longleftrightarrow> sint (getCountUsers e) \<le> 0"

text \<open>The four ways a round of the loop ends.\<close>

lemma evict_simps:
  "evict s d pre [] b p = (pre, b, p)"
  "\<not> idle (s it) \<Longrightarrow> evict s d pre (it # suf) b p = evict s d (pre @ [it]) suf b p"
  "idle (s it) \<Longrightarrow> room (b - weight (s it)) d \<Longrightarrow>
     evict s d pre (it # suf) b p = (pre @ suf, b - weight (s it), p)"
  "idle (s it) \<Longrightarrow> \<not> room (b - weight (s it)) d \<Longrightarrow>
     evict s d pre (it # x # suf) b p = evict s d (pre @ [x]) suf (b - weight (s it)) p"
  "idle (s it) \<Longrightarrow> \<not> room (b - weight (s it)) d \<Longrightarrow>
     evict s d pre [it] b p = evict s d [] pre (b - weight (s it)) True"
  by (simp_all add: idle_def room_def weight_def Let_def diff_diff_eq)

declare evict.simps [simp del]

text \<open>The loop is the one of \<open>Lru\<close>, whose facts it takes over.\<close>

lemma evict_by_evict:
  "evict s d pre suf b p
     = evict_by (\<lambda>a. idle (s a)) (\<lambda>a. weight (s a)) (\<lambda>b. room b d) pre suf b p"
  by (induction pre suf b p rule: evict_by_induct
      [where i = "\<lambda>a. idle (s a)" and w = "\<lambda>a. weight (s a)" and r = "\<lambda>b. room b d"])
     (simp_all add: evict_simps evict_by_simps)

lemma evict_subseq: "subseq (fst (evict s d pre suf b p)) (pre @ suf)"
  by (simp only: evict_by_evict evict_by_subseq)

lemma evict_idle:
  "a \<in> set (pre @ suf) \<Longrightarrow> a \<notin> set (fst (evict s d pre suf b p)) \<Longrightarrow> idle (s a)"
  unfolding evict_by_evict by (rule evict_by_idle)

lemma evict_bytes:
  "fst (snd (evict s d pre suf b p)) - total_weight s (fst (evict s d pre suf b p))
     = b - total_weight s (pre @ suf)"
  unfolding evict_by_evict total_weight_def by (rule evict_by_bytes)

section \<open>Adding\<close>

text \<open>
  \<open>add_finish\<close> is what \<open>addStringToCash\<close> does once the list and the counter are as the
  eviction left them; the lemma after it describes that list and counter.
\<close>

definition add_finish ::
    "(string \<Rightarrow> int64) \<Rightarrow> string \<Rightarrow> int64 \<Rightarrow> CashImpl \<Rightarrow> (nat option, CashImpl) outcome" where
  "add_finish h r d c =
     (if \<not> room (byteInCash c) d then Done None c
      else case new_CashElementImpl h r d of
         Inl e \<Rightarrow> Throws e (c\<lparr>byteInCash := byteInCash c + d\<rparr>)
       | Inr e \<Rightarrow> Done (Some (fresh c))
           (c\<lparr>byteInCash := byteInCash c + d, store := (store c)(fresh c := e),
              fresh := Suc (fresh c), listCash := listCash c @ [fresh c]\<rparr>))"

definition evicted :: "CashImpl \<Rightarrow> CashImpl \<Rightarrow> bool" where
  "evicted c c1 \<longleftrightarrow> store c1 = store c \<and> fresh c1 = fresh c \<and> subseq (listCash c1) (listCash c)
     \<and> (\<forall>a \<in> set (listCash c) - set (listCash c1). idle (store c a))
     \<and> byteInCash c1 - total_weight (store c) (listCash c1)
         = byteInCash c - total_weight (store c) (listCash c)"

lemma evicted_refl [simp]: "evicted c c"
  by (simp add: evicted_def)

lemma addStringToCash_cases:
  obtains (too_big) "addStringToCash h SUCCESS r n c = Done None c"
    and "sint (n + size_of r) > sint SIZE_EACH_CASH_ELEMENT"
  | (finish) c1 where "evicted c c1" and "addStringToCash h SUCCESS r n c = add_finish h r (n + size_of r) c1"
proof (cases "sint (n + size_of r) > sint SIZE_EACH_CASH_ELEMENT")
  case True
  then show ?thesis by (intro too_big) (simp_all add: addStringToCash_def Let_def)
next
  case small: False
  show ?thesis
  proof (cases "room (byteInCash c) (n + size_of r)")
    case True
    with small show ?thesis
      by (intro finish [of c])
         (auto simp: addStringToCash_def Let_def room_def add_finish_def split: sum.split)
  next
    case False
    obtain l b p where ev:
      "evict (store c) (n + size_of r) [] (listCash c) (byteInCash c) (endPassed c) = (l, b, p)"
      by (metis prod_cases3)
    let ?c1 = "c\<lparr>listCash := l, byteInCash := b, endPassed := p\<rparr>"
    have "evicted c ?c1"
      using ev evict_subseq [of "store c" "n + size_of r" "[]" "listCash c" "byteInCash c" "endPassed c"]
        evict_bytes [of "store c" "n + size_of r" "[]" "listCash c" "byteInCash c" "endPassed c"]
        evict_idle [of _ "[]" "listCash c" "store c" "n + size_of r" "byteInCash c" "endPassed c"]
      by (auto simp: evicted_def)
    moreover have "addStringToCash h SUCCESS r n c = add_finish h r (n + size_of r) ?c1"
      using small False ev
      by (auto simp: addStringToCash_def Let_def room_def add_finish_def split: sum.split)
    ultimately show ?thesis by (rule finish)
  qed
qed

lemma add_finish_Done:
  "add_finish h r d c = Done x c' \<longleftrightarrow>
     (\<not> room (byteInCash c) d \<and> x = None \<and> c' = c) \<or>
     (room (byteInCash c) d \<and> x = Some (fresh c)
      \<and> (\<exists>e. new_CashElementImpl h r d = Inr e
        \<and> c' = c\<lparr>byteInCash := byteInCash c + d, store := (store c)(fresh c := e),
              fresh := Suc (fresh c), listCash := listCash c @ [fresh c]\<rparr>))"
  by (auto simp: add_finish_def split: sum.splits)

lemma evicted_wf: "evicted c c1 \<Longrightarrow> wf_cash c \<Longrightarrow> wf_cash c1"
  using subseq_wf [of "listCash c1" "listCash c"] by (auto simp: evicted_def wf_cash_def)

lemma addStringToCash_wf:
  assumes "wf_cash c" and "addStringToCash h SUCCESS r n c = Done a c'"
  shows "wf_cash c'"
proof (cases rule: addStringToCash_cases [of h r n c])
  case (finish c1)
  with assms have "wf_cash c1" by (simp add: evicted_wf)
  moreover from finish assms have "add_finish h r (n + size_of r) c1 = Done a c'" by simp
  ultimately show ?thesis
    by (fastforce simp: add_finish_Done wf_cash_def)
qed (use assms in simp)

text \<open>A new element can be found, and is the first found for its heading if that was absent.\<close>

lemma addStringToCash_lookup:
  assumes "wf_cash c" and "\<not> isElementInCash h SUCCESS r c"
    and "addStringToCash h SUCCESS r n c = Done (Some a) c'"
  shows "fst (findResponseInCash h SUCCESS r c') = Some a"
proof (cases rule: addStringToCash_cases [of h r n c])
  case (finish c1)
  with assms(1) have wf: "wf_cash c1" by (simp add: evicted_wf)
  from finish assms(1) have sub: "set (listCash c1) \<subseteq> set (listCash c)" "store c1 = store c"
    using subseq_wf by (auto simp: evicted_def wf_cash_def)
  with assms(2) have "\<forall>x \<in> set (listCash c1). getHash (store c1 x) \<noteq> h r"
    by (auto simp: isElementInCash_iff)
  moreover have "\<forall>x \<in> set (listCash c1). x \<noteq> fresh c1"
    using wf by (auto simp: wf_cash_def)
  ultimately have old: "find_hash ((store c1)(fresh c1 := e)) (h r) (listCash c1) = None" for e
    by (auto simp: find_hash_None_iff)
  have app: "find_hash s g (u @ v) = (case find_hash s g u of None \<Rightarrow> find_hash s g v | y \<Rightarrow> y)"
    for s g u v by (induction u) auto
  from finish assms(3) have "add_finish h r (n + size_of r) c1 = Done (Some a) c'" by simp
  with old show ?thesis
    by (auto simp: add_finish_Done findResponseInCash_def app dest: new_CashElementImpl_Inr)
qed (use assms in simp)

section \<open>The interface of Cash.h\<close>

text \<open>
  The invariant of a cache whose callers add only absent keys: besides well-formedness, no two
  listed elements have the same hash.
\<close>

definition cash_invar :: "CashImpl \<Rightarrow> bool" where
  "cash_invar c \<longleftrightarrow> wf_cash c \<and> distinct (map (\<lambda>a. getHash (store c a)) (listCash c))"

lemma find_hash_append:
  "find_hash s g (u @ v) = (case find_hash s g u of None \<Rightarrow> find_hash s g v | y \<Rightarrow> y)"
  by (induction u) auto

lemma findResponseInCash_again:
  assumes "cash_invar c"
  shows "fst (findResponseInCash h l r (snd (findResponseInCash h l r c)))
    = fst (findResponseInCash h l r c)"
proof (cases "find_hash (store c) (h r) (listCash c)")
  case (Some a)
  from find_hash_Some [OF Some] have a: "a \<in> set (listCash c)" "getHash (store c a) = h r" by auto
  have "getHash (store c x) \<noteq> h r" if "x \<in> set (remove1 a (listCash c))" for x
  proof -
    from assms that have "x \<in> set (listCash c)" "x \<noteq> a"
      by (auto simp: cash_invar_def wf_cash_def)
    with assms a show ?thesis by (auto simp: cash_invar_def distinct_map inj_on_def)
  qed
  then have "find_hash (store c) (h r) (remove1 a (listCash c)) = None"
    by (simp add: find_hash_None_iff)
  with a Some show ?thesis
    by (simp add: findResponseInCash_def erase_first_remove1 find_hash_append)
qed (simp add: findResponseInCash_def)

lemma findResponseInCash_invar:
  "cash_invar c \<Longrightarrow> cash_invar (snd (findResponseInCash h l r c))"
  using findResponseInCash_wf [of c h l r]
  by (auto simp: cash_invar_def findResponseInCash_def erase_first_remove1 distinct_map inj_on_def
      wf_cash_def split: option.splits dest: find_hash_Some)

lemma evicted_invar: "evicted c c1 \<Longrightarrow> cash_invar c \<Longrightarrow> cash_invar c1"
  using evicted_wf [of c c1] by (auto simp: cash_invar_def evicted_def intro: distinct_map_subseq)

lemma addStringToCash_invar:
  assumes "cash_invar c" and "\<not> isElementInCash h SUCCESS r c"
    and "addStringToCash h SUCCESS r n c = Done x c'"
  shows "cash_invar c'"
proof (cases rule: addStringToCash_cases [of h r n c])
  case (finish c1)
  with assms have inv: "cash_invar c1" by (simp add: evicted_invar)
  from finish assms(1) have sub: "set (listCash c1) \<subseteq> set (listCash c)" "store c1 = store c"
    using subseq_wf by (auto simp: evicted_def cash_invar_def wf_cash_def)
  have fin: "add_finish h r (n + size_of r) c1 = Done x c'" using finish assms(3) by simp
  from assms(2) sub have abs: "\<forall>a \<in> set (listCash c1). getHash (store c1 a) \<noteq> h r"
    by (auto simp: isElementInCash_iff)
  from inv have fr: "\<forall>a \<in> set (listCash c1). a < fresh c1" by (simp add: cash_invar_def wf_cash_def)
  have hashes: "map (\<lambda>a. getHash (if a = fresh c1 then e else store c1 a)) (listCash c1)
      = map (\<lambda>a. getHash (store c1 a)) (listCash c1)" for e
    using fr by (intro map_cong) auto
  have wf: "wf_cash c'"
    using assms by (auto simp: cash_invar_def intro: addStringToCash_wf)
  from fin show ?thesis
    unfolding add_finish_Done
  proof (elim disjE conjE exE)
    fix e assume "new_CashElementImpl h r (n + size_of r) = Inr e"
      and c': "c' = c1\<lparr>byteInCash := byteInCash c1 + (n + size_of r),
        store := (store c1)(fresh c1 := e), fresh := Suc (fresh c1),
        listCash := listCash c1 @ [fresh c1]\<rparr>"
    then have "getHash e = h r" by (simp add: new_CashElementImpl_Inr)
    with abs have "h r \<notin> (\<lambda>a. getHash (store c1 a)) ` set (listCash c1)" by auto
    with wf inv \<open>getHash e = h r\<close> show ?thesis
      by (simp add: cash_invar_def c' fun_upd_def hashes)
  qed (use inv in simp)
qed (use assms in simp)

interpretation lru: response_cache
  "isElementInCash hasher SUCCESS" "findResponseInCash hasher SUCCESS"
  "addStringToCash hasher SUCCESS" cash_invar
  for hasher
proof
  fix c k k' n r e c'
  assume inv: "cash_invar c"
  show "isElementInCash hasher SUCCESS k c = (fst (findResponseInCash hasher SUCCESS k c) \<noteq> None)"
    by (auto simp: isElementInCash_def findResponseInCash_def split: option.splits)
  show "isElementInCash hasher SUCCESS k' (snd (findResponseInCash hasher SUCCESS k c))
      = isElementInCash hasher SUCCESS k' c"
    using inv findResponseInCash_set [of c hasher SUCCESS k]
    by (simp add: isElementInCash_iff cash_invar_def)
  show "cash_invar (snd (findResponseInCash hasher SUCCESS k c))"
    using inv by (rule findResponseInCash_invar)
  show "fst (findResponseInCash hasher SUCCESS k (snd (findResponseInCash hasher SUCCESS k c)))
      = fst (findResponseInCash hasher SUCCESS k c)"
    using inv by (rule findResponseInCash_again)
  assume abs: "\<not> isElementInCash hasher SUCCESS k c"
  show "cash_invar c'" if "addStringToCash hasher SUCCESS k n c = Done r c'"
    using inv abs that by (rule addStringToCash_invar)
  show "fst (findResponseInCash hasher SUCCESS k c') = Some e"
    if "addStringToCash hasher SUCCESS k n c = Done (Some e) c'"
    using inv abs that by (auto simp: cash_invar_def intro: addStringToCash_lookup)
qed

section \<open>Fixtures\<close>

text \<open>
  Small caches at which the properties below are applied; the hash of a request is its length.
\<close>

definition fix_hash :: "string \<Rightarrow> int64" where
  "fix_hash r = size_of r"

definition fix_element :: "int32 \<Rightarrow> string \<Rightarrow> CashElement" where
  "fix_element users r = \<lparr>e_countConnectedUsers = users, e_isDownloadEnd = False,
     e_isServerConnected = False, e_hashRequestHeading = fix_hash r, e_requestHeading = r,
     e_cash = [], e_listSubscribers = []\<rparr>"

definition fix_cash :: "int64 \<Rightarrow> CashElement list \<Rightarrow> CashImpl" where
  "fix_cash bytes es = \<lparr>listCash = [0..<length es], byteInCash = bytes,
     store = (\<lambda>a. if a < length es then es ! a else fix_element 0 []), fresh = length es,
     endPassed = False\<rparr>"

lemmas fixture = fix_hash_def fix_element_def fix_cash_def

lemmas cash_eval = addStringToCash_def Let_def full_iff room_def MAX_CASH_SIZE_def
  SIZE_EACH_CASH_ELEMENT_def new_CashElementImpl_def string_max_size_def evict_simps idle_def
  weight_def getLength_def getHeading_def getHash_def getCountUsers_def size_of_def fixture
  findResponseInCash_def isElementInCash_def wf_cash_def cash_invar_def upt_rec

section \<open>Properties\<close>

text \<open>
  A request the cache reports as present is found: the lookup returns an element, the same
  one each time it is repeated, and leaves the cache in its invariant with the request present.
  The code relies on it when it dereferences the result of \<open>findResponseInCash\<close> without a test.
\<close>

theorem cache_hit:
  assumes "cash_invar c" and "isElementInCash hasher SUCCESS r c"
  shows "\<exists>a c'. findResponseInCash hasher SUCCESS r c = (Some a, c') \<and> cash_invar c'
    \<and> isElementInCash hasher SUCCESS r c' \<and> getHash (store c a) = hasher r"
proof -
  from lru.hit_gives_element [OF assms] obtain a c' where
    "findResponseInCash hasher SUCCESS r c = (Some a, c')" "cash_invar c'"
    "isElementInCash hasher SUCCESS r c'" by blast
  moreover from this have "getHash (store c a) = hasher r"
    by (auto simp: findResponseInCash_def split: option.splits dest: find_hash_Some)
  ultimately show ?thesis by blast
qed

theorem cache_hit_witness:
  "\<exists>a c'. findResponseInCash fix_hash SUCCESS ''ab'' (fix_cash 2 [fix_element 0 ''ab'']) = (Some a, c')
     \<and> isElementInCash fix_hash SUCCESS ''ab'' c'"
proof -
  have "cash_invar (fix_cash 2 [fix_element 0 ''ab''])"
    and "isElementInCash fix_hash SUCCESS ''ab'' (fix_cash 2 [fix_element 0 ''ab''])"
    by (simp_all add: cash_eval)
  from cache_hit [OF this] show ?thesis by blast
qed

text \<open>
  C21: an element added for an absent request is the one that later lookups of that request
  return, and the cache keeps its invariant.
\<close>

theorem cache_add_then_find:
  assumes "cash_invar c" and "\<not> isElementInCash hasher SUCCESS r c"
    and "addStringToCash hasher SUCCESS r n c = Done (Some a) c'"
  shows "isElementInCash hasher SUCCESS r c' \<and> cash_invar c'
    \<and> fst (findResponseInCash hasher SUCCESS r c') = Some a
    \<and> getHeading (store c' a) = r \<and> getCash (store c' a) = []"
proof -
  from assms(3) have "getHeading (store c' a) = r \<and> getCash (store c' a) = []"
    by (cases rule: addStringToCash_cases [of hasher r n c])
       (auto simp: add_finish_Done getCash_def dest: new_CashElementImpl_Inr)
  moreover from lru.added_is_found [OF assms] have
    "isElementInCash hasher SUCCESS r c'" "fst (findResponseInCash hasher SUCCESS r c') = Some a"
    by auto
  ultimately show ?thesis
    using addStringToCash_invar [OF assms] by simp
qed

theorem cache_add_then_find_witness:
  "\<exists>c'. addStringToCash fix_hash SUCCESS ''ab'' 7 (fix_cash 0 []) = Done (Some 0) c'
     \<and> isElementInCash fix_hash SUCCESS ''ab'' c'"
proof -
  have inv: "cash_invar (fix_cash 0 [])" "\<not> isElementInCash fix_hash SUCCESS ''ab'' (fix_cash 0 [])"
    by (simp_all add: cash_eval)
  have "\<exists>c'. addStringToCash fix_hash SUCCESS ''ab'' 7 (fix_cash 0 []) = Done (Some 0) c'"
    by (simp add: cash_eval)
  then obtain c' where "addStringToCash fix_hash SUCCESS ''ab'' 7 (fix_cash 0 []) = Done (Some 0) c'" ..
  with cache_add_then_find [OF inv this] show ?thesis by blast
qed

text \<open>
  The list is ordered by last use: a hit takes the element out of its place and puts it at
  the end, keeps the order of all others, and changes neither contents nor the byte counter.
\<close>

theorem lookup_moves_to_back:
  assumes "wf_cash c" and "findResponseInCash hasher SUCCESS r c = (Some a, c')"
  shows "listCash c' = filter (\<lambda>b. b \<noteq> a) (listCash c) @ [a] \<and> a \<in> set (listCash c)
    \<and> mset (listCash c') = mset (listCash c) \<and> store c' = store c \<and> byteInCash c' = byteInCash c"
proof -
  from assms have a: "a \<in> set (listCash c)" and l: "listCash c' = remove1 a (listCash c) @ [a]"
    and rest: "store c' = store c" "byteInCash c' = byteInCash c"
    by (auto simp: findResponseInCash_def erase_first_remove1 split: option.splits
        dest!: find_hash_Some)
  have "remove1 a (listCash c) = filter (\<lambda>b. b \<noteq> a) (listCash c)"
    using assms(1) by (simp add: wf_cash_def distinct_remove1_removeAll removeAll_filter_not_eq
        neq_commute)
  moreover have "mset (listCash c') = mset (listCash c)"
    using a l by simp
  ultimately show ?thesis using a l rest by simp
qed

theorem lookup_moves_to_back_witness:
  "listCash (snd (findResponseInCash fix_hash SUCCESS ''ab''
     (fix_cash 3 [fix_element 0 ''ab'', fix_element 0 ''c'']))) = [1, 0]"
proof -
  let ?c = "fix_cash 3 [fix_element 0 ''ab'', fix_element 0 ''c'']"
  have "wf_cash ?c" by (simp add: cash_eval)
  moreover have "findResponseInCash fix_hash SUCCESS ''ab'' ?c
      = (Some 0, snd (findResponseInCash fix_hash SUCCESS ''ab'' ?c))"
    by (simp add: cash_eval)
  ultimately show ?thesis
    by (subst lookup_moves_to_back [THEN conjunct1]) (assumption | simp add: fixture upt_rec)+
qed

text \<open>
  C25: making room never takes away an element that some client is reading: every listed element
  with a positive user count is still listed, unchanged, after \<open>addStringToCash\<close>, whatever
  it returned.
\<close>

theorem eviction_spares_readers:
  assumes "wf_cash c" and "addStringToCash hasher SUCCESS r n c = Done x c'"
    and "a \<in> set (listCash c)" and "sint (getCountUsers (store c a)) > 0"
  shows "a \<in> set (listCash c') \<and> store c' a = store c a"
proof (cases rule: addStringToCash_cases [of hasher r n c])
  case (finish c1)
  from assms(4) have "\<not> idle (store c a)" by (simp add: idle_def)
  with finish(1) assms(3) have "a \<in> set (listCash c1)" "store c1 = store c" "fresh c1 = fresh c"
    by (auto simp: evicted_def)
  moreover have "a < fresh c" using assms(1,3) by (simp add: wf_cash_def)
  moreover from finish assms(2) have "add_finish hasher r (n + size_of r) c1 = Done x c'" by simp
  ultimately show ?thesis by (auto simp: add_finish_Done)
qed (use assms in simp)

theorem eviction_spares_readers_witness:
  "\<exists>c'. addStringToCash fix_hash SUCCESS ''x'' 9
       (fix_cash 1073741820 [fix_element 1 ''abcd'', fix_element 0 ''ef'']) = Done None c'
     \<and> 0 \<in> set (listCash c')"
proof -
  let ?c = "fix_cash 1073741820 [fix_element 1 ''abcd'', fix_element 0 ''ef'']"
  have "\<exists>c'. addStringToCash fix_hash SUCCESS ''x'' 9 ?c = Done None c'"
    by (simp add: cash_eval)
  then obtain c' where add: "addStringToCash fix_hash SUCCESS ''x'' 9 ?c = Done None c'" ..
  moreover have "wf_cash ?c" "0 \<in> set (listCash ?c)" "sint (getCountUsers (store ?c 0)) > 0"
    by (simp_all add: cash_eval)
  ultimately show ?thesis using eviction_spares_readers by blast
qed

text \<open>
  The limit on the cache: whenever an element was added, the byte counter is below
  \<open>MAX_CASH_SIZE\<close> afterwards.
\<close>

theorem cache_below_limit:
  assumes "addStringToCash hasher SUCCESS r n c = Done (Some a) c'"
  shows "sint (byteInCash c') < 1073741824"
proof (cases rule: addStringToCash_cases [of hasher r n c])
  case (finish c1)
  with assms have "add_finish hasher r (n + size_of r) c1 = Done (Some a) c'" by simp
  then show ?thesis
    by (auto simp: add_finish_Done room_def MAX_CASH_SIZE_def)
qed (use assms in simp)

theorem cache_below_limit_witness:
  "\<exists>c'. addStringToCash fix_hash SUCCESS ''ab'' 7 (fix_cash 0 []) = Done (Some 0) c'
     \<and> sint (byteInCash c') < 1073741824"
proof -
  have "\<exists>c'. addStringToCash fix_hash SUCCESS ''ab'' 7 (fix_cash 0 []) = Done (Some 0) c'"
    by (simp add: cash_eval)
  then obtain c' where "addStringToCash fix_hash SUCCESS ''ab'' 7 (fix_cash 0 []) = Done (Some 0) c'" ..
  with cache_below_limit [OF this] show ?thesis by blast
qed

definition drift :: "CashImpl \<Rightarrow> int64" where
  "drift c = byteInCash c - total_weight (store c) (listCash c)"

lemma total_weight_cong:
  "(\<And>a. a \<in> set l \<Longrightarrow> weight (s a) = weight (t a)) \<Longrightarrow> total_weight s l = total_weight t l"
  unfolding total_weight_def by (simp cong: map_cong)

lemma total_weight_upd:
  "distinct l \<Longrightarrow> a \<in> set l \<Longrightarrow>
     total_weight (s(a := e)) l = total_weight s l - weight (s a) + weight e"
proof (induction l)
  case (Cons x l)
  show ?case
  proof (cases "x = a")
    case True
    with Cons.prems have "total_weight (s(a := e)) l = total_weight s l"
      by (intro total_weight_cong) auto
    with True show ?thesis by (simp del: fun_upd_apply add: fun_upd_same)
  qed (use Cons in simp)
qed simp

text \<open>
  C26: what the byte counter means. Call its excess over the bytes that listed elements hold
  (response so far plus heading) the drift. Adding an element for \<open>n\<close> announced bytes raises
  the drift by exactly \<open>n\<close>, however many elements were evicted for it; a refused request
  leaves it alone; and each received chunk of a listed element lowers it by its length. The
  counter is exact for complete responses, and what an interrupted download did not deliver
  stays charged for good.
\<close>

theorem bytes_accounting:
  assumes "wf_cash c"
  shows "(addStringToCash hasher SUCCESS r n c = Done x c'
      \<longrightarrow> drift c' = drift c + (if x = None then 0 else n))
    \<and> (a \<in> set (listCash c) \<longrightarrow>
        drift (c\<lparr>store := (store c)(a := fst (appendStringToCash SUCCESS l s (store c a)))\<rparr>)
          = drift c - size_of s)"
proof (intro conjI impI)
  assume add: "addStringToCash hasher SUCCESS r n c = Done x c'"
  show "drift c' = drift c + (if x = None then 0 else n)"
  proof (cases rule: addStringToCash_cases [of hasher r n c])
    case (finish c1)
    with add have fin: "add_finish hasher r (n + size_of r) c1 = Done x c'" by simp
    have d1: "drift c1 = drift c" using finish(1) by (simp add: evicted_def drift_def)
    have "\<forall>a \<in> set (listCash c1). a \<noteq> fresh c1"
      using evicted_wf [OF finish(1) assms] by (auto simp: wf_cash_def)
    then have old: "total_weight ((store c1)(fresh c1 := e)) (listCash c1)
        = total_weight (store c1) (listCash c1)" for e
      by (intro total_weight_cong) auto
    show ?thesis
      using fin d1 by (auto simp: add_finish_Done drift_def old weight_def getLength_def
          dest!: new_CashElementImpl_Inr)
  qed (use add in simp)
next
  assume "a \<in> set (listCash c)"
  with assms show "drift (c\<lparr>store := (store c)(a := fst (appendStringToCash SUCCESS l s (store c a)))\<rparr>)
      = drift c - size_of s"
    by (simp add: drift_def total_weight_upd wf_cash_def weight_def getLength_def getHeading_def)
       (simp add: appendStringToCash_def Let_def)
qed

theorem bytes_accounting_witness:
  "\<exists>c'. addStringToCash fix_hash SUCCESS ''ab'' 7 (fix_cash 0 []) = Done (Some 0) c' \<and> drift c' = 7"
proof -
  have wf: "wf_cash (fix_cash 0 [])" by (simp add: cash_eval)
  have "\<exists>c'. addStringToCash fix_hash SUCCESS ''ab'' 7 (fix_cash 0 []) = Done (Some 0) c'"
    by (simp add: cash_eval)
  then obtain c' where "addStringToCash fix_hash SUCCESS ''ab'' 7 (fix_cash 0 []) = Done (Some 0) c'" ..
  moreover from this bytes_accounting [OF wf, of fix_hash "''ab''" 7 "Some 0" c']
  have "drift c' = drift (fix_cash 0 []) + 7" by simp
  moreover have "drift (fix_cash 0 []) = 0" by (simp add: drift_def fix_cash_def)
  ultimately show ?thesis by simp
qed

section \<open>Where the cache departs from its purpose\<close>

text \<open>
  The eviction loop skips the element after each one it evicts: \<open>erase\<close> already returns
  the next element and the loop header then steps over it. So with two idle elements and a
  request that fits only when both go, the request is refused and the second element stays.
\<close>

theorem evict_skips_successor:
  assumes "listCash c = [a, b]" and "idle (store c a)" and "\<not> endPassed c"
    and "sint (n + size_of r) \<le> sint SIZE_EACH_CASH_ELEMENT"
    and "\<not> room (byteInCash c) (n + size_of r)"
    and "\<not> room (byteInCash c - weight (store c a)) (n + size_of r)"
  shows "\<exists>c'. addStringToCash hasher SUCCESS r n c = Done None c'
    \<and> listCash c' = [b] \<and> \<not> endPassed c'"
  using assms by (auto simp: addStringToCash_def Let_def full_iff evict_simps)

theorem evict_skips_successor_witness:
  "\<exists>c'. addStringToCash fix_hash SUCCESS ''x'' 9
       (fix_cash 1073741820 [fix_element 0 ''abcd'', fix_element 0 ''efgh'']) = Done None c'
     \<and> listCash c' = [1] \<and> room (1073741820 - weight (fix_element 0 ''abcd'')
         - weight (fix_element 0 ''efgh'')) (9 + size_of ''x'')"
proof -
  let ?c = "fix_cash 1073741820 [fix_element 0 ''abcd'', fix_element 0 ''efgh'']"
  have "listCash ?c = [0, 1]" "idle (store ?c 0)" "\<not> endPassed ?c"
    "sint (9 + size_of ''x'') \<le> sint SIZE_EACH_CASH_ELEMENT"
    "\<not> room (byteInCash ?c) (9 + size_of ''x'')"
    "\<not> room (byteInCash ?c - weight (store ?c 0)) (9 + size_of ''x'')"
    by (simp_all add: cash_eval)
  from evict_skips_successor [OF this, of fix_hash] show ?thesis
    by (auto simp: room_def weight_def fixture getLength_def getHeading_def size_of_def MAX_CASH_SIZE_def)
qed

text \<open>
  Evicting the last element of the list without having made room increments \<open>end()\<close>,
  which the standard leaves undefined. One idle element and a request that does not fit even
  without it are enough; afterwards the element is gone and the request is refused.
\<close>

theorem evict_passes_end:
  assumes "listCash c = [a]" and "idle (store c a)"
    and "sint (n + size_of r) \<le> sint SIZE_EACH_CASH_ELEMENT"
    and "\<not> room (byteInCash c) (n + size_of r)"
    and "\<not> room (byteInCash c - weight (store c a)) (n + size_of r)"
  shows "\<exists>c'. addStringToCash hasher SUCCESS r n c = Done None c' \<and> endPassed c' \<and> listCash c' = []"
  using assms by (auto simp: addStringToCash_def Let_def full_iff evict_simps)

theorem evict_passes_end_witness:
  "\<exists>c'. addStringToCash fix_hash SUCCESS ''x'' 1500000000 (fix_cash 2 [fix_element 0 ''ab''])
     = Done None c' \<and> endPassed c'"
proof -
  let ?c = "fix_cash 2 [fix_element 0 ''ab'']"
  have "listCash ?c = [0]" "idle (store ?c 0)"
    "sint (1500000000 + size_of ''x'') \<le> sint SIZE_EACH_CASH_ELEMENT"
    "\<not> room (byteInCash ?c) (1500000000 + size_of ''x'')"
    "\<not> room (byteInCash ?c - weight (store ?c 0)) (1500000000 + size_of ''x'')"
    by (simp_all add: cash_eval)
  from evict_passes_end [OF this, of fix_hash] show ?thesis by blast
qed

text \<open>
  The constructor leaves \<open>byteInCash\<close> uninitialised. If the memory happens to hold
  \<open>MAX_CASH_SIZE\<close> or more (and less than 2^62), the empty cache refuses every response
  below 2^61 bytes.
\<close>

theorem uninitialised_counter_refuses:
  assumes "1073741824 \<le> sint garbage" and "sint garbage < 2 ^ 62"
    and "0 \<le> sint n" and "sint n < 2 ^ 61" and "length r < 2 ^ 61"
  shows "\<exists>c'. addStringToCash hasher SUCCESS r n (new_CashImpl garbage mem) = Done None c'"
proof -
  have l: "sint (size_of r) = int (length r)"
    using assms(5) by (simp add: sint_size_of)
  then have d: "sint (n + size_of r) = sint n + int (length r)"
    using assms by (subst sint_add_small) auto
  then have "sint (garbage + (n + size_of r)) = sint garbage + sint n + int (length r)"
    using assms by (subst sint_add_small) auto
  then have "\<not> room garbage (n + size_of r)"
    using assms by (simp add: room_def MAX_CASH_SIZE_def)
  moreover have "sint (n + size_of r) \<le> sint SIZE_EACH_CASH_ELEMENT"
    using d assms by (simp add: SIZE_EACH_CASH_ELEMENT_def)
  ultimately show ?thesis
    by (simp add: addStringToCash_def Let_def full_iff new_CashImpl_def evict_simps)
qed

theorem uninitialised_counter_refuses_witness:
  "\<exists>c'. addStringToCash fix_hash SUCCESS ''x'' 1 (new_CashImpl 4611686018427387000 (\<lambda>a. fix_element 0 []))
     = Done None c'"
  by (rule uninitialised_counter_refuses) simp_all

text \<open>
  The cache identifies a request by its 64-bit hash alone. For every hash function there
  are two different requests such that, once the first is cached, the cache claims to hold the
  second and returns the first one's element for it.
\<close>

theorem hash_collision_serves_wrong_response:
  "\<exists>r1 r2 c'. r1 \<noteq> r2
     \<and> addStringToCash hasher SUCCESS r1 0 (new_CashImpl 0 mem) = Done (Some 0) c'
     \<and> isElementInCash hasher SUCCESS r2 c'
     \<and> fst (findResponseInCash hasher SUCCESS r2 c') = Some 0
     \<and> getHeading (store c' 0) = r1"
proof -
  let ?S = "{s :: string. set s \<subseteq> UNIV \<and> length s = 9}"
  have "card (UNIV :: int64 set) = 2 ^ 64" by (simp add: card_word)
  moreover have "card ?S = 256 ^ 9"
    by (subst card_lists_length_eq) (simp_all add: card_UNIV_char)
  moreover have "card (hasher ` ?S) \<le> card (UNIV :: int64 set)"
    by (rule card_mono) auto
  ultimately have "\<not> inj_on hasher ?S"
    by (intro notI) (auto dest!: card_image)
  then obtain r1 r2 where r: "length r1 = 9" "r1 \<noteq> r2" "hasher r1 = hasher r2"
    by (auto simp: inj_on_def)
  then have s: "size_of r1 = 9" by (simp add: size_of_def)
  let ?e = "\<lparr>e_countConnectedUsers = 0, e_isDownloadEnd = False, e_isServerConnected = False,
    e_hashRequestHeading = hasher r1, e_requestHeading = r1, e_cash = [], e_listSubscribers = []\<rparr>"
  have "addStringToCash hasher SUCCESS r1 0 (new_CashImpl 0 mem) =
    Done (Some 0) \<lparr>listCash = [0], byteInCash = 9, store = mem(0 := ?e), fresh = 1, endPassed = False\<rparr>"
    by (simp add: addStringToCash_def Let_def new_CashImpl_def s MAX_CASH_SIZE_def
        SIZE_EACH_CASH_ELEMENT_def new_CashElementImpl_def string_max_size_def)
  with r show ?thesis
    by (intro exI [of _ r1] exI [of _ r2]) (simp add: isElementInCash_def findResponseInCash_def
        getHash_def getHeading_def)
qed

lemma negative_size_lemma:
  assumes "sint n < 0" and "length r < 2 ^ 61" and "room (byteInCash c) (n + size_of r)"
  shows "\<exists>m c'. addStringToCash hasher SUCCESS r n c = Throws (LengthError m) c'
    \<and> listCash c' = listCash c \<and> byteInCash c' = byteInCash c + (n + size_of r)"
proof -
  have l: "sint (size_of r) = int (length r)"
    using assms(2) by (simp add: sint_size_of)
  have "- (2 ^ 63) \<le> sint n" using sint_ge [of n] by simp
  with l assms have "sint (n + size_of r) = sint n + int (length r)"
    by (subst sint_add_small) auto
  then have small: "sint (n + size_of r) \<le> sint SIZE_EACH_CASH_ELEMENT"
    using assms by (simp add: SIZE_EACH_CASH_ELEMENT_def)
  have "string_max_size < n"
  proof (rule ccontr)
    assume "\<not> string_max_size < n"
    then have "unat n \<le> 4611686018427387903"
      by (simp add: string_max_size_def word_le_nat_alt not_less)
    then have "sint (of_nat (unat n) :: int64) = int (unat n)"
      by (intro sint_of_nat_small) simp
    with assms(1) show False by simp
  qed
  with small assms(3) show ?thesis
    by (simp add: addStringToCash_def Let_def room_def new_CashElementImpl_def)
qed

end
