(* ===== verification/Buffer.thy ===== *)
theory Buffer
  imports Parser CashImpl
begin

text \<open>
  \<open>lab32v2/buffer\<close>: the state machine that one exchange between a user and an HTTP server goes
  through, shared by the two connections of the exchange. The record has the members of
  \<open>BufferImpl.h\<close>; the pointer to the parsed heading is an option, the pointer to the cache
  element an address in the cache's store. A method runs on the buffer, the cache, and the list
  of the condition variables signalled so far; it ends normally, by an exception, or in a fault.
  Output to the console and the log is left out, and so is the destructor.
\<close>

section \<open>State\<close>

datatype StatusHttp =
    WRITE_REQUEST_HEADING
  | WRITE_REQUEST_BODY
  | READ_RESPONSE
  | READ_REQUEST
  | WRITE_RESPONSE_HEADING
  | WRITE_RESPONSE_BODY
  | END_WORK

definition BUF_SIZE :: int64 where
  "BUF_SIZE = 1024 * 512"

record Buffer =
  b_statusClient :: StatusHttp
  b_statusHttpServer :: StatusHttp
  b_requestHeading :: string
  b_buf :: string
  b_isClientConnect :: bool
  b_isServerConnect :: bool
  b_sendingString :: string
  b_isReadyToSend :: bool
  b_isEndSend :: bool
  b_isReadyConnectHttpServer :: bool
  b_lengthBody :: int64
  b_resultParseHeading :: "ResultParseHeading option"
  b_isHaveContentLengthResponse :: bool
  b_isAddDataToCash :: bool
  b_isDataGetCash :: bool
  b_countByteReadFromCash :: int64
  b_cashElement :: "nat option"
  b_error :: bool

definition new_BufferImpl :: Buffer where
  "new_BufferImpl = \<lparr>b_statusClient = WRITE_REQUEST_HEADING, b_statusHttpServer = READ_REQUEST,
     b_requestHeading = [], b_buf = [], b_isClientConnect = False, b_isServerConnect = False,
     b_sendingString = [], b_isReadyToSend = False, b_isEndSend = False,
     b_isReadyConnectHttpServer = False, b_lengthBody = 0, b_resultParseHeading = None,
     b_isHaveContentLengthResponse = False, b_isAddDataToCash = False, b_isDataGetCash = False,
     b_countByteReadFromCash = 0, b_cashElement = None, b_error = False\<rparr>"

text \<open>
  What a method gets from its surroundings: \<open>std::hash\<close>, the codes the lock calls return (the
  cache's mutex when it is tested and when it is used, and the three locks of an element), and
  what other threads do to the cache between the test and the use.
\<close>

record Env =
  hash :: "string \<Rightarrow> int64"
  testLock :: int32
  cashLock :: int32
  userLock :: int32
  wrLock :: int32
  subsLock :: int32
  others :: "CashImpl \<Rightarrow> CashImpl"

record BufCtx =
  cx_buf :: Buffer
  cx_cash :: CashImpl
  cx_signals :: "nat list"

definition set_buf :: "Buffer \<Rightarrow> BufCtx \<Rightarrow> BufCtx" where
  "set_buf b x = x\<lparr>cx_buf := b\<rparr>"

text \<open>
  A call through \<open>_cashElement\<close>: one that only reads the element, and one that changes it and
  may signal its subscribers.
\<close>

definition ask_element :: "(CashElement \<Rightarrow> 'a) \<Rightarrow> BufCtx \<Rightarrow> ('a, BufCtx) outcome" where
  "ask_element f x = (case b_cashElement (cx_buf x) of
     None \<Rightarrow> Fault NullDereference
   | Some a \<Rightarrow> Done (f (store (cx_cash x) a)) x)"

definition on_element ::
    "(CashElement \<Rightarrow> CashElement \<times> nat list) \<Rightarrow> BufCtx \<Rightarrow> (unit, BufCtx) outcome" where
  "on_element f x = (case b_cashElement (cx_buf x) of
     None \<Rightarrow> Fault NullDereference
   | Some a \<Rightarrow>
       let c = cx_cash x; (e, woken) = f (store c a)
       in Done () (x\<lparr>cx_cash := c\<lparr>store := (store c)(a := e)\<rparr>,
            cx_signals := cx_signals x @ woken\<rparr>))"

section \<open>Accessors\<close>

definition isReadyConnectHttpServer :: "Buffer \<Rightarrow> bool" where
  "isReadyConnectHttpServer b = b_isReadyConnectHttpServer b"

definition setReadyConnectHttpServer :: "bool \<Rightarrow> Buffer \<Rightarrow> Buffer" where
  "setReadyConnectHttpServer value b = b\<lparr>b_isReadyConnectHttpServer := value\<rparr>"

definition getStatusClient :: "Buffer \<Rightarrow> StatusHttp" where
  "getStatusClient b = b_statusClient b"

definition setStatusServer :: "StatusHttp \<Rightarrow> Buffer \<Rightarrow> Buffer" where
  "setStatusServer statusHttp b = b\<lparr>b_statusHttpServer := statusHttp\<rparr>"

definition isSendEnd :: "Buffer \<Rightarrow> bool" where
  "isSendEnd b = b_isEndSend b"

definition getParseResult :: "Buffer \<Rightarrow> ResultParseHeading option" where
  "getParseResult b = b_resultParseHeading b"

definition getStatusHttpServer :: "Buffer \<Rightarrow> StatusHttp" where
  "getStatusHttpServer b = b_statusHttpServer b"

definition isIsAddDataToCash :: "Buffer \<Rightarrow> bool" where
  "isIsAddDataToCash b = b_isAddDataToCash b"

definition isIsDataGetCash :: "Buffer \<Rightarrow> bool" where
  "isIsDataGetCash b = b_isDataGetCash b"

definition getCashElement :: "Buffer \<Rightarrow> nat option" where
  "getCashElement b = b_cashElement b"

definition setStatusClient :: "StatusHttp \<Rightarrow> Buffer \<Rightarrow> Buffer" where
  "setStatusClient statusHttp b = b\<lparr>b_statusClient := statusHttp\<rparr>"

definition isIsClientConnect :: "Buffer \<Rightarrow> bool" where
  "isIsClientConnect b = b_isClientConnect b"

definition setIsClientConnect :: "bool \<Rightarrow> Buffer \<Rightarrow> Buffer" where
  "setIsClientConnect isClientConnect b = b\<lparr>b_isClientConnect := isClientConnect\<rparr>"

definition isIsServerConnect :: "Buffer \<Rightarrow> bool" where
  "isIsServerConnect b = b_isServerConnect b"

definition setIsServerConnect_buf :: "bool \<Rightarrow> Buffer \<Rightarrow> Buffer" where
  "setIsServerConnect_buf isServerConnect b = b\<lparr>b_isServerConnect := isServerConnect\<rparr>"

lemmas buffer_accessors =
  isReadyConnectHttpServer_def setReadyConnectHttpServer_def getStatusClient_def
  setStatusServer_def isSendEnd_def getParseResult_def getStatusHttpServer_def
  isIsAddDataToCash_def isIsDataGetCash_def getCashElement_def setStatusClient_def
  isIsClientConnect_def setIsClientConnect_def isIsServerConnect_def setIsServerConnect_buf_def

section \<open>Reading from the two sockets\<close>

text \<open>
  \<open>parsHead\<close> answers a heading it cannot parse with a text for the user, and then throws again.
\<close>

definition parsHead :: "BufCtx \<Rightarrow> (unit, BufCtx) outcome" where
  "parsHead x =
     (let b = cx_buf x
      in case parsingHeading (b_requestHeading b) of
           Inr r \<Rightarrow> Done () (set_buf (b\<lparr>b_resultParseHeading := Some r\<rparr>) x)
         | Inl (ParseException ex) \<Rightarrow>
             Throws (ParseException ''incorrect heading'')
               (set_buf (b\<lparr>b_buf := ''incorrect heading'' @ [CHR 0x0D, CHR 0x0A],
                  b_statusClient := READ_RESPONSE, b_isReadyToSend := True,
                  b_isEndSend := True, b_error := True\<rparr>) x)
         | Inl ex \<Rightarrow> Throws ex x)"

definition wrightRequestHeading :: "Env \<Rightarrow> BufCtx \<Rightarrow> (unit, BufCtx) outcome" where
  "wrightRequestHeading env x =
     (let b = cx_buf x; (found, posEndHeading) = findEndHeading (b_buf b)
      in if found = END_HEADING then
        let x = set_buf (b\<lparr>b_requestHeading := substr0 (b_buf b) posEndHeading\<rparr>) x
        in bind (parsHead x) (\<lambda>_ x.
          if isElementInCash (hash env) (testLock env) (b_requestHeading (cx_buf x)) (cx_cash x) then
            let b = (cx_buf x)\<lparr>b_isDataGetCash := True\<rparr>;
                (element, c) = findResponseInCash (hash env) (cashLock env) (b_requestHeading b)
                  (others env (cx_cash x));
                x = x\<lparr>cx_buf := b\<lparr>b_cashElement := element\<rparr>, cx_cash := c\<rparr>
            in bind (on_element (\<lambda>e. (addCountUsers (userLock env) e, [])) x) (\<lambda>_ x.
              Done () (set_buf ((cx_buf x)\<lparr>b_buf := [], b_statusClient := READ_RESPONSE\<rparr>) x))
          else
            let b = (cx_buf x)\<lparr>b_isReadyConnectHttpServer := True\<rparr>
            in case b_resultParseHeading b of
                 None \<Rightarrow> Fault NullDereference
               | Some heading \<Rightarrow>
                   if rtype heading = GET_REQUEST then
                     Done () (set_buf (b\<lparr>b_isReadyToSend := True, b_isEndSend := True\<rparr>) x)
                   else
                     let left = contentLength heading - (size_of (b_buf b) - size_of (b_requestHeading b));
                         b = b\<lparr>b_isReadyToSend := True, b_statusClient := WRITE_REQUEST_BODY,
                               b_lengthBody := left\<rparr>
                     in Done () (set_buf (if sint left \<le> 0 then b\<lparr>b_isEndSend := True\<rparr> else b) x))
      else Done () x)"

definition wrightRequestBody :: "string \<Rightarrow> BufCtx \<Rightarrow> (unit, BufCtx) outcome" where
  "wrightRequestBody binaryString x =
     (let b = cx_buf x; left = b_lengthBody b - size_of binaryString;
          b = b\<lparr>b_isReadyToSend := True, b_lengthBody := left\<rparr>
      in Done () (set_buf (if sint left \<le> 0 then b\<lparr>b_isEndSend := True\<rparr> else b) x))"

text \<open>
  \<open>_buf->length() + getContentLength() < SIZE_EACH_CASH_ELEMENT\<close> compares unsigned: \<open>length()\<close>
  is a \<open>size_t\<close>. The type of the request is read only when the conditions before it hold.
\<close>

definition isCashingData :: "int32 \<Rightarrow> ResultParseHeading \<Rightarrow> BufCtx \<Rightarrow> (bool, BufCtx) outcome" where
  "isCashingData sizeHeading heading x =
     (if \<not> responseWithError heading
         \<and> size_of (b_buf (cx_buf x)) + contentLength heading < SIZE_EACH_CASH_ELEMENT
      then case b_resultParseHeading (cx_buf x) of
             None \<Rightarrow> Fault NullDereference
           | Some request \<Rightarrow> Done (rtype request = GET_REQUEST \<and> haveContentLength heading) x
      else Done False x)"

text \<open>
  \<open>wrightResponseHeading\<close> in the two parts its body has: the cache entry for the response, and
  the bookkeeping of the body that follows the heading.
\<close>

definition addResponseToCash :: "Env \<Rightarrow> string \<Rightarrow> ResultParseHeading \<Rightarrow> BufCtx \<Rightarrow> (unit, BufCtx) outcome" where
  "addResponseToCash env responseHead heading x =
     bind (isCashingData (ucast (size_of responseHead)) heading x) (\<lambda>cashing x.
       if cashing \<and> \<not> isElementInCash (hash env) (testLock env) (b_requestHeading (cx_buf x)) (cx_cash x)
       then case addStringToCash (hash env) (cashLock env) (b_requestHeading (cx_buf x))
                   (contentLength heading + size_of responseHead) (others env (cx_cash x)) of
              Throws ex c \<Rightarrow> Throws ex (x\<lparr>cx_cash := c\<rparr>)
            | Fault f \<Rightarrow> Fault f
            | Done None c \<Rightarrow>
                Done () (x\<lparr>cx_cash := c, cx_buf := (cx_buf x)\<lparr>b_cashElement := None,
                   b_isAddDataToCash := False\<rparr>\<rparr>)
            | Done (Some element) c \<Rightarrow>
                let b = (cx_buf x)\<lparr>b_cashElement := Some element, b_isAddDataToCash := True\<rparr>;
                    x = x\<lparr>cx_cash := c, cx_buf := b\<rparr>
                in bind (on_element (appendStringToCash (wrLock env) (subsLock env) (b_buf b)) x) (\<lambda>_ x.
                   bind (on_element (\<lambda>e. (setDownloadEnd False e, [])) x) (\<lambda>_ x.
                   on_element (setIsServerConnect (subsLock env) True) x))
       else Done () x)"

definition startResponseBody :: "string \<Rightarrow> ResultParseHeading \<Rightarrow> BufCtx \<Rightarrow> (unit, BufCtx) outcome" where
  "startResponseBody responseHead heading x =
     (let b = (cx_buf x)\<lparr>b_isReadyToSend := True, b_statusHttpServer := WRITE_RESPONSE_BODY,
            b_isHaveContentLengthResponse := haveContentLength heading\<rparr>
      in if haveContentLength heading then
           let left = contentLength heading - (size_of (b_buf b) - size_of responseHead);
               b = b\<lparr>b_lengthBody := left\<rparr>
           in if sint left \<le> 0 then
                let x = set_buf (b\<lparr>b_isEndSend := True\<rparr>) x
                in if b_isAddDataToCash b then on_element (\<lambda>e. (setDownloadEnd True e, [])) x else Done () x
              else Done () (set_buf b x)
         else if fst (findEndBody (b_buf b)) = END_BODY
              then Done () (set_buf (b\<lparr>b_isEndSend := True\<rparr>) x)
              else Done () (set_buf b x))"

definition wrightResponseHeading :: "Env \<Rightarrow> BufCtx \<Rightarrow> (unit, BufCtx) outcome" where
  "wrightResponseHeading env x =
     (let b = cx_buf x; (found, posEndHeading) = findEndHeading (b_buf b)
      in if found = END_HEADING then
           let responseHead = substr0 (b_buf b) posEndHeading;
               heading = parsingResponseHeading responseHead
           in bind (addResponseToCash env responseHead heading x) (\<lambda>_ x.
                startResponseBody responseHead heading x)
         else Done () x)"

definition wrightResponseBody :: "Env \<Rightarrow> string \<Rightarrow> BufCtx \<Rightarrow> (unit, BufCtx) outcome" where
  "wrightResponseBody env binaryString x =
     (let x = set_buf ((cx_buf x)\<lparr>b_isReadyToSend := True\<rparr>) x
      in bind (if b_isAddDataToCash (cx_buf x)
               then on_element (appendStringToCash (wrLock env) (subsLock env) binaryString) x
               else Done () x) (\<lambda>_ x.
         let b = cx_buf x
         in if b_isHaveContentLengthResponse b then
              let left = b_lengthBody b - size_of binaryString; b = b\<lparr>b_lengthBody := left\<rparr>
              in if sint left \<le> 0 then
                   let x = set_buf (b\<lparr>b_isEndSend := True\<rparr>) x
                   in if b_isAddDataToCash b then on_element (\<lambda>e. (setDownloadEnd True e, [])) x
                      else Done () x
                 else Done () (set_buf b x)
            else if fst (findEndBody (b_buf b)) = END_BODY
                 then Done () (set_buf (b\<lparr>b_isEndSend := True\<rparr>) x)
                 else Done () x))"

definition readFromSocket :: "Env \<Rightarrow> string \<Rightarrow> BufCtx \<Rightarrow> (unit, BufCtx) outcome" where
  "readFromSocket env binaryString x =
     (let b = cx_buf x;
          b = (if \<not> b_isClientConnect b \<and> b_statusHttpServer b = WRITE_RESPONSE_BODY
               then b\<lparr>b_buf := []\<rparr> else b\<lparr>b_buf := b_buf b @ binaryString\<rparr>);
          x = set_buf b x
      in if b_statusClient b = WRITE_REQUEST_HEADING then wrightRequestHeading env x
         else if b_statusClient b = WRITE_REQUEST_BODY then wrightRequestBody binaryString x
         else if b_statusHttpServer b = WRITE_RESPONSE_HEADING then wrightResponseHeading env x
         else if b_statusHttpServer b = WRITE_RESPONSE_BODY then wrightResponseBody env binaryString x
         else Done () x)"

section \<open>Sending to the two sockets\<close>

text \<open>
  \<open>std::string::resize\<close>, and \<open>memcpy\<close> over the whole of a string of the size copied. The
  target of a copy from the cache is checked by \<open>memCopyFromCash\<close>. The length of the cached
  element is read once to size the target and once more to size the copy, each time under its
  own lock; the downloading thread may append in between, which is what \<open>others\<close> stands for.
\<close>

definition resize :: "nat \<Rightarrow> string \<Rightarrow> string" where
  "resize n s = take n s @ replicate (n - length s) (CHR 0x00)"

definition sendBuf :: "Env \<Rightarrow> string \<Rightarrow> BufCtx \<Rightarrow> (string, BufCtx) outcome" where
  "sendBuf env binaryString x =
     (let b = cx_buf x; count = b_countByteReadFromCash b
      in if b_isDataGetCash b then
           bind (ask_element getLength x) (\<lambda>len x.
             if sint len > sint count then
               if sint len \<ge> sint (count + BUF_SIZE - 1) then
                 let binaryString = resize (unat (BUF_SIZE - 1)) binaryString;
                     x = x\<lparr>cx_cash := others env (cx_cash x)\<rparr>
                 in bind (ask_element (\<lambda>e. memCopyFromCash e binaryString count (BUF_SIZE - 1)) x) (\<lambda>r x.
                      case r of None \<Rightarrow> Fault OutOfBounds | Some s \<Rightarrow> Done s x)
               else
                 let binaryString = resize (unat (len - count)) binaryString;
                     x = x\<lparr>cx_cash := others env (cx_cash x)\<rparr>
                 in bind (ask_element (\<lambda>e. memCopyFromCash e binaryString count (getLength e - count)) x) (\<lambda>r x.
                      case r of None \<Rightarrow> Fault OutOfBounds | Some s \<Rightarrow> Done s x)
             else Done binaryString x)
         else
           let n = (if length (b_buf b) \<ge> unat (BUF_SIZE - 1) then unat (BUF_SIZE - 1)
                    else length (b_buf b))
           in Done (take n (b_buf b) @ drop n (resize n binaryString)) x)"

definition proofSendCash :: "string \<Rightarrow> BufCtx \<Rightarrow> (unit, BufCtx) outcome" where
  "proofSendCash binaryString x =
     (let b = cx_buf x; count = b_countByteReadFromCash b + size_of binaryString;
          x = set_buf (b\<lparr>b_countByteReadFromCash := count\<rparr>) x
      in bind (ask_element (\<lambda>e. e) x) (\<lambda>e x.
           let b = cx_buf x;
               b = (if getLength e = count then b\<lparr>b_isReadyToSend := False\<rparr> else b)
           in if isDownloadEnd e
              then Done () (set_buf (b\<lparr>b_isEndSend := True, b_statusClient := END_WORK\<rparr>) x)
              else if \<not> isIsServerConnected e then Done () (set_buf (b\<lparr>b_error := True\<rparr>) x)
              else Done () (set_buf b x)))"

definition proofSendBuf :: "string \<Rightarrow> Buffer \<Rightarrow> Buffer" where
  "proofSendBuf binaryString b =
     (let b = b\<lparr>b_buf := drop (length binaryString) (b_buf b)\<rparr>;
          b = (if b_buf b = [] \<and> \<not> b_isEndSend b then b\<lparr>b_isReadyToSend := False\<rparr> else b)
      in if b_buf b = [] \<and> b_isEndSend b then
           if b_statusClient b = READ_RESPONSE \<and> b_error b
           then b\<lparr>b_statusClient := END_WORK, b_isEndSend := False\<rparr>
           else
             let b = (if b_statusHttpServer b = READ_REQUEST
                      then b\<lparr>b_statusClient := READ_RESPONSE,
                        b_statusHttpServer := WRITE_RESPONSE_HEADING, b_isEndSend := False\<rparr>
                      else if b_statusClient b = READ_RESPONSE
                      then b\<lparr>b_statusClient := END_WORK, b_statusHttpServer := END_WORK,
                        b_isEndSend := True\<rparr>
                      else b)
             in b\<lparr>b_isReadyToSend := False\<rparr>
         else b)"

definition proofSend :: "string \<Rightarrow> BufCtx \<Rightarrow> (unit, BufCtx) outcome" where
  "proofSend binaryString x =
     (if b_isDataGetCash (cx_buf x) then proofSendCash binaryString x
      else Done () (set_buf (proofSendBuf binaryString (cx_buf x)) x))"

definition isReadyToSend :: "BufCtx \<Rightarrow> (bool, BufCtx) outcome" where
  "isReadyToSend x =
     (let b = cx_buf x
      in if \<not> b_isReadyToSend b \<and> b_isDataGetCash b then
           bind (ask_element getLength x) (\<lambda>n x.
             if sint n > sint (b_countByteReadFromCash b)
             then Done True (set_buf (b\<lparr>b_isReadyToSend := True\<rparr>) x)
             else Done (b_isReadyToSend b) x)
         else Done (b_isReadyToSend b) x)"

end
