(* ===== verification/Buffer_Correct.thy ===== *)
theory Buffer_Correct
  imports Buffer Parser_Correct CashImpl_Correct
begin

text \<open>
  Properties of the exchange buffer: it dereferences a null pointer exactly when another thread
  evicts the entry it has just found, its two states only move forward, what is sent is what was
  read, and the countdown of the body ends the exchange exactly when the announced number of
  bytes has arrived. The last section states what goes wrong on the paths the code does not guard.
\<close>

lemma set_buf_simps [simp]:
  "cx_buf (set_buf b x) = b" "cx_cash (set_buf b x) = cx_cash x"
  "cx_signals (set_buf b x) = cx_signals x" "set_buf b (set_buf b' x) = set_buf b x"
  "(set_buf b x)\<lparr>cx_buf := b', cx_cash := c\<rparr> = x\<lparr>cx_buf := b', cx_cash := c\<rparr>"
  by (simp_all add: set_buf_def)

section \<open>No null pointer is dereferenced\<close>

text \<open>
  A buffer that reads from or adds to the cache holds an element, and one that waits for a
  response or is done with its request holds the parsed request.
\<close>

definition buf_wf :: "BufCtx \<Rightarrow> bool" where
  "buf_wf x \<longleftrightarrow> (let b = cx_buf x in
     (b_isAddDataToCash b \<or> b_isDataGetCash b \<longrightarrow> b_cashElement b \<noteq> None)
     \<and> (b_statusHttpServer b \<in> {WRITE_RESPONSE_HEADING, WRITE_RESPONSE_BODY}
        \<longrightarrow> b_resultParseHeading b \<noteq> None \<and> \<not> b_isDataGetCash b
           \<and> b_statusClient b \<in> {READ_RESPONSE, END_WORK})
     \<and> (b_statusClient b = WRITE_REQUEST_BODY \<longrightarrow> b_resultParseHeading b \<noteq> None)
     \<and> (b_isDataGetCash b \<or> b_error b \<longrightarrow> b_statusClient b \<in> {READ_RESPONSE, END_WORK})
     \<and> (b_isEndSend b \<and> \<not> b_error b \<and> \<not> b_isDataGetCash b \<longrightarrow> b_resultParseHeading b \<noteq> None))"

lemma buf_wf_new: "buf_wf \<lparr>cx_buf = new_BufferImpl, cx_cash = c, cx_signals = sg\<rparr>"
  by (simp add: buf_wf_def new_BufferImpl_def)

definition others_keep :: "Env \<Rightarrow> bool" where
  "others_keep env \<longleftrightarrow> (\<forall>r c. isElementInCash (hash env) (testLock env) r c
     \<longrightarrow> fst (findResponseInCash (hash env) (cashLock env) r (others env c)) \<noteq> None)"

text \<open>An access through a \<open>_cashElement\<close> that is set changes the cache only.\<close>

definition upd_element :: "nat \<Rightarrow> (CashElement \<Rightarrow> CashElement \<times> nat list) \<Rightarrow> BufCtx \<Rightarrow> BufCtx" where
  "upd_element a f x = x\<lparr>cx_cash := (cx_cash x)\<lparr>store := (store (cx_cash x))
       (a := fst (f (store (cx_cash x) a)))\<rparr>,
     cx_signals := cx_signals x @ snd (f (store (cx_cash x) a))\<rparr>"

lemma upd_element_simps [simp]:
  "cx_buf (upd_element a f x) = cx_buf x"
  "store (cx_cash (upd_element a f x)) a = fst (f (store (cx_cash x) a))"
  "a' \<noteq> a \<Longrightarrow> store (cx_cash (upd_element a f x)) a' = store (cx_cash x) a'"
  "listCash (cx_cash (upd_element a f x)) = listCash (cx_cash x)"
  "cx_signals (upd_element a f x) = cx_signals x @ snd (f (store (cx_cash x) a))"
  by (simp_all add: upd_element_def)

lemma on_element_Some [simp]:
  "b_cashElement (cx_buf x) = Some a \<Longrightarrow> on_element f x = Done () (upd_element a f x)"
  by (simp add: on_element_def upd_element_def Let_def split: prod.splits)

lemma ask_element_Some [simp]:
  "b_cashElement (cx_buf x) = Some a \<Longrightarrow> ask_element f x = Done (f (store (cx_cash x) a)) x"
  by (simp add: ask_element_def)

lemma buf_wf_cong: "cx_buf x' = cx_buf x \<Longrightarrow> buf_wf x' = buf_wf x"
  by (simp add: buf_wf_def)

lemma buf_wf_upd [simp]: "buf_wf (upd_element a f x) = buf_wf x"
  by (rule buf_wf_cong) simp

lemma parsingHeading_throws: "parsingHeading h = Inl ex \<Longrightarrow> \<exists>m. ex = ParseException m"
  by (auto simp: parsingHeading_def findHostAndPort_def Let_def split: if_splits option.splits)

lemma parsHead_cases:
  obtains (ok) r where "parsingHeading (b_requestHeading (cx_buf x)) = Inr r"
      "parsHead x = Done () (set_buf ((cx_buf x)\<lparr>b_resultParseHeading := Some r\<rparr>) x)"
  | (bad) ex where "parsingHeading (b_requestHeading (cx_buf x)) = Inl ex"
      "parsHead x = Throws (ParseException ''incorrect heading'')
       (set_buf ((cx_buf x)\<lparr>b_buf := ''incorrect heading'' @ [CHR 0x0D, CHR 0x0A],
          b_statusClient := READ_RESPONSE, b_isReadyToSend := True,
          b_isEndSend := True, b_error := True\<rparr>) x)"
proof (cases "parsingHeading (b_requestHeading (cx_buf x))")
  case (Inl ex)
  with parsingHeading_throws [OF Inl] bad show ?thesis by (auto simp: parsHead_def Let_def)
next
  case (Inr r)
  with ok show ?thesis by (auto simp: parsHead_def Let_def)
qed

lemma isCashingData_safe:
  "b_resultParseHeading (cx_buf x) \<noteq> None \<Longrightarrow> \<exists>v. isCashingData n h x = Done v x"
  by (auto simp: isCashingData_def)

lemma addStringToCash_no_fault: "addStringToCash h l r n c \<noteq> Fault f"
  by (auto simp: addStringToCash_def Let_def split: prod.splits sum.splits)

text \<open>The state in which the response heading is read, and stays while it is handled.\<close>

definition responding :: "BufCtx \<Rightarrow> bool" where
  "responding x \<longleftrightarrow> buf_wf x \<and> b_statusHttpServer (cx_buf x) = WRITE_RESPONSE_HEADING"

text \<open>The element the cache has just made for a response, filled with what was read so far.\<close>

definition begin_download :: "Env \<Rightarrow> nat \<Rightarrow> BufCtx \<Rightarrow> BufCtx" where
  "begin_download env a x = upd_element a (setIsServerConnect (subsLock env) True)
     (upd_element a (\<lambda>e. (setDownloadEnd False e, []))
       (upd_element a (appendStringToCash (wrLock env) (subsLock env) (b_buf (cx_buf x))) x))"

lemma begin_download_buf [simp]: "cx_buf (begin_download env a x) = cx_buf x"
  by (simp add: begin_download_def)

lemma addResponseToCash_cases:
  assumes p: "b_resultParseHeading (cx_buf x) \<noteq> None"
  obtains (skip) "addResponseToCash env hdg h x = Done () x"
  | (thrown) ex c where "addResponseToCash env hdg h x = Throws ex (x\<lparr>cx_cash := c\<rparr>)"
  | (refused) c where "addResponseToCash env hdg h x = Done () (x\<lparr>cx_cash := c,
       cx_buf := (cx_buf x)\<lparr>b_cashElement := None, b_isAddDataToCash := False\<rparr>\<rparr>)"
  | (stored) a c where "addStringToCash (hash env) (cashLock env) (b_requestHeading (cx_buf x))
         (contentLength h + size_of hdg) (others env (cx_cash x)) = Done (Some a) c"
      "addResponseToCash env hdg h x = Done () (begin_download env a (x\<lparr>cx_cash := c,
       cx_buf := (cx_buf x)\<lparr>b_cashElement := Some a, b_isAddDataToCash := True\<rparr>\<rparr>))"
proof -
  from isCashingData_safe [OF p] obtain v where
    v: "isCashingData (ucast (size_of hdg)) h x = Done v x" by blast
  define m where "m = addStringToCash (hash env) (cashLock env) (b_requestHeading (cx_buf x))
                   (contentLength h + size_of hdg) (others env (cx_cash x))"
  have nf: "m \<noteq> Fault f" for f by (simp add: m_def addStringToCash_no_fault)
  show ?thesis
  proof (cases "v \<and> \<not> isElementInCash (hash env) (testLock env) (b_requestHeading (cx_buf x)) (cx_cash x)")
    case False
    with v skip show ?thesis by (auto simp: addResponseToCash_def)
  next
    case True
    note eval = addResponseToCash_def v Let_def True m_def [symmetric]
    show ?thesis
    proof (cases m)
      case (Done r c)
      show ?thesis
      proof (cases r)
        case None
        with Done show ?thesis by (intro refused [of c]) (simp add: eval)
      next
        case (Some a)
        with Done show ?thesis
          by (intro stored [of a c]) (simp_all add: eval begin_download_def)
      qed
    next
      case (Throws ex c)
      then show ?thesis by (intro thrown [of ex c]) (simp add: eval)
    qed (use nf in simp)
  qed
qed

lemma addResponseToCash_wf:
  assumes x: "responding x"
  shows "ends_in responding (addResponseToCash env hdg h x)"
proof -
  from x have p: "b_resultParseHeading (cx_buf x) \<noteq> None"
    by (simp add: responding_def buf_wf_def Let_def)
  from x show ?thesis
    by (cases rule: addResponseToCash_cases [OF p, of env hdg h])
       (auto simp: responding_def buf_wf_def Let_def)
qed

definition body_left :: "string \<Rightarrow> ResultParseHeading \<Rightarrow> Buffer \<Rightarrow> int64" where
  "body_left hdg h b = contentLength h - (size_of (b_buf b) - size_of hdg)"

definition body_over :: "string \<Rightarrow> ResultParseHeading \<Rightarrow> Buffer \<Rightarrow> bool" where
  "body_over hdg h b = (if haveContentLength h then sint (body_left hdg h b) \<le> 0
     else fst (findEndBody (b_buf b)) = END_BODY)"

lemma startResponseBody_eq:
  assumes "b_isAddDataToCash (cx_buf x) \<Longrightarrow> b_cashElement (cx_buf x) \<noteq> None"
  shows "\<exists>x'. startResponseBody hdg h x = Done () x' \<and> cx_buf x' = (cx_buf x)
    \<lparr>b_isReadyToSend := True, b_statusHttpServer := WRITE_RESPONSE_BODY,
     b_isHaveContentLengthResponse := haveContentLength h,
     b_lengthBody := (if haveContentLength h then body_left hdg h (cx_buf x) else b_lengthBody (cx_buf x)),
     b_isEndSend := b_isEndSend (cx_buf x) \<or> body_over hdg h (cx_buf x)\<rparr>"
proof (cases "b_isAddDataToCash (cx_buf x)")
  case True
  with assms obtain a where "b_cashElement (cx_buf x) = Some a" by auto
  with True show ?thesis
    by (simp add: startResponseBody_def Let_def body_left_def body_over_def)
next
  case False
  then show ?thesis
    by (simp add: startResponseBody_def Let_def body_left_def body_over_def)
qed

lemma startResponseBody_wf:
  assumes "responding x" shows "ends_in buf_wf (startResponseBody hdg h x)"
proof -
  from assms have "b_isAddDataToCash (cx_buf x) \<Longrightarrow> b_cashElement (cx_buf x) \<noteq> None"
    by (simp add: responding_def buf_wf_def Let_def)
  from startResponseBody_eq [OF this, of hdg h] obtain x' where
    "startResponseBody hdg h x = Done () x'" "cx_buf x' = (cx_buf x)
    \<lparr>b_isReadyToSend := True, b_statusHttpServer := WRITE_RESPONSE_BODY,
     b_isHaveContentLengthResponse := haveContentLength h,
     b_lengthBody := (if haveContentLength h then body_left hdg h (cx_buf x) else b_lengthBody (cx_buf x)),
     b_isEndSend := b_isEndSend (cx_buf x) \<or> body_over hdg h (cx_buf x)\<rparr>" by blast
  with assms show ?thesis
    by (simp add: buf_wf_def responding_def Let_def)
qed

lemma wrightResponseHeading_wf:
  "responding x \<Longrightarrow> ends_in buf_wf (wrightResponseHeading env x)"
  by (auto simp: wrightResponseHeading_def Let_def responding_def [THEN iffD1]
      intro!: ends_in_bind [OF addResponseToCash_wf] startResponseBody_wf
      split: prod.splits)

lemma wrightResponseBody_eq:
  assumes "b_isAddDataToCash (cx_buf x) \<Longrightarrow> b_cashElement (cx_buf x) \<noteq> None"
  shows "\<exists>x'. wrightResponseBody env s x = Done () x' \<and> cx_buf x' = (cx_buf x)
    \<lparr>b_isReadyToSend := True,
     b_lengthBody := (if b_isHaveContentLengthResponse (cx_buf x)
        then b_lengthBody (cx_buf x) - size_of s else b_lengthBody (cx_buf x)),
     b_isEndSend := b_isEndSend (cx_buf x)
        \<or> (if b_isHaveContentLengthResponse (cx_buf x)
            then sint (b_lengthBody (cx_buf x) - size_of s) \<le> 0
            else fst (findEndBody (b_buf (cx_buf x))) = END_BODY)\<rparr>"
proof (cases "b_isAddDataToCash (cx_buf x)")
  case True
  with assms obtain a where "b_cashElement (cx_buf x) = Some a" by auto
  with True show ?thesis
    by (simp add: wrightResponseBody_def Let_def)
next
  case False
  then show ?thesis
    by (simp add: wrightResponseBody_def Let_def)
qed

lemma wrightResponseBody_wf:
  assumes wf: "buf_wf x" and st: "b_statusHttpServer (cx_buf x) = WRITE_RESPONSE_BODY"
  shows "ends_in buf_wf (wrightResponseBody env s x)"
proof -
  from wf have "b_isAddDataToCash (cx_buf x) \<Longrightarrow> b_cashElement (cx_buf x) \<noteq> None"
    by (simp add: buf_wf_def Let_def)
  from wrightResponseBody_eq [OF this, of env s] obtain x' where
    "wrightResponseBody env s x = Done () x'"
    "cx_buf x' = (cx_buf x)
    \<lparr>b_isReadyToSend := True,
     b_lengthBody := (if b_isHaveContentLengthResponse (cx_buf x)
        then b_lengthBody (cx_buf x) - size_of s else b_lengthBody (cx_buf x)),
     b_isEndSend := b_isEndSend (cx_buf x)
        \<or> (if b_isHaveContentLengthResponse (cx_buf x)
            then sint (b_lengthBody (cx_buf x) - size_of s) \<le> 0
            else fst (findEndBody (b_buf (cx_buf x))) = END_BODY)\<rparr>" by blast
  with wf st show ?thesis by (simp add: buf_wf_def Let_def)
qed

text \<open>The state while the request heading is handled.\<close>

definition requesting :: "BufCtx \<Rightarrow> bool" where
  "requesting x \<longleftrightarrow> buf_wf x \<and> b_statusClient (cx_buf x) = WRITE_REQUEST_HEADING"

text \<open>The three ways \<open>wrightRequestHeading\<close> goes on once the heading is parsed.\<close>

definition request_hit :: "Env \<Rightarrow> BufCtx \<Rightarrow> bool" where
  "request_hit env x =
     isElementInCash (hash env) (testLock env) (b_requestHeading (cx_buf x)) (cx_cash x)"

definition forward_request :: "ResultParseHeading \<Rightarrow> Buffer \<Rightarrow> Buffer" where
  "forward_request r b = (if rtype r = GET_REQUEST
     then b\<lparr>b_isReadyConnectHttpServer := True, b_isReadyToSend := True, b_isEndSend := True\<rparr>
     else let left = contentLength r - (size_of (b_buf b) - size_of (b_requestHeading b))
          in b\<lparr>b_isReadyConnectHttpServer := True, b_isReadyToSend := True,
               b_statusClient := WRITE_REQUEST_BODY, b_lengthBody := left,
               b_isEndSend := b_isEndSend b \<or> sint left \<le> 0\<rparr>)"

lemma wrightRequestHeading_cases:
  fixes x :: BufCtx
  defines "h \<equiv> substr0 (b_buf (cx_buf x)) (snd (findEndHeading (b_buf (cx_buf x))))"
  defines "y \<equiv> set_buf ((cx_buf x)\<lparr>b_requestHeading := h\<rparr>) x"
  obtains (wait) "fst (findEndHeading (b_buf (cx_buf x))) \<noteq> END_HEADING"
      "wrightRequestHeading env x = Done () x"
  | (bad) ex where "fst (findEndHeading (b_buf (cx_buf x))) = END_HEADING"
      "parsingHeading h = Inl ex"
      "wrightRequestHeading env x = Throws (ParseException ''incorrect heading'')
       (set_buf ((cx_buf x)\<lparr>b_requestHeading := h,
          b_buf := ''incorrect heading'' @ [CHR 0x0D, CHR 0x0A],
          b_statusClient := READ_RESPONSE, b_isReadyToSend := True,
          b_isEndSend := True, b_error := True\<rparr>) x)"
  | (hit) r where "fst (findEndHeading (b_buf (cx_buf x))) = END_HEADING"
      "parsingHeading h = Inr r" "request_hit env y"
      "wrightRequestHeading env x =
        (let f = findResponseInCash (hash env) (cashLock env) h (others env (cx_cash x));
             b = (cx_buf x)\<lparr>b_requestHeading := h, b_resultParseHeading := Some r,
               b_isDataGetCash := True, b_cashElement := fst f\<rparr>
         in bind (on_element (\<lambda>e. (addCountUsers (userLock env) e, [])) (x\<lparr>cx_buf := b, cx_cash := snd f\<rparr>))
              (\<lambda>_ x. Done () (set_buf ((cx_buf x)\<lparr>b_buf := [], b_statusClient := READ_RESPONSE\<rparr>) x)))"
  | (miss) r where "fst (findEndHeading (b_buf (cx_buf x))) = END_HEADING"
      "parsingHeading h = Inr r" "\<not> request_hit env y"
      "wrightRequestHeading env x = Done () (set_buf (forward_request r
         ((cx_buf x)\<lparr>b_requestHeading := h, b_resultParseHeading := Some r\<rparr>)) x)"
proof (cases "fst (findEndHeading (b_buf (cx_buf x))) = END_HEADING")
  case False
  with wait show ?thesis
    by (cases "findEndHeading (b_buf (cx_buf x))") (simp add: wrightRequestHeading_def Let_def)
next
  case True
  then obtain pos where fe: "findEndHeading (b_buf (cx_buf x)) = (END_HEADING, pos)"
    by (cases "findEndHeading (b_buf (cx_buf x))") simp
  show ?thesis
  proof (cases y rule: parsHead_cases)
    case (bad ex)
    then have "parsingHeading h = Inl ex" by (simp add: y_def)
    from that(2) [OF True this] bad(2) show ?thesis
      by (simp add: wrightRequestHeading_def fe Let_def y_def h_def)
  next
    case (ok r)
    then have r: "parsingHeading h = Inr r" by (simp add: y_def)
    have ph: "parsHead (set_buf ((cx_buf x)\<lparr>b_requestHeading := substr0 (b_buf (cx_buf x)) pos\<rparr>) x) =
      Done () (set_buf ((cx_buf x)\<lparr>b_requestHeading := h, b_resultParseHeading := Some r\<rparr>) x)"
      using ok(2) by (simp add: y_def h_def fe)
    show ?thesis
    proof (cases "request_hit env y")
      case hit: True
      show ?thesis
        by (rule that(3) [OF True r hit])
           (use hit in \<open>simp add: wrightRequestHeading_def fe ph y_def request_hit_def Let_def
             case_prod_beta\<close>)
    next
      case miss: False
      show ?thesis
        by (rule that(4) [OF True r miss])
           (use miss in \<open>simp add: wrightRequestHeading_def fe ph y_def request_hit_def Let_def forward_request_def\<close>)
    qed
  qed
qed

lemma buf_wfD:
  assumes "buf_wf x"
  shows "b_isAddDataToCash (cx_buf x) \<Longrightarrow> b_cashElement (cx_buf x) \<noteq> None"
    and "b_isDataGetCash (cx_buf x) \<Longrightarrow> b_cashElement (cx_buf x) \<noteq> None"
    and "b_statusHttpServer (cx_buf x) \<in> {WRITE_RESPONSE_HEADING, WRITE_RESPONSE_BODY}
        \<Longrightarrow> b_resultParseHeading (cx_buf x) \<noteq> None \<and> \<not> b_isDataGetCash (cx_buf x)
           \<and> b_statusClient (cx_buf x) \<in> {READ_RESPONSE, END_WORK}"
    and "b_statusClient (cx_buf x) = WRITE_REQUEST_BODY \<Longrightarrow> b_resultParseHeading (cx_buf x) \<noteq> None"
    and "b_isDataGetCash (cx_buf x) \<or> b_error (cx_buf x)
        \<Longrightarrow> b_statusClient (cx_buf x) \<in> {READ_RESPONSE, END_WORK}"
    and "b_isEndSend (cx_buf x) \<Longrightarrow> \<not> b_error (cx_buf x) \<Longrightarrow> \<not> b_isDataGetCash (cx_buf x)
        \<Longrightarrow> b_resultParseHeading (cx_buf x) \<noteq> None"
  using assms unfolding buf_wf_def Let_def by blast+

lemma requesting_fields:
  assumes "requesting x"
  shows "b_statusClient (cx_buf x) = WRITE_REQUEST_HEADING"
    and "b_statusHttpServer (cx_buf x) \<notin> {WRITE_RESPONSE_HEADING, WRITE_RESPONSE_BODY}"
    and "\<not> b_isDataGetCash (cx_buf x)" and "\<not> b_error (cx_buf x)"
    and "b_isAddDataToCash (cx_buf x) \<Longrightarrow> b_cashElement (cx_buf x) \<noteq> None"
proof -
  from assms have wf: "buf_wf x" and c: "b_statusClient (cx_buf x) = WRITE_REQUEST_HEADING"
    by (simp_all add: requesting_def)
  show "b_statusClient (cx_buf x) = WRITE_REQUEST_HEADING" by (fact c)
  show "b_statusHttpServer (cx_buf x) \<notin> {WRITE_RESPONSE_HEADING, WRITE_RESPONSE_BODY}"
    using buf_wfD(3) [OF wf] c by fastforce
  show "\<not> b_isDataGetCash (cx_buf x)" "\<not> b_error (cx_buf x)"
    using buf_wfD(5) [OF wf] c by auto
  show "b_isAddDataToCash (cx_buf x) \<Longrightarrow> b_cashElement (cx_buf x) \<noteq> None"
    by (rule buf_wfD(1) [OF wf])
qed

lemma reading_cash_fields:
  assumes wf: "buf_wf x" and g: "b_isDataGetCash (cx_buf x)"
  shows "b_statusHttpServer (cx_buf x) \<notin> {WRITE_RESPONSE_HEADING, WRITE_RESPONSE_BODY}"
    and "b_statusClient (cx_buf x) \<in> {READ_RESPONSE, END_WORK}"
    and "\<exists>a. b_cashElement (cx_buf x) = Some a"
  using buf_wfD(3) [OF wf] buf_wfD(5) [OF wf] buf_wfD(2) [OF wf g] g by blast+

lemma received_wf:
  "buf_wf x \<Longrightarrow> buf_wf (set_buf ((cx_buf x)\<lparr>b_buf := s\<rparr>) x)"
  by (simp add: buf_wf_def Let_def)

lemma proofSendBuf_cases:
  obtains (more) "proofSendBuf s b = b\<lparr>b_buf := drop (length s) (b_buf b)\<rparr>"
  | (pause) "\<not> b_isEndSend b"
      "proofSendBuf s b = b\<lparr>b_buf := [], b_isReadyToSend := False\<rparr>"
  | (failed) "b_isEndSend b" "b_statusClient b = READ_RESPONSE" "b_error b"
      "proofSendBuf s b = b\<lparr>b_buf := [], b_statusClient := END_WORK, b_isEndSend := False\<rparr>"
  | (sent_request) "b_isEndSend b" "b_statusClient b \<noteq> READ_RESPONSE \<or> \<not> b_error b"
      "b_statusHttpServer b = READ_REQUEST"
      "proofSendBuf s b = b\<lparr>b_buf := [], b_statusClient := READ_RESPONSE,
         b_statusHttpServer := WRITE_RESPONSE_HEADING, b_isEndSend := False, b_isReadyToSend := False\<rparr>"
  | (sent_response) "b_isEndSend b" "\<not> b_error b" "b_statusHttpServer b \<noteq> READ_REQUEST"
      "b_statusClient b = READ_RESPONSE"
      "proofSendBuf s b = b\<lparr>b_buf := [], b_statusClient := END_WORK,
         b_statusHttpServer := END_WORK, b_isEndSend := True, b_isReadyToSend := False\<rparr>"
  | (sent_other) "b_isEndSend b" "b_statusHttpServer b \<noteq> READ_REQUEST" "b_statusClient b \<noteq> READ_RESPONSE"
      "proofSendBuf s b = b\<lparr>b_buf := [], b_isReadyToSend := False\<rparr>"
proof (cases "drop (length s) (b_buf b) = []")
  case False
  with more show ?thesis by (simp add: proofSendBuf_def Let_def)
next
  case d: True
  show ?thesis
  proof (cases "b_isEndSend b")
    case False
    with d pause show ?thesis by (simp add: proofSendBuf_def Let_def)
  next
    case e: True
    consider "b_statusClient b = READ_RESPONSE" "b_error b"
      | "b_statusClient b \<noteq> READ_RESPONSE \<or> \<not> b_error b" "b_statusHttpServer b = READ_REQUEST"
      | "\<not> b_error b" "b_statusHttpServer b \<noteq> READ_REQUEST" "b_statusClient b = READ_RESPONSE"
      | "b_statusHttpServer b \<noteq> READ_REQUEST" "b_statusClient b \<noteq> READ_RESPONSE"
      by blast
    then show ?thesis
    proof cases
      case 1
      with d e show ?thesis by (intro failed) (simp_all add: proofSendBuf_def Let_def)
    next
      case 2
      with d e show ?thesis by (intro sent_request) (auto simp: proofSendBuf_def Let_def)
    next
      case 3
      with d e show ?thesis by (intro sent_response) (simp_all add: proofSendBuf_def Let_def)
    next
      case 4
      with d e show ?thesis by (intro sent_other) (simp_all add: proofSendBuf_def Let_def)
    qed
  qed
qed

definition fix_env :: "(CashImpl \<Rightarrow> CashImpl) \<Rightarrow> Env" where
  "fix_env f = \<lparr>hash = fix_hash, testLock = SUCCESS, cashLock = SUCCESS, userLock = SUCCESS,
     wrLock = SUCCESS, subsLock = SUCCESS, others = f\<rparr>"

definition fix_ctx :: "Buffer \<Rightarrow> CashImpl \<Rightarrow> BufCtx" where
  "fix_ctx b c = \<lparr>cx_buf = b, cx_cash = c, cx_signals = []\<rparr>"

lemma others_keep_fix: "others_keep (fix_env (\<lambda>c. c))"
  by (auto simp: others_keep_def fix_env_def isElementInCash_def findResponseInCash_def split: option.splits)

section \<open>The exchange only moves forward\<close>

fun rank :: "StatusHttp \<Rightarrow> nat" where
  "rank WRITE_REQUEST_HEADING = 0"
| "rank WRITE_REQUEST_BODY = 1"
| "rank READ_RESPONSE = 2"
| "rank READ_REQUEST = 0"
| "rank WRITE_RESPONSE_HEADING = 1"
| "rank WRITE_RESPONSE_BODY = 2"
| "rank END_WORK = 3"

definition ahead :: "Buffer \<Rightarrow> Buffer \<Rightarrow> bool" where
  "ahead b b' \<longleftrightarrow> rank (b_statusClient b) \<le> rank (b_statusClient b')
     \<and> rank (b_statusHttpServer b) \<le> rank (b_statusHttpServer b')"

lemma rank_le_3: "rank st \<le> 3"
  by (cases st) simp_all

lemma addResponseToCash_ahead:
  assumes p: "b_resultParseHeading (cx_buf x) \<noteq> None"
  shows "ends_in (\<lambda>x'. b_statusClient (cx_buf x') = b_statusClient (cx_buf x)
     \<and> b_statusHttpServer (cx_buf x') = b_statusHttpServer (cx_buf x)) (addResponseToCash env hdg h x)"
  by (cases rule: addResponseToCash_cases [OF p, of env hdg h]) simp_all

lemma wrightResponseHeading_ahead:
  assumes x: "responding x"
  shows "ends_in (\<lambda>x'. ahead (cx_buf x) (cx_buf x')) (wrightResponseHeading env x)"
proof -
  let ?hdg = "substr0 (b_buf (cx_buf x)) (snd (findEndHeading (b_buf (cx_buf x))))"
  let ?h = "parsingResponseHeading ?hdg"
  have p: "b_resultParseHeading (cx_buf x) \<noteq> None" and st: "b_statusHttpServer (cx_buf x) = WRITE_RESPONSE_HEADING"
    using x by (auto simp: responding_def dest: buf_wfD(3))
  have "ends_in (\<lambda>x'. ahead (cx_buf x) (cx_buf x')) (bind (addResponseToCash env ?hdg ?h x)
      (\<lambda>_ y. startResponseBody ?hdg ?h y))"
  proof (cases "addResponseToCash env ?hdg ?h x")
    case (Done v y)
    from addResponseToCash_ahead [OF p, of env ?hdg ?h] Done have
      y: "b_statusClient (cx_buf y) = b_statusClient (cx_buf x)" by simp
    from addResponseToCash_wf [OF x, of env ?hdg ?h] Done have "responding y" by simp
    then have "b_isAddDataToCash (cx_buf y) \<Longrightarrow> b_cashElement (cx_buf y) \<noteq> None"
      by (auto simp: responding_def dest: buf_wfD(1))
    from startResponseBody_eq [of y, OF this, of ?hdg ?h] y st Done show ?thesis
      by (auto simp: ahead_def)
  next
    case (Throws e y)
    with addResponseToCash_ahead [OF p, of env ?hdg ?h] show ?thesis by (auto simp: ahead_def)
  next
    case (Fault f)
    with addResponseToCash_ahead [OF p, of env ?hdg ?h] show ?thesis by simp
  qed
  then show ?thesis
    by (cases "findEndHeading (b_buf (cx_buf x))") (simp add: wrightResponseHeading_def Let_def ahead_def)
qed

lemma wrightRequestHeading_ahead:
  assumes x: "requesting x" and o: "others_keep env"
  shows "ends_in (\<lambda>x'. ahead (cx_buf x) (cx_buf x')) (wrightRequestHeading env x)"
proof (cases x rule: wrightRequestHeading_cases [where env = env])
  case (hit r)
  define h where "h = substr0 (b_buf (cx_buf x)) (snd (findEndHeading (b_buf (cx_buf x))))"
  define f where "f = findResponseInCash (hash env) (cashLock env) h (others env (cx_cash x))"
  from hit(3) o obtain a where "fst f = Some a"
    by (auto simp: others_keep_def request_hit_def h_def f_def)
  with hit(4) requesting_fields(1) [OF x] show ?thesis
    by (simp add: ahead_def Let_def flip: h_def f_def)
qed (use requesting_fields(1) [OF x] in \<open>simp_all add: ahead_def forward_request_def Let_def\<close>)

lemma ends_in_conv: "ends_in P m \<longleftrightarrow> (\<exists>v s. m = Done v s \<and> P s) \<or> (\<exists>e s. m = Throws e s \<and> P s)"
  by (cases m) auto

text \<open>\<open>readFromSocket\<close> is the handler of the current state, run after the bytes are appended.\<close>

definition received :: "string \<Rightarrow> BufCtx \<Rightarrow> BufCtx" where
  "received s x = set_buf ((cx_buf x)\<lparr>b_buf :=
     if \<not> b_isClientConnect (cx_buf x) \<and> b_statusHttpServer (cx_buf x) = WRITE_RESPONSE_BODY
     then [] else b_buf (cx_buf x) @ s\<rparr>) x"

lemma readFromSocket_received:
  "readFromSocket env s x =
    (if b_statusClient (cx_buf x) = WRITE_REQUEST_HEADING then wrightRequestHeading env (received s x)
     else if b_statusClient (cx_buf x) = WRITE_REQUEST_BODY then wrightRequestBody s (received s x)
     else if b_statusHttpServer (cx_buf x) = WRITE_RESPONSE_HEADING then wrightResponseHeading env (received s x)
     else if b_statusHttpServer (cx_buf x) = WRITE_RESPONSE_BODY then wrightResponseBody env s (received s x)
     else Done () (received s x))"
  by (simp add: readFromSocket_def received_def Let_def)

lemma received_simps [simp]:
  "b_statusClient (cx_buf (received s x)) = b_statusClient (cx_buf x)"
  "b_statusHttpServer (cx_buf (received s x)) = b_statusHttpServer (cx_buf x)"
  "b_isEndSend (cx_buf (received s x)) = b_isEndSend (cx_buf x)"
  "b_isAddDataToCash (cx_buf (received s x)) = b_isAddDataToCash (cx_buf x)"
  "b_isDataGetCash (cx_buf (received s x)) = b_isDataGetCash (cx_buf x)"
  "b_cashElement (cx_buf (received s x)) = b_cashElement (cx_buf x)"
  "b_lengthBody (cx_buf (received s x)) = b_lengthBody (cx_buf x)"
  "b_isHaveContentLengthResponse (cx_buf (received s x)) = b_isHaveContentLengthResponse (cx_buf x)"
  "b_resultParseHeading (cx_buf (received s x)) = b_resultParseHeading (cx_buf x)"
  "b_requestHeading (cx_buf (received s x)) = b_requestHeading (cx_buf x)"
  "cx_cash (received s x) = cx_cash x"
  "buf_wf x \<Longrightarrow> buf_wf (received s x)"
  by (simp_all add: received_def received_wf)

lemma ahead_received [simp]: "ahead (cx_buf (received s x)) b \<longleftrightarrow> ahead (cx_buf x) b"
  by (simp add: ahead_def)

lemma readFromSocket_ahead:
  assumes x: "buf_wf x" and o: "others_keep env"
  shows "ends_in (\<lambda>x'. ahead (cx_buf x) (cx_buf x')) (readFromSocket env s x)"
proof -
  let ?y = "received s x"
  have wf: "buf_wf ?y" using x by simp
  consider "b_statusClient (cx_buf x) = WRITE_REQUEST_HEADING"
    | "b_statusClient (cx_buf x) = WRITE_REQUEST_BODY"
    | "b_statusClient (cx_buf x) \<noteq> WRITE_REQUEST_HEADING" "b_statusClient (cx_buf x) \<noteq> WRITE_REQUEST_BODY"
      "b_statusHttpServer (cx_buf x) = WRITE_RESPONSE_HEADING"
    | "b_statusClient (cx_buf x) \<noteq> WRITE_REQUEST_HEADING" "b_statusClient (cx_buf x) \<noteq> WRITE_REQUEST_BODY"
      "b_statusHttpServer (cx_buf x) = WRITE_RESPONSE_BODY"
    | "b_statusClient (cx_buf x) \<noteq> WRITE_REQUEST_HEADING" "b_statusClient (cx_buf x) \<noteq> WRITE_REQUEST_BODY"
      "b_statusHttpServer (cx_buf x) \<noteq> WRITE_RESPONSE_HEADING" "b_statusHttpServer (cx_buf x) \<noteq> WRITE_RESPONSE_BODY"
    by blast
  then show ?thesis
  proof cases
    case 1
    with wf have "requesting ?y" by (simp add: requesting_def)
    from wrightRequestHeading_ahead [OF this o] 1 show ?thesis
      by (simp add: readFromSocket_received)
  next
    case 2
    then show ?thesis
      by (simp add: readFromSocket_received wrightRequestBody_def Let_def ahead_def)
  next
    case 3
    with wf have "responding ?y" by (simp add: responding_def)
    from wrightResponseHeading_ahead [OF this, of env] 3 show ?thesis
      by (simp add: readFromSocket_received)
  next
    case 4
    have "b_isAddDataToCash (cx_buf ?y) \<Longrightarrow> b_cashElement (cx_buf ?y) \<noteq> None"
      using buf_wfD(1) [OF wf] .
    from wrightResponseBody_eq [of ?y, OF this, of env s] 4 show ?thesis
      by (auto simp: readFromSocket_received ahead_def)
  qed (simp_all add: readFromSocket_received ahead_def)
qed

lemma proofSend_ahead:
  assumes x: "buf_wf x" and c: "b_statusClient (cx_buf x) \<noteq> END_WORK"
  shows "ends_in (\<lambda>x'. ahead (cx_buf x) (cx_buf x')) (proofSend s x)"
proof (cases "b_isDataGetCash (cx_buf x)")
  case True
  note fields = reading_cash_fields [OF x True]
  from fields(3) obtain a where a: "b_cashElement (cx_buf x) = Some a" ..
  from True a show ?thesis
    by (simp add: proofSend_def proofSendCash_def Let_def ahead_def rank_le_3)
next
  case False
  have "rank (b_statusClient (cx_buf x)) \<le> rank READ_RESPONSE"
    using c buf_wfD(3) [OF x] by (cases "b_statusClient (cx_buf x)") auto
  then have "ahead (cx_buf x) (proofSendBuf s (cx_buf x))"
    by (cases "cx_buf x" rule: proofSendBuf_cases [where s = s]) (simp_all add: ahead_def rank_le_3)
  with False show ?thesis by (simp add: proofSend_def)
qed

text \<open>
  C27: the two states of an exchange only move forward, the client's from writing the request
  heading over its body and reading the response to the end, the server's from reading the
  request over writing the response heading and its body to the end, whatever is read and
  whatever is confirmed as sent before the exchange is over, and also when a call throws.
\<close>

theorem exchange_moves_forward:
  assumes "buf_wf x" and "others_keep env"
  shows "ends_in (\<lambda>x'. ahead (cx_buf x) (cx_buf x')) (readFromSocket env s x)
    \<and> (b_statusClient (cx_buf x) \<noteq> END_WORK
        \<longrightarrow> ends_in (\<lambda>x'. ahead (cx_buf x) (cx_buf x')) (proofSend t x))"
  using assms readFromSocket_ahead proofSend_ahead by blast

theorem exchange_moves_forward_witness:
  "ends_in (\<lambda>x'. ahead new_BufferImpl (cx_buf x'))
     (readFromSocket (fix_env (\<lambda>c. c)) ''GET / HTTP/1.0'' (fix_ctx new_BufferImpl (fix_cash 0 [])))
   \<and> ends_in (\<lambda>x'. ahead new_BufferImpl (cx_buf x')) (proofSend ''x'' (fix_ctx new_BufferImpl (fix_cash 0 [])))"
  using exchange_moves_forward [of "fix_ctx new_BufferImpl (fix_cash 0 [])" "fix_env (\<lambda>c. c)"
      "''GET / HTTP/1.0''" "''x''", OF _ others_keep_fix]
  by (simp add: fix_ctx_def buf_wf_def new_BufferImpl_def Let_def)

section \<open>The only way to a null pointer\<close>

text \<open>
  The well-formedness that every call keeps: beyond \<open>buf_wf\<close>, the request is parsed once a
  server is to be dialled, and an exchange that ended with the error text has nothing to send.
\<close>

definition buf_safe :: "BufCtx \<Rightarrow> bool" where
  "buf_safe x \<longleftrightarrow> buf_wf x
     \<and> (b_isReadyConnectHttpServer (cx_buf x) \<longrightarrow> b_resultParseHeading (cx_buf x) \<noteq> None)
     \<and> (b_statusClient (cx_buf x) = END_WORK \<and> b_error (cx_buf x) \<and> b_isEndSend (cx_buf x)
         \<longrightarrow> b_isDataGetCash (cx_buf x) \<or> b_statusHttpServer (cx_buf x) \<noteq> READ_REQUEST)"

lemma buf_safe_new: "buf_safe \<lparr>cx_buf = new_BufferImpl, cx_cash = c, cx_signals = sg\<rparr>"
  by (simp add: buf_safe_def buf_wf_new) (simp add: new_BufferImpl_def)

lemma buf_safe_cong: "cx_buf x' = cx_buf x \<Longrightarrow> buf_safe x' = buf_safe x"
  by (simp add: buf_safe_def buf_wf_def)

text \<open>
  The race of the cache: the request heading completed by \<open>s\<close> is found by the first of the two
  look-ups and not by the second.
\<close>

definition evicted_in_between :: "Env \<Rightarrow> string \<Rightarrow> BufCtx \<Rightarrow> bool" where
  "evicted_in_between env s x \<longleftrightarrow> (let b = b_buf (cx_buf (received s x));
       h = substr0 b (snd (findEndHeading b))
     in b_statusClient (cx_buf x) = WRITE_REQUEST_HEADING \<and> fst (findEndHeading b) = END_HEADING
        \<and> \<not> isl (parsingHeading h) \<and> isElementInCash (hash env) (testLock env) h (cx_cash x)
        \<and> fst (findResponseInCash (hash env) (cashLock env) h (others env (cx_cash x))) = None)"

lemma wrightRequestHeading_safe:
  assumes x: "buf_safe (received s x)" and c: "b_statusClient (cx_buf x) = WRITE_REQUEST_HEADING"
  shows "if evicted_in_between env s x then wrightRequestHeading env (received s x) = Fault NullDereference
    else ends_in buf_safe (wrightRequestHeading env (received s x))"
proof -
  let ?y = "received s x"
  have r: "requesting ?y" using x c by (simp add: requesting_def buf_safe_def)
  note f = requesting_fields [OF r]
  show ?thesis
  proof (cases ?y rule: wrightRequestHeading_cases [where env = env])
    case wait
    with x show ?thesis by (simp add: evicted_in_between_def Let_def)
  next
    case bad
    with f x show ?thesis
      by (simp add: evicted_in_between_def Let_def) (simp add: buf_safe_def buf_wf_def Let_def)
  next
    case (hit r)
    define h where "h = substr0 (b_buf (cx_buf ?y)) (snd (findEndHeading (b_buf (cx_buf ?y))))"
    define g where "g = findResponseInCash (hash env) (cashLock env) h (others env (cx_cash x))"
    have e: "evicted_in_between env s x \<longleftrightarrow> fst g = None"
      using hit(1-3) c by (simp add: evicted_in_between_def Let_def request_hit_def flip: h_def g_def)
    show ?thesis
    proof (cases "fst g")
      case None
      with e hit(4) show ?thesis by (simp add: Let_def on_element_def flip: h_def g_def)
    next
      case (Some a)
      with e hit(4) f show ?thesis
        by (simp add: Let_def flip: h_def g_def) (simp add: buf_safe_def buf_wf_def Let_def)
    qed
  next
    case (miss r)
    then have "\<not> evicted_in_between env s x"
      by (simp add: evicted_in_between_def Let_def request_hit_def)
    with miss(4) f show ?thesis
      by (simp add: forward_request_def) (simp add: buf_safe_def buf_wf_def Let_def)
  qed
qed

lemma ends_in_both: "ends_in P m \<Longrightarrow> ends_in Q m \<Longrightarrow> (\<And>s. P s \<Longrightarrow> Q s \<Longrightarrow> R s) \<Longrightarrow> ends_in R m"
  by (cases m) auto

lemma relaying_safe:
  "buf_wf x \<Longrightarrow> b_statusHttpServer (cx_buf x) \<in> {WRITE_RESPONSE_HEADING, WRITE_RESPONSE_BODY} \<Longrightarrow> buf_safe x"
  using buf_wfD(3) [of x] by (auto simp: buf_safe_def)

lemma wrightResponseHeading_safe:
  assumes x: "responding x"
  shows "ends_in buf_safe (wrightResponseHeading env x)"
proof (rule ends_in_both [OF wrightResponseHeading_wf [OF x] _ relaying_safe])
  let ?hdg = "substr0 (b_buf (cx_buf x)) (snd (findEndHeading (b_buf (cx_buf x))))"
  let ?h = "parsingResponseHeading ?hdg"
  let ?P = "\<lambda>x. b_statusHttpServer (cx_buf x) \<in> {WRITE_RESPONSE_HEADING, WRITE_RESPONSE_BODY}"
  have "ends_in ?P (startResponseBody ?hdg ?h y)" if "responding y" for y
    using that buf_wfD(1) [of y] startResponseBody_eq [of y ?hdg ?h] by (auto simp: responding_def)
  then have "ends_in ?P (bind (addResponseToCash env ?hdg ?h x) (\<lambda>_ y. startResponseBody ?hdg ?h y))"
    by (rule ends_in_bind [OF addResponseToCash_wf [OF x]]) (auto simp: responding_def)
  with x show "ends_in ?P (wrightResponseHeading env x)"
    by (cases "findEndHeading (b_buf (cx_buf x))") (simp add: wrightResponseHeading_def Let_def responding_def)
qed

lemma wrightResponseBody_safe:
  assumes x: "buf_wf x" and st: "b_statusHttpServer (cx_buf x) = WRITE_RESPONSE_BODY"
  shows "ends_in buf_safe (wrightResponseBody env s x)"
proof (rule ends_in_both [OF wrightResponseBody_wf [OF x st] _ relaying_safe])
  show "ends_in (\<lambda>x. b_statusHttpServer (cx_buf x) \<in> {WRITE_RESPONSE_HEADING, WRITE_RESPONSE_BODY})
      (wrightResponseBody env s x)"
    using buf_wfD(1) [OF x] wrightResponseBody_eq [of x env s] st by auto
qed

lemma received_safe: "buf_safe x \<Longrightarrow> buf_safe (received s x)"
  by (simp add: buf_safe_def) (simp add: received_def)

lemma readFromSocket_safe:
  assumes x: "buf_safe x"
  shows "if evicted_in_between env s x then readFromSocket env s x = Fault NullDereference
    else ends_in buf_safe (readFromSocket env s x)"
proof -
  let ?y = "received s x"
  have y: "buf_safe ?y" by (rule received_safe [OF x])
  then have wf: "buf_wf ?y" by (simp add: buf_safe_def)
  have no: "b_statusClient (cx_buf x) \<noteq> WRITE_REQUEST_HEADING \<Longrightarrow> \<not> evicted_in_between env s x"
    by (simp add: evicted_in_between_def Let_def)
  show ?thesis
  proof (cases "b_statusClient (cx_buf x)")
    case WRITE_REQUEST_HEADING
    with wrightRequestHeading_safe [OF y] show ?thesis by (simp add: readFromSocket_received)
  next
    case WRITE_REQUEST_BODY
    moreover have "ends_in buf_safe (wrightRequestBody s ?y)"
      using y WRITE_REQUEST_BODY by (simp add: wrightRequestBody_def buf_safe_def buf_wf_def Let_def)
    ultimately show ?thesis using no by (simp add: readFromSocket_received)
  qed (use y wf no in \<open>simp_all add: readFromSocket_received wrightResponseBody_safe
      wrightResponseHeading_safe responding_def\<close>)
qed

lemma proofSend_safe:
  assumes x: "buf_safe x" shows "ends_in buf_safe (proofSend s x)"
proof (cases "b_isDataGetCash (cx_buf x)")
  case True
  have wf: "buf_wf x" using x by (simp add: buf_safe_def)
  note fields = reading_cash_fields [OF wf True]
  from fields(3) obtain a where a: "b_cashElement (cx_buf x) = Some a" ..
  from True a fields(1,2) x show ?thesis
    by (simp add: proofSend_def proofSendCash_def buf_safe_def buf_wf_def Let_def)
next
  case False
  have wf: "buf_wf x" using x by (simp add: buf_safe_def)
  note d = buf_wfD [OF wf]
  have "buf_safe (set_buf (proofSendBuf s (cx_buf x)) x)"
  proof (cases "cx_buf x" rule: proofSendBuf_cases [where s = s])
    case sent_request
    have "\<not> b_error (cx_buf x)"
      using sent_request(1-3) d(5) x False by (auto simp: buf_safe_def)
    with sent_request d False show ?thesis by (simp add: buf_safe_def buf_wf_def Let_def)
  next
    case more
    with x show ?thesis by (simp add: buf_safe_def buf_wf_def Let_def)
  next
    case pause
    with x show ?thesis by (simp add: buf_safe_def buf_wf_def Let_def)
  next
    case failed
    with x False show ?thesis by (simp add: buf_safe_def buf_wf_def Let_def)
  next
    case sent_response
    with x d(1,3) False show ?thesis by (simp add: buf_safe_def buf_wf_def Let_def)
  next
    case sent_other
    with x show ?thesis by (simp add: buf_safe_def buf_wf_def Let_def)
  qed
  with False show ?thesis by (simp add: proofSend_def)
qed

lemma isReadyToSend_safe:
  assumes x: "buf_safe x" shows "ends_in buf_safe (isReadyToSend x)"
proof (cases "b_isDataGetCash (cx_buf x)")
  case True
  have wf: "buf_wf x" using x by (simp add: buf_safe_def)
  from reading_cash_fields(3) [OF wf True] obtain a where a: "b_cashElement (cx_buf x) = Some a" ..
  have "buf_safe (set_buf ((cx_buf x)\<lparr>b_isReadyToSend := True\<rparr>) x)"
    using x by (simp add: buf_safe_def buf_wf_def Let_def)
  with x show ?thesis by (simp add: isReadyToSend_def Let_def a)
qed (use x in \<open>simp add: isReadyToSend_def Let_def\<close>)

lemma sendBuf_safe:
  assumes x: "buf_safe x"
  shows "ends_in buf_safe (sendBuf env t x)
    \<or> b_isDataGetCash (cx_buf x) \<and> sendBuf env t x = Fault OutOfBounds"
proof (cases "b_isDataGetCash (cx_buf x)")
  case True
  have wf: "buf_wf x" using x by (simp add: buf_safe_def)
  from reading_cash_fields(3) [OF wf True] obtain a where a: "b_cashElement (cx_buf x) = Some a" ..
  have "buf_safe (x\<lparr>cx_cash := c\<rparr>)" for c using x by (simp cong: buf_safe_cong)
  with x True a show ?thesis
    by (simp add: sendBuf_def Let_def split: option.splits)
qed (use x in \<open>simp add: sendBuf_def Let_def\<close>)

section \<open>What is sent is what was read\<close>

lemma BUF_SIZE_1 [simp]: "BUF_SIZE - 1 = 524287"
  by (simp add: BUF_SIZE_def)

text \<open>
  Sending from the buffer loses and repeats nothing. The bytes \<open>sendBuf\<close> hands out, whatever
  the string passed in held, followed by the bytes left after they are confirmed by \<open>proofSend\<close>
  are the bytes the buffer held; a chunk is at most \<open>BUF_SIZE - 1\<close> bytes, and it is empty
  only when the buffer is.
\<close>

theorem chunk_plus_rest:
  assumes "\<not> b_isDataGetCash (cx_buf x)"
  shows "\<exists>s x'. sendBuf env t x = Done s x \<and> proofSend s x = Done () x'
    \<and> s @ b_buf (cx_buf x') = b_buf (cx_buf x) \<and> length s \<le> 524287
    \<and> (s = [] \<longleftrightarrow> b_buf (cx_buf x) = [])"
proof -
  define n where "n = min 524287 (length (b_buf (cx_buf x)))"
  have "sendBuf env t x = Done (take n (b_buf (cx_buf x))) x"
    using assms by (auto simp: sendBuf_def Let_def n_def resize_def min_def)
  moreover have "b_buf (proofSendBuf s b) = drop (length s) (b_buf b)" for s b
    by (auto simp: proofSendBuf_def Let_def)
  then have "proofSend (take n (b_buf (cx_buf x))) x =
      Done () (set_buf (proofSendBuf (take n (b_buf (cx_buf x))) (cx_buf x)) x)"
    "b_buf (proofSendBuf (take n (b_buf (cx_buf x))) (cx_buf x)) = drop n (b_buf (cx_buf x))"
    using assms by (simp_all add: proofSend_def n_def)
  moreover have "take n (b_buf (cx_buf x)) = [] \<longleftrightarrow> b_buf (cx_buf x) = []"
    by (auto simp: n_def min_def split: if_splits)
  moreover have "length (take n (b_buf (cx_buf x))) \<le> 524287"
    by (simp add: n_def)
  ultimately show ?thesis
    by (metis append_take_drop_id set_buf_simps(1))
qed

theorem chunk_plus_rest_witness:
  "\<exists>s x'. sendBuf (fix_env (\<lambda>c. c)) ''zz'' (fix_ctx (new_BufferImpl\<lparr>b_buf := ''abc''\<rparr>) (fix_cash 0 [])) =
        Done s (fix_ctx (new_BufferImpl\<lparr>b_buf := ''abc''\<rparr>) (fix_cash 0 []))
     \<and> proofSend s (fix_ctx (new_BufferImpl\<lparr>b_buf := ''abc''\<rparr>) (fix_cash 0 [])) = Done () x'
     \<and> s @ b_buf (cx_buf x') = ''abc''"
  using chunk_plus_rest [of "fix_ctx (new_BufferImpl\<lparr>b_buf := ''abc''\<rparr>) (fix_cash 0 [])" "fix_env (\<lambda>c. c)" "''zz''"]
  by (auto simp: fix_ctx_def new_BufferImpl_def)

section \<open>The body of a response\<close>

text \<open>A sequence of reads, and the state of a buffer that mirrors a response into element \<open>a\<close>.\<close>

fun reads :: "Env \<Rightarrow> string list \<Rightarrow> BufCtx \<Rightarrow> (unit, BufCtx) outcome" where
  "reads env [] x = Done () x"
| "reads env (s # ss) x = bind (readFromSocket env s x) (\<lambda>_ x. reads env ss x)"

definition downloading :: "nat \<Rightarrow> BufCtx \<Rightarrow> bool" where
  "downloading a x \<longleftrightarrow> b_statusClient (cx_buf x) = READ_RESPONSE
     \<and> b_statusHttpServer (cx_buf x) = WRITE_RESPONSE_BODY
     \<and> b_isHaveContentLengthResponse (cx_buf x) \<and> b_isAddDataToCash (cx_buf x)
     \<and> b_cashElement (cx_buf x) = Some a"

abbreviation element_of :: "BufCtx \<Rightarrow> nat \<Rightarrow> CashElement" where
  "element_of x a \<equiv> store (cx_cash x) a"

lemma downloading_step:
  assumes d: "downloading a x" and w: "wrLock env = SUCCESS"
  shows "\<exists>y. readFromSocket env s x = Done () y \<and> downloading a y
     \<and> b_lengthBody (cx_buf y) = b_lengthBody (cx_buf x) - size_of s
     \<and> e_cash (element_of y a) = e_cash (element_of x a) @ s
     \<and> (b_isEndSend (cx_buf y) \<longleftrightarrow> b_isEndSend (cx_buf x)
          \<or> sint (b_lengthBody (cx_buf x) - size_of s) \<le> 0)
     \<and> (isDownloadEnd (element_of y a) \<longleftrightarrow> isDownloadEnd (element_of x a)
          \<or> sint (b_lengthBody (cx_buf x) - size_of s) \<le> 0)"
proof -
  from d have f: "b_statusClient (cx_buf x) = READ_RESPONSE"
    "b_statusHttpServer (cx_buf x) = WRITE_RESPONSE_BODY"
    "b_isHaveContentLengthResponse (cx_buf x)" "b_isAddDataToCash (cx_buf x)"
    "b_cashElement (cx_buf x) = Some a"
    by (simp_all add: downloading_def)
  have eval: "readFromSocket env s x = wrightResponseBody env s (received s x)"
    by (simp add: readFromSocket_received f)
  define app where "app = appendStringToCash (wrLock env) (subsLock env) s"
  have app: "e_cash (fst (app e)) = e_cash e @ s" "isDownloadEnd (fst (app e)) = isDownloadEnd e" for e
    using w by (simp_all add: app_def appendStringToCash_def isDownloadEnd_def Let_def)
  show ?thesis
  proof (cases "sint (b_lengthBody (cx_buf x) - size_of s) \<le> 0")
    case True
    then show ?thesis
      unfolding eval
      by (simp add: wrightResponseBody_def Let_def f app downloading_def flip: app_def)
         (simp add: setDownloadEnd_def isDownloadEnd_def)
  next
    case False
    then show ?thesis
      unfolding eval
      by (simp add: wrightResponseBody_def Let_def f app downloading_def flip: app_def)
  qed
qed

lemma downloading_reads:
  assumes "wrLock env = SUCCESS"
  shows "downloading a x \<Longrightarrow> - (2 ^ 62) - 2 ^ 61 \<le> sint (b_lengthBody (cx_buf x)) - int (length (concat ss))
    \<Longrightarrow> sint (b_lengthBody (cx_buf x)) < 2 ^ 62 \<Longrightarrow> length (concat ss) < 2 ^ 61 \<Longrightarrow>
   \<exists>y. reads env ss x = Done () y \<and> downloading a y
     \<and> e_cash (element_of y a) = e_cash (element_of x a) @ concat ss
     \<and> sint (b_lengthBody (cx_buf y)) = sint (b_lengthBody (cx_buf x)) - int (length (concat ss))
     \<and> (b_isEndSend (cx_buf y) \<longleftrightarrow> b_isEndSend (cx_buf x)
          \<or> ss \<noteq> [] \<and> sint (b_lengthBody (cx_buf x)) \<le> int (length (concat ss)))
     \<and> (isDownloadEnd (element_of y a) \<longleftrightarrow> isDownloadEnd (element_of x a)
          \<or> ss \<noteq> [] \<and> sint (b_lengthBody (cx_buf x)) \<le> int (length (concat ss)))"
proof (induction ss arbitrary: x)
  case (Cons s ss)
  from downloading_step [OF Cons.prems(1) assms(1), of s] obtain y where
    y: "readFromSocket env s x = Done () y" "downloading a y"
    "b_lengthBody (cx_buf y) = b_lengthBody (cx_buf x) - size_of s"
    "e_cash (element_of y a) = e_cash (element_of x a) @ s"
    "b_isEndSend (cx_buf y) \<longleftrightarrow> b_isEndSend (cx_buf x)
        \<or> sint (b_lengthBody (cx_buf x) - size_of s) \<le> 0"
    "isDownloadEnd (element_of y a) \<longleftrightarrow> isDownloadEnd (element_of x a)
        \<or> sint (b_lengthBody (cx_buf x) - size_of s) \<le> 0" by blast
  have ls: "length s < 2 ^ 61" using Cons.prems(4) by simp
  have len: "sint (b_lengthBody (cx_buf x) - size_of s) = sint (b_lengthBody (cx_buf x)) - int (length s)"
    using Cons.prems(2-4) ls by (subst sint_diff_small) (simp_all add: sint_size_of)
  have "- (2 ^ 62) - 2 ^ 61 \<le> sint (b_lengthBody (cx_buf y)) - int (length (concat ss))"
    "sint (b_lengthBody (cx_buf y)) < 2 ^ 62" "length (concat ss) < 2 ^ 61"
    using Cons.prems(2-4) by (simp_all add: y(3) len)
  from Cons.IH [OF y(2) this] obtain z where z:
    "reads env ss y = Done () z" "downloading a z"
    "e_cash (element_of z a) = e_cash (element_of y a) @ concat ss"
    "sint (b_lengthBody (cx_buf z)) = sint (b_lengthBody (cx_buf y)) - int (length (concat ss))"
    "b_isEndSend (cx_buf z) \<longleftrightarrow> b_isEndSend (cx_buf y)
        \<or> ss \<noteq> [] \<and> sint (b_lengthBody (cx_buf y)) \<le> int (length (concat ss))"
    "isDownloadEnd (element_of z a) \<longleftrightarrow> isDownloadEnd (element_of y a)
        \<or> ss \<noteq> [] \<and> sint (b_lengthBody (cx_buf y)) \<le> int (length (concat ss))" by blast
  have "reads env (s # ss) x = Done () z" by (simp add: y(1) z(1))
  moreover have "sint (b_lengthBody (cx_buf x) - size_of s) \<le> 0
      \<or> ss \<noteq> [] \<and> sint (b_lengthBody (cx_buf y)) \<le> int (length (concat ss))
    \<longleftrightarrow> sint (b_lengthBody (cx_buf x)) \<le> int (length (concat (s # ss)))"
    by (cases ss) (auto simp: y(3) len)
  ultimately show ?case
    using z y(3-6) len by (intro exI [of _ z]) auto
qed auto

text \<open>
  C5: a response is mirrored into the cache byte for byte, and its length counted down exactly.
  While a buffer downloads into an element, any sequence of reads appends their bytes, in
  order, to the element; the counter falls by their number; and the exchange and the
  element's download are marked as ended exactly when the announced number of bytes is reached.
\<close>

theorem response_mirrored:
  assumes "downloading a x" and "wrLock env = SUCCESS"
    and "\<bar>sint (b_lengthBody (cx_buf x))\<bar> < 2 ^ 62" and "length (concat ss) < 2 ^ 61"
  shows "\<exists>y. reads env ss x = Done () y
     \<and> e_cash (element_of y a) = e_cash (element_of x a) @ concat ss
     \<and> sint (b_lengthBody (cx_buf y)) = sint (b_lengthBody (cx_buf x)) - int (length (concat ss))
     \<and> (b_isEndSend (cx_buf y) \<longleftrightarrow> b_isEndSend (cx_buf x)
          \<or> ss \<noteq> [] \<and> sint (b_lengthBody (cx_buf x)) \<le> int (length (concat ss)))
     \<and> (isDownloadEnd (element_of y a) \<longleftrightarrow> isDownloadEnd (element_of x a)
          \<or> ss \<noteq> [] \<and> sint (b_lengthBody (cx_buf x)) \<le> int (length (concat ss)))"
proof -
  have "- (2 ^ 62) - 2 ^ 61 \<le> sint (b_lengthBody (cx_buf x)) - int (length (concat ss))" "sint (b_lengthBody (cx_buf x)) < 2 ^ 62"
    using assms(3,4) unfolding abs_less_iff by simp_all
  from downloading_reads [OF assms(2,1) this assms(4)] show ?thesis by blast
qed

definition fix_download :: BufCtx where
  "fix_download = fix_ctx (new_BufferImpl\<lparr>b_statusClient := READ_RESPONSE,
     b_statusHttpServer := WRITE_RESPONSE_BODY, b_isHaveContentLengthResponse := True,
     b_isAddDataToCash := True, b_cashElement := Some 0, b_lengthBody := 3\<rparr>)
     (fix_cash 0 [fix_element 0 ''ab''])"

theorem response_mirrored_witness:
  "\<exists>y. reads (fix_env (\<lambda>c. c)) [''a'', ''bc''] fix_download = Done () y
     \<and> e_cash (element_of y 0) = ''abc'' \<and> b_isEndSend (cx_buf y) \<and> isDownloadEnd (element_of y 0)"
proof -
  have "downloading 0 fix_download" "wrLock (fix_env (\<lambda>c. c)) = SUCCESS"
    "\<bar>sint (b_lengthBody (cx_buf fix_download))\<bar> < 2 ^ 62" "length (concat [''a'', ''bc'']) < 2 ^ 61"
    by (simp_all add: downloading_def fix_download_def fix_ctx_def fix_env_def)
  from response_mirrored [OF this] show ?thesis
    by (fastforce simp: fix_download_def fix_ctx_def new_BufferImpl_def fixture)
qed

section \<open>The heading of a response\<close>

text \<open>A response that \<open>isCashingData\<close> accepts for the request the buffer holds.\<close>

definition cacheable :: "ResultParseHeading \<Rightarrow> BufCtx \<Rightarrow> bool" where
  "cacheable h x \<longleftrightarrow> \<not> responseWithError h \<and> haveContentLength h
     \<and> size_of (b_buf (cx_buf x)) + contentLength h < SIZE_EACH_CASH_ELEMENT
     \<and> map_option rtype (b_resultParseHeading (cx_buf x)) = Some GET_REQUEST"

lemma begin_download_element [simp]:
  "listCash (cx_cash (begin_download env a x)) = listCash (cx_cash x)"
  "e_cash (element_of (begin_download env a x) a) = e_cash (fst
     (appendStringToCash (wrLock env) (subsLock env) (b_buf (cx_buf x)) (element_of x a)))"
  by (simp_all add: begin_download_def)

lemma begin_download_hash [simp]:
  "e_hashRequestHeading (element_of (begin_download env a x) b) = e_hashRequestHeading (element_of x b)"
  by (cases "b = a") (simp_all add: begin_download_def)

lemma find_hash_cong:
  "(\<And>a. getHash (s a) = getHash (t a)) \<Longrightarrow> find_hash s g l = find_hash t g l"
  by (induction l) auto

lemma lookup_begin_download:
  "fst (findResponseInCash h l r (cx_cash (begin_download env a x))) = fst (findResponseInCash h l r (cx_cash x))"
  using find_hash_cong [of "store (cx_cash (begin_download env a x))" "store (cx_cash x)"]
  by (simp add: findResponseInCash_def getHash_def split: option.split)

lemma addStringToCash_fresh:
  assumes "addStringToCash h SUCCESS r n c = Done (Some a) c'" shows "e_cash (store c' a) = []"
proof (cases rule: addStringToCash_cases [of h r n c])
  case (finish c1)
  with assms have "add_finish h r (n + size_of r) c1 = Done (Some a) c'" by simp
  then show ?thesis by (auto simp: add_finish_Done dest: new_CashElementImpl_Inr)
qed (use assms in simp)

lemma response_stored_lemma:
  fixes x s
  defines "b \<equiv> b_buf (cx_buf x) @ s"
  defines "hdg \<equiv> substr0 b (snd (findEndHeading b))"
  defines "h \<equiv> parsingResponseHeading hdg"
  assumes st: "b_statusClient (cx_buf x) = READ_RESPONSE" "b_statusHttpServer (cx_buf x) = WRITE_RESPONSE_HEADING"
    and fe: "fst (findEndHeading b) = END_HEADING" and ca: "cacheable h (received s x)"
    and locks: "testLock env = SUCCESS" "cashLock env = SUCCESS" "wrLock env = SUCCESS"
    and wf: "wf_cash (others env (cx_cash x))"
    and absent: "\<not> isElementInCash (hash env) SUCCESS (b_requestHeading (cx_buf x)) (cx_cash x)"
      "\<not> isElementInCash (hash env) SUCCESS (b_requestHeading (cx_buf x)) (others env (cx_cash x))"
    and room: "addStringToCash (hash env) SUCCESS (b_requestHeading (cx_buf x))
      (contentLength h + size_of hdg) (others env (cx_cash x)) = Done (Some a) c"
  shows "\<exists>y. readFromSocket env s x = Done () y \<and> downloading a y
    \<and> fst (findResponseInCash (hash env) SUCCESS (b_requestHeading (cx_buf x)) (cx_cash y)) = Some a
    \<and> e_cash (element_of y a) = b
    \<and> b_lengthBody (cx_buf y) = contentLength h - (size_of b - size_of hdg)
    \<and> b_isDataGetCash (cx_buf y) = b_isDataGetCash (cx_buf x)
    \<and> b_isReadyConnectHttpServer (cx_buf y) = b_isReadyConnectHttpServer (cx_buf x)
    \<and> cx_buf y = (cx_buf x)\<lparr>b_buf := b, b_cashElement := Some a, b_isAddDataToCash := True,
        b_isReadyToSend := True, b_statusHttpServer := WRITE_RESPONSE_BODY, b_isHaveContentLengthResponse := True,
        b_lengthBody := contentLength h - (size_of b - size_of hdg),
        b_isEndSend := b_isEndSend (cx_buf x) \<or> sint (contentLength h - (size_of b - size_of hdg)) \<le> 0\<rparr>
    \<and> isDownloadEnd (element_of y a) = (sint (contentLength h - (size_of b - size_of hdg)) \<le> 0)"
proof -
  let ?y = "received s x"
  have y: "b_buf (cx_buf ?y) = b" using st by (simp add: received_def b_def)
  define z where "z = begin_download env a (?y\<lparr>cx_cash := c,
       cx_buf := (cx_buf ?y)\<lparr>b_cashElement := Some a, b_isAddDataToCash := True\<rparr>\<rparr>)"
  have "isCashingData (ucast (size_of hdg)) h ?y = Done True ?y"
    using ca by (auto simp: isCashingData_def cacheable_def y)
  then have add: "addResponseToCash env hdg h ?y = Done () z"
    using locks absent room
    by (simp add: addResponseToCash_def Let_def z_def begin_download_def)
  from addStringToCash_fresh [OF room] have fresh: "e_cash (store c a) = []" .
  have zc: "e_cash (element_of z a) = b"
    using locks fresh by (simp add: z_def appendStringToCash_def Let_def y)
  from addStringToCash_lookup [OF wf absent(2) room]
  have zf: "fst (findResponseInCash (hash env) SUCCESS (b_requestHeading (cx_buf x)) (cx_cash z)) = Some a"
    by (simp add: z_def lookup_begin_download)
  have zb: "cx_buf z = (cx_buf ?y)\<lparr>b_cashElement := Some a, b_isAddDataToCash := True\<rparr>"
    by (simp add: z_def)
  define left where "left = contentLength h - (size_of b - size_of hdg)"
  define v where "v = set_buf ((cx_buf z)\<lparr>b_isReadyToSend := True,
     b_statusHttpServer := WRITE_RESPONSE_BODY, b_isHaveContentLengthResponse := True,
     b_lengthBody := left, b_isEndSend := b_isEndSend (cx_buf z) \<or> sint left \<le> 0\<rparr>) z"
  define w where "w = (if sint left \<le> 0 then upd_element a (\<lambda>e. (setDownloadEnd True e, [])) v else v)"
  have "startResponseBody hdg h z = Done () w"
    using ca by (simp add: startResponseBody_def Let_def zb y cacheable_def w_def v_def flip: left_def)
  moreover have "readFromSocket env s x = bind (addResponseToCash env hdg h ?y) (\<lambda>_ x. startResponseBody hdg h x)"
    using st fe by (cases "findEndHeading b")
      (simp add: readFromSocket_received wrightResponseHeading_def Let_def y hdg_def h_def)
  moreover have "downloading a w" "b_lengthBody (cx_buf w) = left"
    using st by (simp_all add: w_def v_def zb downloading_def)
  moreover have "e_cash (element_of w a) = b"
    using zc by (simp add: w_def v_def)
  moreover have "getHash (element_of w d) = getHash (element_of z d)" for d
    by (cases "d = a") (simp_all add: w_def v_def getHash_def)
  then have "fst (findResponseInCash (hash env) SUCCESS (b_requestHeading (cx_buf x)) (cx_cash w)) = Some a"
    using zf find_hash_cong [of "element_of w" "element_of z"]
    by (simp add: findResponseInCash_def w_def v_def split: option.splits)
  moreover have "b_isDataGetCash (cx_buf w) = b_isDataGetCash (cx_buf x)"
    "b_isReadyConnectHttpServer (cx_buf w) = b_isReadyConnectHttpServer (cx_buf x)"
    by (simp_all add: w_def v_def zb received_def)
  moreover have "cx_buf w = (cx_buf x)\<lparr>b_buf := b, b_cashElement := Some a, b_isAddDataToCash := True,
      b_isReadyToSend := True, b_statusHttpServer := WRITE_RESPONSE_BODY, b_isHaveContentLengthResponse := True,
      b_lengthBody := left, b_isEndSend := b_isEndSend (cx_buf x) \<or> sint left \<le> 0\<rparr>"
    using st by (simp add: w_def v_def zb received_def b_def)
  moreover have "isDownloadEnd (element_of w a) = (sint left \<le> 0)"
    by (simp add: w_def v_def z_def begin_download_def isDownloadEnd_def setDownloadEnd_def setIsServerConnect_def Let_def)
  ultimately show ?thesis
    by (intro exI [of _ w]) (simp add: add left_def)
qed

text \<open>
  C4: a cacheable response is found again under its request. When the heading of such a response
  is complete, its request is not in the cache, and the cache has room for it, the cache
  afterwards returns, for that request, an element that holds exactly the bytes received so far,
  and the buffer goes on downloading into it with the announced length less the bytes of the
  body that came with the heading.
\<close>

theorem response_stored:
  fixes x s
  defines "b \<equiv> b_buf (cx_buf x) @ s"
  defines "hdg \<equiv> substr0 b (snd (findEndHeading b))"
  defines "h \<equiv> parsingResponseHeading hdg"
  assumes st: "b_statusClient (cx_buf x) = READ_RESPONSE" "b_statusHttpServer (cx_buf x) = WRITE_RESPONSE_HEADING"
    and fe: "fst (findEndHeading b) = END_HEADING" and ca: "cacheable h (received s x)"
    and locks: "testLock env = SUCCESS" "cashLock env = SUCCESS" "wrLock env = SUCCESS"
    and wf: "wf_cash (others env (cx_cash x))"
    and absent: "\<not> isElementInCash (hash env) SUCCESS (b_requestHeading (cx_buf x)) (cx_cash x)"
      "\<not> isElementInCash (hash env) SUCCESS (b_requestHeading (cx_buf x)) (others env (cx_cash x))"
    and room: "addStringToCash (hash env) SUCCESS (b_requestHeading (cx_buf x))
      (contentLength h + size_of hdg) (others env (cx_cash x)) = Done (Some a) c"
  shows "\<exists>y. readFromSocket env s x = Done () y \<and> downloading a y
    \<and> fst (findResponseInCash (hash env) SUCCESS (b_requestHeading (cx_buf x)) (cx_cash y)) = Some a
    \<and> e_cash (element_of y a) = b
    \<and> b_lengthBody (cx_buf y) = contentLength h - (size_of b - size_of hdg)
    \<and> b_isDataGetCash (cx_buf y) = b_isDataGetCash (cx_buf x)
    \<and> b_isReadyConnectHttpServer (cx_buf y) = b_isReadyConnectHttpServer (cx_buf x)"
  using st fe ca locks wf absent room unfolding b_def hdg_def h_def using response_stored_lemma by blast

definition fix_response :: string where
  "fix_response = ''HTTP/1.1 200 OK'' @ crlf @ ''Content-Length: 3'' @ crlf @ crlf"

definition fix_waiting :: "CashImpl \<Rightarrow> BufCtx" where
  "fix_waiting c = fix_ctx (new_BufferImpl\<lparr>b_statusClient := READ_RESPONSE,
     b_statusHttpServer := WRITE_RESPONSE_HEADING, b_requestHeading := ''GET'',
     b_isClientConnect := True, b_isServerConnect := True,
     b_resultParseHeading := Some (new_ResultParseHeading\<lparr>rtype := GET_REQUEST\<rparr>)\<rparr>) c"

theorem response_stored_witness:
  "\<exists>y. readFromSocket (fix_env (\<lambda>c. c)) (fix_response @ ''a'') (fix_waiting (fix_cash 0 [])) = Done () y
     \<and> fst (findResponseInCash fix_hash SUCCESS ''GET'' (cx_cash y)) = Some 0
     \<and> e_cash (element_of y 0) = fix_response @ ''a'' \<and> b_lengthBody (cx_buf y) = 2"
proof -
  let ?x = "fix_waiting (fix_cash 0 [])"
  let ?b = "fix_response @ ''a''"
  have b: "b_buf (cx_buf ?x) @ ?b = ?b" "b_requestHeading (cx_buf ?x) = ''GET''"
    "cx_cash ?x = fix_cash 0 []" "others (fix_env (\<lambda>c. c)) c = c" "hash (fix_env (\<lambda>c. c)) = fix_hash" for c
    by (simp_all add: fix_waiting_def fix_ctx_def new_BufferImpl_def fix_env_def)
  have fe: "findEndHeading ?b = (END_HEADING, 38)" "substr0 ?b 38 = fix_response" by code_simp+
  have ca: "cacheable (parsingResponseHeading fix_response) (received ?b ?x)" by code_simp
  have cl: "contentLength (parsingResponseHeading fix_response) = 3" by code_simp
  have sz: "size_of fix_response = 38" "size_of ?b = 39"
    by (simp_all add: fix_response_def crlf_def size_of_def)
  obtain c where add: "addStringToCash fix_hash SUCCESS ''GET'' 41 (fix_cash 0 []) = Done (Some 0) c"
    by (simp add: cash_eval)
  have "wf_cash (fix_cash 0 [])" "\<not> isElementInCash fix_hash SUCCESS ''GET'' (fix_cash 0 [])"
    by (simp_all add: cash_eval)
  with response_stored [of ?x ?b "fix_env (\<lambda>c. c)" 0 c] ca cl sz add show ?thesis
    unfolding b fe fst_conv snd_conv
    by (fastforce simp: fix_waiting_def fix_ctx_def new_BufferImpl_def fix_env_def)
qed

section \<open>What the code does not guard\<close>

text \<open>
  The test for a cached response and the use of it are two critical sections. When another
  thread takes the entry out in between (it is idle until \<open>addCountUsers\<close>, so an insertion
  may evict it), the pointer is null and the next line calls a method through it.
\<close>

theorem eviction_race_dereferences_null:
  fixes x s
  defines "b \<equiv> b_buf (cx_buf x) @ s"
  defines "r \<equiv> substr0 b (snd (findEndHeading b))"
  assumes st: "b_statusClient (cx_buf x) = WRITE_REQUEST_HEADING" "b_isClientConnect (cx_buf x)"
    and fe: "fst (findEndHeading b) = END_HEADING" and ok: "parsingHeading r = Inr heading"
    and present: "isElementInCash (hash env) (testLock env) r (cx_cash x)"
    and evicted: "\<not> isElementInCash (hash env) SUCCESS r (others env (cx_cash x))"
  shows "readFromSocket env s x = Fault NullDereference"
proof -
  have b: "b_buf (cx_buf (received s x)) = b" using st by (simp add: received_def b_def)
  have none: "fst (findResponseInCash (hash env) l r (others env (cx_cash x))) = None" for l
    using evicted by (auto simp: findResponseInCash_def isElementInCash_def split: option.splits)
  show ?thesis
  proof (cases "received s x" rule: wrightRequestHeading_cases [where env = env])
    case (hit h)
    then show ?thesis
      unfolding b by (simp add: readFromSocket_received st Let_def none on_element_def flip: r_def)
  next
    case (bad ex)
    with ok show ?thesis by (simp add: b flip: r_def)
  qed (use fe ok present in \<open>simp_all add: b request_hit_def flip: r_def\<close>)
qed

definition fix_request :: string where
  "fix_request = ''GET / Host: a'' @ crlf @ crlf"

definition fix_other :: "CashImpl \<Rightarrow> CashImpl" where
  "fix_other c = (case addStringToCash fix_hash SUCCESS ''x'' 9 c of Done v c' \<Rightarrow> c' | _ \<Rightarrow> c)"

definition fix_new :: "CashImpl \<Rightarrow> BufCtx" where
  "fix_new c = fix_ctx (new_BufferImpl\<lparr>b_isClientConnect := True\<rparr>) c"

theorem eviction_race_dereferences_null_witness:
  "readFromSocket (fix_env fix_other) fix_request (fix_new (fix_cash 1073741820 [fix_element 0 fix_request]))
     = Fault NullDereference"
proof -
  let ?x = "fix_new (fix_cash 1073741820 [fix_element 0 fix_request])"
  have b: "b_buf (cx_buf ?x) @ fix_request = fix_request"
    by (simp add: fix_new_def fix_ctx_def new_BufferImpl_def)
  have fe: "findEndHeading fix_request = (END_HEADING, 17)" "substr0 fix_request 17 = fix_request"
    by code_simp+
  have ok: "parsingHeading fix_request = Inr (new_ResultParseHeading\<lparr>hostName := ''a'', rtype := GET_REQUEST\<rparr>)"
    by code_simp
  have present: "isElementInCash (hash (fix_env fix_other)) (testLock (fix_env fix_other)) fix_request (cx_cash ?x)"
    by code_simp
  have gone: "\<not> isElementInCash (hash (fix_env fix_other)) SUCCESS fix_request (others (fix_env fix_other) (cx_cash ?x))"
    by code_simp
  have st: "b_statusClient (cx_buf ?x) = WRITE_REQUEST_HEADING" "b_isClientConnect (cx_buf ?x)"
    by (simp_all add: fix_new_def fix_ctx_def new_BufferImpl_def)
  from eviction_race_dereferences_null [where x = ?x and s = fix_request and env = "fix_env fix_other"] show ?thesis
    unfolding b fe fst_conv snd_conv using st ok present gone by blast
qed

text \<open>
  C7: the buffer dereferences a null pointer in one situation only. From a well-formed buffer,
  with no assumption on what other threads do to the cache, \<open>readFromSocket\<close> dereferences a null
  pointer exactly when the bytes read complete a request heading that the cache holds at the
  first look-up and no longer at the second; otherwise it ends, normally or by an exception, in
  a well-formed buffer. So do \<open>proofSend\<close>, in every state, \<open>isReadyToSend\<close>, and \<open>sendBuf\<close>, but for
  an overflow of its target while it reads from the cache. A parsed heading is there to be
  copied by \<open>getParseResult\<close> whenever a server is to be dialled, and the buffer stays well-formed
  when the dialling flag is taken back and when the server's side is ended from outside.
\<close>

theorem buffer_null_dereference_iff_evicted:
  assumes "buf_safe x"
  shows "(if evicted_in_between env s x then readFromSocket env s x = Fault NullDereference
      else ends_in buf_safe (readFromSocket env s x))
    \<and> ends_in buf_safe (proofSend t x)
    \<and> ends_in buf_safe (isReadyToSend x)
    \<and> (ends_in buf_safe (sendBuf env u x)
        \<or> b_isDataGetCash (cx_buf x) \<and> sendBuf env u x = Fault OutOfBounds)
    \<and> (isReadyConnectHttpServer (cx_buf x) \<longrightarrow> getParseResult (cx_buf x) \<noteq> None)
    \<and> buf_safe (set_buf (setReadyConnectHttpServer False (cx_buf x)) x)
    \<and> buf_safe (set_buf (setStatusServer END_WORK (cx_buf x)) x)"
proof (intro conjI)
  show "isReadyConnectHttpServer (cx_buf x) \<longrightarrow> getParseResult (cx_buf x) \<noteq> None"
    using assms by (simp add: buf_safe_def buffer_accessors)
  show "buf_safe (set_buf (setReadyConnectHttpServer False (cx_buf x)) x)"
    "buf_safe (set_buf (setStatusServer END_WORK (cx_buf x)) x)"
    using assms by (simp_all add: buf_safe_def buf_wf_def buffer_accessors Let_def)
qed (fact readFromSocket_safe [OF assms] proofSend_safe [OF assms] isReadyToSend_safe [OF assms]
    sendBuf_safe [OF assms])+

theorem buffer_null_dereference_iff_evicted_witness:
  "readFromSocket (fix_env fix_other) fix_request (fix_new (fix_cash 1073741820 [fix_element 0 fix_request]))
     = Fault NullDereference
   \<and> ends_in buf_safe (readFromSocket (fix_env (\<lambda>c. c)) fix_request
       (fix_new (fix_cash 1073741820 [fix_element 0 fix_request])))"
proof -
  let ?x = "fix_new (fix_cash 1073741820 [fix_element 0 fix_request])"
  have x: "buf_safe ?x"
    by (simp add: fix_new_def fix_ctx_def buf_safe_def buf_wf_def new_BufferImpl_def)
  have race: "evicted_in_between (fix_env fix_other) fix_request ?x" by code_simp
  have none: "\<not> evicted_in_between (fix_env (\<lambda>c. c)) fix_request ?x" by code_simp
  note t = buffer_null_dereference_iff_evicted [OF x, of _ fix_request, THEN conjunct1]
  from t [of "fix_env fix_other", unfolded if_P [OF race]] t [of "fix_env (\<lambda>c. c)", unfolded if_not_P [OF none]]
  show ?thesis by (rule conjI)
qed

text \<open>
  An announced length that \<open>atoi\<close> turns into a negative number ends the proxy. For a response
  to a GET whose length is negative and larger, in absolute value, than its heading, while as many
  bytes as it takes to pass the unsigned size test have arrived, the cache
  element's constructor throws \<open>std::length_error\<close>, which the handler, catching \<open>ParseException\<close>
  only, lets escape from the thread.
\<close>

theorem negative_length_escapes:
  fixes x s
  defines "b \<equiv> b_buf (cx_buf x) @ s"
  defines "hdg \<equiv> substr0 b (snd (findEndHeading b))"
  defines "h \<equiv> parsingResponseHeading hdg"
  assumes st: "b_statusClient (cx_buf x) = READ_RESPONSE" "b_statusHttpServer (cx_buf x) = WRITE_RESPONSE_HEADING"
    and fe: "fst (findEndHeading b) = END_HEADING" and ca: "cacheable h (received s x)"
    and locks: "testLock env = SUCCESS" "cashLock env = SUCCESS"
    and absent: "\<not> isElementInCash (hash env) SUCCESS (b_requestHeading (cx_buf x)) (cx_cash x)"
    and neg: "sint (contentLength h + size_of hdg) < 0"
    and len: "length (b_requestHeading (cx_buf x)) < 2 ^ 61"
    and room: "sint (byteInCash (others env (cx_cash x)) +
        (contentLength h + size_of hdg + size_of (b_requestHeading (cx_buf x)))) < sint MAX_CASH_SIZE"
  shows "\<exists>m y. readFromSocket env s x = Throws (LengthError m) y"
proof -
  let ?y = "received s x"
  have y: "b_buf (cx_buf ?y) = b" using st by (simp add: received_def b_def)
  have "isCashingData (ucast (size_of hdg)) h ?y = Done True ?y"
    using ca by (auto simp: isCashingData_def cacheable_def y)
  moreover obtain m c where "addStringToCash (hash env) SUCCESS (b_requestHeading (cx_buf x))
      (contentLength h + size_of hdg) (others env (cx_cash x)) = Throws (LengthError m) c"
    using negative_size_lemma [OF neg len] room unfolding room_def by blast
  ultimately have "addResponseToCash env hdg h ?y = Throws (LengthError m) (?y\<lparr>cx_cash := c\<rparr>)"
    using locks absent by (simp add: addResponseToCash_def)
  then show ?thesis
    using st fe by (cases "findEndHeading b")
      (simp add: readFromSocket_received wrightResponseHeading_def Let_def y hdg_def h_def)
qed

text \<open>A response of 100 bytes whose announced length, 4294967236, is -60 as an \<open>int\<close>.\<close>

definition fix_negative :: string where
  "fix_negative = ''HTTP/1.1 200 OK'' @ crlf @ ''Content-Length: 4294967236'' @ crlf @ crlf"

theorem negative_length_escapes_witness:
  "\<exists>m y. readFromSocket (fix_env (\<lambda>c. c)) (fix_negative @ replicate 53 CHR ''a'') (fix_waiting (fix_cash 0 []))
     = Throws (LengthError m) y"
proof -
  let ?x = "fix_waiting (fix_cash 0 [])"
  let ?b = "fix_negative @ replicate 53 CHR ''a''"
  have b: "b_buf (cx_buf ?x) @ ?b = ?b" "b_requestHeading (cx_buf ?x) = ''GET''"
    "cx_cash ?x = fix_cash 0 []" "others (fix_env (\<lambda>c. c)) c = c" "hash (fix_env (\<lambda>c. c)) = fix_hash" for c
    by (simp_all add: fix_waiting_def fix_ctx_def new_BufferImpl_def fix_env_def)
  have fe: "findEndHeading ?b = (END_HEADING, 47)" "substr0 ?b 47 = fix_negative" by code_simp+
  have ca: "cacheable (parsingResponseHeading fix_negative) (received ?b ?x)" by code_simp
  have neg: "sint (contentLength (parsingResponseHeading fix_negative) + size_of fix_negative) < 0"
    "sint (byteInCash (fix_cash 0 []) + (contentLength (parsingResponseHeading fix_negative)
       + size_of fix_negative + size_of ''GET'')) < sint MAX_CASH_SIZE"
    by code_simp+
  have "\<not> isElementInCash fix_hash SUCCESS ''GET'' (fix_cash 0 [])" by (simp add: cash_eval)
  with negative_length_escapes [of ?x ?b "fix_env (\<lambda>c. c)"] ca neg show ?thesis
    unfolding b fe fst_conv snd_conv
    by (simp add: fix_waiting_def fix_ctx_def new_BufferImpl_def fix_env_def)
qed

text \<open>
  A heading that cannot be parsed is answered and closed. The call throws, the buffer then
  holds just the text for the user, and once a chunk of it has been sent and confirmed the client side is over.
\<close>

theorem bad_heading_answered:
  fixes x s
  defines "b \<equiv> b_buf (cx_buf x) @ s"
  assumes st: "b_statusClient (cx_buf x) = WRITE_REQUEST_HEADING" "b_isClientConnect (cx_buf x)"
      "\<not> b_isDataGetCash (cx_buf x)"
    and fe: "fst (findEndHeading b) = END_HEADING"
    and bad: "parsingHeading (substr0 b (snd (findEndHeading b))) = Inl ex"
  shows "\<exists>y z. readFromSocket env s x = Throws (ParseException ''incorrect heading'') y
    \<and> isReadyToSend y = Done True y \<and> cx_cash y = cx_cash x
    \<and> sendBuf env [] y = Done (''incorrect heading'' @ crlf) y
    \<and> proofSend (''incorrect heading'' @ crlf) y = Done () z
    \<and> b_statusClient (cx_buf z) = END_WORK \<and> b_buf (cx_buf z) = []"
proof -
  have b: "b_buf (cx_buf (received s x)) = b" using st by (simp add: received_def b_def)
  show ?thesis
  proof (cases "received s x" rule: wrightRequestHeading_cases [where env = env])
    case wait
    with fe show ?thesis by (simp add: b)
  next
    case (bad ex')
    have "\<not> b_isDataGetCash (cx_buf (received s x))" using st by simp
    with bad st show ?thesis
      by (simp add: readFromSocket_received isReadyToSend_def sendBuf_def proofSend_def
          proofSendBuf_def Let_def crlf_def resize_def)
  qed (use bad in \<open>simp_all add: b\<close>)
qed

theorem bad_heading_answered_witness:
  "\<exists>y z. readFromSocket (fix_env (\<lambda>c. c)) (''GET /'' @ crlf @ crlf) (fix_new (fix_cash 0 []))
       = Throws (ParseException ''incorrect heading'') y
     \<and> proofSend (''incorrect heading'' @ crlf) y = Done () z \<and> b_statusClient (cx_buf z) = END_WORK"
proof -
  let ?x = "fix_new (fix_cash 0 [])" and ?s = "''GET /'' @ crlf @ crlf"
  have b: "b_buf (cx_buf ?x) @ ?s = ?s" by (simp add: fix_new_def fix_ctx_def new_BufferImpl_def)
  have fe: "findEndHeading ?s = (END_HEADING, 9)" "substr0 ?s 9 = ?s" by code_simp+
  have bad: "parsingHeading ?s = Inl (ParseException ''incorrect heading'')" by code_simp
  have st: "b_statusClient (cx_buf ?x) = WRITE_REQUEST_HEADING" "b_isClientConnect (cx_buf ?x)"
    "\<not> b_isDataGetCash (cx_buf ?x)"
    by (simp_all add: fix_new_def fix_ctx_def new_BufferImpl_def)
  from bad_heading_answered [OF st, of ?s _ "fix_env (\<lambda>c. c)"] show ?thesis
    unfolding b fe fst_conv snd_conv using bad by blast
qed

lemma findEndBody_found:
  assumes "length buf < 2 ^ 31" and "sublist (CHR ''0'' # crlf @ crlf) buf"
  shows "fst (findEndBody buf) = END_BODY"
  using assms find_sub_eq_None_iff [of "CHR ''0'' # crlf @ crlf" buf]
  by (cases "find_sub (CHR ''0'' # crlf @ crlf) buf") (simp_all add: findEndBody_eq)

text \<open>
  \<open>"0\r\n\r\n"\<close> is searched in the heading too. A response that announces no length and whose
  heading ends in the character 0 counts as complete as soon as the heading has arrived: once the
  heading is sent, both sides of the exchange are at their end and the body is never forwarded.
\<close>

theorem heading_ending_in_zero_ends_exchange:
  fixes x s
  defines "b \<equiv> b_buf (cx_buf x) @ s"
  assumes st: "b_statusClient (cx_buf x) = READ_RESPONSE" "b_statusHttpServer (cx_buf x) = WRITE_RESPONSE_HEADING"
      "\<not> b_isDataGetCash (cx_buf x)" "\<not> b_isAddDataToCash (cx_buf x)" "\<not> b_error (cx_buf x)"
      "b_resultParseHeading (cx_buf x) \<noteq> None"
    and fe: "fst (findEndHeading b) = END_HEADING" and all: "substr0 b (snd (findEndHeading b)) = b"
    and zero: "suffix (CHR ''0'' # crlf @ crlf) b" and len: "length b \<le> 524287"
    and noLength: "\<not> haveContentLength (parsingResponseHeading b)"
  shows "\<exists>y z. readFromSocket env s x = Done () y \<and> sendBuf env [] y = Done b y \<and> proofSend b y = Done () z
    \<and> b_statusClient (cx_buf z) = END_WORK \<and> b_statusHttpServer (cx_buf z) = END_WORK"
proof -
  let ?y = "received s x" and ?h = "parsingResponseHeading b"
  have y: "b_buf (cx_buf ?y) = b" "\<not> b_error (cx_buf ?y)" using st by (simp_all add: received_def b_def)
  have "sublist (CHR ''0'' # crlf @ crlf) b"
    using zero by (simp add: suffix_imp_sublist)
  with len have eb: "fst (findEndBody b) = END_BODY"
    by (intro findEndBody_found) simp_all
  from st(6) obtain v where v: "isCashingData (ucast (size_of b)) ?h ?y = Done v ?y"
    using isCashingData_safe [of ?y] by auto
  then have "\<not> v"
    using noLength by (auto simp: isCashingData_def split: if_splits option.splits)
  with v have "addResponseToCash env b ?h ?y = Done () ?y" by (simp add: addResponseToCash_def)
  from fe all obtain pos where pos: "findEndHeading b = (END_HEADING, pos)" "substr0 b pos = b"
    by (cases "findEndHeading b") simp
  define z where "z = set_buf ((cx_buf ?y)\<lparr>b_isReadyToSend := True, b_statusHttpServer := WRITE_RESPONSE_BODY,
            b_isHaveContentLengthResponse := False, b_isEndSend := True\<rparr>) ?y"
  have "readFromSocket env s x = Done () z"
    using st pos \<open>addResponseToCash env b ?h ?y = Done () ?y\<close> noLength eb
    by (simp add: readFromSocket_received wrightResponseHeading_def startResponseBody_def Let_def y z_def)
  moreover have "b \<noteq> []" using zero by auto
  ultimately show ?thesis
    using st len y
    by (intro exI [of _ z] exI [of _ "set_buf (proofSendBuf b (cx_buf z)) z"])
       (simp add: z_def sendBuf_def proofSend_def proofSendBuf_def Let_def resize_def)
qed

definition fix_zero :: string where
  "fix_zero = ''HTTP/1.1 200 OK'' @ crlf @ ''Server: x/1.0'' @ crlf @ crlf"

theorem heading_ending_in_zero_ends_exchange_witness:
  "\<exists>y z. readFromSocket (fix_env (\<lambda>c. c)) fix_zero (fix_waiting (fix_cash 0 [])) = Done () y
    \<and> proofSend fix_zero y = Done () z \<and> b_statusHttpServer (cx_buf z) = END_WORK"
proof -
  let ?x = "fix_waiting (fix_cash 0 [])"
  have b: "b_buf (cx_buf ?x) @ fix_zero = fix_zero"
    by (simp add: fix_waiting_def fix_ctx_def new_BufferImpl_def)
  have st: "b_statusClient (cx_buf ?x) = READ_RESPONSE" "b_statusHttpServer (cx_buf ?x) = WRITE_RESPONSE_HEADING"
      "\<not> b_isDataGetCash (cx_buf ?x)" "\<not> b_isAddDataToCash (cx_buf ?x)" "\<not> b_error (cx_buf ?x)"
      "b_resultParseHeading (cx_buf ?x) \<noteq> None"
    by (simp_all add: fix_waiting_def fix_ctx_def new_BufferImpl_def)
  have fe: "findEndHeading fix_zero = (END_HEADING, 34)" "substr0 fix_zero 34 = fix_zero" by code_simp+
  have "suffix (CHR ''0'' # crlf @ crlf) fix_zero"
    by (simp add: fix_zero_def crlf_def suffix_def)
  moreover have "length fix_zero \<le> 524287" by (simp add: fix_zero_def crlf_def)
  moreover have "\<not> haveContentLength (parsingResponseHeading fix_zero)" by code_simp
  ultimately show ?thesis
    using heading_ending_in_zero_ends_exchange [OF st, of fix_zero "fix_env (\<lambda>c. c)"]
    unfolding b fe fst_conv snd_conv by blast
qed

text \<open>
  The string sent from the cache is sized with one call of \<open>getLength\<close> and filled with the
  result of another. When the downloading thread appends to the element in between, the copy
  writes past the end of the string.
\<close>

theorem growth_race_overflows:
  assumes g: "b_isDataGetCash (cx_buf x)" "b_cashElement (cx_buf x) = Some a"
    and c: "b_countByteReadFromCash (cx_buf x) = of_nat cnt" "cnt < length (e_cash (element_of x a))"
    and len: "length (e_cash (element_of x a)) < cnt + 524287"
    and grow: "length (e_cash (element_of x a)) < length (e_cash (store (others env (cx_cash x)) a))"
    and small: "length (e_cash (store (others env (cx_cash x)) a)) < 2 ^ 62"
  shows "sendBuf env t x = Fault OutOfBounds"
proof -
  define n where "n = length (e_cash (element_of x a))"
  define m where "m = length (e_cash (store (others env (cx_cash x)) a))"
  have nm: "cnt < n" "n < cnt + 524287" "n < m" "m < 2 ^ 62"
    using assms by (simp_all add: n_def m_def)
  have s: "sint (of_nat cnt :: int64) = int cnt" "sint (of_nat n :: int64) = int n"
    using nm by (simp_all add: sint_of_nat_small)
  have "sint (of_nat (cnt + 524287) :: int64) = int (cnt + 524287)"
    using nm by (intro sint_of_nat_small) simp
  then have b: "sint (of_nat cnt + 524287 :: int64) = int cnt + 524287" by simp
  have d: "of_nat k - (of_nat cnt :: int64) = of_nat (k - cnt)" "unat (of_nat (k - cnt) :: int64) = k - cnt"
    if "cnt < k" "k < 2 ^ 62" for k
    using that by (simp add: of_nat_diff, intro unat_of_nat_small) simp
  have dn: "of_nat n - (of_nat cnt :: int64) = of_nat (n - cnt)" "unat (of_nat (n - cnt) :: int64) = n - cnt"
    and dm: "of_nat m - (of_nat cnt :: int64) = of_nat (m - cnt)" "unat (of_nat (m - cnt) :: int64) = m - cnt"
    using nm by (intro d; simp)+
  have e: "of_nat cnt + BUF_SIZE - 1 = of_nat cnt + (524287 :: int64)" by (simp add: BUF_SIZE_def)
  then have lt: "\<not> sint (of_nat cnt + BUF_SIZE - 1) \<le> sint (of_nat n :: int64)"
    using nm s b unfolding e by simp
  have "unat (of_nat cnt :: int64) + (m - cnt) \<le> m" using nm by (simp add: unat_of_nat_small)
  have L: "getLength (element_of x a) = of_nat n" "getLength (store (others env (cx_cash x)) a) = of_nat m"
    by (simp_all add: getLength_def size_of_def n_def m_def)
  have u: "unat (of_nat n - of_nat cnt :: int64) = n - cnt" "unat (of_nat m - of_nat cnt :: int64) = m - cnt"
    using dn dm by simp_all
  have "length (resize (n - cnt) t) = n - cnt" by (simp add: resize_def)
  then have "memCopyFromCash (store (others env (cx_cash x)) a) (resize (n - cnt) t) (of_nat cnt)
      (of_nat m - of_nat cnt) = None"
    using nm u by (auto simp: memCopyFromCash_def Let_def)
  moreover have "sint (of_nat cnt :: int64) < sint (of_nat n :: int64)" using s nm by simp
  ultimately show ?thesis
    using lt by (simp add: sendBuf_def Let_def g c(1) L u(1))
qed

text \<open>Another thread that appends to element 0, as the downloading one does.\<close>

definition fix_append :: "CashImpl \<Rightarrow> CashImpl" where
  "fix_append c = c\<lparr>store := (store c)(0 := fst (appendStringToCash SUCCESS SUCCESS ''cd'' (store c 0)))\<rparr>"

definition fix_reader :: BufCtx where
  "fix_reader = fix_ctx (new_BufferImpl\<lparr>b_statusClient := READ_RESPONSE, b_isDataGetCash := True,
     b_isClientConnect := True, b_cashElement := Some 0, b_isReadyToSend := True\<rparr>)
     (fix_cash 0 [(fix_element 1 ''r'')\<lparr>e_cash := ''ab'', e_isServerConnected := True\<rparr>])"

theorem growth_race_overflows_witness:
  "sendBuf (fix_env fix_append) [] fix_reader = Fault OutOfBounds"
  by (rule growth_race_overflows [where a = 0 and cnt = 0])
     (simp_all add: fix_reader_def fix_ctx_def new_BufferImpl_def fix_env_def fix_append_def
        appendStringToCash_def Let_def fixture)

end
