(* ===== verification/Client.thy ===== *)
theory Client
  imports Buffer
begin

text \<open>
  \<open>lab32v2/client\<close> and \<open>lab32v2/socket\<close>: a connection (its descriptor, its entry in the poll
  set, the other end of its exchange) and the calls to the operating system. The answers of the
  operating system are inputs: each kind of call takes the next answer from its list, and what
  the program did to the outside (bytes accepted, addresses dialed, descriptors closed) is kept
  in order. A call whose list is empty has not returned yet; it is a fault of kind \<open>OutOfFuel\<close>.
\<close>

section \<open>The operating system\<close>

record PollFd =
  p_fd :: int32
  p_events :: "16 word"
  p_revents :: "16 word"

text \<open>\<open>POLLIN\<close>, \<open>POLLOUT\<close> and \<open>POLLRDHUP\<close> of Linux.\<close>

definition POLLIN :: "16 word" where "POLLIN = 0x001"
definition POLLOUT :: "16 word" where "POLLOUT = 0x004"
definition POLLRDHUP :: "16 word" where "POLLRDHUP = 0x2000"

text \<open>
  A \<open>read\<close> gives some bytes (none at the end of the stream) or fails with -1. The three calls
  of a connection set-up answer whether the name was resolved, the descriptor, and the code of
  \<open>connect\<close>. A wait on a condition variable answers with its code, after the other threads
  did something to the cache.
\<close>

datatype ReadAnswer = Bytes string | ReadFails

record ConnectAnswer =
  a_resolved :: bool
  a_sock :: int32
  a_connect :: int32

record Os =
  o_polls :: "(int32 \<times> 16 word list) list"
  o_reads :: "ReadAnswer list"
  o_writes :: "int64 list"
  o_connects :: "ConnectAnswer list"
  o_waits :: "(int32 \<times> (CashImpl \<Rightarrow> CashImpl)) list"
  o_wire :: "(int32 \<times> string) list"
  o_dialed :: "(string \<times> 16 word) list"
  o_closed :: "int32 list"

definition sys_read :: "Os \<Rightarrow> (ReadAnswer, Os) outcome" where
  "sys_read os = (case o_reads os of
     [] \<Rightarrow> Fault OutOfFuel
   | r # rs \<Rightarrow> Done r (os\<lparr>o_reads := rs\<rparr>))"

definition sys_write :: "int32 \<Rightarrow> string \<Rightarrow> Os \<Rightarrow> (int64, Os) outcome" where
  "sys_write fd s os = (case o_writes os of
     [] \<Rightarrow> Fault OutOfFuel
   | n # ns \<Rightarrow> Done n (os\<lparr>o_writes := ns,
       o_wire := (if sint n < 0 then o_wire os else o_wire os @ [(fd, take (unat n) s)])\<rparr>))"

definition sys_close :: "int32 \<Rightarrow> Os \<Rightarrow> Os" where
  "sys_close fd os = os\<lparr>o_closed := o_closed os @ [fd]\<rparr>"

section \<open>Connections\<close>

datatype TypeClient = USER | HTTP_SERVER

record Client =
  c_isInClientList :: bool
  c_fd :: int32
  c_typeClient :: TypeClient
  c_buffer :: "nat option"
  c_listHandlingEvent :: "nat list"
  c_pair :: "nat option"
  c_structPollFd :: PollFd

definition new_ClientImpl :: "int32 \<Rightarrow> TypeClient \<Rightarrow> nat option \<Rightarrow> Client" where
  "new_ClientImpl sock typeClient buf =
     \<lparr>c_isInClientList = True, c_fd = sock, c_typeClient = typeClient, c_buffer = buf,
      c_listHandlingEvent = [], c_pair = None,
      c_structPollFd = \<lparr>p_fd = sock,
        p_events = (case typeClient of
            USER \<Rightarrow> or POLLIN POLLRDHUP
          | HTTP_SERVER \<Rightarrow> or (or POLLOUT POLLIN) POLLRDHUP),
        p_revents = 0\<rparr>\<rparr>"

definition getFdClient :: "Client \<Rightarrow> int32" where
  "getFdClient c = c_fd c"

text \<open>\<open>sendBuf\<close> narrows the \<open>ssize_t\<close> of \<open>write\<close> to an \<open>int\<close>.\<close>

definition sendBuf_client :: "Client \<Rightarrow> string \<Rightarrow> Os \<Rightarrow> (int32, Os) outcome" where
  "sendBuf_client c buf os = bind (sys_write (c_fd c) buf os) (\<lambda>code os. Done (ucast code) os)"

text \<open>
  \<open>readBuf\<close> gives its code and the new contents of the string: on success the string is
  resized (new places hold blanks) and overwritten with the bytes read, at most \<open>BUF_SIZE - 1\<close>.
\<close>

definition readBuf :: "Client \<Rightarrow> string \<Rightarrow> Os \<Rightarrow> (int32 \<times> string, Os) outcome" where
  "readBuf c buf os = bind (sys_read os) (\<lambda>r os.
     case r of
       ReadFails \<Rightarrow> Done (-1, buf) os
     | Bytes s \<Rightarrow>
         let readBuf = take (unat (BUF_SIZE - 1)) s; byte = length readBuf;
             resized = take byte buf @ replicate (byte - length buf) (CHR '' '')
         in Done (0, readBuf @ drop byte resized) os)"

definition getTypeClient :: "Client \<Rightarrow> TypeClient" where
  "getTypeClient c = c_typeClient c"

definition getBuffer :: "Client \<Rightarrow> nat option" where
  "getBuffer c = c_buffer c"

definition setBuffer :: "nat option \<Rightarrow> Client \<Rightarrow> Client" where
  "setBuffer buffer c = c\<lparr>c_buffer := buffer\<rparr>"

definition getPollFd :: "Client \<Rightarrow> PollFd" where
  "getPollFd c = c_structPollFd c"

definition setPollElement :: "PollFd \<Rightarrow> Client \<Rightarrow> Client" where
  "setPollElement pollfd c = c\<lparr>c_structPollFd := (c_structPollFd c)
     \<lparr>p_fd := p_fd pollfd, p_events := p_events pollfd, p_revents := p_revents pollfd\<rparr>\<rparr>"

definition setReventsZero :: "Client \<Rightarrow> Client" where
  "setReventsZero c = c\<lparr>c_structPollFd := (c_structPollFd c)\<lparr>p_revents := 0\<rparr>\<rparr>"

definition setEvents :: "16 word \<Rightarrow> Client \<Rightarrow> Client" where
  "setEvents event c = c\<lparr>c_structPollFd := (c_structPollFd c)\<lparr>p_events := event\<rparr>\<rparr>"

definition isInClientList :: "Client \<Rightarrow> bool" where
  "isInClientList c = c_isInClientList c"

definition setInClientList :: "bool \<Rightarrow> Client \<Rightarrow> Client" where
  "setInClientList value c = c\<lparr>c_isInClientList := value\<rparr>"

definition getPair :: "Client \<Rightarrow> nat option" where
  "getPair c = c_pair c"

definition setPair :: "nat option \<Rightarrow> Client \<Rightarrow> Client" where
  "setPair pair c = c\<lparr>c_pair := pair\<rparr>"

definition getListHandlingEvent :: "Client \<Rightarrow> nat list" where
  "getListHandlingEvent c = c_listHandlingEvent c"

definition eraseIt :: "nat \<Rightarrow> Client \<Rightarrow> Client" where
  "eraseIt client c = c\<lparr>c_listHandlingEvent := erase_first client (c_listHandlingEvent c)\<rparr>"

definition addClientToHandlingEvent :: "nat \<Rightarrow> Client \<Rightarrow> Client" where
  "addClientToHandlingEvent client c =
     c\<lparr>c_listHandlingEvent := c_listHandlingEvent c @ [client]\<rparr>"

lemmas client_accessors =
  getFdClient_def getTypeClient_def getBuffer_def setBuffer_def getPollFd_def
  setPollElement_def setReventsZero_def setEvents_def isInClientList_def setInClientList_def
  getPair_def setPair_def getListHandlingEvent_def eraseIt_def addClientToHandlingEvent_def

section \<open>Sockets\<close>

definition ERROR_CODE :: int32 where
  "ERROR_CODE = -1"

definition PORT_SERVER_SOCKET :: int32 where
  "PORT_SERVER_SOCKET = 7777"

text \<open>
  \<open>connectToClient\<close> dials the host and the port narrowed to 16 bits by \<open>htons\<close>. A descriptor
  whose \<open>connect\<close> fails is not closed.
\<close>

definition connectToClient :: "string \<Rightarrow> int32 \<Rightarrow> Os \<Rightarrow> (Client, Os) outcome" where
  "connectToClient url portNr os = (case o_connects os of
     [] \<Rightarrow> Fault OutOfFuel
   | answer # answers \<Rightarrow>
       let os = os\<lparr>o_connects := answers\<rparr>
       in if \<not> a_resolved answer then Throws (ConnectException ''gethostbyname'') os
          else if a_sock answer = ERROR_CODE then Throws (ConnectException ''setsockport'') os
          else let os = os\<lparr>o_dialed := o_dialed os @ [(url, ucast portNr)]\<rparr>
               in if a_connect answer = ERROR_CODE then Throws (ConnectException ''connect error'') os
                  else Done (new_ClientImpl (a_sock answer) HTTP_SERVER None) os)"

text \<open>
  The listening socket: the codes of \<open>socket\<close>, the two \<open>setsockopt\<close>, \<open>bind\<close> and \<open>listen\<close> in
  the order of the calls, and its state, the descriptor that \<open>accept\<close> uses.
\<close>

record ListenAnswers =
  l_socket :: int32
  l_reuseaddr :: int32
  l_reuseport :: int32
  l_bind :: int32
  l_listen :: int32

record ServerSocketImpl =
  serverSocket :: int32
  listenPort :: "16 word option"
  acceptCodes :: "int32 list"
  socketClosed :: bool

definition connectSocket :: "ListenAnswers \<Rightarrow> ServerSocketImpl \<Rightarrow> (int32, ServerSocketImpl) outcome" where
  "connectSocket ans s =
     (if sint (l_socket ans) < 0 then Throws (ConnectException ''bind socket'') s
      else if sint (l_reuseaddr ans) < 0
        then Throws (ConnectException ''setsockopt(SO_REUSEADDR) failed'') s
      else if sint (l_reuseport ans) < 0
        then Throws (ConnectException ''setsockopt(SO_REUSEADDR) failed'') s
      else if sint (l_bind ans) < 0 then Throws (ConnectException ''bind socket'') s
      else let s = s\<lparr>listenPort := Some (ucast PORT_SERVER_SOCKET)\<rparr>
           in if sint (l_listen ans) < 0 then Throws (ConnectException ''listen socket'') s
              else Done 0 (s\<lparr>serverSocket := l_socket ans\<rparr>))"

definition getFdSocket :: "ServerSocketImpl \<Rightarrow> int32" where
  "getFdSocket s = serverSocket s"

definition acceptNewClientSock :: "ServerSocketImpl \<Rightarrow> (int32, ServerSocketImpl) outcome" where
  "acceptNewClientSock s = (case acceptCodes s of
     [] \<Rightarrow> Fault OutOfFuel
   | clientSock # rest \<Rightarrow>
       let s = s\<lparr>acceptCodes := rest\<rparr>
       in if sint clientSock < 0 then Throws (ConnectException ''error accept new client'') s
          else Done clientSock s)"

text \<open>\<open>acceptNewClient\<close> also makes the connection's buffer; \<open>buf\<close> is its address.\<close>

definition acceptNewClient :: "nat \<Rightarrow> ServerSocketImpl \<Rightarrow> (Client \<times> Buffer, ServerSocketImpl) outcome" where
  "acceptNewClient buf s = bind (acceptNewClientSock s) (\<lambda>clientSock s.
     Done (new_ClientImpl clientSock USER (Some buf), setIsClientConnect True new_BufferImpl) s)"

definition closeSocket :: "ServerSocketImpl \<Rightarrow> ServerSocketImpl" where
  "closeSocket s = s\<lparr>socketClosed := True\<rparr>"

end
