(* ===== verification/Handler.thy ===== *)
theory Handler
  imports Client
begin

text \<open>
  \<open>lab32v2/server/HandlerOneClientImpl\<close>: the thread that serves one user. Its connections and
  their buffers live in heaps from addresses to objects, where a deleted object is \<open>None\<close>, so an
  access through a stale pointer is the fault \<open>UseAfterFree\<close>. The connections to poll are a list
  of addresses; an iterator is the address in the node it points to, or \<open>None\<close> for \<open>end()\<close>.
  Loops and the mutual recursion of the delete methods take fuel.
\<close>

section \<open>State\<close>

record Handler =
  h_buffer :: string
  h_client :: nat
  h_pollSet :: "PollFd list"
  h_clientList :: "nat list"
  h_clients :: "nat \<Rightarrow> Client option"
  h_buffers :: "nat \<Rightarrow> Buffer option"
  h_fresh :: nat
  h_cash :: CashImpl
  h_signals :: "nat list"
  h_os :: Os

definition zero_pollfd :: PollFd where
  "zero_pollfd = \<lparr>p_fd = 0, p_events = 0, p_revents = 0\<rparr>"

definition new_HandlerOneClientImpl ::
    "nat \<Rightarrow> (nat \<Rightarrow> Client option) \<Rightarrow> (nat \<Rightarrow> Buffer option) \<Rightarrow> nat \<Rightarrow> CashImpl \<Rightarrow> Os \<Rightarrow> Handler" where
  "new_HandlerOneClientImpl client clients buffers fr cash os =
     \<lparr>h_buffer = [], h_client = client, h_pollSet = [zero_pollfd, zero_pollfd],
      h_clientList = [client], h_clients = clients, h_buffers = buffers, h_fresh = fr,
      h_cash = cash, h_signals = [], h_os = os\<rparr>"

text \<open>Access through a pointer to a connection, to its buffer, and to the operating system.\<close>

definition ask_client :: "nat \<Rightarrow> (Client \<Rightarrow> 'v) \<Rightarrow> Handler \<Rightarrow> ('v, Handler) outcome" where
  "ask_client a f h = (case h_clients h a of
     None \<Rightarrow> Fault UseAfterFree
   | Some c \<Rightarrow> Done (f c) h)"

definition on_client :: "nat \<Rightarrow> (Client \<Rightarrow> Client) \<Rightarrow> Handler \<Rightarrow> (unit, Handler) outcome" where
  "on_client a f h = (case h_clients h a of
     None \<Rightarrow> Fault UseAfterFree
   | Some c \<Rightarrow> Done () (h\<lparr>h_clients := (h_clients h)(a := Some (f c))\<rparr>))"

fun map_state :: "('s \<Rightarrow> 't) \<Rightarrow> ('v, 's) outcome \<Rightarrow> ('v, 't) outcome" where
  "map_state f (Done v s) = Done v (f s)"
| "map_state f (Throws e s) = Throws e (f s)"
| "map_state f (Fault x) = Fault x"

definition on_buffer ::
    "nat \<Rightarrow> (BufCtx \<Rightarrow> ('v, BufCtx) outcome) \<Rightarrow> Handler \<Rightarrow> ('v, Handler) outcome" where
  "on_buffer a f h = bind (ask_client a getBuffer h) (\<lambda>p h.
     case p of
       None \<Rightarrow> Fault NullDereference
     | Some p \<Rightarrow> (case h_buffers h p of
           None \<Rightarrow> Fault UseAfterFree
         | Some b \<Rightarrow>
             map_state (\<lambda>x. h\<lparr>h_buffers := (h_buffers h)(p := Some (cx_buf x)), h_cash := cx_cash x,
                 h_signals := cx_signals x\<rparr>)
               (f \<lparr>cx_buf = b, cx_cash = h_cash h, cx_signals = h_signals h\<rparr>)))"

definition ask_buffer :: "nat \<Rightarrow> (Buffer \<Rightarrow> 'v) \<Rightarrow> Handler \<Rightarrow> ('v, Handler) outcome" where
  "ask_buffer a f = on_buffer a (\<lambda>x. Done (f (cx_buf x)) x)"

definition set_buffer :: "nat \<Rightarrow> (Buffer \<Rightarrow> Buffer) \<Rightarrow> Handler \<Rightarrow> (unit, Handler) outcome" where
  "set_buffer a f = on_buffer a (\<lambda>x. Done () (set_buf (f (cx_buf x)) x))"

definition on_os :: "(Os \<Rightarrow> ('v, Os) outcome) \<Rightarrow> Handler \<Rightarrow> ('v, Handler) outcome" where
  "on_os f h = map_state (\<lambda>os. h\<lparr>h_os := os\<rparr>) (f (h_os h))"

fun for_each :: "nat list \<Rightarrow> (nat \<Rightarrow> Handler \<Rightarrow> (unit, Handler) outcome) \<Rightarrow> Handler \<Rightarrow> (unit, Handler) outcome" where
  "for_each [] f h = Done () h"
| "for_each (a # as) f h = bind (f a h) (\<lambda>_ h. for_each as f h)"

section \<open>Iterators\<close>

text \<open>
  \<open>it++\<close> in libstdc++, whose lists are circular through \<open>end()\<close>: past the last element comes
  \<open>end()\<close>, and past \<open>end()\<close> the first element. Incrementing an iterator whose node was erased
  is a fault, as is \<open>erase\<close> of such a node or of \<open>end()\<close>.
\<close>

fun node_after :: "nat \<Rightarrow> nat list \<Rightarrow> nat option" where
  "node_after a [] = None"
| "node_after a (x # xs) =
     (if x = a then (case xs of [] \<Rightarrow> None | y # ys \<Rightarrow> Some y) else node_after a xs)"

definition begin_of :: "nat list \<Rightarrow> nat option" where
  "begin_of l = (case l of [] \<Rightarrow> None | x # xs \<Rightarrow> Some x)"

definition next_it :: "nat option \<Rightarrow> Handler \<Rightarrow> (nat option, Handler) outcome" where
  "next_it it h = (case it of
     None \<Rightarrow> Done (begin_of (h_clientList h)) h
   | Some a \<Rightarrow> if a \<in> set (h_clientList h) then Done (node_after a (h_clientList h)) h
               else Fault UseAfterFree)"

definition erase_it :: "nat option \<Rightarrow> Handler \<Rightarrow> (nat option, Handler) outcome" where
  "erase_it it h = (case it of
     None \<Rightarrow> Fault UseAfterFree
   | Some a \<Rightarrow> if a \<in> set (h_clientList h)
               then Done (node_after a (h_clientList h))
                      (h\<lparr>h_clientList := erase_first a (h_clientList h)\<rparr>)
               else Fault UseAfterFree)"

section \<open>Deleting connections\<close>

definition delete_buffer :: "nat \<Rightarrow> Handler \<Rightarrow> Handler" where
  "delete_buffer p h = h\<lparr>h_buffers := (h_buffers h)(p := None)\<rparr>"

text \<open>\<open>delete client\<close> runs the destructor, which closes the descriptor.\<close>

definition delete_client :: "nat \<Rightarrow> Handler \<Rightarrow> (unit, Handler) outcome" where
  "delete_client a h = bind (ask_client a getFdClient h) (\<lambda>fd h.
     Done () (h\<lparr>h_clients := (h_clients h)(a := None), h_os := sys_close fd (h_os h)\<rparr>))"

definition deleteClientServer :: "Env \<Rightarrow> nat \<Rightarrow> Handler \<Rightarrow> (unit, Handler) outcome" where
  "deleteClientServer env client h =
     bind (ask_client client getListHandlingEvent h) (\<lambda>fromServ h.
     bind (for_each fromServ (\<lambda>a h. bind (on_client a (setPair None) h) (\<lambda>_ h.
             on_client a (setEvents (or (or POLLOUT POLLIN) POLLRDHUP)) h)) h) (\<lambda>_ h.
     bind (ask_client client getBuffer h) (\<lambda>p h.
     bind (case p of
         None \<Rightarrow> Done () h
       | Some p \<Rightarrow>
           bind (ask_buffer client isIsAddDataToCash h) (\<lambda>adding h.
           bind (if adding then on_buffer client (on_element (setIsServerConnect (subsLock env) False)) h
                 else Done () h) (\<lambda>_ h.
           bind (set_buffer client (setStatusServer END_WORK) h) (\<lambda>_ h.
           bind (set_buffer client (setIsServerConnect_buf False) h) (\<lambda>_ h.
           bind (ask_buffer client isIsClientConnect h) (\<lambda>connected h.
           if \<not> connected then on_client client (setBuffer None) (delete_buffer p h)
           else Done () h)))))) (\<lambda>_ h.
     delete_client client h))))"

fun deleteClient :: "nat \<Rightarrow> Env \<Rightarrow> nat option \<Rightarrow> Handler \<Rightarrow> (nat option, Handler) outcome"
  and deleteClientUser :: "nat \<Rightarrow> Env \<Rightarrow> nat \<Rightarrow> Handler \<Rightarrow> (unit, Handler) outcome"
  and deletePair :: "nat \<Rightarrow> Env \<Rightarrow> nat option \<Rightarrow> nat \<Rightarrow> Handler \<Rightarrow> (unit, Handler) outcome" where
  "deleteClient 0 env it h = Fault OutOfFuel"
| "deleteClient (Suc n) env it h = (case it of
     None \<Rightarrow> Fault UseAfterFree
   | Some a \<Rightarrow>
       bind (ask_client a getTypeClient h) (\<lambda>typ h.
       bind (if typ = USER then deleteClientUser n env a h else deleteClientServer env a h) (\<lambda>_ h.
       erase_it it h)))"
| "deleteClientUser 0 env client h = Fault OutOfFuel"
| "deleteClientUser (Suc n) env client h =
     bind (ask_client client getPair h) (\<lambda>pair h.
     bind (case pair of
         None \<Rightarrow> Done () h
       | Some s \<Rightarrow>
           bind (on_client s (eraseIt client) h) (\<lambda>_ h.
           bind (ask_client client getBuffer h) (\<lambda>p h.
           case p of
             None \<Rightarrow> Done () h
           | Some p \<Rightarrow>
               bind (ask_buffer client isIsAddDataToCash h) (\<lambda>adding h.
               if adding then Done () h
               else deletePair n env (begin_of (h_clientList h)) client h)))) (\<lambda>_ h.
     bind (ask_client client getBuffer h) (\<lambda>p h.
     bind (case p of
         None \<Rightarrow> Done () h
       | Some p \<Rightarrow>
           bind (ask_buffer client isIsDataGetCash h) (\<lambda>reading h.
           bind (if reading then on_buffer client (on_element (\<lambda>e. (minusCountUsers (userLock env) e, []))) h
                 else Done () h) (\<lambda>_ h.
           bind (set_buffer client (setStatusClient END_WORK) h) (\<lambda>_ h.
           bind (set_buffer client (setIsClientConnect False) h) (\<lambda>_ h.
           bind (ask_buffer client isIsServerConnect h) (\<lambda>connected h.
           if \<not> connected then on_client client (setBuffer None) (delete_buffer p h)
           else Done () h)))))) (\<lambda>_ h.
     delete_client client h))))"
| "deletePair 0 env it client h = Fault OutOfFuel"
| "deletePair (Suc n) env it client h = (case it of
     None \<Rightarrow> Done () h
   | Some a \<Rightarrow>
       bind (ask_client client getPair h) (\<lambda>pair h.
       bind (if Some a = pair then deleteClient n env it h else Done it h) (\<lambda>it h.
       bind (next_it it h) (\<lambda>it h.
       deletePair n env it client h))))"

section \<open>One round of events\<close>

definition setPollSetBeforePoll :: "Handler \<Rightarrow> (unit, Handler) outcome" where
  "setPollSetBeforePoll h =
     (let h = h\<lparr>h_pollSet := [zero_pollfd, zero_pollfd]\<rparr>
      in foldl (\<lambda>m (i, a). bind m (\<lambda>_ h. bind (ask_client a getPollFd h) (\<lambda>pollElement h.
             if i < length (h_pollSet h) then Done () (h\<lparr>h_pollSet := (h_pollSet h)[i := pollElement]\<rparr>)
             else Fault OutOfBounds)))
           (Done () h) (enumerate 0 (h_clientList h)))"

definition saveResultPollSet :: "Handler \<Rightarrow> (unit, Handler) outcome" where
  "saveResultPollSet h =
     foldl (\<lambda>m (i, a). bind m (\<lambda>_ h.
         if i < length (h_pollSet h) then on_client a (setPollElement (h_pollSet h ! i)) h
         else Fault OutOfBounds))
       (Done () h) (enumerate 0 (h_clientList h))"

text \<open>
  How the body of the loop over the connections goes on: to its next statement, to the next
  connection (from the iterator given), out of the method with \<open>true\<close>, or out of the thread.
\<close>

datatype flow = Fall | Skip "nat option" | ReturnTrue | ThreadExit

definition all_events :: "16 word" where
  "all_events = or (or POLLOUT POLLIN) POLLRDHUP"

text \<open>What follows \<open>readFromSocket\<close> in its \<open>try\<close> block.\<close>

definition afterRead :: "nat \<Rightarrow> Handler \<Rightarrow> (flow, Handler) outcome" where
  "afterRead a h =
     bind (ask_client a getTypeClient h) (\<lambda>typ h.
     bind (ask_buffer a (\<lambda>b. b) h) (\<lambda>b h.
     if typ = USER \<and> getStatusClient b = READ_RESPONSE \<and> isIsDataGetCash b then Done ReturnTrue h
     else if typ = HTTP_SERVER then
       bind (ask_client a getListHandlingEvent h) (\<lambda>fromServ h.
       bind (for_each fromServ (\<lambda>c. on_client c (setEvents all_events)) h) (\<lambda>_ h. Done Fall h))
     else
       bind (ask_client a getPair h) (\<lambda>pair h. case pair of
           None \<Rightarrow> Done Fall h
         | Some s \<Rightarrow> bind (on_client s (setEvents all_events) h) (\<lambda>_ h. Done Fall h))))"

text \<open>The connection to the HTTP server, made once the request heading is parsed.\<close>

definition openServer :: "nat \<Rightarrow> Env \<Rightarrow> nat \<Rightarrow> Handler \<Rightarrow> (flow, Handler) outcome" where
  "openServer n env a h =
     bind (ask_buffer a isReadyConnectHttpServer h) (\<lambda>ready h.
     if \<not> ready then Done Fall h
     else
       bind (set_buffer a (setReadyConnectHttpServer False) h) (\<lambda>_ h.
       bind (ask_buffer a getParseResult h) (\<lambda>result h. case result of
         None \<Rightarrow> Fault NullDereference
       | Some r \<Rightarrow> (case on_os (connectToClient (hostName r) (port r)) h of
           Fault x \<Rightarrow> Fault x
         | Throws ex h \<Rightarrow> bind (deleteClient n env (Some a) h) (\<lambda>_ h. Done ThreadExit h)
         | Done server h \<Rightarrow>
             let s = h_fresh h;
                 h = h\<lparr>h_clients := (h_clients h)(s := Some server), h_fresh := Suc s\<rparr>
             in bind (ask_client a getBuffer h) (\<lambda>p h.
                bind (on_client s (setBuffer p) h) (\<lambda>_ h.
                bind (set_buffer s (setIsServerConnect_buf True) h) (\<lambda>_ h.
                bind (on_client a (setPair (Some s)) h) (\<lambda>_ h.
                bind (on_client s (addClientToHandlingEvent a) h) (\<lambda>_ h.
                bind (on_client s (setEvents all_events) h) (\<lambda>_ h.
                Done Fall (h\<lparr>h_clientList := s # h_clientList h\<rparr>)))))))))))"

definition readEvent :: "nat \<Rightarrow> Env \<Rightarrow> nat \<Rightarrow> Handler \<Rightarrow> (flow, Handler) outcome" where
  "readEvent n env a h =
     bind (ask_client a getPollFd h) (\<lambda>pollfd h.
     if and (p_revents pollfd) POLLIN = 0 then Done Fall h
     else
       bind (on_client a setReventsZero h) (\<lambda>_ h.
       bind (ask_client a (\<lambda>c. c) h) (\<lambda>c h.
       bind (on_os (readBuf c (h_buffer h)) h) (\<lambda>(code, s) h.
       let h = h\<lparr>h_buffer := s\<rparr>
       in if sint code < 0 then Done (Skip (Some a)) h
          else if s = [] then bind (deleteClient n env (Some a) h) (\<lambda>it h. Done (Skip it) h)
          else
            bind (case bind (on_buffer a (readFromSocket env s) h) (\<lambda>_ h. afterRead a h) of
                    Throws (ParseException ex) h \<Rightarrow> Done Fall h
                  | r \<Rightarrow> r) (\<lambda>fl h.
            if fl = Fall then openServer n env a h else Done fl h)))))"

definition endEvent :: "nat \<Rightarrow> Env \<Rightarrow> nat \<Rightarrow> Handler \<Rightarrow> (flow, Handler) outcome" where
  "endEvent n env a h =
     bind (ask_client a getTypeClient h) (\<lambda>typ h.
     bind (ask_buffer a (\<lambda>b. b) h) (\<lambda>b h.
     let gone = bind (deleteClient n env (Some a) h) (\<lambda>it h. Done (Skip it) h)
     in if typ = HTTP_SERVER \<and> getStatusClient b = END_WORK \<and> \<not> isIsAddDataToCash b then gone
        else if typ = USER \<and> getStatusClient b = END_WORK then gone
        else if typ = HTTP_SERVER \<and> getStatusHttpServer b = END_WORK then gone
        else if typ = USER \<and> getStatusHttpServer b = END_WORK then
          bind (on_buffer a isReadyToSend h) (\<lambda>ready h.
            if \<not> ready then bind (deleteClient n env (Some a) h) (\<lambda>it h. Done (Skip it) h)
            else Done Fall h)
        else if typ = HTTP_SERVER \<and> getStatusClient b = END_WORK \<and> isSendEnd b then gone
        else Done Fall h))"

text \<open>The code of \<open>sendBuf\<close> is not looked at here.\<close>

definition writeEvent :: "nat \<Rightarrow> Env \<Rightarrow> nat \<Rightarrow> Handler \<Rightarrow> (flow, Handler) outcome" where
  "writeEvent n env a h =
     bind (ask_client a getPollFd h) (\<lambda>pollfd h.
     if and (p_revents pollfd) POLLOUT = 0 then Done Fall h
     else
       bind (on_client a setReventsZero h) (\<lambda>_ h.
       bind (on_buffer a isReadyToSend h) (\<lambda>ready h.
       if \<not> ready then bind (on_client a (setEvents POLLRDHUP) h) (\<lambda>_ h. Done (Skip (Some a)) h)
       else
         bind (ask_client a getTypeClient h) (\<lambda>typ h.
         bind (ask_buffer a (\<lambda>b. b) h) (\<lambda>b h.
         if \<not> (typ = HTTP_SERVER \<and> getStatusHttpServer b = READ_REQUEST
               \<or> typ = USER \<and> getStatusClient b = READ_RESPONSE) then Done Fall h
         else
           bind (on_buffer a (sendBuf env (h_buffer h)) h) (\<lambda>s h.
           let h = h\<lparr>h_buffer := s\<rparr>
           in bind (ask_client a (\<lambda>c. c) h) (\<lambda>c h.
              bind (on_os (sendBuf_client c s) h) (\<lambda>code h.
              bind (on_buffer a (proofSend s) h) (\<lambda>_ h.
              bind (ask_buffer a getStatusHttpServer h) (\<lambda>st h.
              if typ = HTTP_SERVER \<and> st = WRITE_RESPONSE_HEADING then
                bind (on_buffer a isReadyToSend h) (\<lambda>ready h.
                if ready then Done Fall h
                else
                  bind (on_client a (setEvents (or POLLIN POLLRDHUP)) h) (\<lambda>_ h.
                  bind (ask_client a getListHandlingEvent h) (\<lambda>fromServ h.
                  bind (for_each fromServ (\<lambda>c. on_client c (setEvents all_events)) h) (\<lambda>_ h.
                  Done Fall h))))
              else if typ = USER \<and> st = END_WORK then
                bind (on_buffer a isReadyToSend h) (\<lambda>ready h.
                if ready then Done Fall h
                else bind (deleteClient n env (Some a) h) (\<lambda>it h. Done (Skip it) h))
              else Done Fall h))))))))))"

definition oneEvent :: "nat \<Rightarrow> Env \<Rightarrow> nat \<Rightarrow> Handler \<Rightarrow> (flow, Handler) outcome" where
  "oneEvent n env a h =
     bind (ask_client a getPollFd (h\<lparr>h_buffer := []\<rparr>)) (\<lambda>pollfd h.
     if and (p_revents pollfd) POLLRDHUP \<noteq> 0
     then bind (deleteClient n env (Some a) h) (\<lambda>it h. Done (Skip it) h)
     else
       bind (readEvent n env a h) (\<lambda>fl h.
       if fl \<noteq> Fall then Done fl h
       else bind (endEvent n env a h) (\<lambda>fl h.
            if fl \<noteq> Fall then Done fl h else writeEvent n env a h)))"

text \<open>
  \<open>handlingEvent\<close> returns its \<open>bool\<close>, or \<open>None\<close> when the thread exits inside it. \<open>n\<close> bounds the
  connections visited and the depth of the delete methods.
\<close>

fun handleFrom :: "nat \<Rightarrow> nat \<Rightarrow> Env \<Rightarrow> nat option \<Rightarrow> Handler \<Rightarrow> (bool option, Handler) outcome" where
  "handleFrom 0 n env it h = Fault OutOfFuel"
| "handleFrom (Suc k) n env it h = (case it of
     None \<Rightarrow> Done (Some False) h
   | Some a \<Rightarrow> bind (oneEvent n env a h) (\<lambda>fl h. case fl of
         Fall \<Rightarrow> bind (next_it it h) (\<lambda>it h. handleFrom k n env it h)
       | Skip it \<Rightarrow> bind (next_it it h) (\<lambda>it h. handleFrom k n env it h)
       | ReturnTrue \<Rightarrow> Done (Some True) h
       | ThreadExit \<Rightarrow> Done None h))"

definition handlingEvent :: "nat \<Rightarrow> Env \<Rightarrow> Handler \<Rightarrow> (bool option, Handler) outcome" where
  "handlingEvent n env h = handleFrom n n env (begin_of (h_clientList h)) h"

section \<open>Reading from the cache\<close>

text \<open>
  \<open>sendAll\<close>: \<open>FAILURE\<close> is 1. The condition variable and its mutex are local to \<open>getFromCash\<close>;
  the record holds the codes of the calls on them, and \<open>v_cond\<close> stands for the address of the
  condition variable. A wait takes its answer from the operating system.
\<close>

definition FAILURE :: int32 where
  "FAILURE = 1"

fun sendAll :: "nat \<Rightarrow> Env \<Rightarrow> Handler \<Rightarrow> (int32, Handler) outcome" where
  "sendAll 0 env h = Fault OutOfFuel"
| "sendAll (Suc n) env h =
     bind (on_buffer (h_client h) isReadyToSend h) (\<lambda>ready h.
     if \<not> ready then Done SUCCESS h
     else
       bind (on_buffer (h_client h) (sendBuf env []) h) (\<lambda>s h.
       let h = h\<lparr>h_buffer := s\<rparr>
       in bind (ask_client (h_client h) (\<lambda>c. c) h) (\<lambda>c h.
          bind (on_os (sendBuf_client c s) h) (\<lambda>code h.
          if sint code < 0 then Done FAILURE h
          else bind (on_buffer (h_client h) (proofSend s) h) (\<lambda>_ h. sendAll n env h)))))"

record CondVar =
  v_cond :: nat
  v_mutexInit :: int32
  v_condInit :: int32
  v_lock :: int32
  v_unlock :: int32
  v_mutexDestroy :: int32
  v_condDestroy :: int32

definition initializeResources :: "CondVar \<Rightarrow> bool" where
  "initializeResources v = (if v_mutexInit v \<noteq> SUCCESS then True else v_condInit v \<noteq> SUCCESS)"

definition deleteResources :: "CondVar \<Rightarrow> bool" where
  "deleteResources v = (if v_mutexDestroy v \<noteq> SUCCESS then True else v_condDestroy v \<noteq> SUCCESS)"

definition condWait :: "Handler \<Rightarrow> (bool, Handler) outcome" where
  "condWait h = (case o_waits (h_os h) of
     [] \<Rightarrow> Fault OutOfFuel
   | (waitCode, meanwhile) # rest \<Rightarrow>
       Done (waitCode \<noteq> SUCCESS)
         (h\<lparr>h_os := (h_os h)\<lparr>o_waits := rest\<rparr>, h_cash := meanwhile (h_cash h)\<rparr>))"

definition serverConnected :: "Handler \<Rightarrow> (bool, Handler) outcome" where
  "serverConnected h = on_buffer (h_client h) (ask_element isIsServerConnected) h"

text \<open>The inner loop; the result is the new value of \<open>run\<close>.\<close>

fun waitForData :: "nat \<Rightarrow> Handler \<Rightarrow> (bool, Handler) outcome" where
  "waitForData 0 h = Fault OutOfFuel"
| "waitForData (Suc n) h =
     bind (serverConnected h) (\<lambda>connected h.
     if \<not> connected then Done True h
     else
       bind (on_buffer (h_client h) isReadyToSend h) (\<lambda>ready h.
       if ready then Done True h
       else bind (condWait h) (\<lambda>failed h. if failed then Done False h else waitForData n h)))"

fun cashLoop :: "nat \<Rightarrow> nat \<Rightarrow> Env \<Rightarrow> Handler \<Rightarrow> (unit, Handler) outcome" where
  "cashLoop 0 n env h = Fault OutOfFuel"
| "cashLoop (Suc k) n env h =
     bind (waitForData n h) (\<lambda>run h.
     bind (serverConnected h) (\<lambda>connected h.
     if \<not> connected then bind (sendAll n env h) (\<lambda>_ h. Done () h)
     else
       bind (on_buffer (h_client h) isReadyToSend h) (\<lambda>ready h.
       bind (if ready then sendAll n env h else Done SUCCESS h) (\<lambda>code h.
       if code = FAILURE then Done () h
       else if run then cashLoop k n env h else Done () h))))"

definition getFromCash :: "nat \<Rightarrow> Env \<Rightarrow> CondVar \<Rightarrow> Handler \<Rightarrow> (unit, Handler) outcome" where
  "getFromCash n env v h =
     (if initializeResources v then Done () h
      else if v_lock v \<noteq> SUCCESS then Done () h
      else
        bind (on_buffer (h_client h) (on_element (\<lambda>e. (addCondVar (subsLock env) (v_cond v) e, []))) h) (\<lambda>_ h.
        bind (cashLoop n n env h) (\<lambda>_ h.
        if v_unlock v \<noteq> SUCCESS then Done () h
        else on_buffer (h_client h) (on_element (\<lambda>e. (dellCondVar (subsLock env) (v_cond v) e, []))) h)))"

section \<open>The thread\<close>

text \<open>
  \<open>poll\<close> fills in the \<open>revents\<close> of the entries it was given; every answer but -1 is handled
  alike. The events of a whole round are handled before the next \<open>poll\<close>.
\<close>

definition sys_poll :: "Handler \<Rightarrow> (int32, Handler) outcome" where
  "sys_poll h = (case o_polls (h_os h) of
     [] \<Rightarrow> Fault OutOfFuel
   | (code, revents) # rest \<Rightarrow>
       Done code (h\<lparr>h_os := (h_os h)\<lparr>o_polls := rest\<rparr>,
         h_pollSet := map (\<lambda>(i, e). if i < length revents \<and> i < length (h_clientList h)
             then e\<lparr>p_revents := revents ! i\<rparr> else e) (enumerate 0 (h_pollSet h))\<rparr>))"

fun startHandler :: "nat \<Rightarrow> nat \<Rightarrow> Env \<Rightarrow> CondVar \<Rightarrow> Handler \<Rightarrow> (unit, Handler) outcome" where
  "startHandler 0 n env v h = Fault OutOfFuel"
| "startHandler (Suc k) n env v h =
     (if h_clientList h = [] then Done () h
      else
        bind (setPollSetBeforePoll h) (\<lambda>_ h.
        bind (sys_poll h) (\<lambda>code h.
        bind (saveResultPollSet h) (\<lambda>_ h.
        if code = -1 then Done () h
        else bind (handlingEvent n env h) (\<lambda>status h. case status of
            None \<Rightarrow> Done () h
          | Some False \<Rightarrow> startHandler k n env v h
          | Some True \<Rightarrow>
              bind (getFromCash n env v h) (\<lambda>_ h.
              deleteClientUser n env (h_client h) h))))))"

end
