(* ===== verification/Server.thy ===== *)
theory Server
  imports Handler
begin

text \<open>
  \<open>lab32v2/server/NewServerImpl\<close> and \<open>main.cpp\<close>: the loop that accepts users and starts a thread
  for each, and the body of that thread. The \<open>catch\<close> of the loop names a pointer,
  \<open>std::exception *\<close>, and so catches nothing that \<open>acceptNewClientSock\<close> throws. The codes of
  \<open>pthread_create\<close> and \<open>pthread_detach\<close> are inputs; a thread that was created is recorded by
  its arguments, and what it then does is \<open>startingMethodForThread\<close>.
\<close>

record ArgsForThread =
  args_sock :: int32

definition new_ArgsForThread :: "int32 \<Rightarrow> ArgsForThread" where
  "new_ArgsForThread sock = \<lparr>args_sock = sock\<rparr>"

definition getSock :: "ArgsForThread \<Rightarrow> int32" where
  "getSock args = args_sock args"

definition startingMethodForThread ::
    "nat \<Rightarrow> nat \<Rightarrow> Env \<Rightarrow> CondVar \<Rightarrow> ArgsForThread \<Rightarrow> CashImpl \<Rightarrow> Os \<Rightarrow> (unit, Handler) outcome" where
  "startingMethodForThread k n env v args cash os =
     (let h = new_HandlerOneClientImpl 0
           ((\<lambda>_. None)(0 := Some (new_ClientImpl (getSock args) USER (Some 0))))
           ((\<lambda>_. None)(0 := Some new_BufferImpl)) 1 cash os
      in bind (set_buffer 0 (setIsClientConnect True) h) (\<lambda>_ h. startHandler k n env v h))"

record NewServerImpl =
  n_serverSocket :: ServerSocketImpl
  n_cash :: CashImpl
  n_listFd :: "ArgsForThread list"
  n_threadCodes :: "(int32 \<times> int32) list"
  n_started :: "ArgsForThread list"

definition new_NewServerImpl ::
    "ListenAnswers \<Rightarrow> int32 list \<Rightarrow> (int32 \<times> int32) list \<Rightarrow> int64 \<Rightarrow> (nat \<Rightarrow> CashElement)
     \<Rightarrow> (unit, NewServerImpl) outcome" where
  "new_NewServerImpl ans accepts threads garbage mem =
     (let s = \<lparr>serverSocket = 0, listenPort = None, acceptCodes = accepts, socketClosed = False\<rparr>;
          server = \<lparr>n_serverSocket = s, n_cash = new_CashImpl garbage mem, n_listFd = [],
            n_threadCodes = threads, n_started = []\<rparr>
      in case connectSocket ans s of
           Done code s \<Rightarrow> Done () (server\<lparr>n_serverSocket := s\<rparr>)
         | Throws ex s \<Rightarrow> Throws ex (server\<lparr>n_serverSocket := s\<rparr>)
         | Fault x \<Rightarrow> Fault x)"

fun startServer :: "nat \<Rightarrow> NewServerImpl \<Rightarrow> (unit, NewServerImpl) outcome" where
  "startServer 0 server = Fault OutOfFuel"
| "startServer (Suc k) server = (case acceptNewClientSock (n_serverSocket server) of
     Fault x \<Rightarrow> Fault x
   | Throws ex s \<Rightarrow> Throws ex (server\<lparr>n_serverSocket := s\<rparr>)
   | Done sock s \<Rightarrow>
       let args = new_ArgsForThread sock;
           server = server\<lparr>n_serverSocket := s, n_listFd := args # n_listFd server\<rparr>
       in case n_threadCodes server of
            [] \<Rightarrow> Fault OutOfFuel
          | (createCode, detachCode) # rest \<Rightarrow>
              let server = server\<lparr>n_threadCodes := rest\<rparr>
              in if createCode \<noteq> SUCCESS then startServer k server
                 else let server = server\<lparr>n_started := n_started server @ [args]\<rparr>
                      in if detachCode \<noteq> SUCCESS then startServer k server
                         else startServer k server)"

text \<open>\<open>main\<close> catches every exception of the server and ends with code 0.\<close>

definition main_proxy ::
    "nat \<Rightarrow> ListenAnswers \<Rightarrow> int32 list \<Rightarrow> (int32 \<times> int32) list \<Rightarrow> int64 \<Rightarrow> (nat \<Rightarrow> CashElement)
     \<Rightarrow> (int32, NewServerImpl) outcome" where
  "main_proxy k ans accepts threads garbage mem =
     (case bind (new_NewServerImpl ans accepts threads garbage mem) (\<lambda>_ server. startServer k server) of
        Throws ex server \<Rightarrow> Done 0 server
      | Done u server \<Rightarrow> Done 0 server
      | Fault x \<Rightarrow> Fault x)"

end
