(* ===== verification/Handler_Correct.thy ===== *)
theory Handler_Correct
  imports Server Buffer_Correct
begin

text \<open>
  Properties of the thread that serves one user: what \<open>sendAll\<close> and \<open>getFromCash\<close> deliver, when
  they end, that the users of an element are counted right, and what the handler does with bytes
  that arrive from the wrong side or that a \<open>write\<close> did not accept.
\<close>

section \<open>Accesses that succeed\<close>

lemma map_state_eq [simp]:
  "map_state f m = Done v s \<longleftrightarrow> (\<exists>t. m = Done v t \<and> s = f t)"
  by (cases m) auto

definition ctx :: "Handler \<Rightarrow> Buffer \<Rightarrow> BufCtx" where
  "ctx h b = \<lparr>cx_buf = b, cx_cash = h_cash h, cx_signals = h_signals h\<rparr>"

lemma ctx_simps [simp]:
  "cx_buf (ctx h b) = b" "cx_cash (ctx h b) = h_cash h" "cx_signals (ctx h b) = h_signals h"
  by (simp_all add: ctx_def)

text \<open>The handler after a call on the buffer at \<open>p\<close>.\<close>

definition put :: "nat \<Rightarrow> BufCtx \<Rightarrow> Handler \<Rightarrow> Handler" where
  "put p x h = h\<lparr>h_buffers := (h_buffers h)(p := Some (cx_buf x)), h_cash := cx_cash x,
     h_signals := cx_signals x\<rparr>"

lemma put_simps [simp]:
  "h_clients (put p x h) = h_clients h" "h_os (put p x h) = h_os h" "h_client (put p x h) = h_client h"
  "h_clientList (put p x h) = h_clientList h" "h_buffers (put p x h) = (h_buffers h)(p := Some (cx_buf x))"
  "h_cash (put p x h) = cx_cash x" "h_signals (put p x h) = cx_signals x" "h_fresh (put p x h) = h_fresh h"
  "h_buffer (put p x h) = h_buffer h"
  by (simp_all add: put_def)

definition live :: "Handler \<Rightarrow> nat \<Rightarrow> nat \<Rightarrow> Buffer \<Rightarrow> bool" where
  "live h a p b \<longleftrightarrow> (\<exists>c. h_clients h a = Some c \<and> c_buffer c = Some p) \<and> h_buffers h p = Some b"

lemma on_buffer_live:
  "live h a p b \<Longrightarrow> on_buffer a f h = map_state (\<lambda>x. put p x h) (f (ctx h b))"
  by (auto simp: live_def on_buffer_def ask_client_def getBuffer_def ctx_def put_def [abs_def])

lemma put_ctx [simp]: "live h a p b \<Longrightarrow> put p (ctx h b) h = h"
  by (auto simp: live_def put_def fun_upd_idem)

lemma ask_buffer_live: "live h a p b \<Longrightarrow> ask_buffer a f h = Done (f b) h"
  by (simp add: ask_buffer_def on_buffer_live)

lemma set_buffer_live: "live h a p b \<Longrightarrow> set_buffer a f h = Done () (put p (set_buf (f b) (ctx h b)) h)"
  by (simp add: set_buffer_def on_buffer_live)

lemma live_put [simp]: "live h a p b \<Longrightarrow> live (put p x h) a p b' \<longleftrightarrow> b' = cx_buf x"
  by (auto simp: live_def)

lemma ask_client_Some: "h_clients h a = Some c \<Longrightarrow> ask_client a f h = Done (f c) h"
  by (simp add: ask_client_def)

lemma on_client_Some:
  "h_clients h a = Some c \<Longrightarrow> on_client a f h = Done () (h\<lparr>h_clients := (h_clients h)(a := Some (f c))\<rparr>)"
  by (simp add: on_client_def)

section \<open>Sending what is cached\<close>

text \<open>
  The user's buffer reads element \<open>e\<close> of the cache, of which \<open>k\<close> bytes have been sent, over
  the descriptor \<open>fd\<close>.
\<close>

definition reading :: "Handler \<Rightarrow> nat \<Rightarrow> Buffer \<Rightarrow> nat \<Rightarrow> nat \<Rightarrow> int32 \<Rightarrow> bool" where
  "reading h p b e k fd \<longleftrightarrow> live h (h_client h) p b \<and> b_isDataGetCash b \<and> b_cashElement b = Some e
     \<and> b_countByteReadFromCash b = of_nat k
     \<and> k \<le> length (e_cash (store (h_cash h) e)) \<and> length (e_cash (store (h_cash h) e)) < 2 ^ 62
     \<and> (b_isReadyToSend b \<longrightarrow> k < length (e_cash (store (h_cash h) e)))
     \<and> (\<exists>c. h_clients h (h_client h) = Some c \<and> c_fd c = fd)"

lemma getLength_nat:
  "length (e_cash e) < 2 ^ 62 \<Longrightarrow> sint (getLength e) = int (length (e_cash e))"
  by (simp add: getLength_def sint_size_of)

lemma isReadyToSend_reading:
  assumes "b_isDataGetCash b" "b_cashElement b = Some e" "b_countByteReadFromCash b = of_nat k"
    and "k \<le> length (e_cash (store (cx_cash x) e))" "length (e_cash (store (cx_cash x) e)) < 2 ^ 62"
    and "b_isReadyToSend b \<longrightarrow> k < length (e_cash (store (cx_cash x) e))" and "cx_buf x = b"
  shows "isReadyToSend x = Done (k < length (e_cash (store (cx_cash x) e)))
     (set_buf (b\<lparr>b_isReadyToSend := k < length (e_cash (store (cx_cash x) e))\<rparr>) x)"
proof -
  have "sint (of_nat k :: int64) = int k" using assms by (simp add: sint_of_nat_small)
  then show ?thesis
    using assms by (auto simp: isReadyToSend_def Let_def getLength_nat set_buf_def)
qed

text \<open>One chunk from the cache, when no other thread appends meanwhile.\<close>

definition chunk :: "nat \<Rightarrow> string \<Rightarrow> string" where
  "chunk k s = take 524287 (drop k s)"

lemma sendBuf_reading:
  assumes b: "b_isDataGetCash b" "b_cashElement b = Some e" "b_countByteReadFromCash b = of_nat k"
    and k: "k < length (e_cash (store (cx_cash x) e))" "length (e_cash (store (cx_cash x) e)) < 2 ^ 62"
    and x: "cx_buf x = b" and q: "others env = (\<lambda>c. c)"
  shows "sendBuf env t x = Done (chunk k (e_cash (store (cx_cash x) e))) x"
proof -
  define el where "el = store (cx_cash x) e"
  define n where "n = length (e_cash el)"
  have kn: "k < n" "n < 2 ^ 62" using k by (simp_all add: n_def el_def)
  have gl: "getLength el = of_nat n" by (simp add: getLength_def size_of_def n_def)
  have s: "sint (of_nat k :: int64) = int k" "sint (of_nat n :: int64) = int n"
    using kn by (simp_all add: sint_of_nat_small)
  have e: "of_nat k + BUF_SIZE - 1 = (of_nat (k + 524287) :: int64)" by (simp add: BUF_SIZE_def)
  have s': "sint (of_nat (k + 524287) :: int64) = int k + 524287"
    using kn by (subst sint_of_nat_small) simp_all
  then have s'': "sint (of_nat k + 524287 :: int64) = int k + 524287" by simp
  show ?thesis
  proof (cases "n \<ge> k + 524287")
    case True
    have u: "unat (524287 :: int64) = 524287" by simp
    have "length (resize 524287 t) = 524287" by (simp add: resize_def)
    then have "memCopyFromCash el (resize 524287 t) (of_nat k) (of_nat 524287) = Some (chunk k (e_cash el))"
      using True kn by (subst memCopyFromCash_exact) (simp_all add: n_def chunk_def)
    with True show ?thesis
      using b x q kn by (simp add: sendBuf_def Let_def gl s s' flip: el_def e) (simp add: e s'')
  next
    case False
    have d: "of_nat n - (of_nat k :: int64) = of_nat (n - k)" using kn by (simp add: of_nat_diff)
    have "unat (of_nat (n - k) :: int64) = n - k" using kn by (intro unat_of_nat_small) simp
    then have u: "unat (of_nat n - of_nat k :: int64) = n - k" unfolding d .
    have ch: "chunk k (e_cash el) = take (n - k) (drop k (e_cash el))"
      using False by (simp add: chunk_def n_def)
    have "memCopyFromCash el (resize (n - k) t) (of_nat k) (of_nat n - of_nat k) = Some (chunk k (e_cash el))"
      unfolding ch d
    proof (rule memCopyFromCash_exact)
      show "k + (n - k) \<le> length (e_cash el)" using kn by (simp add: n_def)
      show "length (e_cash el) < 2 ^ 63" using kn by (simp add: n_def)
      show "length (resize (n - k) t) = n - k" by (simp add: resize_def)
    qed
    with False show ?thesis
      using b x q kn by (simp add: sendBuf_def Let_def gl s u flip: el_def) (simp add: e s'')
  qed
qed

lemma proofSend_reading:
  assumes b: "b_isDataGetCash b" "b_cashElement b = Some e" "b_countByteReadFromCash b = of_nat k"
    and k: "k + length s \<le> length (e_cash (store (cx_cash x) e))" "length (e_cash (store (cx_cash x) e)) < 2 ^ 62"
    and x: "cx_buf x = b"
  shows "\<exists>b'. proofSend s x = Done () (set_buf b' x) \<and> b_isDataGetCash b' \<and> b_cashElement b' = Some e
     \<and> b_countByteReadFromCash b' = of_nat (k + length s)
     \<and> (b_isReadyToSend b' \<longrightarrow> k + length s < length (e_cash (store (cx_cash x) e)))"
proof -
  have eq: "(getLength (store (cx_cash x) e) = of_nat k + size_of s)
      = (k + length s = length (e_cash (store (cx_cash x) e)))"
  proof
    assume "getLength (store (cx_cash x) e) = of_nat k + size_of s"
    then have "(of_nat (length (e_cash (store (cx_cash x) e))) :: int64) = of_nat (k + length s)"
      by (simp add: getLength_def size_of_def)
    then have "unat (of_nat (length (e_cash (store (cx_cash x) e))) :: int64) = unat (of_nat (k + length s) :: int64)"
      by (rule arg_cong)
    with k show "k + length s = length (e_cash (store (cx_cash x) e))"
      using unat_of_nat_small [of "k + length s"] unat_of_nat_small [of "length (e_cash (store (cx_cash x) e))"] by simp
  next
    assume "k + length s = length (e_cash (store (cx_cash x) e))"
    then show "getLength (store (cx_cash x) e) = of_nat k + size_of s"
      by (simp add: getLength_def size_of_def flip: of_nat_add)
  qed
  define b1 where "b1 = (if k + length s = length (e_cash (store (cx_cash x) e))
     then b\<lparr>b_countByteReadFromCash := of_nat k + size_of s, b_isReadyToSend := False\<rparr>
     else b\<lparr>b_countByteReadFromCash := of_nat k + size_of s\<rparr>)"
  have "proofSend s x = Done () (set_buf (if isDownloadEnd (store (cx_cash x) e)
      then b1\<lparr>b_isEndSend := True, b_statusClient := END_WORK\<rparr>
      else if \<not> isIsServerConnected (store (cx_cash x) e) then b1\<lparr>b_error := True\<rparr> else b1) x)"
    using b x eq by (simp add: proofSend_def proofSendCash_def Let_def b1_def)
  moreover have "b_isDataGetCash b1" "b_cashElement b1 = Some e"
      "b_countByteReadFromCash b1 = of_nat (k + length s)"
      "b_isReadyToSend b1 \<longrightarrow> k + length s < length (e_cash (store (cx_cash x) e))"
    using b k by (auto simp: b1_def size_of_def)
  ultimately show ?thesis
    by (cases "isDownloadEnd (store (cx_cash x) e)"; cases "isIsServerConnected (store (cx_cash x) e)") auto
qed

lemma code_nonneg: "n < 2 ^ 31 \<Longrightarrow> \<not> sint (ucast (of_nat n :: int64) :: int32) < 0"
  by (simp only: narrow_small sint32_of_nat_small)

lemma sendAll_step:
  assumes r: "reading h p b e k fd" and k: "k < length (e_cash (store (h_cash h) e))"
    and q: "others env = (\<lambda>c. c)"
    and w: "o_writes (h_os h) = of_nat j # ws" "j \<le> length (chunk k (e_cash (store (h_cash h) e)))"
  shows "\<exists>h' b'. sendAll (Suc n) env h = sendAll n env h'
     \<and> reading h' p b' e (k + length (chunk k (e_cash (store (h_cash h) e)))) fd
     \<and> o_writes (h_os h') = ws \<and> h_cash h' = h_cash h
     \<and> o_wire (h_os h') = o_wire (h_os h) @ [(fd, take j (chunk k (e_cash (store (h_cash h) e))))]"
proof -
  let ?e = "store (h_cash h) e"
  define s where "s = chunk k (e_cash ?e)"
  have ls: "length s < 2 ^ 31" "k + length s \<le> length (e_cash ?e)"
    using k by (auto simp: s_def chunk_def)
  from r obtain c where c: "h_clients h (h_client h) = Some c" "c_fd c = fd"
    and live: "live h (h_client h) p b"
    and b: "b_isDataGetCash b" "b_cashElement b = Some e" "b_countByteReadFromCash b = of_nat k"
    and len: "length (e_cash ?e) < 2 ^ 62"
    by (auto simp: reading_def)
  define b1 where "b1 = b\<lparr>b_isReadyToSend := True\<rparr>"
  have b1: "b_isDataGetCash b1" "b_cashElement b1 = Some e" "b_countByteReadFromCash b1 = of_nat k"
    using b by (simp_all add: b1_def)
  define h1 where "h1 = put p (set_buf b1 (ctx h b)) h"
  have live1: "live h1 (h_client h) p b1" using live by (simp add: h1_def)
  have 1: "on_buffer (h_client h) isReadyToSend h = Done True h1"
    using isReadyToSend_reading [OF b, of "ctx h b"] k len by (simp add: on_buffer_live [OF live] h1_def b1_def)
  have c1: "h_cash h1 = h_cash h" "h_clients h1 = h_clients h" "h_os h1 = h_os h" "h_client h1 = h_client h"
    by (simp_all add: h1_def)
  have 2: "on_buffer (h_client h) (sendBuf env []) h1 = Done s h1"
    using sendBuf_reading [OF b1, of "ctx h1 b1" env "[]"] k len q live1
    by (simp add: on_buffer_live [OF live1] c1 s_def)
  define h3 where "h3 = h1\<lparr>h_buffer := s, h_os := (h_os h)\<lparr>o_writes := ws,
     o_wire := o_wire (h_os h) @ [(fd, take j s)]\<rparr>\<rparr>"
  have j: "j < 2 ^ 31" using w(2) ls(1) by (simp add: s_def)
  then have "unat (of_nat j :: int64) = j" "\<not> sint (of_nat j :: int64) < 0"
    by (simp_all add: unat_of_nat_small sint_of_nat_small)
  then have 3: "on_os (sendBuf_client c s) (h1\<lparr>h_buffer := s\<rparr>) = Done (ucast (of_nat j :: int64)) h3"
    using w c by (simp add: on_os_def sendBuf_client_def sys_write_def c1 h3_def s_def)
  have live3: "live h3 (h_client h) p b1" using live1 by (simp add: live_def h3_def)
  have "cx_buf (ctx h3 b1) = b1" "store (cx_cash (ctx h3 b1)) e = ?e" by (simp_all add: h3_def c1)
  from proofSend_reading [OF b1, of s "ctx h3 b1"] ls(2) len this obtain b2 where
    b2: "proofSend s (ctx h3 b1) = Done () (set_buf b2 (ctx h3 b1))"
    "b_isDataGetCash b2" "b_cashElement b2 = Some e" "b_countByteReadFromCash b2 = of_nat (k + length s)"
    "b_isReadyToSend b2 \<longrightarrow> k + length s < length (e_cash ?e)" by auto
  define h4 where "h4 = put p (set_buf b2 (ctx h3 b1)) h3"
  have 4: "on_buffer (h_client h) (proofSend s) h3 = Done () h4"
    by (simp add: on_buffer_live [OF live3] b2(1) h4_def)
  have c3: "h_client h3 = h_client h" "h_clients h3 = h_clients h" by (simp_all add: h3_def c1)
  have "sendAll (Suc n) env h = sendAll n env h4"
    using code_nonneg [OF j] 3 c
    by (simp add: 1 2 c1 c3 ask_client_def Let_def) (simp add: 4)
  moreover have "reading h4 p b2 e (k + length s) fd"
    using b2 ls(2) len c live3
    by (simp add: reading_def h4_def c3) (simp add: live_def h3_def c1)
  ultimately show ?thesis
    by (intro exI [of _ h4] exI [of _ b2]) (simp add: h4_def h3_def c1 s_def)
qed

text \<open>The answers of \<open>write\<close> when every chunk of \<open>n\<close> bytes is accepted in full.\<close>

function full_writes :: "nat \<Rightarrow> int64 list" where
  "full_writes n = (if n = 0 then [] else of_nat (min 524287 n) # full_writes (n - 524287))"
  by pat_completeness auto
termination by (relation "measure id") auto

declare full_writes.simps [simp del]

lemma sendAll_stop:
  assumes r: "reading h p b e k fd" and k: "k = length (e_cash (store (h_cash h) e))"
  shows "\<exists>h' b'. sendAll (Suc n) env h = Done SUCCESS h' \<and> reading h' p b' e k fd
     \<and> o_wire (h_os h') = o_wire (h_os h) \<and> o_writes (h_os h') = o_writes (h_os h)
     \<and> h_cash h' = h_cash h \<and> h_client h' = h_client h \<and> h_os h' = h_os h"
proof -
  from r have live: "live h (h_client h) p b"
    and b: "b_isDataGetCash b" "b_cashElement b = Some e" "b_countByteReadFromCash b = of_nat k"
    and len: "length (e_cash (store (h_cash h) e)) < 2 ^ 62" and rd: "\<not> b_isReadyToSend b"
    using k by (auto simp: reading_def)
  define h1 where "h1 = put p (set_buf (b\<lparr>b_isReadyToSend := False\<rparr>) (ctx h b)) h"
  have "on_buffer (h_client h) isReadyToSend h = Done False h1"
    using isReadyToSend_reading [OF b, of "ctx h b"] k len rd by (simp add: on_buffer_live [OF live] h1_def)
  moreover have "reading h1 p (b\<lparr>b_isReadyToSend := False\<rparr>) e k fd"
    using r by (auto simp: reading_def h1_def)
  ultimately show ?thesis
    by (intro exI [of _ h1] exI [of _ "b\<lparr>b_isReadyToSend := False\<rparr>"]) (simp add: h1_def)
qed

lemma sendAll_all:
  assumes "reading h p b e k fd" and q: "others env = (\<lambda>c. c)"
    and "o_writes (h_os h) = full_writes (length (e_cash (store (h_cash h) e)) - k) @ ws"
    and "n > length (full_writes (length (e_cash (store (h_cash h) e)) - k))"
  shows "\<exists>h' b' cs. sendAll n env h = Done SUCCESS h'
     \<and> reading h' p b' e (length (e_cash (store (h_cash h) e))) fd \<and> h_cash h' = h_cash h
     \<and> o_wire (h_os h') = o_wire (h_os h) @ map (Pair fd) cs
     \<and> concat cs = drop k (e_cash (store (h_cash h) e)) \<and> o_writes (h_os h') = ws"
  using assms(1,3,4)
proof (induction n arbitrary: h b k)
  case (Suc n)
  let ?s = "e_cash (store (h_cash h) e)"
  show ?case
  proof (cases "k = length ?s")
    case True
    from sendAll_stop [OF Suc.prems(1) True, of n env] obtain h' b' where h':
      "sendAll (Suc n) env h = Done SUCCESS h'" "reading h' p b' e k fd"
      "o_wire (h_os h') = o_wire (h_os h)" "o_writes (h_os h') = o_writes (h_os h)"
      "h_cash h' = h_cash h" by blast
    then show ?thesis
      using True Suc.prems(2) by (intro exI [of _ h'] exI [of _ b'] exI [of _ "[]"]) (simp add: full_writes.simps)
  next
    case False
    with Suc.prems(1) have k: "k < length ?s" by (auto simp: reading_def)
    have lc: "length (chunk k ?s) = min 524287 (length ?s - k)" by (simp add: chunk_def min.commute)
    have fw: "full_writes (length ?s - k) = of_nat (length (chunk k ?s)) # full_writes (length ?s - k - 524287)"
      using k by (subst full_writes.simps) (simp add: lc)
    have rest: "length ?s - k - 524287 = length ?s - (k + length (chunk k ?s))"
      using k by (auto simp: lc min_def)
    from Suc.prems(2) fw have "o_writes (h_os h) = of_nat (length (chunk k ?s)) # full_writes (length ?s - k - 524287) @ ws"
      by simp
    from sendAll_step [OF Suc.prems(1) k q this order.refl, of n] obtain h1 b1 where 1:
      "sendAll (Suc n) env h = sendAll n env h1" "reading h1 p b1 e (k + length (chunk k ?s)) fd"
      "o_writes (h_os h1) = full_writes (length ?s - k - 524287) @ ws" "h_cash h1 = h_cash h"
      "o_wire (h_os h1) = o_wire (h_os h) @ [(fd, chunk k ?s)]" by auto
    have "n > length (full_writes (length ?s - (k + length (chunk k ?s))))"
      using Suc.prems(3) fw rest by simp
    with Suc.IH [OF 1(2)] 1(3,4) rest obtain h' b' cs where h':
      "sendAll n env h1 = Done SUCCESS h'" "reading h' p b' e (length ?s) fd" "h_cash h' = h_cash h"
      "o_wire (h_os h') = o_wire (h_os h1) @ map (Pair fd) cs"
      "concat cs = drop (k + length (chunk k ?s)) ?s" "o_writes (h_os h') = ws" by auto
    have "chunk k ?s @ drop (k + length (chunk k ?s)) ?s = drop k ?s"
      by (simp add: chunk_def min_def) (metis append_take_drop_id drop_drop add.commute drop_all append_Nil2 length_drop)
    then show ?thesis
      using h' 1 by (intro exI [of _ h'] exI [of _ b'] exI [of _ "chunk k ?s # cs"]) simp
  qed
qed simp

text \<open>
  C40: \<open>sendAll\<close> ends and delivers the cached response exactly. For a user who has been sent the
  first \<open>k\<close> bytes of an element, with every \<open>write\<close> accepting its chunk and no other thread
  appending meanwhile, one more round than there are chunks suffices, the result is \<open>SUCCESS\<close>, and
  what goes over the user's descriptor, and over no other, is the rest of the element in order.
\<close>

theorem sendAll_delivers:
  assumes "reading h p b e k fd" and "others env = (\<lambda>c. c)"
    and "o_writes (h_os h) = full_writes (length (e_cash (store (h_cash h) e)) - k) @ ws"
    and "n > length (full_writes (length (e_cash (store (h_cash h) e)) - k))"
  shows "\<exists>h' b' cs. sendAll n env h = Done SUCCESS h'
     \<and> reading h' p b' e (length (e_cash (store (h_cash h) e))) fd
     \<and> o_wire (h_os h') = o_wire (h_os h) @ map (Pair fd) cs
     \<and> concat cs = drop k (e_cash (store (h_cash h) e)) \<and> o_writes (h_os h') = ws"
  using sendAll_all [OF assms] by blast

definition fix_os :: Os where
  "fix_os = \<lparr>o_polls = [], o_reads = [], o_writes = [], o_connects = [], o_waits = [],
     o_wire = [], o_dialed = [], o_closed = []\<rparr>"

definition fix_handler :: "Buffer \<Rightarrow> CashImpl \<Rightarrow> Os \<Rightarrow> Handler" where
  "fix_handler b c os = new_HandlerOneClientImpl 0
     ((\<lambda>_. None)(0 := Some (new_ClientImpl 5 USER (Some 0)))) ((\<lambda>_. None)(0 := Some b)) 1 c os"

definition fix_hit :: Buffer where
  "fix_hit = new_BufferImpl\<lparr>b_statusClient := READ_RESPONSE, b_isDataGetCash := True,
     b_isClientConnect := True, b_cashElement := Some 0\<rparr>"

definition fix_cached :: CashImpl where
  "fix_cached = fix_cash 0 [(fix_element 1 ''r'')\<lparr>e_cash := ''abc''\<rparr>]"

lemma fix_reading: "reading (fix_handler fix_hit fix_cached os) 0 fix_hit 0 0 5"
  by (simp add: reading_def live_def fix_handler_def new_HandlerOneClientImpl_def new_ClientImpl_def
      fix_hit_def fix_cached_def new_BufferImpl_def fixture)

theorem sendAll_delivers_witness:
  "\<exists>h' cs. sendAll 2 (fix_env (\<lambda>c. c)) (fix_handler fix_hit fix_cached (fix_os\<lparr>o_writes := [3]\<rparr>)) = Done SUCCESS h'
     \<and> o_wire (h_os h') = map (Pair 5) cs \<and> concat cs = ''abc''"
proof -
  let ?h = "fix_handler fix_hit fix_cached (fix_os\<lparr>o_writes := [3]\<rparr>)"
  have q: "others (fix_env (\<lambda>c. c)) = (\<lambda>c. c)" by (simp add: fix_env_def)
  have len: "e_cash (store (h_cash ?h) 0) = ''abc''"
    by (simp add: fix_handler_def new_HandlerOneClientImpl_def fix_cached_def fixture)
  have fw: "full_writes (Suc (Suc (Suc 0))) = [3]"
    by (subst full_writes.simps) (simp add: full_writes.simps [of 0])
  have "o_writes (h_os ?h) = full_writes (length (e_cash (store (h_cash ?h) 0)) - 0) @ []"
    "2 > length (full_writes (length (e_cash (store (h_cash ?h) 0)) - 0))"
    "o_wire (h_os ?h) = []"
    by (simp_all add: len fw) (simp_all add: fix_handler_def new_HandlerOneClientImpl_def fix_os_def)
  from sendAll_delivers [OF fix_reading q this(1,2)] this(3) len show ?thesis by auto
qed

text \<open>
  A \<open>write\<close> that accepts only part of its chunk loses the rest. The code compares the result
  with 0 only and confirms the whole chunk, so when the last chunk is cut short to \<open>j\<close> bytes,
  \<open>sendAll\<close> reports \<open>SUCCESS\<close> after \<open>j\<close> bytes, counts the element as sent completely, and
  never offers the missing bytes again.
\<close>

theorem short_write_loses_bytes:
  assumes r: "reading h p b e k fd" and q: "others env = (\<lambda>c. c)"
    and k: "k < length (e_cash (store (h_cash h) e))" "length (e_cash (store (h_cash h) e)) \<le> k + 524287"
    and w: "o_writes (h_os h) = [of_nat j]" "j < length (e_cash (store (h_cash h) e)) - k"
  shows "\<exists>h' b'. sendAll (Suc (Suc n)) env h = Done SUCCESS h'
     \<and> o_wire (h_os h') = o_wire (h_os h) @ [(fd, take j (drop k (e_cash (store (h_cash h) e))))]
     \<and> reading h' p b' e (length (e_cash (store (h_cash h) e))) fd"
proof -
  have ch: "chunk k (e_cash (store (h_cash h) e)) = drop k (e_cash (store (h_cash h) e))"
    using k by (simp add: chunk_def)
  have "j \<le> length (chunk k (e_cash (store (h_cash h) e)))" using w(2) by (simp add: ch)
  from sendAll_step [OF r k(1) q w(1) this, of "Suc n"] obtain h1 b1 where 1:
    "sendAll (Suc (Suc n)) env h = sendAll (Suc n) env h1"
    "reading h1 p b1 e (length (e_cash (store (h_cash h) e))) fd" "h_cash h1 = h_cash h"
    "o_wire (h_os h1) = o_wire (h_os h) @ [(fd, take j (drop k (e_cash (store (h_cash h) e))))]"
    using k by (auto simp: ch)
  from sendAll_stop [OF 1(2), of n env] 1(3) obtain h2 b2 where
    "sendAll (Suc n) env h1 = Done SUCCESS h2" "reading h2 p b2 e (length (e_cash (store (h_cash h) e))) fd"
    "o_wire (h_os h2) = o_wire (h_os h1)" by auto
  with 1 show ?thesis by auto
qed

theorem short_write_loses_bytes_witness:
  "\<exists>h'. sendAll 2 (fix_env (\<lambda>c. c)) (fix_handler fix_hit fix_cached (fix_os\<lparr>o_writes := [1]\<rparr>)) = Done SUCCESS h'
     \<and> o_wire (h_os h') = [(5, ''a'')]"
proof -
  let ?h = "fix_handler fix_hit fix_cached (fix_os\<lparr>o_writes := [1]\<rparr>)"
  have q: "others (fix_env (\<lambda>c. c)) = (\<lambda>c. c)" by (simp add: fix_env_def)
  have h: "e_cash (store (h_cash ?h) 0) = ''abc''" "o_writes (h_os ?h) = [of_nat 1]" "o_wire (h_os ?h) = []"
    by (simp_all add: fix_handler_def new_HandlerOneClientImpl_def fix_cached_def fixture fix_os_def)
  from short_write_loses_bytes [OF fix_reading q _ _ h(2), of 0] h show ?thesis
    by (auto simp: numeral_2_eq_2)
qed

section \<open>Serving a user from the cache\<close>

lemma reading_live: "reading h p b e k fd \<Longrightarrow> live h (h_client h) p b"
  by (simp add: reading_def)

text \<open>A change of the element other than of its bytes leaves the user reading it.\<close>

lemma reading_upd:
  assumes r: "reading h p b e k fd" and f: "e_cash (fst (f (store (h_cash h) e))) = e_cash (store (h_cash h) e)"
  shows "on_buffer (h_client h) (on_element f) h = Done () (put p (upd_element e f (ctx h b)) h)"
    and "reading (put p (upd_element e f (ctx h b)) h) p b e k fd"
proof -
  from r have live: "live h (h_client h) p b" and be: "b_cashElement b = Some e" by (simp_all add: reading_def)
  show "on_buffer (h_client h) (on_element f) h = Done () (put p (upd_element e f (ctx h b)) h)"
    by (simp add: on_buffer_live [OF live] be)
  show "reading (put p (upd_element e f (ctx h b)) h) p b e k fd"
    using r f live by (simp add: reading_def)
qed

lemma serverConnected_reading:
  "reading h p b e k fd \<Longrightarrow> serverConnected h = Done (isIsServerConnected (store (h_cash h) e)) h"
proof -
  assume r: "reading h p b e k fd"
  then have "live h (h_client h) p b" "b_cashElement b = Some e" by (simp_all add: reading_def)
  then show ?thesis by (simp add: serverConnected_def on_buffer_live)
qed

lemma e_cash_subs [simp]:
  "e_cash (addCondVar l v e) = e_cash e" "e_cash (dellCondVar l v e) = e_cash e"
  "e_isServerConnected (addCondVar l v e) = e_isServerConnected e"
  "e_isServerConnected (dellCondVar l v e) = e_isServerConnected e"
  by (simp_all add: addCondVar_def dellCondVar_def)

definition quiet_codes :: "CondVar \<Rightarrow> bool" where
  "quiet_codes v \<longleftrightarrow> v_mutexInit v = SUCCESS \<and> v_condInit v = SUCCESS \<and> v_lock v = SUCCESS \<and> v_unlock v = SUCCESS"

text \<open>
  A user who finds a response whose download is over, complete or not, is sent all that the
  cache has of it, and \<open>getFromCash\<close> returns, leaving the subscribers as they were. Nothing in the
  outcome depends on whether the download was complete: an element whose server went away half-way
  stays listed, and everyone who asks for it later is sent the part that had arrived, as if it
  were the response.
\<close>

theorem getFromCash_serves_what_there_is:
  assumes r: "reading h p b e k fd" and q: "others env = (\<lambda>c. c)" and v: "quiet_codes v"
    and locks: "subsLock env = SUCCESS" and off: "\<not> isIsServerConnected (store (h_cash h) e)"
    and w: "o_writes (h_os h) = full_writes (length (e_cash (store (h_cash h) e)) - k) @ ws"
    and n: "n > length (full_writes (length (e_cash (store (h_cash h) e)) - k))"
  shows "\<exists>h' cs. getFromCash n env v h = Done () h'
     \<and> o_wire (h_os h') = o_wire (h_os h) @ map (Pair fd) cs
     \<and> concat cs = drop k (e_cash (store (h_cash h) e))
     \<and> listCash (h_cash h') = listCash (h_cash h) \<and> store (h_cash h') = store (h_cash h)
     \<and> (\<exists>b'. reading h' p b' e (length (e_cash (store (h_cash h) e))) fd)"
proof -
  define add where "add = (\<lambda>e. (addCondVar (subsLock env) (v_cond v) e, [] :: nat list))"
  define del where "del = (\<lambda>e. (dellCondVar (subsLock env) (v_cond v) e, [] :: nat list))"
  define h1 where "h1 = put p (upd_element e add (ctx h b)) h"
  have "e_cash (fst (add (store (h_cash h) e))) = e_cash (store (h_cash h) e)" by (simp add: add_def)
  note 1 = reading_upd [where f = add, OF r this, folded h1_def]
  have s1: "store (h_cash h1) e = addCondVar SUCCESS (v_cond v) (store (h_cash h) e)" "h_os h1 = h_os h"
    "h_client h1 = h_client h" "listCash (h_cash h1) = listCash (h_cash h)"
    using locks by (simp_all add: h1_def add_def)
  have off1: "serverConnected h1 = Done False h1"
    using serverConnected_reading [OF 1(2)] off by (simp add: s1 isIsServerConnected_def)
  from n obtain m where m: "n = Suc m" by (cases n) auto
  have "o_writes (h_os h1) = full_writes (length (e_cash (store (h_cash h1) e)) - k) @ ws"
    "n > length (full_writes (length (e_cash (store (h_cash h1) e)) - k))"
    using w n by (simp_all add: s1)
  from sendAll_all [OF 1(2) q this] obtain h2 b2 cs where 2: "sendAll n env h1 = Done SUCCESS h2"
    "reading h2 p b2 e (length (e_cash (store (h_cash h1) e))) fd" "h_cash h2 = h_cash h1"
    "o_wire (h_os h2) = o_wire (h_os h1) @ map (Pair fd) cs" "concat cs = drop k (e_cash (store (h_cash h1) e))"
    by blast
  have "waitForData n h1 = Done True h1" by (simp add: m off1)
  then have "cashLoop (Suc m) n env h1 = Done () h2" by (simp add: off1 2(1))
  then have loop: "cashLoop n n env h1 = Done () h2" by (simp only: m)
  define h3 where "h3 = put p (upd_element e del (ctx h2 b2)) h2"
  have "e_cash (fst (del (store (h_cash h2) e))) = e_cash (store (h_cash h2) e)" by (simp add: del_def)
  note 3 = reading_upd [where f = del, OF 2(2) this, folded h3_def]
  have "getFromCash n env v h = Done () h3"
    using v 1(1) 3(1) by (simp add: getFromCash_def initializeResources_def quiet_codes_def loop flip: add_def del_def)
  moreover have "store (h_cash h3) a = store (h_cash h) a" for a
    using locks by (cases "a = e") (simp_all add: h3_def 2(3) del_def s1(1), simp add: h1_def)
  then have "store (h_cash h3) = store (h_cash h)" by (rule ext)
  moreover have "listCash (h_cash h3) = listCash (h_cash h)" by (simp add: h3_def 2(3) s1)
  moreover have "\<exists>b'. reading h3 p b' e (length (e_cash (store (h_cash h) e))) fd"
    using 3(2) by (auto simp: s1(1))
  moreover have "o_wire (h_os h3) = o_wire (h_os h) @ map (Pair fd) cs" by (simp add: h3_def 2(4) s1(2))
  moreover have "concat cs = drop k (e_cash (store (h_cash h) e))" using 2(5) by (simp add: s1(1))
  ultimately show ?thesis by blast
qed

definition fix_codes :: CondVar where
  "fix_codes = \<lparr>v_cond = 7, v_mutexInit = SUCCESS, v_condInit = SUCCESS, v_lock = SUCCESS,
     v_unlock = SUCCESS, v_mutexDestroy = SUCCESS, v_condDestroy = SUCCESS\<rparr>"

text \<open>Here the server went away after 3 bytes: the element is neither connected nor complete.\<close>

theorem getFromCash_serves_what_there_is_witness:
  "\<exists>h' cs. getFromCash 2 (fix_env (\<lambda>c. c)) fix_codes
        (fix_handler fix_hit fix_cached (fix_os\<lparr>o_writes := [3]\<rparr>)) = Done () h'
     \<and> o_wire (h_os h') = map (Pair 5) cs \<and> concat cs = ''abc''
     \<and> \<not> isDownloadEnd (store (h_cash h') 0) \<and> listCash (h_cash h') = [0]"
proof -
  let ?h = "fix_handler fix_hit fix_cached (fix_os\<lparr>o_writes := [3]\<rparr>)"
  have q: "others (fix_env (\<lambda>c. c)) = (\<lambda>c. c)" "subsLock (fix_env (\<lambda>c. c)) = SUCCESS"
    and v: "quiet_codes fix_codes"
    by (simp_all add: fix_env_def quiet_codes_def fix_codes_def)
  have h: "e_cash (store (h_cash ?h) 0) = ''abc''" "\<not> isIsServerConnected (store (h_cash ?h) 0)"
    "\<not> isDownloadEnd (store (h_cash ?h) 0)" "listCash (h_cash ?h) = [0]"
    by (simp_all add: fix_handler_def new_HandlerOneClientImpl_def fix_cached_def fixture
        isIsServerConnected_def isDownloadEnd_def)
  have fw: "full_writes (Suc (Suc (Suc 0))) = [3]"
    by (subst full_writes.simps) (simp add: full_writes.simps [of 0])
  have w: "o_writes (h_os ?h) = full_writes (length (e_cash (store (h_cash ?h) 0)) - 0) @ []"
    "2 > length (full_writes (length (e_cash (store (h_cash ?h) 0)) - 0))"
    "o_wire (h_os ?h) = []"
    by (simp_all add: h fw) (simp_all add: fix_handler_def new_HandlerOneClientImpl_def fix_os_def)
  from getFromCash_serves_what_there_is [OF fix_reading q(1) v q(2) h(2) w(1,2)] w(3) h show ?thesis
    by auto
qed

section \<open>Whose bytes are they?\<close>

lemma on_client_live:
  "live h a p b \<Longrightarrow> c_buffer (f (the (h_clients h a))) = c_buffer (the (h_clients h a)) \<Longrightarrow>
     \<exists>h'. on_client a f h = Done () h' \<and> live h' a p b \<and> h' = h\<lparr>h_clients := (h_clients h)(a := Some (f (the (h_clients h a))))\<rparr>"
  by (auto simp: live_def on_client_def)

text \<open>A read event hands the bytes to the buffer, from whichever of the two connections they come.\<close>

lemma readEvent_user:
  assumes c: "h_clients h a = Some c" "c_typeClient c = USER" "c_buffer c = Some p" "h_buffers h p = Some b"
    and pair: "\<And>s. c_pair c = Some s \<Longrightarrow> h_clients h s \<noteq> None"
    and ev: "and (p_revents (c_structPollFd c)) POLLIN \<noteq> 0"
    and rd: "o_reads (h_os h) = Bytes s # rs" "s \<noteq> []" "length s \<le> 524287"
    and y: "readFromSocket env s (ctx h b) = Done () y"
    and st: "\<not> (b_statusClient (cx_buf y) = READ_RESPONSE \<and> b_isDataGetCash (cx_buf y))"
      "\<not> b_isReadyConnectHttpServer (cx_buf y)"
  shows "\<exists>h'. readEvent n env a h = Done Fall h' \<and> h_buffers h' p = Some (cx_buf y) \<and> h_cash h' = cx_cash y"
proof -
  define c1 where "c1 = setReventsZero c"
  have c1: "c_typeClient c1 = USER" "c_buffer c1 = Some p" "c_pair c1 = c_pair c"
    using c by (simp_all add: c1_def setReventsZero_def)
  define h1 where "h1 = h\<lparr>h_clients := (h_clients h)(a := Some c1)\<rparr>"
  define h2 where "h2 = h1\<lparr>h_os := (h_os h)\<lparr>o_reads := rs\<rparr>, h_buffer := s\<rparr>"
  have live2: "live h2 a p b" and ctx2: "ctx h2 b = ctx h b"
    using c c1 by (simp_all add: live_def h2_def h1_def ctx_def)
  have read: "on_os (readBuf c1 (h_buffer h1)) h1 = Done (0, s) (h1\<lparr>h_os := (h_os h)\<lparr>o_reads := rs\<rparr>\<rparr>)"
    using rd by (simp add: on_os_def readBuf_def sys_read_def h1_def Let_def)
  define h3 where "h3 = put p y h2"
  have rf: "on_buffer a (readFromSocket env s) h2 = Done () h3"
    by (simp add: on_buffer_live [OF live2] ctx2 y h3_def)
  have live3: "live h3 a p (cx_buf y)" using live2 by (simp add: h3_def)
  have c3: "h_clients h3 a = Some c1" "s \<noteq> a \<Longrightarrow> h_clients h3 s = h_clients h s" for s
    by (simp_all add: h3_def h2_def h1_def)
  obtain h4 where after: "afterRead a h3 = Done Fall h4" and live4: "live h4 a p (cx_buf y)" and h4: "h_cash h4 = cx_cash y"
  proof (cases "c_pair c")
    case None
    then have "afterRead a h3 = Done Fall h3"
      using st(1) c1 c3 by (auto simp: afterRead_def ask_client_def ask_buffer_live [OF live3] client_accessors buffer_accessors)
    with that [of h3] live3 show ?thesis by (simp add: h3_def)
  next
    case (Some sv)
    define c' where "c' = (if sv = a then c1 else the (h_clients h sv))"
    have "h_clients h3 sv = Some c'"
      using pair [OF Some] c3 by (auto simp: c'_def)
    then have "afterRead a h3 = Done Fall (h3\<lparr>h_clients := (h_clients h3)(sv := Some (setEvents all_events c'))\<rparr>)"
      using st(1) c1 c3 Some by (auto simp: afterRead_def ask_client_def on_client_def
          ask_buffer_live [OF live3] getTypeClient_def getPair_def buffer_accessors)
    moreover have "live (h3\<lparr>h_clients := (h_clients h3)(sv := Some (setEvents all_events c'))\<rparr>) a p (cx_buf y)"
      using live3 c1 by (auto simp: live_def setEvents_def c'_def c3)
    ultimately show ?thesis
      using that by (simp add: h3_def)
  qed
  have "openServer n env a h4 = Done Fall h4"
    using st(2) by (simp add: openServer_def ask_buffer_live [OF live4] isReadyConnectHttpServer_def)
  moreover have "h_clients h1 a = Some c1" by (simp add: h1_def)
  moreover have "h1\<lparr>h_os := (h_os h)\<lparr>o_reads := rs\<rparr>, h_buffer := s\<rparr> = h2" by (simp only: h2_def)
  moreover have "on_client a setReventsZero h = Done () h1"
    using c by (simp add: on_client_def h1_def c1_def)
  ultimately have "readEvent n env a h = Done Fall h4"
    using c ev rd(2) after rf read
    by (simp add: readEvent_def ask_client_def getPollFd_def Let_def)
  with live4 h4 show ?thesis by (auto simp: live_def)
qed

text \<open>
  C35: the user's own bytes are taken for the server's response, and cached. Once the request has
  gone out, bytes that arrive from the user go through the same states as the server's. If they
  look like a cacheable response, they are stored under the user's request, and that is what the
  cache then returns for it: to this user's next connection, and to everybody's.
\<close>

theorem user_bytes_poison_cache:
  fixes h b s
  defines "t \<equiv> b_buf b @ s"
  defines "hdg \<equiv> substr0 t (snd (findEndHeading t))"
  defines "r \<equiv> parsingResponseHeading hdg"
  assumes c: "h_clients h a = Some c" "c_typeClient c = USER" "c_buffer c = Some p" "h_buffers h p = Some b"
    and pair: "\<And>sv. c_pair c = Some sv \<Longrightarrow> h_clients h sv \<noteq> None"
    and ev: "and (p_revents (c_structPollFd c)) POLLIN \<noteq> 0"
    and rd: "o_reads (h_os h) = Bytes s # rs" "s \<noteq> []" "length s \<le> 524287"
    and b: "b_statusClient b = READ_RESPONSE" "b_statusHttpServer b = WRITE_RESPONSE_HEADING"
      "\<not> b_isDataGetCash b" "\<not> b_isReadyConnectHttpServer b"
    and fe: "fst (findEndHeading t) = END_HEADING" and ca: "cacheable r (received s (ctx h b))"
    and locks: "testLock env = SUCCESS" "cashLock env = SUCCESS" "wrLock env = SUCCESS"
    and q: "others env = (\<lambda>c. c)" and wf: "wf_cash (h_cash h)"
    and absent: "\<not> isElementInCash (hash env) SUCCESS (b_requestHeading b) (h_cash h)"
    and room: "addStringToCash (hash env) SUCCESS (b_requestHeading b) (contentLength r + size_of hdg) (h_cash h)
       = Done (Some e) cash"
  shows "\<exists>h'. readEvent n env a h = Done Fall h'
    \<and> fst (findResponseInCash (hash env) SUCCESS (b_requestHeading b) (h_cash h')) = Some e
    \<and> e_cash (store (h_cash h') e) = t"
proof -
  have "\<exists>y. readFromSocket env s (ctx h b) = Done () y \<and> downloading e y
    \<and> fst (findResponseInCash (hash env) SUCCESS (b_requestHeading b) (cx_cash y)) = Some e
    \<and> e_cash (element_of y e) = t \<and> b_isDataGetCash (cx_buf y) = b_isDataGetCash b
    \<and> b_isReadyConnectHttpServer (cx_buf y) = b_isReadyConnectHttpServer b"
    using response_stored_lemma [of "ctx h b" s env e cash] b(1,2) fe ca locks wf absent room
    unfolding t_def hdg_def r_def by (simp add: q) blast
  then obtain y where y: "readFromSocket env s (ctx h b) = Done () y"
    "fst (findResponseInCash (hash env) SUCCESS (b_requestHeading b) (cx_cash y)) = Some e"
    "e_cash (element_of y e) = t" "b_isDataGetCash (cx_buf y) = b_isDataGetCash b"
    "b_isReadyConnectHttpServer (cx_buf y) = b_isReadyConnectHttpServer b" by blast
  have "\<not> (b_statusClient (cx_buf y) = READ_RESPONSE \<and> b_isDataGetCash (cx_buf y))"
    "\<not> b_isReadyConnectHttpServer (cx_buf y)"
    using y(4,5) b(3,4) by simp_all
  from readEvent_user [OF c pair ev rd y(1) this, of n] y(2,3) show ?thesis by auto
qed

definition fix_user :: "string \<Rightarrow> Handler" where
  "fix_user s = (let b = cx_buf (fix_waiting (fix_cash 0 []))
     in (fix_handler b (fix_cash 0 []) (fix_os\<lparr>o_reads := [Bytes s]\<rparr>))
        \<lparr>h_clients := (\<lambda>_. None)(0 := Some ((new_ClientImpl 5 USER (Some 0))
             \<lparr>c_structPollFd := \<lparr>p_fd = 5, p_events = POLLIN, p_revents = POLLIN\<rparr>\<rparr>))\<rparr>)"

theorem user_bytes_poison_cache_witness:
  "\<exists>h'. readEvent 9 (fix_env (\<lambda>c. c)) 0 (fix_user (fix_response @ ''abc'')) = Done Fall h'
    \<and> fst (findResponseInCash fix_hash SUCCESS ''GET'' (h_cash h')) = Some 0
    \<and> e_cash (store (h_cash h') 0) = fix_response @ ''abc''"
proof -
  let ?s = "fix_response @ ''abc''"
  let ?b = "cx_buf (fix_waiting (fix_cash 0 []))" and ?c = "(new_ClientImpl 5 USER (Some 0))
     \<lparr>c_structPollFd := \<lparr>p_fd = 5, p_events = POLLIN, p_revents = POLLIN\<rparr>\<rparr>"
  note defs = fix_user_def fix_handler_def new_HandlerOneClientImpl_def Let_def
  have t: "b_buf ?b @ ?s = ?s" "b_requestHeading ?b = ''GET''" "hash (fix_env (\<lambda>c. c)) = fix_hash"
    by (simp_all add: fix_waiting_def fix_ctx_def new_BufferImpl_def fix_env_def)
  have fe: "findEndHeading ?s = (END_HEADING, 38)" "substr0 ?s 38 = fix_response" by code_simp+
  have c: "h_clients (fix_user ?s) 0 = Some ?c" "c_typeClient ?c = USER" "c_buffer ?c = Some 0"
    "h_buffers (fix_user ?s) 0 = Some ?b" "and (p_revents (c_structPollFd ?c)) POLLIN \<noteq> 0"
    "o_reads (h_os (fix_user ?s)) = Bytes ?s # []" "c_pair ?c = None"
    by (simp_all add: defs new_ClientImpl_def POLLIN_def fix_os_def)
  have l: "?s \<noteq> []" "length ?s \<le> 524287" by (simp_all add: fix_response_def crlf_def)
  have b: "b_statusClient ?b = READ_RESPONSE" "b_statusHttpServer ?b = WRITE_RESPONSE_HEADING"
    "\<not> b_isDataGetCash ?b" "\<not> b_isReadyConnectHttpServer ?b"
    by (simp_all add: fix_waiting_def fix_ctx_def new_BufferImpl_def)
  have ca: "cacheable (parsingResponseHeading fix_response) (received ?s (ctx (fix_user ?s) ?b))" by code_simp
  have cl: "contentLength (parsingResponseHeading fix_response) + size_of fix_response = 41" by code_simp
  obtain d where add: "addStringToCash fix_hash SUCCESS ''GET'' 41 (h_cash (fix_user ?s)) = Done (Some 0) d"
    by (simp add: defs cash_eval)
  have wf: "wf_cash (h_cash (fix_user ?s))" "\<not> isElementInCash fix_hash SUCCESS ''GET'' (h_cash (fix_user ?s))"
    by (simp_all add: defs cash_eval)
  have env: "testLock (fix_env (\<lambda>c. c)) = SUCCESS" "cashLock (fix_env (\<lambda>c. c)) = SUCCESS"
    "wrLock (fix_env (\<lambda>c. c)) = SUCCESS" "others (fix_env (\<lambda>c. c)) = (\<lambda>c. c)"
    by (simp_all add: fix_env_def)
  show ?thesis
    using user_bytes_poison_cache [OF c(1-4) _ c(5,6) l b, of "fix_env (\<lambda>c. c)" 0 d 9] c(7) ca env wf add
    unfolding t fe fst_conv snd_conv cl by simp
qed

section \<open>Connections that go away\<close>

text \<open>The two connections of a running exchange: the server \<open>s\<close> at the front of the list, the user \<open>u\<close>
  behind it, paired, and sharing the buffer at \<open>p\<close>.\<close>

definition linked :: "Handler \<Rightarrow> nat \<Rightarrow> nat \<Rightarrow> nat \<Rightarrow> Client \<Rightarrow> Client \<Rightarrow> Buffer \<Rightarrow> bool" where
  "linked h u s p cu cs b \<longleftrightarrow> u \<noteq> s \<and> h_clientList h = [s, u]
     \<and> h_clients h u = Some cu \<and> c_typeClient cu = USER \<and> c_buffer cu = Some p \<and> c_pair cu = Some s
     \<and> h_clients h s = Some cs \<and> c_typeClient cs = HTTP_SERVER \<and> c_buffer cs = Some p
     \<and> c_listHandlingEvent cs = [u]
     \<and> h_buffers h p = Some b \<and> b_isClientConnect b \<and> b_isServerConnect b
     \<and> (b_isAddDataToCash b \<or> b_isDataGetCash b \<longrightarrow> b_cashElement b \<noteq> None)"

lemmas heap_access = ask_client_def on_client_def on_buffer_def ask_buffer_def set_buffer_def
  delete_client_def delete_buffer_def erase_it_def next_it_def begin_of_def client_accessors
  buffer_accessors sys_close_def

definition fix_linked :: "Buffer \<Rightarrow> Handler" where
  "fix_linked b = (fix_handler (b\<lparr>b_isClientConnect := True, b_isServerConnect := True\<rparr>) fix_cached fix_os)
     \<lparr>h_clientList := [1, 0], h_fresh := 2, h_clients := (\<lambda>_. None)
        (0 := Some ((new_ClientImpl 5 USER (Some 0))\<lparr>c_pair := Some 1\<rparr>),
         1 := Some ((new_ClientImpl 9 HTTP_SERVER (Some 0))\<lparr>c_listHandlingEvent := [0]\<rparr>))\<rparr>"

lemma linked_fix:
  "(b_isAddDataToCash b \<or> b_isDataGetCash b \<longrightarrow> b_cashElement b \<noteq> None) \<Longrightarrow>
   linked (fix_linked b) 0 1 0 ((new_ClientImpl 5 USER (Some 0))\<lparr>c_pair := Some 1\<rparr>)
     ((new_ClientImpl 9 HTTP_SERVER (Some 0))\<lparr>c_listHandlingEvent := [0]\<rparr>)
     (b\<lparr>b_isClientConnect := True, b_isServerConnect := True\<rparr>)"
  by (simp add: linked_def fix_linked_def fix_handler_def new_HandlerOneClientImpl_def new_ClientImpl_def)

text \<open>
  C28: what goes when the user leaves a running exchange. \<open>deleteClient\<close> frees and closes the
  user's connection, and unless the response is being cached also the server's, first, and the
  buffer, each once and without touching a freed object, so that an empty list ends the
  thread's loop. While the response is being cached, the server's connection stays in the list
  without its reference to the user, and the buffer stays, marked as having no client, so that the
  download goes on. An exchange that reads from the cache gives its element's user count back;
  nothing else in the cache changes.
\<close>

theorem user_leaves_exchange:
  assumes "linked h u s p cu cs b"
  shows "\<exists>h'. deleteClient (8 + n) env (Some u) h = Done None h' \<and> h_clients h' u = None
     \<and> (if b_isAddDataToCash b
        then h_clientList h' = [s] \<and> h_clients h' s = Some (cs\<lparr>c_listHandlingEvent := []\<rparr>)
          \<and> h_buffers h' p = Some (b\<lparr>b_statusClient := END_WORK, b_isClientConnect := False\<rparr>)
          \<and> o_closed (h_os h') = o_closed (h_os h) @ [c_fd cu]
        else h_clientList h' = [] \<and> h_clients h' s = None \<and> h_buffers h' p = None
          \<and> o_closed (h_os h') = o_closed (h_os h) @ [c_fd cs, c_fd cu])
     \<and> listCash (h_cash h') = listCash (h_cash h)
     \<and> (\<forall>a. store (h_cash h') a = (if b_isDataGetCash b \<and> b_cashElement b = Some a
          then minusCountUsers (userLock env) (store (h_cash h) a) else store (h_cash h) a))"
proof (cases "b_isDataGetCash b")
  case True
  with assms obtain e where "b_cashElement b = Some e" by (auto simp: linked_def)
  with assms True show ?thesis
    by (cases "b_isAddDataToCash b")
       (simp_all add: linked_def deleteClientServer_def heap_access numeral_eq_Suc)
next
  case False
  with assms show ?thesis
    by (cases "b_isAddDataToCash b")
       (simp_all add: linked_def deleteClientServer_def heap_access numeral_eq_Suc)
qed

theorem user_leaves_exchange_witness:
  "(\<exists>h'. deleteClient 8 (fix_env (\<lambda>c. c)) (Some 0) (fix_linked new_BufferImpl) = Done None h'
     \<and> h_clientList h' = [] \<and> o_closed (h_os h') = [9, 5])
   \<and> (\<exists>h'. deleteClient 8 (fix_env (\<lambda>c. c)) (Some 0) (fix_linked (cx_buf fix_download)) = Done None h'
     \<and> h_clientList h' = [1] \<and> o_closed (h_os h') = [5])"
proof
  let ?cu = "(new_ClientImpl 5 USER (Some 0))\<lparr>c_pair := Some 1\<rparr>"
    and ?cs = "(new_ClientImpl 9 HTTP_SERVER (Some 0))\<lparr>c_listHandlingEvent := [0]\<rparr>"
  have "linked (fix_linked new_BufferImpl) 0 1 0 ?cu ?cs
     (new_BufferImpl\<lparr>b_isClientConnect := True, b_isServerConnect := True\<rparr>)"
    by (rule linked_fix) (simp add: new_BufferImpl_def)
  from user_leaves_exchange [OF this, of 0 "fix_env (\<lambda>c. c)"]
  show "\<exists>h'. deleteClient 8 (fix_env (\<lambda>c. c)) (Some 0) (fix_linked new_BufferImpl) = Done None h'
     \<and> h_clientList h' = [] \<and> o_closed (h_os h') = [9, 5]"
    by (auto simp: new_BufferImpl_def new_ClientImpl_def fix_linked_def fix_handler_def
        new_HandlerOneClientImpl_def fix_os_def)
  have "linked (fix_linked (cx_buf fix_download)) 0 1 0 ?cu ?cs
     ((cx_buf fix_download)\<lparr>b_isClientConnect := True, b_isServerConnect := True\<rparr>)"
    by (rule linked_fix) (simp add: fix_download_def fix_ctx_def)
  from user_leaves_exchange [OF this, of 0 "fix_env (\<lambda>c. c)"]
  show "\<exists>h'. deleteClient 8 (fix_env (\<lambda>c. c)) (Some 0) (fix_linked (cx_buf fix_download)) = Done None h'
     \<and> h_clientList h' = [1] \<and> o_closed (h_os h') = [5]"
    by (auto simp: fix_download_def fix_ctx_def new_BufferImpl_def new_ClientImpl_def fix_linked_def
        fix_handler_def new_HandlerOneClientImpl_def fix_os_def)
qed

text \<open>
  When the server goes away while its response is being cached, the element keeps the bytes it
  has, is marked as having no server, and every subscriber is signalled; it stays listed, also
  when the download was not complete. The server's connection is freed and closed, the user's
  is unpaired and polled for writing again, and the shared buffer stays for it.
\<close>

theorem server_leaves_element_stays:
  assumes "linked h u s p cu cs b" and "b_isAddDataToCash b" and "b_cashElement b = Some e"
  shows "\<exists>h'. deleteClient (Suc n) env (Some s) h = Done (Some u) h' \<and> h_clientList h' = [u]
     \<and> h_clients h' s = None \<and> h_clients h' u = Some (setEvents all_events (setPair None cu))
     \<and> h_buffers h' p = Some (b\<lparr>b_statusHttpServer := END_WORK, b_isServerConnect := False\<rparr>)
     \<and> \<not> isIsServerConnected (store (h_cash h') e)
     \<and> isDownloadEnd (store (h_cash h') e) = isDownloadEnd (store (h_cash h) e)
     \<and> e_cash (store (h_cash h') e) = e_cash (store (h_cash h) e)
     \<and> listCash (h_cash h') = listCash (h_cash h)
     \<and> h_signals h' = h_signals h @ signalUsers (subsLock env) (store (h_cash h) e)
     \<and> o_closed (h_os h') = o_closed (h_os h) @ [c_fd cs]"
  using assms
  by (simp add: linked_def deleteClientServer_def heap_access all_events_def setIsServerConnect_def
      Let_def isIsServerConnected_def isDownloadEnd_def signalUsers_def)

theorem server_leaves_element_stays_witness:
  "\<exists>h'. deleteClient 1 (fix_env (\<lambda>c. c)) (Some 1) (fix_linked (cx_buf fix_download)) = Done (Some 0) h'
     \<and> h_clientList h' = [0] \<and> \<not> isIsServerConnected (store (h_cash h') 0)
     \<and> \<not> isDownloadEnd (store (h_cash h') 0) \<and> listCash (h_cash h') = [0]"
proof -
  let ?b = "cx_buf fix_download"
  have "linked (fix_linked ?b) 0 1 0 ((new_ClientImpl 5 USER (Some 0))\<lparr>c_pair := Some 1\<rparr>)
     ((new_ClientImpl 9 HTTP_SERVER (Some 0))\<lparr>c_listHandlingEvent := [0]\<rparr>)
     (?b\<lparr>b_isClientConnect := True, b_isServerConnect := True\<rparr>)"
    by (rule linked_fix) (simp add: fix_download_def fix_ctx_def)
  from server_leaves_element_stays [OF this, of 0 0 "fix_env (\<lambda>c. c)"] show ?thesis
    by (auto simp: fix_download_def fix_ctx_def fix_linked_def fix_handler_def
        new_HandlerOneClientImpl_def fix_cached_def fixture isDownloadEnd_def)
qed

text \<open>
  A user served from the cache gives its element back. Deleting the connection lowers the
  element's count of users by the one that \<open>wrightRequestHeading\<close> had added, so the element can be
  evicted again, changes no other element, and frees the connection and its buffer.
\<close>

theorem reader_leaves_releases_element:
  assumes "h_clients h u = Some cu" and "c_pair cu = None" and "c_buffer cu = Some p"
    and "h_buffers h p = Some b" and "b_isDataGetCash b" and "b_cashElement b = Some e"
    and "\<not> b_isServerConnect b" and "userLock env = SUCCESS"
  shows "\<exists>h'. deleteClientUser (Suc n) env u h = Done () h' \<and> h_clients h' u = None \<and> h_buffers h' p = None
     \<and> getCountUsers (store (h_cash h') e) = getCountUsers (store (h_cash h) e) - 1
     \<and> (\<forall>a. a \<noteq> e \<longrightarrow> store (h_cash h') a = store (h_cash h) a)
     \<and> listCash (h_cash h') = listCash (h_cash h) \<and> o_closed (h_os h') = o_closed (h_os h) @ [c_fd cu]"
  using assms
  by (simp add: heap_access minusCountUsers_def getCountUsers_def)

theorem reader_leaves_releases_element_witness:
  "\<exists>h'. deleteClientUser 1 (fix_env (\<lambda>c. c)) 0 (fix_handler fix_hit fix_cached fix_os) = Done () h'
     \<and> getCountUsers (store (h_cash h') 0) = 0 \<and> o_closed (h_os h') = [5]"
proof -
  let ?h = "fix_handler fix_hit fix_cached fix_os" and ?c = "new_ClientImpl 5 USER (Some 0)"
  have "h_clients ?h 0 = Some ?c" "c_pair ?c = None" "c_buffer ?c = Some 0" "h_buffers ?h 0 = Some fix_hit"
    "b_isDataGetCash fix_hit" "b_cashElement fix_hit = Some 0" "\<not> b_isServerConnect fix_hit"
    "userLock (fix_env (\<lambda>c. c)) = SUCCESS"
    by (simp_all add: fix_handler_def new_HandlerOneClientImpl_def new_ClientImpl_def fix_hit_def
        new_BufferImpl_def fix_env_def)
  from reader_leaves_releases_element [OF this, of 0] show ?thesis
    by (auto simp: fix_handler_def new_HandlerOneClientImpl_def fix_cached_def fixture
        getCountUsers_def new_ClientImpl_def fix_os_def)
qed

text \<open>
  The poll set has two entries, and the handler can hold three connections. When the user's
  buffer reports a complete heading again while the exchange already has its server (it does so on
  every read before the request has gone out), a second server is connected, and filling the poll
  set in the next round writes past its end.
\<close>

theorem third_connection_overflows_poll_set:
  assumes "linked h u s p cu cs b" and "b_isReadyConnectHttpServer b" and "b_resultParseHeading b = Some r"
    and "o_connects (h_os h) = ans # rest" and "a_resolved ans" and "a_sock ans \<noteq> ERROR_CODE"
    and "a_connect ans \<noteq> ERROR_CODE" and "h_fresh h \<noteq> u" and "h_fresh h \<noteq> s"
  shows "\<exists>h'. openServer n env u h = Done Fall h' \<and> setPollSetBeforePoll h' = Fault OutOfBounds"
  using assms
  by (simp add: linked_def heap_access openServer_def connectToClient_def on_os_def Let_def
      setPollSetBeforePoll_def new_ClientImpl_def)

theorem third_connection_overflows_poll_set_witness:
  "\<exists>h'. openServer 9 (fix_env (\<lambda>c. c)) 0 ((fix_linked (new_BufferImpl\<lparr>b_isReadyConnectHttpServer := True,
        b_resultParseHeading := Some new_ResultParseHeading\<rparr>))
      \<lparr>h_os := fix_os\<lparr>o_connects := [\<lparr>a_resolved = True, a_sock = 11, a_connect = 0\<rparr>]\<rparr>\<rparr>) = Done Fall h'
     \<and> setPollSetBeforePoll h' = Fault OutOfBounds"
proof -
  let ?b = "new_BufferImpl\<lparr>b_isReadyConnectHttpServer := True, b_resultParseHeading := Some new_ResultParseHeading\<rparr>"
  let ?h = "(fix_linked ?b)\<lparr>h_os := fix_os\<lparr>o_connects := [\<lparr>a_resolved = True, a_sock = 11, a_connect = 0\<rparr>]\<rparr>\<rparr>"
  have "linked (fix_linked ?b) 0 1 0 ((new_ClientImpl 5 USER (Some 0))\<lparr>c_pair := Some 1\<rparr>)
     ((new_ClientImpl 9 HTTP_SERVER (Some 0))\<lparr>c_listHandlingEvent := [0]\<rparr>)
     (?b\<lparr>b_isClientConnect := True, b_isServerConnect := True\<rparr>)"
    by (rule linked_fix) (simp add: new_BufferImpl_def)
  then have "linked ?h 0 1 0 ((new_ClientImpl 5 USER (Some 0))\<lparr>c_pair := Some 1\<rparr>)
     ((new_ClientImpl 9 HTTP_SERVER (Some 0))\<lparr>c_listHandlingEvent := [0]\<rparr>)
     (?b\<lparr>b_isClientConnect := True, b_isServerConnect := True\<rparr>)"
    by (simp add: linked_def)
  then show ?thesis
    by (rule third_connection_overflows_poll_set
          [where ans = "\<lparr>a_resolved = True, a_sock = 11, a_connect = 0\<rparr>" and rest = "[]"]) (simp_all add: fix_linked_def ERROR_CODE_def)
qed

end
