(* ===== verification/Server_Correct.thy ===== *)
theory Server_Correct
  imports Handler_Correct
begin

text \<open>
  Properties of the accepting thread and of the address a request is sent to.
\<close>

lemma new_client_fields [simp]:
  "c_fd (new_ClientImpl sock t b) = sock" "c_typeClient (new_ClientImpl sock t b) = t"
  "c_buffer (new_ClientImpl sock t b) = b"
  by (simp_all add: new_ClientImpl_def)

text \<open>
  A request is sent to the host and the port its heading names, the port modulo 65536. For a
  heading written with a host and a port, what \<open>parsingHeading\<close> finds is what \<open>connectToClient\<close>
  dials, narrowed to the 16 bits of a port; when the name is resolved and the socket connects,
  the connection is one to an HTTP server over the socket's descriptor.
\<close>

theorem request_dials_its_host:
  assumes "\<not> sublist ''Host: '' pre" and "length pre \<ge> 3" and "list_all host_char host" and "n < 2 ^ 31"
    and "o_connects os = ans # rest" and "a_resolved ans" and "a_sock ans \<noteq> ERROR_CODE"
    and "a_connect ans \<noteq> ERROR_CODE"
  shows "\<exists>r c os'. parsingHeading (pre @ ''Host: '' @ host @ CHR '':'' # dec n @ crlf @ t) = Inr r
    \<and> connectToClient (hostName r) (port r) os = Done c os'
    \<and> o_dialed os' = o_dialed os @ [(host, of_nat (n mod 65536))]
    \<and> c_fd c = a_sock ans \<and> c_typeClient c = HTTP_SERVER"
proof -
  obtain r where r: "parsingHeading (pre @ ''Host: '' @ host @ CHR '':'' # dec n @ crlf @ t) = Inr r"
    "hostName r = host" "sint (port r) = int n"
    using parsingHeading_written [OF assms(1-4)] by blast
  have "port r = of_nat n"
  proof -
    have "sint (port r) = sint (of_nat n :: int32)"
      using r(3) assms(4) by (simp add: sint32_of_nat_small)
    then show ?thesis by (simp only: signed_word_eqI)
  qed
  then have "(ucast (port r) :: 16 word) = of_nat (n mod 65536)"
    using narrow_port [OF assms(4)] by simp
  with assms(5-8) r show ?thesis
    by (simp add: connectToClient_def Let_def)
qed

theorem request_dials_its_host_witness:
  "\<exists>r c os'. parsingHeading (''GET / HTTP/1.1 '' @ ''Host: '' @ ''ab.c-d'' @ CHR '':'' # dec 65616 @ crlf @ crlf) = Inr r
    \<and> connectToClient (hostName r) (port r)
        (fix_os\<lparr>o_connects := [\<lparr>a_resolved = True, a_sock = 11, a_connect = 0\<rparr>]\<rparr>) = Done c os'
    \<and> o_dialed os' = [(''ab.c-d'', 80)]"
proof -
  let ?os = "fix_os\<lparr>o_connects := [\<lparr>a_resolved = True, a_sock = 11, a_connect = 0\<rparr>]\<rparr>"
  have "\<not> sublist ''Host: '' ''GET / HTTP/1.1 ''"
    by (simp flip: find_sub_eq_None_iff)
  moreover have "length ''GET / HTTP/1.1 '' \<ge> 3" "list_all host_char ''ab.c-d''" "(65616 :: nat) < 2 ^ 31"
    by (simp_all add: host_char_def word_char_def is_digit_def Let_def)
  moreover have "o_connects ?os = \<lparr>a_resolved = True, a_sock = 11, a_connect = 0\<rparr> # []" by simp
  moreover have "a_resolved \<lparr>a_resolved = True, a_sock = 11, a_connect = 0\<rparr>"
    "a_sock \<lparr>a_resolved = True, a_sock = 11, a_connect = 0\<rparr> \<noteq> ERROR_CODE"
    "a_connect \<lparr>a_resolved = True, a_sock = 11, a_connect = 0\<rparr> \<noteq> ERROR_CODE"
    by (simp_all add: ERROR_CODE_def)
  ultimately obtain r c os' where
    r: "parsingHeading (''GET / HTTP/1.1 '' @ ''Host: '' @ ''ab.c-d'' @ CHR '':'' # dec 65616 @ crlf @ crlf) = Inr r"
    "connectToClient (hostName r) (port r) ?os = Done c os'"
    and d: "o_dialed os' = o_dialed ?os @ [(''ab.c-d'', of_nat (65616 mod 65536))]"
    using request_dials_its_host [of "''GET / HTTP/1.1 ''" "''ab.c-d''" 65616 ?os _ _ crlf] by blast
  from d have "o_dialed os' = [(''ab.c-d'', 80)]" by (simp add: fix_os_def)
  with r show ?thesis by blast
qed

section \<open>The accepting thread\<close>

lemma startServer_run:
  assumes "list_all (\<lambda>sock. 0 \<le> sint sock) socks" and "sint bad < 0"
    and "acceptCodes (n_serverSocket server) = socks @ bad # later"
    and "n_threadCodes server = map (\<lambda>_. (SUCCESS, SUCCESS)) socks @ codes"
    and "k > length socks"
  shows "\<exists>server'. startServer k server = Throws (ConnectException ''error accept new client'') server'
    \<and> n_started server' = n_started server @ map new_ArgsForThread socks
    \<and> acceptCodes (n_serverSocket server') = later"
  using assms
proof (induction socks arbitrary: k server)
  case Nil
  then obtain j where "k = Suc j" by (cases k) auto
  with Nil show ?case by (simp add: acceptNewClientSock_def Let_def)
next
  case (Cons sock socks)
  from Cons.prems(5) obtain j where j: "k = Suc j" "j > length socks" by (cases k) auto
  define server1 where "server1 = server\<lparr>n_serverSocket := (n_serverSocket server)
       \<lparr>acceptCodes := socks @ bad # later\<rparr>, n_listFd := new_ArgsForThread sock # n_listFd server,
     n_threadCodes := map (\<lambda>_. (SUCCESS, SUCCESS)) socks @ codes,
     n_started := n_started server @ [new_ArgsForThread sock]\<rparr>"
  have "startServer k server = startServer j server1"
    using Cons.prems by (simp add: j(1) acceptNewClientSock_def Let_def server1_def)
  moreover have "\<exists>server'. startServer j server1 = Throws (ConnectException ''error accept new client'') server'
    \<and> n_started server' = n_started server1 @ map new_ArgsForThread socks
    \<and> acceptCodes (n_serverSocket server') = later"
    using Cons.prems(1,2) j(2) by (intro Cons.IH) (simp_all add: server1_def)
  ultimately show ?case by (auto simp: server1_def)
qed

definition listen_ok :: "ListenAnswers \<Rightarrow> bool" where
  "listen_ok ans \<longleftrightarrow> 0 \<le> sint (l_socket ans) \<and> 0 \<le> sint (l_reuseaddr ans) \<and> 0 \<le> sint (l_reuseport ans)
     \<and> 0 \<le> sint (l_bind ans) \<and> 0 \<le> sint (l_listen ans)"

text \<open>
  One failing \<open>accept\<close> ends the proxy. The users accepted before it each have their thread, in
  the order of the connections; the exception of the failing one passes the \<open>catch\<close> of the loop,
  reaches \<open>main\<close>, which reports success, and whoever connects afterwards is never accepted.
\<close>

theorem accept_failure_ends_proxy:
  assumes "listen_ok ans" and "list_all (\<lambda>sock. 0 \<le> sint sock) socks" and "sint bad < 0" and "k > length socks"
  shows "\<exists>server. main_proxy k ans (socks @ bad # later) (map (\<lambda>_. (SUCCESS, SUCCESS)) socks @ codes) garbage mem
       = Done 0 server
    \<and> n_started server = map new_ArgsForThread socks \<and> acceptCodes (n_serverSocket server) = later"
proof -
  let ?s = "\<lparr>serverSocket = 0, listenPort = None, acceptCodes = socks @ bad # later, socketClosed = False\<rparr>"
  let ?s' = "?s\<lparr>serverSocket := l_socket ans, listenPort := Some (ucast PORT_SERVER_SOCKET)\<rparr>"
  let ?server = "\<lparr>n_serverSocket = ?s', n_cash = new_CashImpl garbage mem, n_listFd = [],
     n_threadCodes = map (\<lambda>_. (SUCCESS, SUCCESS)) socks @ codes, n_started = []\<rparr>"
  have "connectSocket ans ?s = Done 0 ?s'"
    using assms(1) by (simp add: connectSocket_def listen_ok_def Let_def)
  then have "new_NewServerImpl ans (socks @ bad # later) (map (\<lambda>_. (SUCCESS, SUCCESS)) socks @ codes) garbage mem
      = Done () ?server"
    by (simp add: new_NewServerImpl_def Let_def)
  moreover have "\<exists>server'. startServer k ?server = Throws (ConnectException ''error accept new client'') server'
    \<and> n_started server' = n_started ?server @ map new_ArgsForThread socks
    \<and> acceptCodes (n_serverSocket server') = later"
    using assms(2-4) by (intro startServer_run) simp_all
  ultimately show ?thesis by (auto simp: main_proxy_def)
qed

theorem accept_failure_ends_proxy_witness:
  "\<exists>server. main_proxy 5 \<lparr>l_socket = 3, l_reuseaddr = 0, l_reuseport = 0, l_bind = 0, l_listen = 0\<rparr>
       [4, -1, 6] [(SUCCESS, SUCCESS)] 0 (\<lambda>a. fix_element 0 []) = Done 0 server
    \<and> n_started server = [new_ArgsForThread 4] \<and> acceptCodes (n_serverSocket server) = [6]"
proof -
  have "listen_ok \<lparr>l_socket = 3, l_reuseaddr = 0, l_reuseport = 0, l_bind = 0, l_listen = 0\<rparr>"
    "list_all (\<lambda>sock. 0 \<le> sint sock) [4 :: int32]" "sint (-1 :: int32) < 0" "5 > length [4 :: int32]"
    by (simp_all add: listen_ok_def)
  from accept_failure_ends_proxy [OF this, of "[6]" "[]"] show ?thesis by simp
qed

end
