(* ===== verification/Handler_Service.thy ===== *)
theory Handler_Service
  imports Server_Correct
begin

text \<open>
  The thread of one user, from its start to its end, when what the user asks for is in the cache:
  the round of \<open>startHandler\<close> in which the request arrives, \<open>getFromCash\<close>, and the clean-up. The
  methods that send from the cache touch the user's buffer, the cache and the output only; this
  frame is proved once, and carries the facts about the connection from the request to the clean-up.
\<close>

section \<open>What sending leaves alone\<close>

definition frame :: "Handler \<Rightarrow> Handler \<Rightarrow> bool" where
  "frame h h' \<longleftrightarrow> h_clients h' = h_clients h \<and> h_client h' = h_client h \<and> h_clientList h' = h_clientList h
     \<and> o_closed (h_os h') = o_closed (h_os h) \<and> o_dialed (h_os h') = o_dialed (h_os h)
     \<and> (\<forall>p. map_option b_isServerConnect (h_buffers h' p) = map_option b_isServerConnect (h_buffers h p))"

definition keeps_server :: "(BufCtx \<Rightarrow> ('v, BufCtx) outcome) \<Rightarrow> bool" where
  "keeps_server f \<longleftrightarrow> (\<forall>x v y. f x = Done v y \<longrightarrow> b_isServerConnect (cx_buf y) = b_isServerConnect (cx_buf x))"

lemma frame_refl [simp]: "frame h h"
  by (simp add: frame_def)

lemma frame_trans: "frame h h1 \<Longrightarrow> frame h1 h2 \<Longrightarrow> frame h h2"
  by (simp add: frame_def)

lemma frame_buffer [simp]: "frame h (h\<lparr>h_buffer := s\<rparr>) \<longleftrightarrow> True"
  by (simp add: frame_def)

lemma bind_Done: "bind m f = Done v s \<longleftrightarrow> (\<exists>w t. m = Done w t \<and> f w t = Done v s)"
  by (cases m) auto

lemma on_buffer_frame:
  "keeps_server f \<Longrightarrow> on_buffer a f h = Done v h' \<Longrightarrow> frame h h'"
  by (auto simp: keeps_server_def frame_def on_buffer_def ask_client_def bind_Done split: option.splits)

lemma ask_element_same: "ask_element g x = Done v y \<Longrightarrow> y = x"
  by (auto simp: ask_element_def split: option.splits)

lemma keeps_server_element: "keeps_server (ask_element g)" "keeps_server (on_element u)"
  by (auto simp: keeps_server_def ask_element_def on_element_def Let_def split: option.splits prod.splits)

text \<open>The same for a call that has been made on \<open>x\<close>, taken apart along its code.\<close>

definition kept :: "BufCtx \<Rightarrow> ('v, BufCtx) outcome \<Rightarrow> bool" where
  "kept x m \<longleftrightarrow> (\<forall>v y. m = Done v y \<longrightarrow> b_isServerConnect (cx_buf y) = b_isServerConnect (cx_buf x))"

lemma kept_ends [simp]:
  "kept x (Done v y) \<longleftrightarrow> b_isServerConnect (cx_buf y) = b_isServerConnect (cx_buf x)"
  "kept x (Fault f)"
  by (auto simp: kept_def)

lemma kept_ask: "(\<And>v. kept x (F v y)) \<Longrightarrow> kept x (bind (ask_element g y) F)"
  by (auto simp: kept_def bind_Done dest!: ask_element_same)

lemma kept_if: "kept x m \<Longrightarrow> kept x m' \<Longrightarrow> kept x (if P then m else m')"
  by simp

lemma kept_option: "kept x m \<Longrightarrow> (\<And>s. kept x (F s)) \<Longrightarrow> kept x (case r of None \<Rightarrow> m | Some s \<Rightarrow> F s)"
  by (cases r) simp_all

lemmas kept_rules = kept_ask kept_if kept_option

lemma keeps_server_kept: "keeps_server f \<longleftrightarrow> (\<forall>x. kept x (f x))"
  by (simp add: keeps_server_def kept_def)

lemma keeps_server_ready: "keeps_server isReadyToSend"
  unfolding keeps_server_kept isReadyToSend_def Let_def by (intro allI kept_rules) simp_all

lemma keeps_server_sendBuf: "keeps_server (sendBuf env s)"
  unfolding keeps_server_kept sendBuf_def Let_def by (intro allI kept_rules) simp_all

lemma proofSendBuf_server: "b_isServerConnect (proofSendBuf s b) = b_isServerConnect b"
  by (cases b rule: proofSendBuf_cases [where s = s]) simp_all

lemma keeps_server_proofSendCash: "keeps_server (proofSendCash s)"
  unfolding keeps_server_kept proofSendCash_def Let_def by (intro allI kept_rules) simp_all

lemma keeps_server_proofSend: "keeps_server (proofSend s)"
  using keeps_server_proofSendCash by (simp add: keeps_server_kept proofSend_def proofSendBuf_server)

lemmas keeps_server_buffer = keeps_server_ready keeps_server_sendBuf keeps_server_proofSend keeps_server_element

lemma send_frame:
  "on_os (sendBuf_client c s) h = Done code h' \<Longrightarrow> frame h h'"
  by (auto simp: frame_def on_os_def sendBuf_client_def sys_write_def bind_Done split: list.splits)

lemma ask_client_same: "ask_client a f h = Done v h' \<Longrightarrow> h' = h"
  by (auto simp: ask_client_def split: option.splits)

lemma sendAll_frame: "sendAll n env h = Done code h' \<Longrightarrow> frame h h'"
proof (induction n arbitrary: h code h')
  case (Suc n)
  from Suc.prems obtain ready h1 where 1: "on_buffer (h_client h) isReadyToSend h = Done ready h1"
    by (auto simp: bind_Done)
  note f1 = on_buffer_frame [OF keeps_server_buffer(1) 1]
  show ?case
  proof (cases ready)
    case False
    with Suc.prems 1 f1 show ?thesis by simp
  next
    case True
    with Suc.prems 1 obtain s h2 c h3 w h4 where
      2: "on_buffer (h_client h1) (sendBuf env []) h1 = Done s h2"
      and 3: "on_os (sendBuf_client c s) h3 = Done w h4" "h3 = h2\<lparr>h_buffer := s\<rparr>"
      and 4: "code = FAILURE \<and> h' = h4 \<or> (\<exists>h5. on_buffer (h_client h4) (proofSend s) h4 = Done () h5
          \<and> sendAll n env h5 = Done code h')"
      by (auto simp: bind_Done Let_def dest!: ask_client_same split: if_splits)
    have f4: "frame h h4"
      using f1 on_buffer_frame [OF keeps_server_buffer(2) 2] send_frame [OF 3(1)] 3(2)
      by (auto intro: frame_trans simp: frame_def)
    from 4 show ?thesis
      using f4 by (auto dest!: Suc.IH on_buffer_frame [OF keeps_server_buffer(3)] intro: frame_trans)
  qed
qed simp

lemma waitForData_frame: "waitForData n h = Done run h' \<Longrightarrow> frame h h'"
proof (induction n arbitrary: h run h')
  case (Suc n)
  from Suc.prems obtain con h1 where 1: "serverConnected h = Done con h1"
    by (auto simp: bind_Done)
  note f1 = on_buffer_frame [OF keeps_server_buffer(4) 1 [unfolded serverConnected_def]]
  from Suc.prems 1 have "h' = h1 \<or> (\<exists>ready h2. on_buffer (h_client h1) isReadyToSend h1 = Done ready h2
      \<and> (h' = h2 \<or> (\<exists>failed h3. condWait h2 = Done failed h3 \<and> (h' = h3 \<or> waitForData n h3 = Done run h'))))"
    by (auto simp: bind_Done split: if_splits)
  moreover have "frame h2 h3" if "condWait h2 = Done failed h3" for h2 failed h3
    using that by (auto simp: condWait_def frame_def split: list.splits)
  ultimately show ?case
    using f1 Suc.IH on_buffer_frame [OF keeps_server_buffer(1)] frame_trans by metis
qed simp

lemma cashLoop_frame: "cashLoop k n env h = Done u h' \<Longrightarrow> frame h h'"
proof (induction k arbitrary: h u h')
  case (Suc k)
  from Suc.prems obtain run h1 con h2 where 1: "waitForData n h = Done run h1"
    and 2: "serverConnected h1 = Done con h2" by (auto simp: bind_Done)
  have f2: "frame h h2"
    using waitForData_frame [OF 1] on_buffer_frame [OF keeps_server_buffer(4) 2 [unfolded serverConnected_def]]
    by (rule frame_trans)
  from Suc.prems 1 2 have "(\<exists>w. sendAll n env h2 = Done w h')
      \<or> (\<exists>ready h3. on_buffer (h_client h2) isReadyToSend h2 = Done ready h3
        \<and> (\<exists>w h4. (h4 = h3 \<or> sendAll n env h3 = Done w h4) \<and> (h' = h4 \<or> cashLoop k n env h4 = Done () h')))"
    by (auto simp: bind_Done split: if_splits) blast+
  then show ?case
    using f2 Suc.IH sendAll_frame on_buffer_frame [OF keeps_server_buffer(1)] frame_trans by metis
qed simp

lemma getFromCash_frame: "getFromCash n env v h = Done u h' \<Longrightarrow> frame h h'"
  by (auto simp: getFromCash_def bind_Done split: if_splits dest!: cashLoop_frame
      on_buffer_frame [OF keeps_server_buffer(5)] intro: frame_trans)

section \<open>From the start of the thread to the request\<close>

definition started :: "int32 \<Rightarrow> CashImpl \<Rightarrow> Os \<Rightarrow> Handler" where
  "started sock cash os = new_HandlerOneClientImpl 0
     ((\<lambda>_. None)(0 := Some (new_ClientImpl sock USER (Some 0))))
     ((\<lambda>_. None)(0 := Some (setIsClientConnect True new_BufferImpl))) 1 cash os"

definition polled_client :: "int32 \<Rightarrow> 16 word \<Rightarrow> Client" where
  "polled_client sock ev = (new_ClientImpl sock USER (Some 0))
     \<lparr>c_structPollFd := \<lparr>p_fd = sock, p_events = or POLLIN POLLRDHUP, p_revents = ev\<rparr>\<rparr>"

text \<open>The handler once \<open>poll\<close> has reported the events \<open>ev\<close> for its one connection.\<close>

definition polled :: "int32 \<Rightarrow> 16 word \<Rightarrow> CashImpl \<Rightarrow> Os \<Rightarrow> Handler" where
  "polled sock ev cash os = (started sock cash os)
     \<lparr>h_pollSet := [c_structPollFd (polled_client sock ev), zero_pollfd],
      h_clients := (\<lambda>_. None)(0 := Some (polled_client sock ev))\<rparr>"

lemma thread_starts:
  "startingMethodForThread k n env v args cash os = startHandler k n env v (started (getSock args) cash os)"
  by (simp add: startingMethodForThread_def started_def new_HandlerOneClientImpl_def new_ClientImpl_def
      set_buffer_def on_buffer_def ask_client_def getBuffer_def set_buf_def)

text \<open>How \<open>startHandler\<close> goes on after \<open>handlingEvent\<close>.\<close>

definition after_round :: "nat \<Rightarrow> nat \<Rightarrow> Env \<Rightarrow> CondVar \<Rightarrow> bool option \<Rightarrow> Handler \<Rightarrow> (unit, Handler) outcome" where
  "after_round k n env v status h = (case status of
     None \<Rightarrow> Done () h
   | Some False \<Rightarrow> startHandler k n env v h
   | Some True \<Rightarrow> bind (getFromCash n env v h) (\<lambda>_ h. deleteClientUser n env (h_client h) h))"

lemma startHandler_round:
  "h_clientList h \<noteq> [] \<Longrightarrow> setPollSetBeforePoll h = Done () h1 \<Longrightarrow> sys_poll h1 = Done code h2 \<Longrightarrow>
   saveResultPollSet h2 = Done () h3 \<Longrightarrow> code \<noteq> -1 \<Longrightarrow>
   startHandler (Suc k) n env v h = bind (handlingEvent n env h3) (after_round k n env v)"
  by (simp add: after_round_def [abs_def])

lemma round_begins:
  assumes "o_polls os = (code, ev # evs) # ps" and "code \<noteq> -1"
  shows "startHandler (Suc k) n env v (started sock cash os)
    = bind (handlingEvent n env (polled sock ev cash (os\<lparr>o_polls := ps\<rparr>))) (after_round k n env v)"
proof -
  have "bind (setPollSetBeforePoll (started sock cash os)) (\<lambda>_ h. bind (sys_poll h) (\<lambda>code h.
      bind (saveResultPollSet h) (\<lambda>_ h. Done code h))) = Done code (polled sock ev cash (os\<lparr>o_polls := ps\<rparr>))"
    using assms(1)
    by (simp add: started_def polled_def polled_client_def new_HandlerOneClientImpl_def new_ClientImpl_def
        setPollSetBeforePoll_def sys_poll_def saveResultPollSet_def zero_pollfd_def ask_client_def on_client_def
        getPollFd_def setPollElement_def Let_def)
  then obtain h1 h2 where "setPollSetBeforePoll (started sock cash os) = Done () h1" "sys_poll h1 = Done code h2"
    "saveResultPollSet h2 = Done () (polled sock ev cash (os\<lparr>o_polls := ps\<rparr>))"
    by (auto simp: bind_Done)
  moreover have "h_clientList (started sock cash os) \<noteq> []"
    by (simp add: started_def new_HandlerOneClientImpl_def)
  ultimately show ?thesis using assms(2) by (intro startHandler_round)
qed

text \<open>The buffer and the cache after a request that the cache can answer.\<close>

definition answered :: "string \<Rightarrow> ResultParseHeading \<Rightarrow> nat \<Rightarrow> Buffer \<Rightarrow> Buffer" where
  "answered hdg r e b = b\<lparr>b_requestHeading := hdg, b_resultParseHeading := Some r, b_isDataGetCash := True,
     b_cashElement := Some e, b_buf := [], b_statusClient := READ_RESPONSE\<rparr>"

definition taken :: "nat \<Rightarrow> CashImpl \<Rightarrow> CashImpl" where
  "taken e c = c\<lparr>listCash := erase_first e (listCash c) @ [e],
     store := (store c)(e := addCountUsers SUCCESS (store c e))\<rparr>"

lemma readFromSocket_hit:
  fixes b s
  defines "t \<equiv> b_buf b @ s"
  defines "hdg \<equiv> substr0 t (snd (findEndHeading t))"
  assumes b: "b_isClientConnect b" "b_statusClient b = WRITE_REQUEST_HEADING"
    and t: "fst (findEndHeading t) = END_HEADING" "parsingHeading hdg = Inr r"
    and locks: "testLock env = SUCCESS" "cashLock env = SUCCESS" "userLock env = SUCCESS"
    and q: "others env = (\<lambda>c. c)"
    and found: "find_hash (store (cx_cash x)) (hash env hdg) (listCash (cx_cash x)) = Some e"
    and x: "cx_buf x = b"
  shows "\<exists>y. readFromSocket env s x = Done () y \<and> cx_buf y = answered hdg r e b
    \<and> cx_cash y = taken e (cx_cash x) \<and> cx_signals y = cx_signals x"
proof -
  define z where "z = set_buf (b\<lparr>b_buf := t\<rparr>) x"
  have zb: "b_buf (cx_buf z) = t" "cx_cash z = cx_cash x" by (simp_all add: z_def set_buf_def)
  have rd: "readFromSocket env s x = wrightRequestHeading env z"
    using b x by (simp add: readFromSocket_def Let_def z_def t_def)
  show ?thesis
  proof (cases z rule: wrightRequestHeading_cases [where env = env])
    case (hit r')
    have "r' = r" using hit(2) t(2) by (simp add: zb flip: hdg_def)
    with hit(4) show ?thesis
      by (simp add: rd zb Let_def findResponseInCash_def locks q found answered_def taken_def
          z_def set_buf_def on_element_def flip: hdg_def)
  next
    case (miss r')
    then show ?thesis
      using found by (simp add: zb request_hit_def isElementInCash_def locks set_buf_def z_def flip: hdg_def)
  next
    case bad
    then show ?thesis using t by (simp add: zb flip: hdg_def)
  next
    case wait
    then show ?thesis using t by (simp add: zb)
  qed
qed

lemma request_read:
  fixes sock ev cash os
  defines "hp \<equiv> polled sock ev cash os"
  assumes ev: "and ev POLLRDHUP = 0" "and ev POLLIN \<noteq> 0"
    and rd: "o_reads os = Bytes s # rs" "s \<noteq> []" "length s \<le> 524287"
    and y: "readFromSocket env s (ctx hp (setIsClientConnect True new_BufferImpl)) = Done () y"
      "b_statusClient (cx_buf y) = READ_RESPONSE" "b_isDataGetCash (cx_buf y)"
  shows "\<exists>h. handlingEvent (Suc n) env hp = Done (Some True) h \<and> h_client h = 0
    \<and> h_clients h = (\<lambda>_. None)(0 := Some (polled_client sock 0))
    \<and> h_buffers h = (\<lambda>_. None)(0 := Some (cx_buf y)) \<and> h_cash h = cx_cash y
    \<and> h_os h = os\<lparr>o_reads := rs\<rparr>"
proof -
  define h1 where "h1 = hp\<lparr>h_clients := (\<lambda>_. None)(0 := Some (polled_client sock 0)),
    h_os := os\<lparr>o_reads := rs\<rparr>, h_buffer := s\<rparr>"
  have hp: "h_clients hp = (\<lambda>_. None)(0 := Some (polled_client sock ev))" "h_os hp = os"
    "h_clientList hp = [0]" "h_client hp = 0"
    "h_buffers hp = (\<lambda>_. None)(0 := Some (setIsClientConnect True new_BufferImpl))"
    by (simp_all add: hp_def polled_def started_def new_HandlerOneClientImpl_def)
  have pc: "setReventsZero (polled_client sock ev) = polled_client sock 0"
    "p_revents (c_structPollFd (polled_client sock ev)) = ev" "c_buffer (polled_client sock ev) = Some 0"
    "c_typeClient (polled_client sock ev) = USER" for ev
    by (simp_all add: polled_client_def setReventsZero_def new_ClientImpl_def)
  have live: "live h1 0 0 (setIsClientConnect True new_BufferImpl)"
    and ctx: "ctx h1 (setIsClientConnect True new_BufferImpl) = ctx hp (setIsClientConnect True new_BufferImpl)"
    by (simp_all add: live_def h1_def hp pc ctx_def)
  have "on_buffer 0 (readFromSocket env s) h1 = Done () (put 0 y h1)"
    by (simp add: on_buffer_live [OF live] ctx y(1))
  moreover have "afterRead 0 (put 0 y h1) = Done ReturnTrue (put 0 y h1)"
  proof -
    have "live (put 0 y h1) 0 0 (cx_buf y)" using live by simp
    then show ?thesis
      using y(2,3) by (simp add: afterRead_def ask_client_def ask_buffer_live h1_def pc
          getTypeClient_def getStatusClient_def isIsDataGetCash_def)
  qed
  moreover have "on_os (readBuf (polled_client sock 0) []) (hp\<lparr>h_buffer := [], h_clients := (\<lambda>_. None)(0 := Some (polled_client sock 0))\<rparr>)
    = Done (0, s) (hp\<lparr>h_buffer := [], h_clients := (\<lambda>_. None)(0 := Some (polled_client sock 0)), h_os := os\<lparr>o_reads := rs\<rparr>\<rparr>)"
    using rd by (simp add: on_os_def readBuf_def sys_read_def hp Let_def BUF_SIZE_def)
  ultimately have "oneEvent (Suc n) env 0 hp = Done ReturnTrue (put 0 y h1)"
    using ev rd(2) by (simp add: oneEvent_def readEvent_def ask_client_def on_client_def getPollFd_def hp pc
        Let_def h1_def)
  then have "handlingEvent (Suc n) env hp = Done (Some True) (put 0 y h1)"
    by (simp add: handlingEvent_def hp begin_of_def)
  then show ?thesis
    by (intro exI [of _ "put 0 y h1"]) (simp add: h1_def hp)
qed

section \<open>The clean-up\<close>

lemma reader_leaves:
  assumes "reading h p b e k fd" and "h_clients h (h_client h) = Some cu" and "c_pair cu = None"
    and "\<not> b_isServerConnect b" and "userLock env = SUCCESS"
  shows "\<exists>h'. deleteClientUser (Suc n) env (h_client h) h = Done () h'
     \<and> h_clients h' = (h_clients h)(h_client h := None) \<and> h_buffers h' = (h_buffers h)(p := None)
     \<and> store (h_cash h') = (store (h_cash h))(e := minusCountUsers SUCCESS (store (h_cash h) e))
     \<and> listCash (h_cash h') = listCash (h_cash h) \<and> o_wire (h_os h') = o_wire (h_os h)
     \<and> o_closed (h_os h') = o_closed (h_os h) @ [fd] \<and> o_dialed (h_os h') = o_dialed (h_os h)"
  using assms by (auto simp: reading_def live_def heap_access)

text \<open>Reading and clean-up together, for a user who has just been sent to the element \<open>e\<close>.\<close>

lemma reader_served:
  assumes r: "reading h p b e 0 fd" and cu: "h_clients h (h_client h) = Some cu" "c_pair cu = None"
    and sc: "\<not> b_isServerConnect b" and off: "\<not> isIsServerConnected (store (h_cash h) e)"
    and env: "others env = (\<lambda>c. c)" "subsLock env = SUCCESS" "userLock env = SUCCESS" and v: "quiet_codes v"
    and w: "o_writes (h_os h) = full_writes (length (e_cash (store (h_cash h) e))) @ ws"
    and n: "n > length (full_writes (length (e_cash (store (h_cash h) e))))"
  shows "\<exists>h' cs. bind (getFromCash n env v h) (\<lambda>_ h. deleteClientUser n env (h_client h) h) = Done () h'
     \<and> o_wire (h_os h') = o_wire (h_os h) @ map (Pair fd) cs \<and> concat cs = e_cash (store (h_cash h) e)
     \<and> h_clients h' = (h_clients h)(h_client h := None) \<and> h_buffers h' p = None
     \<and> store (h_cash h') = (store (h_cash h))(e := minusCountUsers SUCCESS (store (h_cash h) e))
     \<and> listCash (h_cash h') = listCash (h_cash h) \<and> o_closed (h_os h') = o_closed (h_os h) @ [fd]
     \<and> o_dialed (h_os h') = o_dialed (h_os h)"
proof -
  from n obtain m where m: "n = Suc m" by (cases n) auto
  have "o_writes (h_os h) = full_writes (length (e_cash (store (h_cash h) e)) - 0) @ ws"
    "n > length (full_writes (length (e_cash (store (h_cash h) e)) - 0))" using w n by simp_all
  from getFromCash_serves_what_there_is [OF r env(1) v env(2) off this] obtain h1 cs b1 where 1:
    "getFromCash n env v h = Done () h1" "o_wire (h_os h1) = o_wire (h_os h) @ map (Pair fd) cs"
    "concat cs = e_cash (store (h_cash h) e)" "listCash (h_cash h1) = listCash (h_cash h)"
    "store (h_cash h1) = store (h_cash h)" "reading h1 p b1 e (length (e_cash (store (h_cash h) e))) fd"
    by (simp only: drop_0) blast
  from getFromCash_frame [OF 1(1)] have f: "h_clients h1 = h_clients h" "h_client h1 = h_client h"
    "o_closed (h_os h1) = o_closed (h_os h)" "o_dialed (h_os h1) = o_dialed (h_os h)"
    "map_option b_isServerConnect (h_buffers h1 p) = map_option b_isServerConnect (h_buffers h p)"
    by (simp_all add: frame_def)
  have "\<not> b_isServerConnect b1"
    using f(5) sc 1(6) r by (auto simp: reading_def live_def)
  moreover have "h_clients h1 (h_client h1) = Some cu" using cu(1) f(1,2) by simp
  ultimately obtain h2 where 2: "deleteClientUser (Suc m) env (h_client h1) h1 = Done () h2"
    "h_clients h2 = (h_clients h1)(h_client h1 := None)" "h_buffers h2 = (h_buffers h1)(p := None)"
    "store (h_cash h2) = (store (h_cash h1))(e := minusCountUsers SUCCESS (store (h_cash h1) e))"
    "listCash (h_cash h2) = listCash (h_cash h1)" "o_wire (h_os h2) = o_wire (h_os h1)"
    "o_closed (h_os h2) = o_closed (h_os h1) @ [fd]" "o_dialed (h_os h2) = o_dialed (h_os h1)"
    using reader_leaves [OF 1(6) _ cu(2) _ env(3), of m] by blast
  have "bind (getFromCash n env v h) (\<lambda>_ h. deleteClientUser n env (h_client h) h) = Done () h2"
    using 2(1) by (simp only: 1(1) bind.simps flip: m)
  moreover have "h_clients h2 = (h_clients h)(h_client h := None)" "h_buffers h2 p = None"
    "o_wire (h_os h2) = o_wire (h_os h) @ map (Pair fd) cs"
    "store (h_cash h2) = (store (h_cash h))(e := minusCountUsers SUCCESS (store (h_cash h) e))"
    "listCash (h_cash h2) = listCash (h_cash h)" "o_closed (h_os h2) = o_closed (h_os h) @ [fd]"
    "o_dialed (h_os h2) = o_dialed (h_os h)"
    using 2 1 f by simp_all
  ultimately show ?thesis using 1(3) by blast
qed

section \<open>A whole visit\<close>

lemma reading_asked:
  assumes "h_client h = 0" "h_clients h = (\<lambda>_. None)(0 := Some (polled_client sock 0))"
    and "h_buffers h = (\<lambda>_. None)(0 := Some (answered hdg r e (setIsClientConnect True new_BufferImpl)))"
    and "h_cash h = taken e cash" and "length (e_cash (store cash e)) < 2 ^ 62"
  shows "reading h 0 (answered hdg r e (setIsClientConnect True new_BufferImpl)) e 0 sock"
  using assms by (simp add: reading_def live_def polled_client_def new_ClientImpl_def answered_def
      setIsClientConnect_def new_BufferImpl_def taken_def)

text \<open>The round in which the request arrives: the cache answers it, and the user reads from the cache.\<close>

lemma request_answered:
  fixes s
  defines "hdg \<equiv> substr0 s (snd (findEndHeading s))"
  assumes ev: "and ev POLLRDHUP = 0" "and ev POLLIN \<noteq> 0"
    and rd: "o_reads os = Bytes s # rs" "s \<noteq> []" "length s \<le> 524287"
    and req: "fst (findEndHeading s) = END_HEADING" "parsingHeading hdg = Inr r"
    and found: "find_hash (store cash) (hash env hdg) (listCash cash) = Some e"
    and locks: "testLock env = SUCCESS" "cashLock env = SUCCESS" "userLock env = SUCCESS"
    and q: "others env = (\<lambda>c. c)"
  shows "\<exists>h. handlingEvent (Suc n) env (polled sock ev cash os) = Done (Some True) h \<and> h_client h = 0
    \<and> h_clients h = (\<lambda>_. None)(0 := Some (polled_client sock 0))
    \<and> h_buffers h = (\<lambda>_. None)(0 := Some (answered hdg r e (setIsClientConnect True new_BufferImpl)))
    \<and> h_cash h = taken e cash \<and> h_os h = os\<lparr>o_reads := rs\<rparr>"
proof -
  define b0 where "b0 = setIsClientConnect True new_BufferImpl"
  define hp where "hp = polled sock ev cash os"
  have hp: "cx_cash (ctx hp b0) = cash" "cx_buf (ctx hp b0) = b0"
    by (simp_all add: hp_def polled_def started_def new_HandlerOneClientImpl_def)
  have b0: "b_isClientConnect b0" "b_statusClient b0 = WRITE_REQUEST_HEADING" "b_buf b0 = []"
    by (simp_all add: b0_def setIsClientConnect_def new_BufferImpl_def)
  obtain y where y: "readFromSocket env s (ctx hp b0) = Done () y" "cx_buf y = answered hdg r e b0"
    "cx_cash y = taken e cash"
    using readFromSocket_hit [of b0 s r env "ctx hp b0" e] b0 req found locks q hp by (auto simp: hdg_def)
  then show ?thesis
    using request_read [OF ev rd, of env sock cash y n] unfolding hp_def b0_def by (auto simp: answered_def)
qed

lemma cached_visit:
  fixes s
  defines "hdg \<equiv> substr0 s (snd (findEndHeading s))"
  assumes polls: "o_polls os = (code, ev # evs) # ps" "code \<noteq> -1" "and ev POLLIN \<noteq> 0" "and ev POLLRDHUP = 0"
    and rd: "o_reads os = Bytes s # rs" "s \<noteq> []" "length s \<le> 524287"
    and req: "fst (findEndHeading s) = END_HEADING" "parsingHeading hdg = Inr r"
    and found: "find_hash (store cash) (hash env hdg) (listCash cash) = Some e"
    and off: "\<not> isIsServerConnected (store cash e)" and len: "length (e_cash (store cash e)) < 2 ^ 62"
    and locks: "testLock env = SUCCESS" "cashLock env = SUCCESS" "userLock env = SUCCESS" "subsLock env = SUCCESS"
    and q: "others env = (\<lambda>c. c)" and v: "quiet_codes v"
    and w: "o_writes os = full_writes (length (e_cash (store cash e))) @ ws"
    and n: "n > length (full_writes (length (e_cash (store cash e))))"
  shows "\<exists>h cs. startingMethodForThread (Suc k) n env v args cash os = Done () h
     \<and> o_wire (h_os h) = o_wire os @ map (Pair (getSock args)) cs \<and> concat cs = e_cash (store cash e)
     \<and> h_clients h = (\<lambda>_. None) \<and> h_buffers h 0 = None \<and> o_closed (h_os h) = o_closed os @ [getSock args]
     \<and> store (h_cash h) = store cash \<and> listCash (h_cash h) = erase_first e (listCash cash) @ [e]
     \<and> o_dialed (h_os h) = o_dialed os"
proof -
  define os1 where "os1 = os\<lparr>o_polls := ps\<rparr>"
  obtain m where m: "n = Suc m" using n by (cases n) auto
  have "o_reads os1 = Bytes s # rs" using rd(1) by (simp add: os1_def)
  from request_answered [OF polls(4,3) this rd(2,3) req [unfolded hdg_def] found [unfolded hdg_def] locks(1-3) q,
      of m "getSock args", folded m hdg_def]
  obtain h where h: "handlingEvent n env (polled (getSock args) ev cash os1) = Done (Some True) h" "h_client h = 0"
    "h_clients h = (\<lambda>_. None)(0 := Some (polled_client (getSock args) 0))"
    "h_buffers h = (\<lambda>_. None)(0 := Some (answered hdg r e (setIsClientConnect True new_BufferImpl)))"
    "h_cash h = taken e cash" "h_os h = os1\<lparr>o_reads := rs\<rparr>" by blast
  note r = reading_asked [OF h(2-5) len]
  have el: "e_cash (store (h_cash h) e) = e_cash (store cash e)"
    "\<not> isIsServerConnected (store (h_cash h) e)"
    using off by (simp_all add: h(5) taken_def isIsServerConnected_def addCountUsers_def)
  have cu: "h_clients h (h_client h) = Some (polled_client (getSock args) 0)"
    "c_pair (polled_client (getSock args) 0) = None"
    by (simp_all add: h(2,3) polled_client_def new_ClientImpl_def)
  have sc: "\<not> b_isServerConnect (answered hdg r e (setIsClientConnect True new_BufferImpl))"
    by (simp add: answered_def setIsClientConnect_def new_BufferImpl_def)
  have wn: "o_writes (h_os h) = full_writes (length (e_cash (store (h_cash h) e))) @ ws"
    "n > length (full_writes (length (e_cash (store (h_cash h) e))))"
    using w n by (simp_all add: el h(6) os1_def)
  obtain h' cs where h': "bind (getFromCash n env v h) (\<lambda>_ h. deleteClientUser n env (h_client h) h) = Done () h'"
    "o_wire (h_os h') = o_wire (h_os h) @ map (Pair (getSock args)) cs" "concat cs = e_cash (store cash e)"
    "h_clients h' = (h_clients h)(h_client h := None)" "h_buffers h' 0 = None"
    "store (h_cash h') = (store (h_cash h))(e := minusCountUsers SUCCESS (store (h_cash h) e))"
    "listCash (h_cash h') = listCash (h_cash h)" "o_closed (h_os h') = o_closed (h_os h) @ [getSock args]"
    "o_dialed (h_os h') = o_dialed (h_os h)"
    using reader_served [OF r cu sc el(2) q locks(4,3) v wn] unfolding el(1) by blast
  have "startHandler (Suc k) n env v (started (getSock args) cash os) = Done () h'"
    using round_begins [OF polls(1,2)] h(1) h'(1) by (simp add: after_round_def os1_def)
  then show ?thesis
    using h' h(2-6) by (intro exI [of _ h'] exI [of _ cs]) (simp add: thread_starts os1_def taken_def fun_eq_iff)
qed


text \<open>
  C6: a user who asks for something that is in the cache is served by a thread that ends. The
  thread is started on the accepted descriptor, \<open>poll\<close> reports the request, one \<open>read\<close> brings it,
  and its heading is that of an element whose download is over. Then \<open>startingMethodForThread\<close>
  returns. Over the user's descriptor, and over no other, has gone exactly what the cache holds of
  the element, in order. The connection and the buffer are freed and the descriptor is closed, once. No
  element of the cache is changed, its count of users included; the element is the most recently
  used one. No connection to a server is made.
\<close>

theorem cached_request_served_and_released:
  fixes s
  defines "hdg \<equiv> substr0 s (snd (findEndHeading s))"
  assumes polls: "o_polls os = (code, ev # evs) # ps" "code \<noteq> -1" "and ev POLLIN \<noteq> 0" "and ev POLLRDHUP = 0"
    and rd: "o_reads os = Bytes s # rs" "s \<noteq> []" "length s \<le> 524287"
    and req: "fst (findEndHeading s) = END_HEADING" "parsingHeading hdg = Inr r"
    and found: "find_hash (store cash) (hash env hdg) (listCash cash) = Some e"
    and off: "\<not> isIsServerConnected (store cash e)" and len: "length (e_cash (store cash e)) < 2 ^ 62"
    and locks: "testLock env = SUCCESS" "cashLock env = SUCCESS" "userLock env = SUCCESS" "subsLock env = SUCCESS"
    and q: "others env = (\<lambda>c. c)" and v: "quiet_codes v"
    and w: "o_writes os = full_writes (length (e_cash (store cash e))) @ ws"
    and n: "n > length (full_writes (length (e_cash (store cash e))))"
  shows "\<exists>h cs. startingMethodForThread (Suc k) n env v args cash os = Done () h
     \<and> o_wire (h_os h) = o_wire os @ map (Pair (getSock args)) cs \<and> concat cs = e_cash (store cash e)
     \<and> h_clients h = (\<lambda>_. None) \<and> h_buffers h 0 = None \<and> o_closed (h_os h) = o_closed os @ [getSock args]
     \<and> store (h_cash h) = store cash \<and> listCash (h_cash h) = erase_first e (listCash cash) @ [e]
     \<and> o_dialed (h_os h) = o_dialed os"
  using polls rd req found off len locks q v w n unfolding hdg_def by (rule cached_visit)

definition fix_request :: string where
  "fix_request = ''GET / HTTP/1.0'' @ crlf @ ''Host: a.b'' @ crlf @ crlf"

definition fix_page :: CashImpl where
  "fix_page = fix_cash 0 [(fix_element 2 fix_request)\<lparr>e_cash := ''abc'', e_isDownloadEnd := True\<rparr>]"

lemma fix_request_parsed:
  "fst (findEndHeading fix_request) = END_HEADING"
  "substr0 fix_request (snd (findEndHeading fix_request)) = fix_request"
  "\<not> isl (parsingHeading fix_request)" "length fix_request = 29"
  by code_simp+

theorem cached_request_served_and_released_witness:
  "\<exists>h cs. startingMethodForThread 1 2 (fix_env (\<lambda>c. c)) fix_codes (new_ArgsForThread 5) fix_page
        (fix_os\<lparr>o_polls := [(1, [POLLIN])], o_reads := [Bytes fix_request], o_writes := [3]\<rparr>) = Done () h
     \<and> o_wire (h_os h) = map (Pair 5) cs \<and> concat cs = ''abc'' \<and> o_closed (h_os h) = [5]
     \<and> getCountUsers (store (h_cash h) 0) = 2 \<and> listCash (h_cash h) = [0]"
proof -
  let ?os = "fix_os\<lparr>o_polls := [(1, [POLLIN])], o_reads := [Bytes fix_request], o_writes := [3]\<rparr>"
  let ?env = "fix_env (\<lambda>c. c)"
  have fw: "full_writes (Suc (Suc (Suc 0))) = [3]"
    by (subst full_writes.simps) (simp add: full_writes.simps [of 0])
  have os: "o_polls ?os = (1, POLLIN # []) # []" "o_reads ?os = Bytes fix_request # []"
    "(1 :: int32) \<noteq> -1" "and POLLIN POLLIN \<noteq> (0 :: 16 word)" "and POLLIN POLLRDHUP = (0 :: 16 word)"
    "o_wire ?os = []" "o_closed ?os = []" "fix_request \<noteq> []" "length fix_request \<le> 524287"
    using fix_request_parsed(4) by (auto simp: fix_os_def POLLIN_def POLLRDHUP_def)
  obtain r where r: "parsingHeading fix_request = Inr r"
    using fix_request_parsed(3) by (cases "parsingHeading fix_request") auto
  have env: "testLock ?env = SUCCESS" "cashLock ?env = SUCCESS" "userLock ?env = SUCCESS"
    "subsLock ?env = SUCCESS" "others ?env = (\<lambda>c. c)" "hash ?env = fix_hash" "quiet_codes fix_codes"
    by (simp_all add: fix_env_def quiet_codes_def fix_codes_def)
  have c: "e_cash (store fix_page 0) = ''abc''" "\<not> isIsServerConnected (store fix_page 0)"
    "listCash fix_page = [0]" "getCountUsers (store fix_page 0) = 2"
    "find_hash (store fix_page) (hash ?env fix_request) (listCash fix_page) = Some 0"
    unfolding env by (simp_all add: fix_page_def fix_cash_def fix_element_def isIsServerConnected_def
        getCountUsers_def getHash_def)
  have w: "o_writes ?os = full_writes (length (e_cash (store fix_page 0))) @ []"
    "2 > length (full_writes (length (e_cash (store fix_page 0))))" "length (e_cash (store fix_page 0)) < 2 ^ 62"
    by (simp_all add: c fw)
  show ?thesis
    using cached_request_served_and_released [OF os(1,3-5,2,8,9), unfolded fix_request_parsed(2),
        OF fix_request_parsed(1) r c(5,2) w(3) env(1-5,7) w(1,2), of 0 "new_ArgsForThread 5"] os c
    by (auto simp: new_ArgsForThread_def getSock_def)
qed

end
