(* ===== verification/Handler_Relay.thy ===== *)
theory Handler_Relay
  imports Handler_Service
begin

text \<open>
  The thread of one user when the cache does not have what the user asks for: the connection to the
  server, the request that goes out, and the rounds in which the response comes in, is stored and
  goes out again, in whatever order the two sockets are ready. The rounds are compared with an
  abstract relay, a queue that is filled from one side and emptied from the other.
\<close>

section \<open>An exchange under way\<close>

definition user_at :: "int32 \<Rightarrow> PollFd \<Rightarrow> Client" where
  "user_at fd pf = (new_ClientImpl fd USER (Some 0))\<lparr>c_pair := Some (Suc 0), c_structPollFd := pf\<rparr>"

definition server_at :: "int32 \<Rightarrow> nat list \<Rightarrow> PollFd \<Rightarrow> Client" where
  "server_at fd users pf = (new_ClientImpl fd HTTP_SERVER (Some 0))
     \<lparr>c_listHandlingEvent := users, c_structPollFd := pf\<rparr>"

text \<open>
  The user's connection is at 0, behind the server's at 1, and they share the buffer \<open>b\<close>. The last
  arguments but one are the events \<open>poll\<close> has reported for the user and for the server and that
  are still to be handled.
\<close>

definition exchange :: "int32 \<Rightarrow> int32 \<Rightarrow> Buffer \<Rightarrow> CashImpl \<Rightarrow> Os \<Rightarrow> 16 word \<Rightarrow> 16 word \<Rightarrow> Handler \<Rightarrow> bool" where
  "exchange ufd sfd b c os eu es h \<longleftrightarrow> h_client h = 0 \<and> h_clientList h = [Suc 0, 0]
     \<and> (\<exists>pu ps. h_clients h = (\<lambda>_. None)(0 := Some (user_at ufd pu), Suc 0 := Some (server_at sfd [0] ps))
          \<and> p_revents pu = eu \<and> p_revents ps = es)
     \<and> h_buffers h = (\<lambda>_. None)(0 := Some b) \<and> h_cash h = c \<and> h_os h = os"

lemma at_simps [simp]:
  "c_typeClient (user_at fd pf) = USER" "c_buffer (user_at fd pf) = Some 0" "c_pair (user_at fd pf) = Some (Suc 0)"
  "c_fd (user_at fd pf) = fd" "c_structPollFd (user_at fd pf) = pf"
  "c_typeClient (server_at fd l pf) = HTTP_SERVER" "c_buffer (server_at fd l pf) = Some 0"
  "c_fd (server_at fd l pf) = fd" "c_structPollFd (server_at fd l pf) = pf"
  "c_listHandlingEvent (server_at fd l pf) = l"
  "(user_at fd pf)\<lparr>c_structPollFd := pf'\<rparr> = user_at fd pf'"
  "(server_at fd l pf)\<lparr>c_structPollFd := pf'\<rparr> = server_at fd l pf'"
  "(server_at fd l pf)\<lparr>c_listHandlingEvent := l'\<rparr> = server_at fd l' pf"
  by (simp_all add: user_at_def server_at_def new_ClientImpl_def)

lemma exchangeE:
  assumes "exchange ufd sfd b c os eu es h"
  obtains pu ps where "h_client h = 0" "h_clientList h = [Suc 0, 0]"
    "h_clients h = (\<lambda>_. None)(0 := Some (user_at ufd pu), Suc 0 := Some (server_at sfd [0] ps))"
    "p_revents pu = eu" "p_revents ps = es" "h_buffers h = (\<lambda>_. None)(0 := Some b)" "h_cash h = c" "h_os h = os"
  using assms by (auto simp: exchange_def)

lemma exchange_live:
  assumes "exchange ufd sfd b c os eu es h"
  shows "live h 0 0 b" and "live h (Suc 0) 0 b"
  using assms by (auto simp: exchange_def live_def)

lemma exchange_put:
  "exchange ufd sfd b c os eu es h \<Longrightarrow> exchange ufd sfd (cx_buf x) (cx_cash x) os eu es (put 0 x h)"
  by (auto simp: exchange_def)

lemma exchange_buffer [simp]:
  "exchange ufd sfd b c os eu es (h\<lparr>h_buffer := s\<rparr>) \<longleftrightarrow> exchange ufd sfd b c os eu es h"
  by (simp add: exchange_def)

text \<open>The methods on the two connections change their poll entries only.\<close>

lemma exchange_user:
  assumes "exchange ufd sfd b c os eu es h" and "\<And>pu. \<exists>pu'. f (user_at ufd pu) = user_at ufd pu' \<and> p_revents pu' = g (p_revents pu)"
  obtains h' where "on_client 0 f h = Done () h'" "exchange ufd sfd b c os (g eu) es h'" "h_buffer h' = h_buffer h" "h_signals h' = h_signals h"
proof -
  from assms(1) obtain pu ps where h: "h_client h = 0" "h_clientList h = [Suc 0, 0]"
    "h_clients h = (\<lambda>_. None)(0 := Some (user_at ufd pu), Suc 0 := Some (server_at sfd [0] ps))"
    "p_revents pu = eu" "p_revents ps = es" "h_buffers h = (\<lambda>_. None)(0 := Some b)" "h_cash h = c" "h_os h = os"
    by (rule exchangeE)
  from assms(2) [of pu] obtain pu' where pu': "f (user_at ufd pu) = user_at ufd pu'" "p_revents pu' = g eu"
    using h(4) by auto
  show thesis
    by (rule that [of "h\<lparr>h_clients := (h_clients h)(0 := Some (user_at ufd pu'))\<rparr>"])
       (use h pu' in \<open>auto simp: on_client_def exchange_def fun_upd_twist\<close>)
qed

lemma exchange_server:
  assumes "exchange ufd sfd b c os eu es h" and "\<And>ps. \<exists>ps'. f (server_at sfd [0] ps) = server_at sfd [0] ps' \<and> p_revents ps' = g (p_revents ps)"
  obtains h' where "on_client (Suc 0) f h = Done () h'" "exchange ufd sfd b c os eu (g es) h'" "h_buffer h' = h_buffer h" "h_signals h' = h_signals h"
proof -
  from assms(1) obtain pu ps where h: "h_client h = 0" "h_clientList h = [Suc 0, 0]"
    "h_clients h = (\<lambda>_. None)(0 := Some (user_at ufd pu), Suc 0 := Some (server_at sfd [0] ps))"
    "p_revents pu = eu" "p_revents ps = es" "h_buffers h = (\<lambda>_. None)(0 := Some b)" "h_cash h = c" "h_os h = os"
    by (rule exchangeE)
  from assms(2) [of ps] obtain ps' where ps': "f (server_at sfd [0] ps) = server_at sfd [0] ps'" "p_revents ps' = g es"
    using h(5) by auto
  show thesis
    by (rule that [of "h\<lparr>h_clients := (h_clients h)(Suc 0 := Some (server_at sfd [0] ps'))\<rparr>"])
       (use h ps' in \<open>auto simp: on_client_def exchange_def fun_upd_twist\<close>)
qed

lemma poll_changes:
  "\<exists>pu'. setReventsZero (user_at fd pu) = user_at fd pu' \<and> p_revents pu' = (\<lambda>_. 0) (p_revents pu)"
  "\<exists>pu'. setEvents e (user_at fd pu) = user_at fd pu' \<and> p_revents pu' = (\<lambda>v. v) (p_revents pu)"
  "\<exists>ps'. setReventsZero (server_at fd l ps) = server_at fd l ps' \<and> p_revents ps' = (\<lambda>_. 0) (p_revents ps)"
  "\<exists>ps'. setEvents e (server_at fd l ps) = server_at fd l ps' \<and> p_revents ps' = (\<lambda>v. v) (p_revents ps)"
  by (rule exI, rule conjI, simp add: setReventsZero_def setEvents_def, simp)+

lemmas user_zero = exchange_user [where f = setReventsZero and g = "\<lambda>_. 0", OF _ poll_changes(1)]
lemmas user_events = exchange_user [where f = "setEvents e" and g = "\<lambda>v. v" for e, OF _ poll_changes(2)]
lemmas server_zero = exchange_server [where f = setReventsZero and g = "\<lambda>_. 0", OF _ poll_changes(3)]
lemmas server_events = exchange_server [where f = "setEvents e" and g = "\<lambda>v. v" for e, OF _ poll_changes(4)]

section \<open>One event\<close>

definition running :: "Buffer \<Rightarrow> bool" where
  "running b \<longleftrightarrow> b_statusClient b \<noteq> END_WORK \<and> b_statusHttpServer b \<noteq> END_WORK"

lemma asks:
  assumes "exchange ufd sfd b c os eu es h"
  shows "ask_client 0 getTypeClient h = Done USER h" "ask_client (Suc 0) getTypeClient h = Done HTTP_SERVER h"
    and "ask_client 0 getPair h = Done (Some (Suc 0)) h" "ask_client (Suc 0) getListHandlingEvent h = Done [0] h"
    and "ask_buffer 0 f h = Done (f b) h" "ask_buffer (Suc 0) f h = Done (f b) h"
    and "\<exists>pf. ask_client 0 getPollFd h = Done pf h \<and> p_revents pf = eu"
    and "\<exists>pf. ask_client (Suc 0) getPollFd h = Done pf h \<and> p_revents pf = es"
  using exchange_live [OF assms] assms
  by (auto simp: ask_client_def client_accessors ask_buffer_live elim!: exchangeE)

lemma endEvent_running:
  "exchange ufd sfd b c os eu es h \<Longrightarrow> running b \<Longrightarrow> endEvent n env 0 h = Done Fall h"
  "exchange ufd sfd b c os eu es h \<Longrightarrow> running b \<Longrightarrow> endEvent n env (Suc 0) h = Done Fall h"
  by (simp_all add: endEvent_def asks running_def buffer_accessors)

lemma quiet_server:
  assumes x: "exchange ufd sfd b c os eu 0 h" and b: "running b"
  shows "oneEvent n env (Suc 0) h = Done Fall (h\<lparr>h_buffer := []\<rparr>)"
proof -
  from x have x': "exchange ufd sfd b c os eu 0 (h\<lparr>h_buffer := []\<rparr>)" by simp
  from asks(8) [OF x'] show ?thesis
    by (auto simp: oneEvent_def readEvent_def writeEvent_def endEvent_running(2) [OF x' b])
qed

lemma quiet_user:
  assumes x: "exchange ufd sfd b c os 0 es h" and b: "running b"
  shows "oneEvent n env 0 h = Done Fall (h\<lparr>h_buffer := []\<rparr>)"
proof -
  from x have x': "exchange ufd sfd b c os 0 es (h\<lparr>h_buffer := []\<rparr>)" by simp
  from asks(7) [OF x'] show ?thesis
    by (auto simp: oneEvent_def readEvent_def writeEvent_def endEvent_running(1) [OF x' b])
qed

lemma poll_bits [simp]:
  "and POLLIN POLLIN = POLLIN" "and POLLIN POLLRDHUP = 0" "and POLLIN POLLOUT = 0" "POLLIN \<noteq> 0"
  "and POLLOUT POLLOUT = POLLOUT" "and POLLOUT POLLRDHUP = 0" "and POLLOUT POLLIN = 0" "POLLOUT \<noteq> 0"
  by (simp_all add: POLLIN_def POLLOUT_def POLLRDHUP_def)

lemma exchange_ctx: "exchange ufd sfd b c os eu es h \<Longrightarrow> ctx h b' = \<lparr>cx_buf = b', cx_cash = c, cx_signals = h_signals h\<rparr>"
  by (auto simp: ctx_def exchange_def)

lemma on_os_Done: "f (h_os h) = Done v os \<Longrightarrow> on_os f h = Done v (h\<lparr>h_os := os\<rparr>)"
  by (simp add: on_os_def)

lemma exchange_os: "exchange ufd sfd b c os eu es h \<Longrightarrow> exchange ufd sfd b c os' eu es (h\<lparr>h_os := os'\<rparr>)"
  by (simp add: exchange_def)

lemma server_reads:
  assumes x: "exchange ufd sfd b c os eu POLLIN h"
    and rd: "o_reads os = Bytes s # rs" "s \<noteq> []" "length s \<le> 524287"
    and y: "readFromSocket env s (ctx h b) = Done () z" "cx_buf z = b'" "cx_cash z = c'"
    and b': "running b'" "\<not> b_isReadyConnectHttpServer b'"
  shows "\<exists>h'. oneEvent n env (Suc 0) h = Done Fall h' \<and> exchange ufd sfd b' c' (os\<lparr>o_reads := rs\<rparr>) eu 0 h'"
proof -
  from x have x0: "exchange ufd sfd b c os eu POLLIN (h\<lparr>h_buffer := []\<rparr>)" by simp
  obtain pf where pf: "ask_client (Suc 0) getPollFd (h\<lparr>h_buffer := []\<rparr>) = Done pf (h\<lparr>h_buffer := []\<rparr>)" "p_revents pf = POLLIN"
    using asks(8) [OF x0] by blast
  obtain h1 where h1: "on_client (Suc 0) setReventsZero (h\<lparr>h_buffer := []\<rparr>) = Done () h1"
    "exchange ufd sfd b c os eu 0 h1" "h_buffer h1 = []" "h_signals h1 = h_signals h"
    by (rule server_zero [OF x0]) simp
  obtain cl where cl: "ask_client (Suc 0) (\<lambda>c. c) h1 = Done cl h1"
    using h1(2) by (auto simp: ask_client_def elim!: exchangeE)
  have os: "h_os h1 = os" using h1(2) by (auto elim!: exchangeE)
  have read: "on_os (readBuf cl (h_buffer h1)) h1 = Done (0, s) (h1\<lparr>h_os := os\<lparr>o_reads := rs\<rparr>\<rparr>)"
    using rd by (intro on_os_Done) (simp add: readBuf_def sys_read_def os Let_def BUF_SIZE_def)
  define h2 where "h2 = h1\<lparr>h_os := os\<lparr>o_reads := rs\<rparr>, h_buffer := s\<rparr>"
  have x2: "exchange ufd sfd b c (os\<lparr>o_reads := rs\<rparr>) eu 0 h2"
    using exchange_os [OF h1(2)] by (simp add: h2_def)
  have "ctx h2 b = ctx h b"
    using exchange_ctx [OF x2, of b] exchange_ctx [OF x, of b] h1(4) by (simp add: h2_def)
  then have z: "readFromSocket env s (ctx h2 b) = Done () z" "cx_buf z = b'" "cx_cash z = c'" using y by simp_all
  have x3: "exchange ufd sfd b' c' (os\<lparr>o_reads := rs\<rparr>) eu 0 (put 0 z h2)"
    using exchange_put [OF x2, of z] z by simp
  obtain h4 where h4: "on_client 0 (setEvents all_events) (put 0 z h2) = Done () h4"
    "exchange ufd sfd b' c' (os\<lparr>o_reads := rs\<rparr>) eu 0 h4"
    by (rule user_events [OF x3]) simp
  have "on_buffer (Suc 0) (readFromSocket env s) h2 = Done () (put 0 z h2)"
    by (simp add: on_buffer_live [OF exchange_live(2) [OF x2]] z)
  moreover have "afterRead (Suc 0) (put 0 z h2) = Done Fall h4"
    by (simp add: afterRead_def asks [OF x3] h4(1))
  moreover have "openServer n env (Suc 0) h4 = Done Fall h4"
    using b'(2) by (simp add: openServer_def asks [OF h4(2)] isReadyConnectHttpServer_def)
  ultimately have "readEvent n env (Suc 0) (h\<lparr>h_buffer := []\<rparr>) = Done Fall h4"
    using pf h1(1) cl read rd(2) by (simp add: readEvent_def Let_def flip: h2_def)
  moreover have "endEvent n env (Suc 0) h4 = Done Fall h4" by (rule endEvent_running(2) [OF h4(2) b'(1)])
  moreover have "writeEvent n env (Suc 0) h4 = Done Fall h4"
    using asks(8) [OF h4(2)] by (auto simp: writeEvent_def)
  ultimately have "oneEvent n env (Suc 0) h = Done Fall h4"
    using pf by (simp add: oneEvent_def)
  with h4(2) show ?thesis by blast
qed

text \<open>What a \<open>write\<close> that accepts the whole chunk leaves.\<close>

definition wrote :: "int32 \<Rightarrow> string \<Rightarrow> int64 list \<Rightarrow> Os \<Rightarrow> Os" where
  "wrote fd ch ws os = os\<lparr>o_writes := ws, o_wire := o_wire os @ [(fd, ch)]\<rparr>"

lemma write_whole:
  assumes "o_writes (h_os h) = of_nat (length ch) # ws" and "length ch \<le> 524287"
  shows "\<exists>code. on_os (sendBuf_client cl ch) h = Done code (h\<lparr>h_os := wrote (c_fd cl) ch ws (h_os h)\<rparr>)"
proof -
  have "\<not> sint (of_nat (length ch) :: int64) < 0" "unat (of_nat (length ch) :: int64) = length ch"
    using assms(2) by (simp_all add: sint_of_nat_small unat_of_nat_small)
  then show ?thesis
    using assms(1) by (simp add: on_os_def sendBuf_client_def sys_write_def wrote_def)
qed

lemma sendBuf_own:
  "\<not> b_isDataGetCash (cx_buf x) \<Longrightarrow> sendBuf env t x = Done (take 524287 (b_buf (cx_buf x))) x"
  by (auto simp: sendBuf_def Let_def resize_def min_def BUF_SIZE_def)

lemma isReadyToSend_own:
  "\<not> b_isDataGetCash (cx_buf x) \<Longrightarrow> isReadyToSend x = Done (b_isReadyToSend (cx_buf x)) x"
  by (simp add: isReadyToSend_def Let_def)

lemma ready_own:
  assumes "exchange ufd sfd b c os eu es h" "\<not> b_isDataGetCash b"
  shows "on_buffer 0 isReadyToSend h = Done (b_isReadyToSend b) h"
    and "on_buffer (Suc 0) isReadyToSend h = Done (b_isReadyToSend b) h"
  using exchange_live [OF assms(1)] assms(2) by (simp_all add: on_buffer_live isReadyToSend_own)

lemma user_not_ready:
  assumes x: "exchange ufd sfd b c os POLLOUT es h" and b: "running b" "\<not> b_isReadyToSend b" "\<not> b_isDataGetCash b"
  shows "\<exists>h'. oneEvent n env 0 h = Done (Skip (Some 0)) h' \<and> exchange ufd sfd b c os 0 es h'"
proof -
  from x have x0: "exchange ufd sfd b c os POLLOUT es (h\<lparr>h_buffer := []\<rparr>)" by simp
  obtain pf where pf: "ask_client 0 getPollFd (h\<lparr>h_buffer := []\<rparr>) = Done pf (h\<lparr>h_buffer := []\<rparr>)" "p_revents pf = POLLOUT"
    using asks(7) [OF x0] by blast
  obtain h1 where h1: "on_client 0 setReventsZero (h\<lparr>h_buffer := []\<rparr>) = Done () h1"
    "exchange ufd sfd b c os 0 es h1" by (rule user_zero [OF x0]) simp
  obtain h2 where h2: "on_client 0 (setEvents POLLRDHUP) h1 = Done () h2"
    "exchange ufd sfd b c os 0 es h2" by (rule user_events [OF h1(2), where e = POLLRDHUP]) simp
  have "writeEvent n env 0 (h\<lparr>h_buffer := []\<rparr>) = Done (Skip (Some 0)) h2"
    using pf b by (simp add: writeEvent_def h1(1) h2(1) ready_own [OF h1(2)])
  then have "oneEvent n env 0 h = Done (Skip (Some 0)) h2"
    using pf by (simp add: oneEvent_def readEvent_def endEvent_running(1) [OF x0 b(1)])
  with h2(2) show ?thesis by blast
qed

lemma proofSend_own:
  "\<not> b_isDataGetCash (cx_buf x) \<Longrightarrow> proofSend s x = Done () (set_buf (proofSendBuf s (cx_buf x)) x)"
  by (simp add: proofSend_def)

text \<open>The chunk goes out over the connection at \<open>a\<close>: the statements all writers share.\<close>

lemma chunk_goes_out:
  assumes x: "exchange ufd sfd b c os eu es h" and a: "a = 0 \<and> fd = ufd \<or> a = Suc 0 \<and> fd = sfd"
    and b: "\<not> b_isDataGetCash b" and w: "o_writes os = of_nat (length ch) # ws" and ch: "ch = take 524287 (b_buf b)"
  shows "\<exists>cl code h1 h'. on_buffer a (sendBuf env (h_buffer h)) h = Done ch h
    \<and> ask_client a (\<lambda>c. c) (h\<lparr>h_buffer := ch\<rparr>) = Done cl (h\<lparr>h_buffer := ch\<rparr>)
    \<and> on_os (sendBuf_client cl ch) (h\<lparr>h_buffer := ch\<rparr>) = Done code h1
    \<and> on_buffer a (proofSend ch) h1 = Done () h'
    \<and> exchange ufd sfd (proofSendBuf ch b) c (wrote fd ch ws os) eu es h'"
proof -
  have live: "live h a 0 b" using exchange_live [OF x] a by auto
  have send: "on_buffer a (sendBuf env (h_buffer h)) h = Done ch h"
    using b by (simp add: on_buffer_live [OF live] sendBuf_own ch put_ctx [OF live])
  have x1: "exchange ufd sfd b c os eu es (h\<lparr>h_buffer := ch\<rparr>)" using x by simp
  obtain cl where cl: "ask_client a (\<lambda>c. c) (h\<lparr>h_buffer := ch\<rparr>) = Done cl (h\<lparr>h_buffer := ch\<rparr>)" "c_fd cl = fd"
    using x1 a by (auto simp: ask_client_def elim!: exchangeE)
  have os: "h_os (h\<lparr>h_buffer := ch\<rparr>) = os" using x by (auto elim!: exchangeE)
  have "length ch \<le> 524287" by (simp add: ch)
  with write_whole [of "h\<lparr>h_buffer := ch\<rparr>" ch ws cl] w obtain code where
    wr: "on_os (sendBuf_client cl ch) (h\<lparr>h_buffer := ch\<rparr>) = Done code (h\<lparr>h_buffer := ch, h_os := wrote fd ch ws os\<rparr>)"
    by (auto simp: os [simplified] cl(2))
  define h1 where "h1 = h\<lparr>h_buffer := ch, h_os := wrote fd ch ws os\<rparr>"
  have x2: "exchange ufd sfd b c (wrote fd ch ws os) eu es h1"
    using exchange_os [OF x1] by (simp add: h1_def)
  have live1: "live h1 a 0 b" using exchange_live [OF x2] a by auto
  have c: "h_cash h1 = c" using x2 by (auto elim!: exchangeE)
  define y where "y = set_buf (proofSendBuf ch b) (ctx h1 b)"
  have "on_buffer a (proofSend ch) h1 = Done () (put 0 y h1)"
    using b by (simp add: on_buffer_live [OF live1] proofSend_own y_def)
  moreover have "exchange ufd sfd (proofSendBuf ch b) c (wrote fd ch ws os) eu es (put 0 y h1)"
    using exchange_put [OF x2, of y] c by (simp add: y_def)
  ultimately show ?thesis using send cl(1) wr [folded h1_def] by blast
qed

lemma user_writes:
  assumes x: "exchange ufd sfd b c os POLLOUT es h" and b: "running b" "b_isReadyToSend b" "\<not> b_isDataGetCash b"
    "b_statusClient b = READ_RESPONSE"
    and w: "o_writes os = of_nat (length ch) # ws" and ch: "ch = take 524287 (b_buf b)"
  shows "\<exists>h'. exchange ufd sfd (proofSendBuf ch b) c (wrote ufd ch ws os) 0 es h'
    \<and> oneEvent n env 0 h = (if b_statusHttpServer (proofSendBuf ch b) = END_WORK \<and> \<not> b_isReadyToSend (proofSendBuf ch b)
         then bind (deleteClient n env (Some 0) h') (\<lambda>it h. Done (Skip it) h) else Done Fall h')"
proof -
  from x have x0: "exchange ufd sfd b c os POLLOUT es (h\<lparr>h_buffer := []\<rparr>)" by simp
  obtain pf where pf: "ask_client 0 getPollFd (h\<lparr>h_buffer := []\<rparr>) = Done pf (h\<lparr>h_buffer := []\<rparr>)" "p_revents pf = POLLOUT"
    using asks(7) [OF x0] by blast
  obtain h1 where h1: "on_client 0 setReventsZero (h\<lparr>h_buffer := []\<rparr>) = Done () h1"
    "exchange ufd sfd b c os 0 es h1" by (rule user_zero [OF x0]) simp
  obtain cl code h2 h3 where out: "on_buffer 0 (sendBuf env (h_buffer h1)) h1 = Done ch h1"
    "ask_client 0 (\<lambda>c. c) (h1\<lparr>h_buffer := ch\<rparr>) = Done cl (h1\<lparr>h_buffer := ch\<rparr>)"
    "on_os (sendBuf_client cl ch) (h1\<lparr>h_buffer := ch\<rparr>) = Done code h2" "on_buffer 0 (proofSend ch) h2 = Done () h3"
    "exchange ufd sfd (proofSendBuf ch b) c (wrote ufd ch ws os) 0 es h3"
    using chunk_goes_out [OF h1(2) _ b(3) w ch, of 0 ufd] by blast
  have get: "b_isDataGetCash (proofSendBuf ch b) = b_isDataGetCash b"
    by (cases b rule: proofSendBuf_cases [where s = ch]) simp_all
  have "writeEvent n env 0 (h\<lparr>h_buffer := []\<rparr>) = (if b_statusHttpServer (proofSendBuf ch b) = END_WORK \<and> \<not> b_isReadyToSend (proofSendBuf ch b)
         then bind (deleteClient n env (Some 0) h3) (\<lambda>it h. Done (Skip it) h) else Done Fall h3)"
    using pf b(2,4) by (simp add: writeEvent_def h1(1) ready_own [OF h1(2) b(3)] asks [OF h1(2)] asks [OF out(5)] out(1-4)
        ready_own [OF out(5)] get b(3) Let_def buffer_accessors)
  then have "oneEvent n env 0 h = (if b_statusHttpServer (proofSendBuf ch b) = END_WORK \<and> \<not> b_isReadyToSend (proofSendBuf ch b)
         then bind (deleteClient n env (Some 0) h3) (\<lambda>it h. Done (Skip it) h) else Done Fall h3)"
    using pf by (simp add: oneEvent_def readEvent_def endEvent_running(1) [OF x0 b(1)])
  with out(5) show ?thesis by blast
qed

lemma server_writes:
  assumes x: "exchange ufd sfd b c os eu POLLOUT h" and b: "running b" "b_isReadyToSend b" "\<not> b_isDataGetCash b"
    "b_statusHttpServer b = READ_REQUEST"
    and w: "o_writes os = of_nat (length ch) # ws" and ch: "ch = take 524287 (b_buf b)"
    and sent: "b_statusHttpServer (proofSendBuf ch b) = WRITE_RESPONSE_HEADING" "\<not> b_isReadyToSend (proofSendBuf ch b)"
  shows "\<exists>h'. oneEvent n env (Suc 0) h = Done Fall h'
    \<and> exchange ufd sfd (proofSendBuf ch b) c (wrote sfd ch ws os) eu 0 h'"
proof -
  from x have x0: "exchange ufd sfd b c os eu POLLOUT (h\<lparr>h_buffer := []\<rparr>)" by simp
  obtain pf where pf: "ask_client (Suc 0) getPollFd (h\<lparr>h_buffer := []\<rparr>) = Done pf (h\<lparr>h_buffer := []\<rparr>)" "p_revents pf = POLLOUT"
    using asks(8) [OF x0] by blast
  obtain h1 where h1: "on_client (Suc 0) setReventsZero (h\<lparr>h_buffer := []\<rparr>) = Done () h1"
    "exchange ufd sfd b c os eu 0 h1" by (rule server_zero [OF x0]) simp
  obtain cl code h2 h3 where out: "on_buffer (Suc 0) (sendBuf env (h_buffer h1)) h1 = Done ch h1"
    "ask_client (Suc 0) (\<lambda>c. c) (h1\<lparr>h_buffer := ch\<rparr>) = Done cl (h1\<lparr>h_buffer := ch\<rparr>)"
    "on_os (sendBuf_client cl ch) (h1\<lparr>h_buffer := ch\<rparr>) = Done code h2" "on_buffer (Suc 0) (proofSend ch) h2 = Done () h3"
    "exchange ufd sfd (proofSendBuf ch b) c (wrote sfd ch ws os) eu 0 h3"
    using chunk_goes_out [OF h1(2) _ b(3) w ch, of "Suc 0" sfd] by blast
  have get: "b_isDataGetCash (proofSendBuf ch b) = b_isDataGetCash b"
    by (cases b rule: proofSendBuf_cases [where s = ch]) simp_all
  obtain h4 where h4: "on_client (Suc 0) (setEvents (or POLLIN POLLRDHUP)) h3 = Done () h4"
    "exchange ufd sfd (proofSendBuf ch b) c (wrote sfd ch ws os) eu 0 h4"
    by (rule server_events [OF out(5), where e = "or POLLIN POLLRDHUP"]) simp
  obtain h5 where h5: "on_client 0 (setEvents all_events) h4 = Done () h5"
    "exchange ufd sfd (proofSendBuf ch b) c (wrote sfd ch ws os) eu 0 h5"
    by (rule user_events [OF h4(2), where e = all_events]) simp
  have "writeEvent n env (Suc 0) (h\<lparr>h_buffer := []\<rparr>) = Done Fall h5"
    using pf b(2,4) sent by (simp add: writeEvent_def h1(1) ready_own [OF h1(2) b(3)] asks [OF h1(2)] asks [OF out(5)] out(1-4)
        ready_own [OF out(5)] get b(3) Let_def buffer_accessors h4(1) asks [OF h4(2)] h5(1))
  then have "oneEvent n env (Suc 0) h = Done Fall h5"
    using pf by (simp add: oneEvent_def readEvent_def endEvent_running(2) [OF x0 b(1)])
  with h5(2) show ?thesis by blast
qed

section \<open>One round\<close>

lemma exchange_polled:
  assumes x: "exchange ufd sfd b c os eu0 es0 h" and p: "o_polls os = (code, [es, eu]) # ps" "code \<noteq> -1"
  shows "\<exists>h'. exchange ufd sfd b c (os\<lparr>o_polls := ps\<rparr>) eu es h'
    \<and> startHandler (Suc k) n env v h = bind (handlingEvent n env h') (after_round k n env v)"
proof -
  from x obtain pu pf where h: "h_client h = 0" "h_clientList h = [Suc 0, 0]"
    "h_clients h = (\<lambda>_. None)(0 := Some (user_at ufd pu), Suc 0 := Some (server_at sfd [0] pf))"
    "h_buffers h = (\<lambda>_. None)(0 := Some b)" "h_cash h = c" "h_os h = os"
    by (rule exchangeE)
  have pf: "setPollElement (q\<lparr>p_revents := ev\<rparr>) cl = cl\<lparr>c_structPollFd := q\<lparr>p_revents := ev\<rparr>\<rparr>" for q ev cl
    by (simp add: setPollElement_def)
  define h' where "h' = h\<lparr>h_pollSet := [pf\<lparr>p_revents := es\<rparr>, pu\<lparr>p_revents := eu\<rparr>], h_os := os\<lparr>o_polls := ps\<rparr>,
    h_clients := (\<lambda>_. None)(0 := Some (user_at ufd (pu\<lparr>p_revents := eu\<rparr>)), Suc 0 := Some (server_at sfd [0] (pf\<lparr>p_revents := es\<rparr>)))\<rparr>"
  have "bind (setPollSetBeforePoll h) (\<lambda>_ h. bind (sys_poll h) (\<lambda>code h.
      bind (saveResultPollSet h) (\<lambda>_ h. Done code h))) = Done code h'"
    using p(1) h by (simp add: setPollSetBeforePoll_def sys_poll_def saveResultPollSet_def zero_pollfd_def
        ask_client_def on_client_def getPollFd_def pf Let_def h'_def fun_upd_twist)
  then obtain h1 h2 where "setPollSetBeforePoll h = Done () h1" "sys_poll h1 = Done code h2"
    "saveResultPollSet h2 = Done () h'" by (auto simp: bind_Done)
  from startHandler_round [OF _ this p(2)] h(2)
  have "startHandler (Suc k) n env v h = bind (handlingEvent n env h') (after_round k n env v)" by simp
  moreover have "exchange ufd sfd b c (os\<lparr>o_polls := ps\<rparr>) eu es h'"
    unfolding exchange_def using h
    by (intro conjI exI [of _ "pu\<lparr>p_revents := eu\<rparr>"] exI [of _ "pf\<lparr>p_revents := es\<rparr>"]) (simp_all add: h'_def)
  ultimately show ?thesis by blast
qed

text \<open>Both connections are visited, the server's first.\<close>

lemma next_of_exchange:
  "exchange ufd sfd b c os eu es h \<Longrightarrow> next_it (Some (Suc 0)) h = Done (Some 0) h"
  "exchange ufd sfd b c os eu es h \<Longrightarrow> next_it (Some 0) h = Done None h"
  by (simp_all add: next_it_def exchange_def)

lemma handle_one:
  assumes "oneEvent m env a h = Done fl h1" and "fl = Fall \<and> j = Some a \<or> fl = Skip j" and "next_it j h1 = Done it h1"
  shows "handleFrom (Suc k) m env (Some a) h = handleFrom k m env it h1"
  using assms by (cases fl) (simp_all del: handleFrom.simps add: handleFrom.simps(2) [of k])

lemma round_of_two:
  assumes x: "exchange ufd sfd b c os eu es h" and m: "m \<ge> 3"
    and server: "oneEvent m env (Suc 0) h = Done Fall h1" "exchange ufd sfd b1 c1 os1 eu1 es1 h1"
    and user: "oneEvent m env 0 h1 = Done fl h2" "fl = Fall \<or> fl = Skip (Some 0)" "exchange ufd sfd b2 c2 os2 eu2 es2 h2"
  shows "handlingEvent m env h = Done (Some False) h2"
proof -
  from m have k: "m = Suc (Suc (Suc (m - 3)))" by simp
  define k where "k = m - 3"
  note k = k [folded k_def]
  have fl: "fl = Fall \<and> Some 0 = Some (0 :: nat) \<or> fl = Skip (Some 0)" using user(2) by simp
  have "handleFrom (Suc (Suc (Suc k))) m env (Some (Suc 0)) h = handleFrom (Suc (Suc k)) m env (Some 0) h1"
    by (rule handle_one [OF server(1) _ next_of_exchange(1) [OF server(2)]]) simp
  also have "\<dots> = handleFrom (Suc k) m env None h2"
    by (rule handle_one [OF user(1) fl next_of_exchange(2) [OF user(3)]])
  also have "\<dots> = Done (Some False) h2" by (simp only: handleFrom.simps option.case)
  finally show ?thesis using x by (simp only: handlingEvent_def exchange_def begin_of_def list.case k)
qed

text \<open>The last round: the user's connection goes, and the server's after it.\<close>

lemma exchange_ends:
  assumes x: "exchange ufd sfd b c os 0 0 h"
    and b: "b_statusHttpServer b = END_WORK" "b_isAddDataToCash b" "b_cashElement b = Some e" "\<not> b_isDataGetCash b"
      "b_isServerConnect b"
  shows "\<exists>h2 h3. deleteClient (Suc (Suc n)) env (Some 0) h = Done None h2 \<and> h_clientList h2 = [Suc 0]
    \<and> oneEvent (Suc m) env (Suc 0) h2 = Done (Skip None) h3 \<and> h_clientList h3 = []
    \<and> h_clients h3 = (\<lambda>_. None) \<and> h_buffers h3 = (\<lambda>_. None)
    \<and> store (h_cash h3) = (store c)(e := fst (setIsServerConnect (subsLock env) False (store c e)))
    \<and> listCash (h_cash h3) = listCash c \<and> h_os h3 = os\<lparr>o_closed := o_closed os @ [ufd, sfd]\<rparr>"
proof -
  from x obtain pu ps where h: "h_client h = 0" "h_clientList h = [Suc 0, 0]"
    "h_clients h = (\<lambda>_. None)(0 := Some (user_at ufd pu), Suc 0 := Some (server_at sfd [0] ps))"
    "p_revents pu = 0" "p_revents ps = 0" "h_buffers h = (\<lambda>_. None)(0 := Some b)" "h_cash h = c" "h_os h = os"
    by (rule exchangeE)
  define h2 where "h2 = h\<lparr>h_clientList := [Suc 0],
    h_clients := (\<lambda>_. None)(Suc 0 := Some (server_at sfd [] ps)),
    h_buffers := (\<lambda>_. None)(0 := Some (b\<lparr>b_statusClient := END_WORK, b_isClientConnect := False\<rparr>)),
    h_os := os\<lparr>o_closed := o_closed os @ [ufd]\<rparr>\<rparr>"
  have "deleteClient (Suc (Suc n)) env (Some 0) h = Done None h2"
    using h b by (simp add: heap_access h2_def fun_upd_twist)
  moreover have "\<exists>h3. oneEvent (Suc m) env (Suc 0) h2 = Done (Skip None) h3 \<and> h_clientList h3 = []
    \<and> h_clients h3 = (\<lambda>_. None) \<and> h_buffers h3 = (\<lambda>_. None)
    \<and> store (h_cash h3) = (store c)(e := fst (setIsServerConnect (subsLock env) False (store c e)))
    \<and> listCash (h_cash h3) = listCash c \<and> h_os h3 = os\<lparr>o_closed := o_closed os @ [ufd, sfd]\<rparr>"
    using h b by (simp add: oneEvent_def readEvent_def endEvent_def deleteClientServer_def heap_access h2_def Let_def
        upd_element_def)
  ultimately show ?thesis by (auto simp: h2_def)
qed

end
