(* ===== verification/Handler_Visit.thy ===== *)
theory Handler_Visit
  imports Handler_Relay
begin

text \<open>
  The rounds of \<open>startHandler\<close> that relay a response, as a refinement of a queue, and whole visits:
  of a user whose request has to be fetched, and of a second user who asks for the same.
\<close>

declare startHandler.simps [simp del]

lemma startHandler_empty: "h_clientList h = [] \<Longrightarrow> startHandler (Suc k) n env v h = Done () h"
  by (simp add: startHandler.simps)

section \<open>The buffer while a response is relayed\<close>

text \<open>
  \<open>left\<close> bytes of the response are still to come, \<open>pend\<close> is read and not yet sent, and the
  element \<open>e\<close>, found in the cache under the request, holds what has been read, \<open>got\<close>.
\<close>

definition relaying :: "Env \<Rightarrow> string \<Rightarrow> nat \<Rightarrow> nat \<Rightarrow> string \<Rightarrow> string \<Rightarrow> Buffer \<Rightarrow> CashImpl \<Rightarrow> bool" where
  "relaying env hdg e left pend got b c \<longleftrightarrow>
     b_statusClient b = READ_RESPONSE \<and> b_statusHttpServer b = WRITE_RESPONSE_BODY
     \<and> b_isHaveContentLengthResponse b \<and> b_isAddDataToCash b \<and> b_cashElement b = Some e
     \<and> \<not> b_isDataGetCash b \<and> \<not> b_error b \<and> \<not> b_isReadyConnectHttpServer b
     \<and> b_isClientConnect b \<and> b_isServerConnect b
     \<and> b_buf b = pend \<and> b_isReadyToSend b = (pend \<noteq> []) \<and> b_isEndSend b = (left = 0)
     \<and> b_lengthBody b = of_nat left \<and> left < 2 ^ 62
     \<and> find_hash (store c) (hash env hdg) (listCash c) = Some e \<and> e_cash (store c e) = got
     \<and> isDownloadEnd (store c e) = (left = 0)"

text \<open>The request has gone out and nothing has come back.\<close>

definition awaiting :: "string \<Rightarrow> Buffer \<Rightarrow> bool" where
  "awaiting hdg b \<longleftrightarrow> b_statusClient b = READ_RESPONSE \<and> b_statusHttpServer b = WRITE_RESPONSE_HEADING
     \<and> b_buf b = [] \<and> b_requestHeading b = hdg \<and> map_option rtype (b_resultParseHeading b) = Some GET_REQUEST
     \<and> \<not> b_isReadyToSend b \<and> \<not> b_isEndSend b \<and> \<not> b_isDataGetCash b \<and> \<not> b_error b
     \<and> \<not> b_isReadyConnectHttpServer b \<and> b_isClientConnect b \<and> b_isServerConnect b"

text \<open>The answer of a server: a heading that announces \<open>m\<close> bytes, in the first piece read.\<close>

definition announces :: "string \<Rightarrow> string \<Rightarrow> nat \<Rightarrow> bool" where
  "announces s rh m \<longleftrightarrow> fst (findEndHeading s) = END_HEADING \<and> rh = substr0 s (snd (findEndHeading s))
     \<and> \<not> responseWithError (parsingResponseHeading rh) \<and> haveContentLength (parsingResponseHeading rh)
     \<and> contentLength (parsingResponseHeading rh) = of_nat m"

definition all_locks :: "Env \<Rightarrow> bool" where
  "all_locks env \<longleftrightarrow> testLock env = SUCCESS \<and> cashLock env = SUCCESS \<and> userLock env = SUCCESS
     \<and> wrLock env = SUCCESS \<and> subsLock env = SUCCESS \<and> others env = (\<lambda>c. c)"

lemma sint_le_0: "n < 2 ^ 62 \<Longrightarrow> sint (of_nat n :: int64) \<le> 0 \<longleftrightarrow> n = 0"
  by (simp add: sint_of_nat_small)

lemma first_piece:
  assumes x: "awaiting hdg (cx_buf x)" and locks: "all_locks env"
    and s: "announces s rh m" "length s \<le> length rh + m" "length rh + m < 2 ^ 61" "s \<noteq> []"
    and c: "wf_cash (cx_cash x)" "\<not> isElementInCash (hash env) SUCCESS hdg (cx_cash x)"
    and room: "addStringToCash (hash env) SUCCESS hdg (of_nat (m + length rh)) (cx_cash x) = Done (Some e) c1"
  shows "\<exists>y. readFromSocket env s x = Done () y
    \<and> relaying env hdg e (length rh + m - length s) s s (cx_buf y) (cx_cash y)"
proof -
  have b: "b_buf (cx_buf x) @ s = s" "b_requestHeading (cx_buf x) = hdg" using x by (simp_all add: awaiting_def)
  have "size_of s + of_nat m < SIZE_EACH_CASH_ELEMENT"
  proof -
    have "unat (of_nat (length s + m) :: int64) = length s + m"
      using s(2,3) by (intro unat_of_nat_small) simp
    moreover have "size_of s + of_nat m = (of_nat (length s + m) :: int64)" by (simp add: size_of_def)
    ultimately show ?thesis
      using s(2,3) by (simp add: word_less_nat_alt SIZE_EACH_CASH_ELEMENT_def)
  qed
  then have ca: "cacheable (parsingResponseHeading rh) (received s x)"
    using x s(1) by (auto simp: cacheable_def announces_def received_def awaiting_def)
  have left: "of_nat m - (size_of s - size_of rh) = (of_nat (length rh + m - length s) :: int64)"
    using s(2) by (simp add: size_of_def of_nat_diff)
  have l: "length rh + m - length s < 2 ^ 62" using s(3) by simp
  have rh: "substr0 s (snd (findEndHeading s)) = rh" "fst (findEndHeading s) = END_HEADING"
    "contentLength (parsingResponseHeading rh) = of_nat m" using s(1) unfolding announces_def by metis+
  have st: "b_statusClient (cx_buf x) = READ_RESPONSE" "b_statusHttpServer (cx_buf x) = WRITE_RESPONSE_HEADING"
    "\<not> b_isEndSend (cx_buf x)" using x by (simp_all add: awaiting_def)
  have lk: "testLock env = SUCCESS" "cashLock env = SUCCESS" "wrLock env = SUCCESS" "others env = (\<lambda>c. c)"
    using locks by (simp_all add: all_locks_def)
  have room': "addStringToCash (hash env) SUCCESS hdg (of_nat m + size_of rh) (cx_cash x) = Done (Some e) c1"
    using room by (simp add: size_of_def)
  have no: "b_isEndSend (cx_buf x) \<or> P \<longleftrightarrow> P" for P using st(3) by simp
  obtain y where y: "readFromSocket env s x = Done () y"
    "fst (findResponseInCash (hash env) SUCCESS hdg (cx_cash y)) = Some e" "e_cash (element_of y e) = s"
    "cx_buf y = (cx_buf x)\<lparr>b_buf := s, b_cashElement := Some e, b_isAddDataToCash := True,
        b_isReadyToSend := True, b_statusHttpServer := WRITE_RESPONSE_BODY, b_isHaveContentLengthResponse := True,
        b_lengthBody := of_nat (length rh + m - length s), b_isEndSend := length rh + m - length s = 0\<rparr>"
    "isDownloadEnd (element_of y e) = (length rh + m - length s = 0)"
    using response_stored_lemma [of x s env e c1, unfolded b rh lk(4), OF st(1,2) refl ca lk(1-3) c(1,2,2) room',
        unfolded left sint_le_0 [OF l] no]
    by (elim exE conjE) (rule that; assumption)
  have "find_hash (store (cx_cash y)) (hash env hdg) (listCash (cx_cash y)) = Some e"
    using y(2) by (auto simp: findResponseInCash_def split: option.splits)
  with y x s(4) l have "relaying env hdg e (length rh + m - length s) s s (cx_buf y) (cx_cash y)"
    by (simp add: relaying_def awaiting_def)
  with y(1) show ?thesis by blast
qed

lemma next_piece:
  assumes x: "relaying env hdg e left pend got (cx_buf x) (cx_cash x)" and locks: "all_locks env"
    and s: "length s \<le> left" "s \<noteq> []"
  shows "\<exists>y. readFromSocket env s x = Done () y
    \<and> relaying env hdg e (left - length s) (pend @ s) (got @ s) (cx_buf y) (cx_cash y)"
proof -
  have l: "left - length s < 2 ^ 62" using x by (auto simp: relaying_def)
  have d: "of_nat left - size_of s = (of_nat (left - length s) :: int64)"
    using s(1) by (simp add: size_of_def of_nat_diff)
  define app where "app = appendStringToCash (wrLock env) (subsLock env) s"
  have app: "e_cash (fst (app e)) = e_cash e @ s" "isDownloadEnd (fst (app e)) = isDownloadEnd e"
    "e_hashRequestHeading (fst (app e)) = e_hashRequestHeading e" for e
    using locks by (simp_all add: app_def all_locks_def appendStringToCash_def isDownloadEnd_def Let_def)
  have left: "left \<noteq> 0" using s by (cases left) auto
  define b' where "b' = (cx_buf x)\<lparr>b_buf := pend @ s, b_isReadyToSend := True, b_lengthBody := of_nat (left - length s),
    b_isEndSend := left - length s = 0\<rparr>"
  define y where "y = set_buf b' (upd_element e app x)"
  define z where "z = (if left - length s = 0 then upd_element e (\<lambda>e. (setDownloadEnd True e, [])) y else y)"
  have "readFromSocket env s x = Done () z"
    using x left sint_le_0 [OF l]
    by (cases "left - length s = 0")
       (simp_all add: readFromSocket_received relaying_def received_def wrightResponseBody_def Let_def z_def y_def b'_def
        d set_buf_def upd_element_def flip: app_def)
  moreover have "find_hash (store (cx_cash z)) (hash env hdg) (listCash (cx_cash z)) = Some e"
  proof -
    have "getHash (store (cx_cash z) a) = getHash (store (cx_cash x) a)" for a
      by (cases "a = e") (simp_all add: z_def y_def getHash_def app)
    moreover have "listCash (cx_cash z) = listCash (cx_cash x)" by (simp add: z_def y_def)
    ultimately show ?thesis
      using x find_hash_cong [of "store (cx_cash z)" "store (cx_cash x)"] by (simp add: relaying_def)
  qed
  then have "relaying env hdg e (left - length s) (pend @ s) (got @ s) (cx_buf z) (cx_cash z)"
    using x s l left by (auto simp: relaying_def z_def y_def b'_def app) (simp_all add: isDownloadEnd_def setDownloadEnd_def)
  ultimately show ?thesis by blast
qed

text \<open>A chunk is confirmed: the rest waits, or the exchange is over.\<close>

definition over :: "Buffer \<Rightarrow> Buffer" where
  "over b = b\<lparr>b_buf := [], b_statusClient := END_WORK, b_statusHttpServer := END_WORK,
     b_isEndSend := True, b_isReadyToSend := False\<rparr>"

lemma drop_taken: "drop (length (take n xs)) xs = drop n xs"
  by (cases "n \<le> length xs") (simp_all add: min_def)

lemma chunk_confirmed:
  assumes "relaying env hdg e left pend got b c" and "pend \<noteq> []"
  shows "drop 524287 pend \<noteq> [] \<or> left \<noteq> 0 \<Longrightarrow>
      relaying env hdg e left (drop 524287 pend) got (proofSendBuf (take 524287 pend) b) c"
    and "drop 524287 pend = [] \<Longrightarrow> left = 0 \<Longrightarrow> proofSendBuf (take 524287 pend) b = over b"
  using assms by (auto simp: relaying_def proofSendBuf_def Let_def drop_taken over_def)

section \<open>The abstract relay\<close>

text \<open>
  A queue between the server, who sends the pieces \<open>ps\<close>, together \<open>left\<close> bytes, and the user, who
  takes at most \<open>BUF_SIZE - 1\<close> bytes at a time. A round says who is ready; it ends with the
  chunks sent to the user, or with \<open>None\<close> if the rounds do not suffice.
\<close>

definition fill :: "bool \<Rightarrow> nat \<times> string list \<times> string \<Rightarrow> (nat \<times> string list \<times> string) option" where
  "fill r q = (case q of (left, ps, pend) \<Rightarrow>
     if r then (case ps of [] \<Rightarrow> None | p # ps \<Rightarrow> Some (left - length p, ps, pend @ p))
     else Some (left, ps, pend))"

fun relay :: "nat \<times> string list \<times> string \<Rightarrow> (bool \<times> bool) list \<Rightarrow> string list option" where
  "relay q [] = None"
| "relay q ((r, w) # rs) = (case fill r q of
     None \<Rightarrow> None
   | Some (left, ps, pend) \<Rightarrow>
       if w \<and> pend \<noteq> [] then
         (if drop 524287 pend = [] \<and> left = 0 then Some [pend]
          else map_option (Cons (take 524287 pend)) (relay (left, ps, drop 524287 pend) rs))
       else relay (left, ps, pend) rs)"

definition pieces :: "nat \<Rightarrow> string list \<Rightarrow> bool" where
  "pieces left ps \<longleftrightarrow> length (concat ps) = left \<and> (\<forall>p \<in> set ps. p \<noteq> [] \<and> length p \<le> 524287)"

lemma pieces_Cons:
  "pieces left (p # ps) \<longleftrightarrow> p \<noteq> [] \<and> length p \<le> 524287 \<and> length p \<le> left \<and> pieces (left - length p) ps"
  by (auto simp: pieces_def)

lemma pieces_0: "pieces 0 ps \<longleftrightarrow> ps = []"
  by (cases ps) (auto simp: pieces_def)

lemma fill_pieces:
  "fill r (left, ps, pend) = Some (left', ps', pend') \<Longrightarrow> pieces left ps \<Longrightarrow>
     pieces left' ps' \<and> pend' @ concat ps' = pend @ concat ps"
  by (auto simp: fill_def pieces_Cons split: if_splits list.splits)

text \<open>What the queue lets out is what went in, in order and completely, whoever was ready when.\<close>

lemma relay_sends_all:
  "relay (left, ps, pend) rs = Some cs \<Longrightarrow> pieces left ps \<Longrightarrow> concat cs = pend @ concat ps"
proof (induction rs arbitrary: left ps pend cs)
  case (Cons x rs)
  obtain r w where x: "x = (r, w)" by (cases x)
  from Cons.prems(1) obtain left' ps' pend' where f: "fill r (left, ps, pend) = Some (left', ps', pend')"
    by (auto simp: x split: option.splits)
  note fp = fill_pieces [OF f Cons.prems(2)]
  show ?case
  proof (cases "w \<and> pend' \<noteq> []")
    case False
    with Cons.prems(1) have "relay (left', ps', pend') rs = Some cs" by (simp add: x f)
    from Cons.IH [OF this] fp show ?thesis by simp
  next
    case True
    show ?thesis
    proof (cases "drop 524287 pend' = [] \<and> left' = 0")
      case True
      with \<open>w \<and> pend' \<noteq> []\<close> Cons.prems(1) have "cs = [pend']" by (simp add: x f)
      moreover have "ps' = []" using fp True pieces_0 by auto
      ultimately show ?thesis using fp by simp
    next
      case False
      have "relay (left, ps, pend) (x # rs)
          = map_option (Cons (take 524287 pend')) (relay (left', ps', drop 524287 pend') rs)"
        by (simp only: x relay.simps f option.case prod.case if_P [OF \<open>w \<and> pend' \<noteq> []\<close>] if_not_P [OF False])
      with Cons.prems(1) obtain cs' where cs': "relay (left', ps', drop 524287 pend') rs = Some cs'"
        "cs = take 524287 pend' # cs'" by auto
      from Cons.IH [OF cs'(1)] fp cs'(2) show ?thesis
        by simp (metis append.assoc append_take_drop_id)
    qed
  qed
qed simp

text \<open>When both are always ready, every piece is sent on in the round it is read in.\<close>

lemma relay_in_step:
  "pieces left ps \<Longrightarrow> ps \<noteq> [] \<Longrightarrow> relay (left, ps, []) (map (\<lambda>_. (True, True)) ps) = Some ps"
proof (induction ps arbitrary: left)
  case (Cons p ps)
  show ?case
  proof (cases ps)
    case Nil
    with Cons.prems show ?thesis by (simp add: fill_def pieces_def)
  next
    case (Cons q qs)
    with Cons.prems Cons.IH [of "left - length p"] show ?thesis
      by (auto simp: fill_def pieces_Cons)
  qed
qed simp

text \<open>
  The relay ends in every schedule in which the server gets to send all its pieces, in any rounds,
  and the user is then ready often enough for what has not been sent by then.
\<close>

lemma relay_drains:
  "pend \<noteq> [] \<Longrightarrow> length pend \<le> 524287 * k \<Longrightarrow> \<exists>cs. relay (0, [], pend) (replicate k (False, True)) = Some cs"
proof (induction k arbitrary: pend)
  case (Suc k)
  show ?case
  proof (cases "drop 524287 pend = []")
    case True
    with Suc.prems(1) show ?thesis by (simp add: fill_def)
  next
    case False
    moreover have "length (drop 524287 pend) \<le> 524287 * k" using Suc.prems(2) by simp
    ultimately show ?thesis using Suc.IH [of "drop 524287 pend"] Suc.prems(1) by (auto simp: fill_def)
  qed
qed simp

lemma relay_ends:
  "pieces left ps \<Longrightarrow> length (filter fst as) = length ps \<Longrightarrow> ps \<noteq> [] \<or> pend \<noteq> [] \<Longrightarrow>
     length pend + left \<le> 524287 * k \<Longrightarrow> \<exists>cs. relay (left, ps, pend) (as @ replicate k (False, True)) = Some cs"
proof (induction as arbitrary: left ps pend)
  case Nil
  then have "ps = []" "left = 0" by (auto simp: pieces_def)
  with Nil relay_drains show ?case by simp
next
  case (Cons x as)
  obtain r w where x: "x = (r, w)" by (cases x)
  obtain left' ps' pend' where f: "fill r (left, ps, pend) = Some (left', ps', pend')"
    and l: "length (filter fst as) = length ps'" and ne: "ps' \<noteq> [] \<or> pend' \<noteq> []"
    and le: "length pend' + left' \<le> 524287 * k"
    using Cons.prems by (cases r; cases ps) (auto simp: x fill_def pieces_Cons)
  note pc = conjunct1 [OF fill_pieces [OF f Cons.prems(1)]]
  have z: "left' = 0 \<longleftrightarrow> ps' = []" using pc by (cases ps') (auto simp: pieces_def)
  have "\<exists>cs. relay (left', ps', pend') (as @ replicate k (False, True)) = Some cs"
    by (rule Cons.IH [OF pc l ne le])
  moreover have "\<exists>cs. relay (left', ps', drop 524287 pend') (as @ replicate k (False, True)) = Some cs"
    if "drop 524287 pend' \<noteq> [] \<or> left' \<noteq> 0"
  proof (rule Cons.IH [OF pc l])
    show "ps' \<noteq> [] \<or> drop 524287 pend' \<noteq> []" using that z by blast
    show "length (drop 524287 pend') + left' \<le> 524287 * k" using le by simp
  qed
  ultimately show ?case
    using x f by (cases "w \<and> pend' \<noteq> []"; cases "drop 524287 pend' = [] \<and> left' = 0") auto
qed

section \<open>The rounds refine the relay\<close>

text \<open>
  The buffer and the cache when the queue is in state \<open>(left, ps, pend)\<close> and \<open>got\<close> has been read:
  nothing has been read yet, and the first piece brings a heading the cache has room for; or the
  response is being relayed. \<open>e\<close> is the element the cache will give, or has given, the response.
\<close>

definition stage :: "Env \<Rightarrow> string \<Rightarrow> nat \<Rightarrow> nat \<times> string list \<times> string \<Rightarrow> string \<Rightarrow> Buffer \<Rightarrow> CashImpl \<Rightarrow> bool" where
  "stage env hdg e q got b c \<longleftrightarrow> (case q of (left, ps, pend) \<Rightarrow>
     relaying env hdg e left pend got b c
     \<or> awaiting hdg b \<and> pend = [] \<and> got = [] \<and> ps \<noteq> [] \<and> left < 2 ^ 61
       \<and> (\<exists>rh m c1. announces (hd ps) rh m \<and> left = length rh + m
           \<and> wf_cash c \<and> \<not> isElementInCash (hash env) SUCCESS hdg c
           \<and> addStringToCash (hash env) SUCCESS hdg (of_nat (m + length rh)) c = Done (Some e) c1))"

lemma stage_fields:
  assumes "stage env hdg e (left, ps, pend) got b c"
  shows "running b" and "\<not> b_isDataGetCash b" and "b_isReadyToSend b = (pend \<noteq> [])"
    and "\<not> b_isReadyConnectHttpServer b" and "pend \<noteq> [] \<Longrightarrow> relaying env hdg e left pend got b c"
    and "pend = [] \<longrightarrow> b_buf b = []"
  using assms by (auto simp: stage_def running_def relaying_def awaiting_def)

lemma stage_reads:
  assumes st: "stage env hdg e (left, p # ps, pend) got (cx_buf x) (cx_cash x)" and locks: "all_locks env"
    and p: "p \<noteq> []" "length p \<le> left"
  shows "\<exists>y. readFromSocket env p x = Done () y
    \<and> relaying env hdg e (left - length p) (pend @ p) (got @ p) (cx_buf y) (cx_cash y)"
proof (cases "relaying env hdg e left pend got (cx_buf x) (cx_cash x)")
  case True
  from next_piece [OF this locks p(2,1)] show ?thesis .
next
  case False
  with st obtain rh m c1 where a: "awaiting hdg (cx_buf x)" "pend = []" "got = []" "left < 2 ^ 61"
    "announces p rh m" "left = length rh + m" "wf_cash (cx_cash x)"
    "\<not> isElementInCash (hash env) SUCCESS hdg (cx_cash x)"
    "addStringToCash (hash env) SUCCESS hdg (of_nat (m + length rh)) (cx_cash x) = Done (Some e) c1"
    by (auto simp: stage_def)
  from first_piece [OF a(1) locks a(5) _ _ p(1) a(7-9)] a p show ?thesis by simp
qed

text \<open>What \<open>poll\<close> answers when the connections that \<open>(r, w)\<close> says are ready.\<close>

definition ready_events :: "bool \<times> bool \<Rightarrow> int32 \<times> 16 word list" where
  "ready_events rw = (1, [if fst rw then POLLIN else 0, if snd rw then POLLOUT else 0])"

lemma server_turn:
  assumes x: "exchange ufd sfd b c os eu (if r then POLLIN else 0) h"
    and st: "stage env hdg e (left, ps, pend) got b c" and f: "fill r (left, ps, pend) = Some (left', ps', pend')"
    and ps: "pieces left ps" and locks: "all_locks env" and rd: "o_reads os = map Bytes ps @ rds"
  shows "\<exists>h' b' c' got'. oneEvent n env (Suc 0) h = Done Fall h'
    \<and> exchange ufd sfd b' c' (os\<lparr>o_reads := map Bytes ps' @ rds\<rparr>) eu 0 h'
    \<and> stage env hdg e (left', ps', pend') got' b' c' \<and> got' @ concat ps' = got @ concat ps"
proof (cases r)
  case False
  with x f have "exchange ufd sfd b c os eu 0 h" and eq: "left' = left" "ps' = ps" "pend' = pend"
    by (simp_all add: fill_def)
  moreover have "os\<lparr>o_reads := map Bytes ps @ rds\<rparr> = os" using rd by simp
  ultimately show ?thesis
    using quiet_server [OF _ stage_fields(1) [OF st]] st by (intro exI [of _ "h\<lparr>h_buffer := []\<rparr>"] exI [of _ b] exI [of _ c] exI [of _ got]) simp
next
  case True
  with f obtain p where p: "ps = p # ps'" "left' = left - length p" "pend' = pend @ p"
    by (auto simp: fill_def split: list.splits)
  with ps have pp: "p \<noteq> []" "length p \<le> 524287" "length p \<le> left" by (simp_all add: pieces_Cons)
  have ctx: "cx_buf (ctx h b) = b" "cx_cash (ctx h b) = c"
    by (simp_all add: exchange_ctx [OF x])
  obtain y where y: "readFromSocket env p (ctx h b) = Done () y"
    "relaying env hdg e left' pend' (got @ p) (cx_buf y) (cx_cash y)"
    using stage_reads [where x = "ctx h b", unfolded ctx, OF st [unfolded p(1)] locks pp(1,3)] p(2,3) by blast
  then have st': "stage env hdg e (left', ps', pend') (got @ p) (cx_buf y) (cx_cash y)"
    by (simp add: stage_def)
  have rd': "o_reads os = Bytes p # map Bytes ps' @ rds" using rd p(1) by simp
  have x': "exchange ufd sfd b c os eu POLLIN h" using x True by simp
  from server_reads [OF x' rd' pp(1,2) y(1) refl refl stage_fields(1,4) [OF st']] obtain h' where
    "oneEvent n env (Suc 0) h = Done Fall h'"
    "exchange ufd sfd (cx_buf y) (cx_cash y) (os\<lparr>o_reads := map Bytes ps' @ rds\<rparr>) eu 0 h'" by blast
  with st' p(1) show ?thesis by (intro exI [of _ h'] exI [of _ "cx_buf y"] exI [of _ "cx_cash y"] exI [of _ "got @ p"]) simp
qed

text \<open>The user's turn, when the exchange goes on after it.\<close>

lemma user_turn:
  assumes x: "exchange ufd sfd b c os (if w then POLLOUT else 0) 0 h"
    and st: "stage env hdg e (left, ps, pend) got b c"
    and on: "w \<and> pend \<noteq> [] \<Longrightarrow> drop 524287 pend \<noteq> [] \<or> left \<noteq> 0"
    and wr: "w \<and> pend \<noteq> [] \<Longrightarrow> o_writes os = of_nat (length (take 524287 pend)) # ws"
  shows "\<exists>h' b' fl os'. oneEvent n env 0 h = Done fl h' \<and> (fl = Fall \<or> fl = Skip (Some 0))
    \<and> exchange ufd sfd b' c os' 0 0 h'
    \<and> os' = (if w \<and> pend \<noteq> [] then wrote ufd (take 524287 pend) ws os else os)
    \<and> stage env hdg e (left, ps, if w \<and> pend \<noteq> [] then drop 524287 pend else pend) got b' c"
proof (cases "w \<and> pend \<noteq> []")
  case True
  have re: "relaying env hdg e left pend got b c" using stage_fields(5) [OF st] True by blast
  then have b: "b_isReadyToSend b" "\<not> b_isDataGetCash b" "b_statusClient b = READ_RESPONSE" "b_buf b = pend"
    using True by (simp_all add: relaying_def)
  note go_on = chunk_confirmed(1) [OF re _ on [OF True]]
  have x': "exchange ufd sfd b c os POLLOUT 0 h" using x True by simp
  from user_writes [OF x' stage_fields(1) [OF st] b(1-3) wr [OF True]] b(4) obtain h' where h':
    "exchange ufd sfd (proofSendBuf (take 524287 pend) b) c (wrote ufd (take 524287 pend) ws os) 0 0 h'"
    "oneEvent n env 0 h = (if b_statusHttpServer (proofSendBuf (take 524287 pend) b) = END_WORK
        \<and> \<not> b_isReadyToSend (proofSendBuf (take 524287 pend) b)
      then bind (deleteClient n env (Some 0) h') (\<lambda>it h. Done (Skip it) h) else Done Fall h')" by metis
  have "oneEvent n env 0 h = Done Fall h'"
    using h'(2) go_on True by (simp add: relaying_def)
  with h'(1) go_on True show ?thesis
    by (intro exI [of _ h'] exI [of _ "proofSendBuf (take 524287 pend) b"] exI [of _ Fall]) (simp add: stage_def)
next
  case False
  show ?thesis
  proof (cases w)
    case True
    with False have "pend = []" by simp
    then have "\<not> b_isReadyToSend b" using stage_fields(3) [OF st] by simp
    moreover have "exchange ufd sfd b c os POLLOUT 0 h" using x True by simp
    ultimately obtain h' where "oneEvent n env 0 h = Done (Skip (Some 0)) h'" "exchange ufd sfd b c os 0 0 h'"
      using user_not_ready stage_fields(1,2) [OF st] by blast
    with st False show ?thesis by auto
  next
    case no: False
    then have x0: "exchange ufd sfd b c os 0 0 h" using x by simp
    from quiet_user [OF x0 stage_fields(1) [OF st]] x0 st no show ?thesis
      by (intro exI [of _ "h\<lparr>h_buffer := []\<rparr>"] exI [of _ b] exI [of _ Fall] exI [of _ os]) simp
  qed
qed

text \<open>Nothing is left of the visit but the response in the cache, complete.\<close>

definition visit_over :: "Env \<Rightarrow> string \<Rightarrow> nat \<Rightarrow> string \<Rightarrow> Handler \<Rightarrow> bool" where
  "visit_over env hdg e response h \<longleftrightarrow> h_clientList h = [] \<and> h_clients h = (\<lambda>_. None) \<and> h_buffers h = (\<lambda>_. None)
     \<and> find_hash (store (h_cash h)) (hash env hdg) (listCash (h_cash h)) = Some e
     \<and> e_cash (store (h_cash h) e) = response \<and> isDownloadEnd (store (h_cash h) e)
     \<and> \<not> isIsServerConnected (store (h_cash h) e)"

lemma user_done:
  assumes x: "exchange ufd sfd b c os POLLOUT 0 h" and re: "relaying env hdg e 0 pend got b c"
    and pend: "pend \<noteq> []" "drop 524287 pend = []" and wr: "o_writes os = of_nat (length pend) # ws"
    and m: "m \<ge> 2"
  shows "\<exists>h'. handleFrom (Suc (Suc (Suc k))) m env (Some 0) h = Done (Some False) h' \<and> visit_over env hdg e got h'
    \<and> h_os h' = (wrote ufd pend ws os)\<lparr>o_closed := o_closed os @ [ufd, sfd]\<rparr>"
proof -
  from m have m: "m = Suc (Suc (m - 2))" by simp
  have b: "running b" "b_isReadyToSend b" "\<not> b_isDataGetCash b" "b_statusClient b = READ_RESPONSE" "b_buf b = pend"
    "b_isAddDataToCash b" "b_cashElement b = Some e" "b_isServerConnect b"
    using re pend(1) by (simp_all add: relaying_def running_def)
  have tk: "take 524287 pend = pend" using pend(2) by simp
  note ov = chunk_confirmed(2) [OF re pend(1,2) refl, unfolded tk]
  have ch: "pend = take 524287 (b_buf b)" using tk b(5) by simp
  have fin: "(b_statusHttpServer (over b) = END_WORK \<and> \<not> b_isReadyToSend (over b)) = True" by (simp add: over_def)
  obtain h1 where h1: "exchange ufd sfd (over b) c (wrote ufd pend ws os) 0 0 h1"
    "oneEvent m env 0 h = bind (deleteClient m env (Some 0) h1) (\<lambda>it h. Done (Skip it) h)"
    using user_writes [OF x b(1-4) wr ch, of m env, unfolded ov fin if_True] by (elim exE conjE) (rule that)
  have ob: "b_statusHttpServer (over b) = END_WORK" "b_isAddDataToCash (over b)" "b_cashElement (over b) = Some e"
    "\<not> b_isDataGetCash (over b)" "b_isServerConnect (over b)" using b by (simp_all add: over_def)
  obtain h2 h3 where e: "deleteClient m env (Some 0) h1 = Done None h2" "h_clientList h2 = [Suc 0]"
    "oneEvent m env (Suc 0) h2 = Done (Skip None) h3" "h_clientList h3 = []"
    "h_clients h3 = (\<lambda>_. None)" "h_buffers h3 = (\<lambda>_. None)"
    "store (h_cash h3) = (store c)(e := fst (setIsServerConnect (subsLock env) False (store c e)))"
    "listCash (h_cash h3) = listCash c" "h_os h3 = (wrote ufd pend ws os)\<lparr>o_closed := o_closed os @ [ufd, sfd]\<rparr>"
    using exchange_ends [OF h1(1) ob, of "m - 2" env "Suc (m - 2)", folded m] by (auto simp: wrote_def)
  have "oneEvent m env 0 h = Done (Skip None) h2" using h1(2) e(1) by simp
  then have "handleFrom (Suc (Suc (Suc k))) m env (Some 0) h = handleFrom (Suc (Suc k)) m env (Some (Suc 0)) h2"
    by (rule handle_one [where j = None]) (simp_all add: next_it_def e(2) begin_of_def)
  also have "\<dots> = handleFrom (Suc k) m env None h3"
    by (rule handle_one [OF e(3), where j = None]) (simp_all add: next_it_def e(4) begin_of_def)
  also have "\<dots> = Done (Some False) h3" by (simp only: handleFrom.simps option.case)
  finally have "handleFrom (Suc (Suc (Suc k))) m env (Some 0) h = Done (Some False) h3" .
  moreover have "find_hash (store (h_cash h3)) (hash env hdg) (listCash (h_cash h3)) = Some e"
  proof -
    have "getHash (store (h_cash h3) a) = getHash (store c a)" for a by (simp add: e(7) getHash_def)
    then show ?thesis using re find_hash_cong [of "store (h_cash h3)" "store c"] by (simp add: e(8) relaying_def)
  qed
  then have "visit_over env hdg e got h3"
    using re by (simp add: visit_over_def e(4-8) relaying_def)
       (simp add: isDownloadEnd_def isIsServerConnected_def setIsServerConnect_def Let_def)
  ultimately show ?thesis using e(9) by blast
qed

text \<open>The rounds of the handler do what the queue does; they end with its last chunk.\<close>

lemma relay_rounds:
  assumes locks: "all_locks env" and n: "n \<ge> 4"
  shows "relay (left, ps, pend) rs = Some cs \<Longrightarrow> exchange ufd sfd b c os eu es h \<Longrightarrow>
    stage env hdg e (left, ps, pend) got b c \<Longrightarrow> pieces left ps \<Longrightarrow> o_polls os = map ready_events rs @ pls \<Longrightarrow>
    o_reads os = map Bytes ps @ rds \<Longrightarrow> o_writes os = map (\<lambda>ch. of_nat (length ch)) cs @ ws \<Longrightarrow>
    \<exists>h'. startHandler (Suc (length rs)) n env v h = Done () h' \<and> visit_over env hdg e (got @ concat ps) h'
      \<and> o_wire (h_os h') = o_wire os @ map (Pair ufd) cs \<and> o_closed (h_os h') = o_closed os @ [ufd, sfd]
      \<and> o_dialed (h_os h') = o_dialed os"
proof (induction rs arbitrary: left ps pend cs b c os eu es h got)
  case (Cons x rs)
  obtain r w where x: "x = (r, w)" by (cases x)
  from Cons.prems(1) obtain left' ps' pend' where f: "fill r (left, ps, pend) = Some (left', ps', pend')"
    by (auto simp: x split: option.splits)
  note fp = fill_pieces [OF f Cons.prems(4)]
  define os0 where "os0 = os\<lparr>o_polls := map ready_events rs @ pls\<rparr>"
  have "o_polls os = (1, [if r then POLLIN else 0, if w then POLLOUT else 0]) # (map ready_events rs @ pls)"
    using Cons.prems(5) by (simp add: x ready_events_def)
  from exchange_polled [OF Cons.prems(2) this, of "Suc (length rs)" n env v] obtain h0 where h0:
    "exchange ufd sfd b c os0 (if w then POLLOUT else 0) (if r then POLLIN else 0) h0"
    "startHandler (Suc (Suc (length rs))) n env v h
      = bind (handlingEvent n env h0) (after_round (Suc (length rs)) n env v)" by (auto simp: os0_def)
  have "o_reads os0 = map Bytes ps @ rds" using Cons.prems(6) by (simp add: os0_def)
  from server_turn [OF h0(1) Cons.prems(3) f Cons.prems(4) locks this] obtain h1 b1 c1 got1 where h1:
    "oneEvent n env (Suc 0) h0 = Done Fall h1"
    "exchange ufd sfd b1 c1 (os0\<lparr>o_reads := map Bytes ps' @ rds\<rparr>) (if w then POLLOUT else 0) 0 h1"
    "stage env hdg e (left', ps', pend') got1 b1 c1" "got1 @ concat ps' = got @ concat ps" by blast
  have n3: "n \<ge> 3" "n \<ge> 2" using n by simp_all
  show ?case
  proof (cases "w \<and> pend' \<noteq> [] \<and> drop 524287 pend' = [] \<and> left' = 0")
    case True
    then have cs: "cs = [pend']" "ps' = []" "w" using Cons.prems(1) fp pieces_0 by (auto simp: x f)
    have re: "relaying env hdg e 0 pend' got1 b1 c1" using stage_fields(5) [OF h1(3)] True by simp
    have "o_writes (os0\<lparr>o_reads := map Bytes ps' @ rds\<rparr>) = of_nat (length pend') # ws"
      using Cons.prems(7) by (simp add: os0_def cs)
    from user_done [OF h1(2) [simplified cs(3) if_True] re _ _ this n3(2), of "n - 4"] True obtain h2 where h2:
      "handleFrom (Suc (Suc (Suc (n - 4)))) n env (Some 0) h1 = Done (Some False) h2"
      "visit_over env hdg e got1 h2" "h_os h2 = (wrote ufd pend' ws (os0\<lparr>o_reads := map Bytes ps' @ rds\<rparr>))
        \<lparr>o_closed := o_closed os @ [ufd, sfd]\<rparr>" by (auto simp: os0_def)
    have n4: "n = Suc (Suc (Suc (Suc (n - 4))))" using n by simp
    have "handleFrom (Suc (Suc (Suc (Suc (n - 4))))) n env (Some (Suc 0)) h0 = handleFrom (Suc (Suc (Suc (n - 4)))) n env (Some 0) h1"
      by (rule handle_one [OF h1(1) _ next_of_exchange(1) [OF h1(2)]]) simp
    then have "handlingEvent n env h0 = Done (Some False) h2"
      using h0(1) h2(1) by (simp add: handlingEvent_def exchange_def begin_of_def flip: n4)
    then have "startHandler (Suc (Suc (length rs))) n env v h = Done () h2"
      using h2(2) by (simp add: h0(2) after_round_def visit_over_def startHandler_empty)
    then show ?thesis using h2(2,3) h1(4) cs by (simp add: wrote_def os0_def)
  next
    case False
    then have on: "w \<and> pend' \<noteq> [] \<Longrightarrow> drop 524287 pend' \<noteq> [] \<or> left' \<noteq> 0" by auto
    define q where "q = (if w \<and> pend' \<noteq> [] then drop 524287 pend' else pend')"
    obtain cs' where cs': "relay (left', ps', q) rs = Some cs'"
      "cs = (if w \<and> pend' \<noteq> [] then take 524287 pend' # cs' else cs')"
      using Cons.prems(1) on by (cases "w \<and> pend' \<noteq> []") (auto simp: x f q_def split: if_splits)
    have wr: "o_writes (os0\<lparr>o_reads := map Bytes ps' @ rds\<rparr>)
        = of_nat (length (take 524287 pend')) # map (\<lambda>ch. of_nat (length ch)) cs' @ ws" if "w \<and> pend' \<noteq> []"
      using Cons.prems(7) that cs'(2) by (simp add: os0_def)
    obtain h2 b2 fl os2 where h2: "oneEvent n env 0 h1 = Done fl h2" "fl = Fall \<or> fl = Skip (Some 0)"
      "exchange ufd sfd b2 c1 os2 0 0 h2" "stage env hdg e (left', ps', q) got1 b2 c1"
      "os2 = (if w \<and> pend' \<noteq> [] then wrote ufd (take 524287 pend') (map (\<lambda>ch. of_nat (length ch)) cs' @ ws)
          (os0\<lparr>o_reads := map Bytes ps' @ rds\<rparr>) else os0\<lparr>o_reads := map Bytes ps' @ rds\<rparr>)"
      using user_turn [OF h1(2,3) on wr, where n = n] unfolding q_def by blast
    have "handlingEvent n env h0 = Done (Some False) h2"
      by (rule round_of_two [OF h0(1) n3(1) h1(1,2) h2(1-3)])
    then have start: "startHandler (Suc (length (x # rs))) n env v h = startHandler (Suc (length rs)) n env v h2"
      by (simp add: h0(2) after_round_def)
    have os2: "o_polls os2 = map ready_events rs @ pls" "o_reads os2 = map Bytes ps' @ rds"
      "o_writes os2 = map (\<lambda>ch. of_nat (length ch)) cs' @ ws"
      "o_wire os2 @ map (Pair ufd) cs' = o_wire os @ map (Pair ufd) cs" "o_closed os2 = o_closed os"
      "o_dialed os2 = o_dialed os"
      using Cons.prems(7) cs'(2) by (auto simp: h2(5) wrote_def os0_def)
    show ?thesis
      using Cons.IH [OF cs'(1) h2(3,4) conjunct1 [OF fp] os2(1-3)] unfolding start os2(4-6) h1(4) .
  qed
qed simp

section \<open>The request\<close>

definition requested :: "string \<Rightarrow> string \<Rightarrow> ResultParseHeading \<Rightarrow> Buffer" where
  "requested s hdg r = (setIsClientConnect True new_BufferImpl)\<lparr>b_buf := s, b_requestHeading := hdg,
     b_resultParseHeading := Some r, b_isReadyConnectHttpServer := True, b_isReadyToSend := True, b_isEndSend := True\<rparr>"

definition forwarding :: "string \<Rightarrow> string \<Rightarrow> ResultParseHeading \<Rightarrow> Buffer" where
  "forwarding s hdg r = (requested s hdg r)\<lparr>b_isReadyConnectHttpServer := False, b_isServerConnect := True\<rparr>"

text \<open>A request with a heading the parser accepts, for something the cache does not have.\<close>

definition asks_for :: "string \<Rightarrow> string \<Rightarrow> ResultParseHeading \<Rightarrow> bool" where
  "asks_for s hdg r \<longleftrightarrow> fst (findEndHeading s) = END_HEADING \<and> substr0 s (snd (findEndHeading s)) = hdg
     \<and> parsingHeading hdg = Inr r \<and> s \<noteq> [] \<and> length s \<le> 524287"

lemma readFromSocket_miss:
  assumes s: "asks_for s hdg r" "rtype r = GET_REQUEST" and locks: "testLock env = SUCCESS"
    and absent: "\<not> isElementInCash (hash env) SUCCESS hdg (cx_cash x)"
    and x: "cx_buf x = setIsClientConnect True new_BufferImpl"
  shows "readFromSocket env s x = Done () (set_buf (requested s hdg r) x)"
proof -
  define z where "z = set_buf ((cx_buf x)\<lparr>b_buf := s\<rparr>) x"
  have zb: "b_buf (cx_buf z) = s" "cx_cash z = cx_cash x" by (simp_all add: z_def set_buf_def)
  have s': "fst (findEndHeading s) = END_HEADING" "substr0 s (snd (findEndHeading s)) = hdg" "parsingHeading hdg = Inr r"
    using s(1) by (simp_all add: asks_for_def)
  have rd: "readFromSocket env s x = wrightRequestHeading env z"
    using x by (simp add: readFromSocket_def Let_def z_def setIsClientConnect_def new_BufferImpl_def)
  show ?thesis
  proof (cases z rule: wrightRequestHeading_cases [where env = env])
    case (miss r')
    have "r' = r" using miss(2) s'(3) by (simp add: zb s'(2))
    with miss(4) s(2) show ?thesis
      by (simp add: rd zb s'(2) forward_request_def z_def set_buf_def x requested_def)
  next
    case (hit r')
    then show ?thesis using absent by (simp add: request_hit_def zb s'(2) locks set_buf_def z_def)
  qed (use s' in \<open>simp_all add: zb\<close>)
qed

text \<open>The server's connection is made, and the two connections are joined.\<close>

lemma openServer_joins:
  assumes h: "h_clients h = (\<lambda>_. None)(0 := Some (polled_client ufd ev))" "h_os h = os" "h_clientList h = [0]"
      "h_client h = 0" "h_buffers h = (\<lambda>_. None)(0 := Some b)" "h_fresh h = Suc 0" "h_cash h = c"
    and b: "b_isReadyConnectHttpServer b" "b_resultParseHeading b = Some r"
    and con: "o_connects os = ans # answers" "a_resolved ans" "a_sock ans = sfd" "sfd \<noteq> ERROR_CODE" "a_connect ans \<noteq> ERROR_CODE"
  shows "\<exists>h'. openServer n env 0 h = Done Fall h'
    \<and> exchange ufd sfd (b\<lparr>b_isReadyConnectHttpServer := False, b_isServerConnect := True\<rparr>) c
        (os\<lparr>o_connects := answers, o_dialed := o_dialed os @ [(hostName r, ucast (port r))]\<rparr>) ev 0 h'"
proof -
  define pu where "pu = c_structPollFd (polled_client ufd ev)"
  define ps where "ps = \<lparr>p_fd = sfd, p_events = all_events, p_revents = 0\<rparr>"
  have pc: "c_buffer (polled_client ufd ev) = Some 0" "(polled_client ufd ev)\<lparr>c_pair := Some (Suc 0)\<rparr> = user_at ufd pu"
    "p_revents pu = ev"
    by (simp_all add: polled_client_def new_ClientImpl_def user_at_def pu_def)
  have sv: "(new_ClientImpl sfd HTTP_SERVER None)\<lparr>c_buffer := Some 0, c_listHandlingEvent := [0], c_structPollFd := ps\<rparr> = server_at sfd [0] ps"
    "(c_structPollFd (new_ClientImpl sfd HTTP_SERVER None))\<lparr>p_events := all_events\<rparr> = ps"
    "c_listHandlingEvent (new_ClientImpl sfd HTTP_SERVER None) = []"
    by (simp_all add: new_ClientImpl_def server_at_def ps_def)
  have connected: "connectToClient (hostName r) (port r) os = Done (new_ClientImpl sfd HTTP_SERVER None)
      (os\<lparr>o_connects := answers, o_dialed := o_dialed os @ [(hostName r, ucast (port r))]\<rparr>)"
    using con by (simp add: connectToClient_def Let_def)
  define h' where "h' = h\<lparr>h_clients := (\<lambda>_. None)(0 := Some (user_at ufd pu), Suc 0 := Some (server_at sfd [0] ps)),
    h_buffers := (\<lambda>_. None)(0 := Some (b\<lparr>b_isReadyConnectHttpServer := False, b_isServerConnect := True\<rparr>)),
    h_os := os\<lparr>o_connects := answers, o_dialed := o_dialed os @ [(hostName r, ucast (port r))]\<rparr>,
    h_clientList := [Suc 0, 0], h_fresh := Suc (Suc 0)\<rparr>"
  have "openServer n env 0 h = Done Fall h'"
    using h b by (simp add: openServer_def heap_access set_buf_def Let_def pc sv on_os_def connected h'_def fun_upd_twist)
  moreover have "exchange ufd sfd (b\<lparr>b_isReadyConnectHttpServer := False, b_isServerConnect := True\<rparr>) c
      (os\<lparr>o_connects := answers, o_dialed := o_dialed os @ [(hostName r, ucast (port r))]\<rparr>) ev 0 h'"
    unfolding exchange_def using h
    by (intro conjI exI [of _ pu] exI [of _ ps]) (simp_all add: h'_def pc ps_def)
  ultimately show ?thesis by blast
qed

lemma request_opens_server:
  fixes ufd cash os
  defines "hp \<equiv> polled ufd POLLIN cash os"
  assumes s: "asks_for s hdg r" "rtype r = GET_REQUEST" and locks: "testLock env = SUCCESS"
    and absent: "\<not> isElementInCash (hash env) SUCCESS hdg cash"
    and rd: "o_reads os = Bytes s # rs"
    and con: "o_connects os = ans # answers" "a_resolved ans" "a_sock ans = sfd" "sfd \<noteq> ERROR_CODE" "a_connect ans \<noteq> ERROR_CODE"
    and n: "n \<ge> 2"
  shows "\<exists>h. handlingEvent n env hp = Done (Some False) h
    \<and> exchange ufd sfd (forwarding s hdg r) cash
        (os\<lparr>o_reads := rs, o_connects := answers, o_dialed := o_dialed os @ [(hostName r, ucast (port r))]\<rparr>) 0 0 h"
proof -
  define b0 where "b0 = setIsClientConnect True new_BufferImpl"
  have hp: "h_clients hp = (\<lambda>_. None)(0 := Some (polled_client ufd POLLIN))" "h_os hp = os"
    "h_clientList hp = [0]" "h_client hp = 0" "h_buffers hp = (\<lambda>_. None)(0 := Some b0)" "h_fresh hp = Suc 0"
    "h_cash hp = cash"
    by (simp_all add: hp_def polled_def started_def new_HandlerOneClientImpl_def b0_def)
  define h1 where "h1 = hp\<lparr>h_clients := (\<lambda>_. None)(0 := Some (polled_client ufd 0)),
    h_os := os\<lparr>o_reads := rs\<rparr>, h_buffer := s\<rparr>"
  have pc: "setReventsZero (polled_client ufd ev) = polled_client ufd 0"
    "p_revents (c_structPollFd (polled_client ufd ev)) = ev" "c_buffer (polled_client ufd ev) = Some 0"
    "c_typeClient (polled_client ufd ev) = USER" "c_pair (polled_client ufd ev) = None" for ev
    by (simp_all add: polled_client_def setReventsZero_def new_ClientImpl_def)
  have live: "live h1 0 0 b0" by (simp_all add: live_def h1_def hp pc)
  have "readFromSocket env s (ctx h1 b0) = Done () (set_buf (requested s hdg r) (ctx h1 b0))"
    using readFromSocket_miss [OF s locks, of "ctx h1 b0"] absent by (simp add: ctx_def h1_def hp b0_def)
  moreover define h2 where "h2 = put 0 (set_buf (requested s hdg r) (ctx h1 b0)) h1"
  ultimately have rf: "on_buffer 0 (readFromSocket env s) h1 = Done () h2"
    by (simp add: on_buffer_live [OF live])
  have h2: "h_clients h2 = (\<lambda>_. None)(0 := Some (polled_client ufd 0))" "h_os h2 = os\<lparr>o_reads := rs\<rparr>"
    "h_clientList h2 = [0]" "h_client h2 = 0" "h_buffers h2 = (\<lambda>_. None)(0 := Some (requested s hdg r))"
    "h_fresh h2 = Suc 0" "h_cash h2 = cash"
    by (simp_all add: h2_def h1_def hp)
  have live2: "live h2 0 0 (requested s hdg r)" by (simp add: live_def h2 pc)
  have after: "afterRead 0 h2 = Done Fall h2"
    by (simp add: afterRead_def ask_client_def h2(1) ask_buffer_live [OF live2] pc client_accessors buffer_accessors
        requested_def setIsClientConnect_def new_BufferImpl_def)
  have rq: "b_isReadyConnectHttpServer (requested s hdg r)" "b_resultParseHeading (requested s hdg r) = Some r"
    by (simp_all add: requested_def)
  have con': "o_connects (os\<lparr>o_reads := rs\<rparr>) = ans # answers" using con(1) by simp
  obtain h3 where h3: "openServer n env 0 h2 = Done Fall h3" "exchange ufd sfd (forwarding s hdg r) cash
      (os\<lparr>o_reads := rs, o_connects := answers, o_dialed := o_dialed os @ [(hostName r, ucast (port r))]\<rparr>) 0 0 h3"
    using openServer_joins [OF h2 rq con' con(2-5), of n env] by (auto simp: forwarding_def)
  have "on_os (readBuf (polled_client ufd 0) []) (hp\<lparr>h_buffer := [], h_clients := (\<lambda>_. None)(0 := Some (polled_client ufd 0))\<rparr>)
    = Done (0, s) (hp\<lparr>h_buffer := [], h_clients := (\<lambda>_. None)(0 := Some (polled_client ufd 0)), h_os := os\<lparr>o_reads := rs\<rparr>\<rparr>)"
    using rd s by (simp add: on_os_def readBuf_def sys_read_def hp Let_def BUF_SIZE_def asks_for_def)
  then have "readEvent n env 0 (hp\<lparr>h_buffer := []\<rparr>) = Done Fall h3"
    using s(1) rf after h3(1) by (simp add: readEvent_def ask_client_def on_client_def getPollFd_def hp pc Let_def h1_def
        asks_for_def)
  moreover have run: "running (forwarding s hdg r)"
    by (simp add: running_def forwarding_def requested_def setIsClientConnect_def new_BufferImpl_def)
  moreover obtain pf where "ask_client 0 getPollFd h3 = Done pf h3" "p_revents pf = 0"
    using asks(7) [OF h3(2)] by blast
  ultimately have "oneEvent n env 0 hp = Done Fall h3"
    by (simp add: oneEvent_def ask_client_def hp getPollFd_def pc endEvent_running(1) [OF h3(2)] writeEvent_def)
  then have "handleFrom (Suc (Suc (n - 2))) n env (Some 0) hp = handleFrom (Suc (n - 2)) n env None h3"
    by (rule handle_one [OF _ _ next_of_exchange(2) [OF h3(2)]]) simp
  also have "\<dots> = Done (Some False) h3" by (simp only: handleFrom.simps option.case)
  finally have "handleFrom (Suc (Suc (n - 2))) n env (Some 0) hp = Done (Some False) h3" .
  moreover have "n = Suc (Suc (n - 2))" using n by simp
  ultimately have "handlingEvent n env hp = Done (Some False) h3"
    by (simp add: handlingEvent_def hp begin_of_def)
  with h3(2) show ?thesis by blast
qed

lemma request_goes_out:
  assumes x: "exchange ufd sfd (forwarding s hdg r) c os eu es h" and s: "asks_for s hdg r" "rtype r = GET_REQUEST"
    and p: "o_polls os = ready_server # ps" "ready_server = (1, [POLLOUT, 0])" and w: "o_writes os = of_nat (length s) # ws"
    and n: "n \<ge> 3"
  shows "\<exists>h' b'. startHandler (Suc k) n env v h = startHandler k n env v h'
    \<and> exchange ufd sfd b' c (wrote sfd s ws (os\<lparr>o_polls := ps\<rparr>)) 0 0 h' \<and> awaiting hdg b'"
proof -
  define b where "b = forwarding s hdg r"
  define b' where "b' = proofSendBuf s b"
  have s': "s \<noteq> []" "take 524287 s = s" using s(1) by (simp_all add: asks_for_def)
  have b: "running b" "b_isReadyToSend b" "\<not> b_isDataGetCash b" "b_statusHttpServer b = READ_REQUEST" "b_buf b = s"
    by (simp_all add: b_def running_def forwarding_def requested_def setIsClientConnect_def new_BufferImpl_def)
  have b': "awaiting hdg b'" "b_statusHttpServer b' = WRITE_RESPONSE_HEADING" "\<not> b_isReadyToSend b'" "running b'"
    using s(2) by (simp_all add: b'_def b_def proofSendBuf_def Let_def awaiting_def running_def forwarding_def requested_def
        setIsClientConnect_def new_BufferImpl_def)
  obtain h0 where h0: "exchange ufd sfd b c (os\<lparr>o_polls := ps\<rparr>) 0 POLLOUT h0"
    "startHandler (Suc k) n env v h = bind (handlingEvent n env h0) (after_round k n env v)"
    using exchange_polled [OF x p(1) [unfolded p(2)], of k n env v] unfolding b_def by auto
  have w': "o_writes (os\<lparr>o_polls := ps\<rparr>) = of_nat (length s) # ws" using w by simp
  have ch: "s = take 524287 (b_buf b)" using b(5) s'(2) by simp
  obtain h1 where h1: "oneEvent n env (Suc 0) h0 = Done Fall h1"
    "exchange ufd sfd b' c (wrote sfd s ws (os\<lparr>o_polls := ps\<rparr>)) 0 0 h1"
    using server_writes [OF h0(1) b(1-4) w' ch, folded b'_def, OF b'(2,3)] by blast
  note user = quiet_user [OF h1(2) b'(4), of n env]
  have x2: "exchange ufd sfd b' c (wrote sfd s ws (os\<lparr>o_polls := ps\<rparr>)) 0 0 (h1\<lparr>h_buffer := []\<rparr>)" using h1(2) by simp
  have "handlingEvent n env h0 = Done (Some False) (h1\<lparr>h_buffer := []\<rparr>)"
    by (rule round_of_two [OF h0(1) n h1 user _ x2]) simp
  with h0(2) x2 b'(1) show ?thesis by (intro exI [of _ "h1\<lparr>h_buffer := []\<rparr>"] exI [of _ b']) (simp add: after_round_def)
qed

section \<open>Whole visits\<close>

text \<open>
  What a user, a server and the operating system do in a visit: the user asks with \<open>s\<close>, the
  server is reached over \<open>sfd\<close> and answers in the pieces \<open>ps\<close>, the first of which brings the whole
  heading \<open>rh\<close>, and no more than the body it announces, and who is ready when, once the request is
  out, is \<open>rs\<close>. Every \<open>write\<close> accepts what it is given.
\<close>

definition answers_with :: "string list \<Rightarrow> string \<Rightarrow> nat \<Rightarrow> bool" where
  "answers_with ps rh m \<longleftrightarrow> ps \<noteq> [] \<and> announces (hd ps) rh m \<and> pieces (length rh + m) ps \<and> length rh + m < 2 ^ 61"

definition fetch_os :: "string \<Rightarrow> string list \<Rightarrow> (bool \<times> bool) list \<Rightarrow> string list \<Rightarrow> int32 \<Rightarrow> Os \<Rightarrow> bool" where
  "fetch_os s ps rs cs sfd os \<longleftrightarrow>
     o_polls os = (1, [POLLIN]) # (1, [POLLOUT, 0]) # map ready_events rs
     \<and> o_reads os = Bytes s # map Bytes ps
     \<and> o_connects os = [\<lparr>a_resolved = True, a_sock = sfd, a_connect = 0\<rparr>] \<and> sfd \<noteq> ERROR_CODE
     \<and> o_writes os = map (\<lambda>ch. of_nat (length ch)) (s # cs)"

lemma fetched_visit:
  assumes s: "asks_for s hdg r" "rtype r = GET_REQUEST" and locks: "all_locks env"
    and cash: "wf_cash cash" "\<not> isElementInCash (hash env) SUCCESS hdg cash"
    and room: "addStringToCash (hash env) SUCCESS hdg (of_nat (m + length rh)) cash = Done (Some e) c1"
    and resp: "answers_with ps rh m" and relayed: "relay (length rh + m, ps, []) rs = Some cs"
    and os: "fetch_os s ps rs cs sfd os" and n: "n \<ge> 4"
  shows "\<exists>h. startingMethodForThread (Suc (Suc (Suc (length rs)))) n env v args cash os = Done () h
    \<and> visit_over env hdg e (concat ps) h \<and> o_wire (h_os h) = o_wire os @ (sfd, s) # map (Pair (getSock args)) cs
    \<and> concat cs = concat ps \<and> o_closed (h_os h) = o_closed os @ [getSock args, sfd]
    \<and> o_dialed (h_os h) = o_dialed os @ [(hostName r, ucast (port r))]"
proof -
  let ?ufd = "getSock args"
  have n': "n \<ge> 2" "n \<ge> 3" using n by simp_all
  have os': "o_polls os = (1, POLLIN # []) # (1, [POLLOUT, 0]) # map ready_events rs" "o_reads os = Bytes s # map Bytes ps"
    "o_connects os = \<lparr>a_resolved = True, a_sock = sfd, a_connect = 0\<rparr> # []" "sfd \<noteq> ERROR_CODE"
    "o_writes os = of_nat (length s) # map (\<lambda>ch. of_nat (length ch)) cs"
    using os by (simp_all add: fetch_os_def)
  define os1 where "os1 = os\<lparr>o_polls := (1, [POLLOUT, 0]) # map ready_events rs\<rparr>"
  define os2 where "os2 = os1\<lparr>o_reads := map Bytes ps, o_connects := [], o_dialed := o_dialed os @ [(hostName r, ucast (port r))]\<rparr>"
  have tl: "testLock env = SUCCESS" using locks by (simp add: all_locks_def)
  have rd1: "o_reads os1 = Bytes s # map Bytes ps" and con1: "o_connects os1 = \<lparr>a_resolved = True, a_sock = sfd, a_connect = 0\<rparr> # []"
    and d1: "o_dialed os1 = o_dialed os"
    using os' by (simp_all add: os1_def)
  obtain h1 where h1: "handlingEvent n env (polled ?ufd POLLIN cash os1) = Done (Some False) h1"
    "exchange ?ufd sfd (forwarding s hdg r) cash os2 0 0 h1"
    using request_opens_server [OF s tl cash(2) rd1 con1 _ _ os'(4) _ n'(1)] d1
    by (auto simp: ERROR_CODE_def os2_def)
  have "o_polls os2 = (1, [POLLOUT, 0]) # map ready_events rs"
    "o_writes os2 = of_nat (length s) # map (\<lambda>ch. of_nat (length ch)) cs"
    using os' by (simp_all add: os2_def os1_def)
  from request_goes_out [OF h1(2) s this(1) refl this(2) n'(2), of "Suc (length rs)" env v] obtain h2 b2 where h2:
    "startHandler (Suc (Suc (length rs))) n env v h1 = startHandler (Suc (length rs)) n env v h2"
    "exchange ?ufd sfd b2 cash (wrote sfd s (map (\<lambda>ch. of_nat (length ch)) cs) (os2\<lparr>o_polls := map ready_events rs\<rparr>)) 0 0 h2"
    "awaiting hdg b2" by blast
  have pc: "pieces (length rh + m) ps" using resp by (simp add: answers_with_def)
  have st: "stage env hdg e (length rh + m, ps, []) [] b2 cash"
    using h2(3) resp cash room by (auto simp: stage_def answers_with_def)
  obtain h3 where h3: "startHandler (Suc (length rs)) n env v h2 = Done () h3" "visit_over env hdg e (concat ps) h3"
    "o_wire (h_os h3) = o_wire os @ (sfd, s) # map (Pair ?ufd) cs" "o_closed (h_os h3) = o_closed os @ [?ufd, sfd]"
    "o_dialed (h_os h3) = o_dialed os @ [(hostName r, ucast (port r))]"
    using relay_rounds [OF locks n relayed h2(2) st pc, of "[]" "[]" "[]" v]
    by (auto simp: wrote_def os2_def os1_def)
  have "startingMethodForThread (Suc (Suc (Suc (length rs)))) n env v args cash os = Done () h3"
    using round_begins [OF os'(1), of "Suc (Suc (length rs))" n env v ?ufd cash] h1(1) h2(1) h3(1)
    by (simp add: thread_starts after_round_def os1_def)
  with h3 relay_sends_all [OF relayed pc] show ?thesis by auto
qed

text \<open>
  C1: a request the cache cannot answer is fetched, relayed and stored. The thread of a user who
  asks for something new connects to the host and port the request names, sends the request there
  as it was received, and passes the response on. In every round either socket may be ready
  or not, and the handler does what an abstract queue does that is filled and emptied in these
  rounds: the chunks written to the user are the queue's, and together they are the response, byte
  for byte. Then the thread returns, both descriptors are closed, both connections and
  the buffer are freed, and the cache answers the request with a complete element that holds the response.
\<close>

theorem new_request_fetched_relayed_stored:
  assumes "asks_for s hdg r" and "rtype r = GET_REQUEST" and "all_locks env"
    and "wf_cash cash" and "\<not> isElementInCash (hash env) SUCCESS hdg cash"
    and "addStringToCash (hash env) SUCCESS hdg (of_nat (m + length rh)) cash = Done (Some e) c1"
    and "answers_with ps rh m" and "relay (length rh + m, ps, []) rs = Some cs"
    and "fetch_os s ps rs cs sfd os" and "n \<ge> 4"
  shows "\<exists>h. startingMethodForThread (Suc (Suc (Suc (length rs)))) n env v args cash os = Done () h
    \<and> visit_over env hdg e (concat ps) h \<and> o_wire (h_os h) = o_wire os @ (sfd, s) # map (Pair (getSock args)) cs
    \<and> concat cs = concat ps \<and> o_closed (h_os h) = o_closed os @ [getSock args, sfd]
    \<and> o_dialed (h_os h) = o_dialed os @ [(hostName r, ucast (port r))]"
  using assms by (rule fetched_visit)

definition fix_ask :: "(bool \<times> bool) list \<Rightarrow> string list \<Rightarrow> Os" where
  "fix_ask rs cs = fix_os\<lparr>o_polls := (1, [POLLIN]) # (1, [POLLOUT, 0]) # map ready_events rs,
     o_reads := [Bytes fix_request, Bytes (fix_response @ ''a''), Bytes ''bc''],
     o_connects := [\<lparr>a_resolved = True, a_sock = 9, a_connect = 0\<rparr>],
     o_writes := map (\<lambda>ch. of_nat (length ch)) (fix_request # cs)\<rparr>"

definition fix_rounds :: "(bool \<times> bool) list" where
  "fix_rounds = [(False, True), (True, False), (True, False), (False, True)]"

text \<open>All hypotheses, for a request and a response that fit into one and two reads.\<close>

lemma fix_fetch:
  "\<exists>r. asks_for fix_request fix_request r \<and> rtype r = GET_REQUEST" "all_locks (fix_env (\<lambda>c. c))"
  "wf_cash (fix_cash 0 [])" "\<not> isElementInCash (hash (fix_env (\<lambda>c. c))) SUCCESS fix_request (fix_cash 0 [])"
  "\<exists>c1. addStringToCash (hash (fix_env (\<lambda>c. c))) SUCCESS fix_request (of_nat (3 + length fix_response)) (fix_cash 0 []) = Done (Some 0) c1"
  "answers_with [fix_response @ ''a'', ''bc''] fix_response 3"
  "relay (length fix_response + 3, [fix_response @ ''a'', ''bc''], []) fix_rounds = Some [fix_response @ ''abc'']"
  "fetch_os fix_request [fix_response @ ''a'', ''bc''] fix_rounds [fix_response @ ''abc''] 9 (fix_ask fix_rounds [fix_response @ ''abc''])"
proof -
  have "case parsingHeading fix_request of Inl _ \<Rightarrow> False | Inr r \<Rightarrow> rtype r = GET_REQUEST" by code_simp
  then show "\<exists>r. asks_for fix_request fix_request r \<and> rtype r = GET_REQUEST"
    using fix_request_parsed(1,2,4) by (auto simp: asks_for_def split: sum.splits)
  show "all_locks (fix_env (\<lambda>c. c))" by (simp add: all_locks_def fix_env_def)
  show "wf_cash (fix_cash 0 [])" "\<not> isElementInCash (hash (fix_env (\<lambda>c. c))) SUCCESS fix_request (fix_cash 0 [])"
    by (simp_all add: cash_eval)
  have len: "length fix_response = 38" by code_simp
  have "length fix_request = 29" by (rule fix_request_parsed(4))
  then have sz: "size_of fix_request = 29" by (simp add: size_of_def)
  show "\<exists>c1. addStringToCash (hash (fix_env (\<lambda>c. c))) SUCCESS fix_request (of_nat (3 + length fix_response)) (fix_cash 0 []) = Done (Some 0) c1"
    unfolding len using sz by (simp add: fix_env_def) (simp add: cash_eval)
  show "answers_with [fix_response @ ''a'', ''bc''] fix_response 3"
  proof -
    have "findEndHeading (fix_response @ ''a'') = (END_HEADING, 38)" "substr0 (fix_response @ ''a'') 38 = fix_response"
      "\<not> responseWithError (parsingResponseHeading fix_response)" "haveContentLength (parsingResponseHeading fix_response)"
      "contentLength (parsingResponseHeading fix_response) = 3" by code_simp+
    then show ?thesis by (simp add: answers_with_def announces_def pieces_def len)
  qed
  show "relay (length fix_response + 3, [fix_response @ ''a'', ''bc''], []) fix_rounds = Some [fix_response @ ''abc'']"
    by (simp add: fix_rounds_def fill_def len)
  show "fetch_os fix_request [fix_response @ ''a'', ''bc''] fix_rounds [fix_response @ ''abc''] 9 (fix_ask fix_rounds [fix_response @ ''abc''])"
    by (simp add: fetch_os_def fix_ask_def ERROR_CODE_def)
qed

theorem new_request_fetched_relayed_stored_witness:
  "\<exists>h. startingMethodForThread 7 4 (fix_env (\<lambda>c. c)) fix_codes (new_ArgsForThread 5) (fix_cash 0 [])
        (fix_ask fix_rounds [fix_response @ ''abc'']) = Done () h
     \<and> o_wire (h_os h) = [(9, fix_request), (5, fix_response @ ''abc'')] \<and> o_closed (h_os h) = [5, 9]
     \<and> visit_over (fix_env (\<lambda>c. c)) fix_request 0 (fix_response @ ''abc'') h"
proof -
  obtain r c1 where r: "asks_for fix_request fix_request r" "rtype r = GET_REQUEST"
    "addStringToCash (hash (fix_env (\<lambda>c. c))) SUCCESS fix_request (of_nat (3 + length fix_response)) (fix_cash 0 []) = Done (Some 0) c1"
    using fix_fetch(1,5) by blast
  have "o_wire (fix_ask fix_rounds [fix_response @ ''abc'']) = []" "o_closed (fix_ask fix_rounds [fix_response @ ''abc'']) = []"
    "Suc (Suc (Suc (length fix_rounds))) = 7"
    by (simp_all add: fix_ask_def fix_os_def fix_rounds_def)
  with new_request_fetched_relayed_stored [OF r(1,2) fix_fetch(2-4) r(3) fix_fetch(6-8) order.refl, of fix_codes "new_ArgsForThread 5"]
  show ?thesis by (auto simp: new_ArgsForThread_def getSock_def)
qed

text \<open>
  A schedule in which the server gets to send its pieces, and the user is ready often enough at the
  end: the last rounds, in which only the user is ready, suffice for the whole response.
\<close>

definition fair :: "string list \<Rightarrow> (bool \<times> bool) list \<Rightarrow> bool" where
  "fair ps rs \<longleftrightarrow> length (filter fst rs) = length ps
     \<and> length (concat ps) \<le> 524287 * length (takeWhile (\<lambda>rw. rw = (False, True)) (rev rs))"

lemma fair_split:
  assumes "fair ps rs"
  obtains as k where "rs = as @ replicate k (False, True)" "length (filter fst as) = length ps"
    "length (concat ps) \<le> 524287 * k"
proof -
  define t where "t = takeWhile (\<lambda>rw. rw = (False, True)) (rev rs)"
  define d where "d = dropWhile (\<lambda>rw. rw = (False, True)) (rev rs)"
  have t: "t = replicate (length t) (False, True)"
    by (rule replicate_length_same [symmetric]) (auto simp: t_def dest: set_takeWhileD)
  have "rev rs = t @ d" by (simp add: t_def d_def)
  then have "rs = rev d @ rev t" by (metis rev_append rev_rev_ident)
  then have rs: "rs = rev d @ replicate (length t) (False, True)" by (subst (asm) t) simp
  have "filter fst rs = filter fst (rev d)" by (subst rs) simp
  with assms rs show ?thesis
    unfolding fair_def t_def [symmetric] by (intro that [of "rev d" "length t"]) simp_all
qed

text \<open>
  C3: the thread comes to an end in every schedule that is \<open>fair\<close>: the pieces of the server come, and
  enough rounds follow in which only the user's socket is ready. For a request the cache cannot answer, and
  a server that answers with a heading and the body it announces, in pieces of any size, there are
  chunks that together are the response such that, when each \<open>write\<close> accepts its chunk, the thread
  returns, with nothing left of the visit but the complete response in the cache.
\<close>

theorem visit_ends_in_fair_schedules:
  assumes s: "asks_for s hdg r" "rtype r = GET_REQUEST" and locks: "all_locks env"
    and cash: "wf_cash cash" "\<not> isElementInCash (hash env) SUCCESS hdg cash"
    and room: "addStringToCash (hash env) SUCCESS hdg (of_nat (m + length rh)) cash = Done (Some e) c1"
    and resp: "answers_with ps rh m" and fair: "fair ps rs" and n: "n \<ge> 4"
  shows "\<exists>cs. concat cs = concat ps \<and> (\<forall>os sfd. fetch_os s ps rs cs sfd os \<longrightarrow>
    (\<exists>h. startingMethodForThread (Suc (Suc (Suc (length rs)))) n env v args cash os = Done () h
       \<and> visit_over env hdg e (concat ps) h))"
proof -
  obtain as k where rs: "rs = as @ replicate k (False, True)" "length (filter fst as) = length ps"
    "length (concat ps) \<le> 524287 * k" by (rule fair_split [OF fair])
  have pc: "pieces (length rh + m) ps" "ps \<noteq> []" "length (concat ps) = length rh + m"
    using resp by (simp_all add: answers_with_def pieces_def)
  have "length ([] :: string) + (length rh + m) \<le> 524287 * k" using rs(3) pc(3) by simp
  from relay_ends [OF pc(1) rs(2) disjI1 [OF pc(2)] this] obtain cs where
    cs: "relay (length rh + m, ps, []) rs = Some cs" by (auto simp: rs(1))
  have "\<exists>h. startingMethodForThread (Suc (Suc (Suc (length rs)))) n env v args cash os = Done () h
      \<and> visit_over env hdg e (concat ps) h" if "fetch_os s ps rs cs sfd os" for os sfd
    using fetched_visit [OF s locks cash room resp cs that n] by blast
  moreover have "concat cs = concat ps" using relay_sends_all [OF cs pc(1)] by simp
  ultimately show ?thesis by blast
qed

theorem visit_ends_in_fair_schedules_witness:
  "\<exists>cs. concat cs = fix_response @ ''abc'' \<and> (\<exists>h. startingMethodForThread 7 4 (fix_env (\<lambda>c. c)) fix_codes
      (new_ArgsForThread 5) (fix_cash 0 []) (fix_ask fix_rounds cs) = Done () h
    \<and> visit_over (fix_env (\<lambda>c. c)) fix_request 0 (fix_response @ ''abc'') h)"
proof -
  obtain r c1 where r: "asks_for fix_request fix_request r" "rtype r = GET_REQUEST"
    "addStringToCash (hash (fix_env (\<lambda>c. c))) SUCCESS fix_request (of_nat (3 + length fix_response)) (fix_cash 0 []) = Done (Some 0) c1"
    using fix_fetch(1,5) by blast
  have "length fix_response = 38" by code_simp
  then have "fair [fix_response @ ''a'', ''bc''] fix_rounds" by (simp add: fair_def fix_rounds_def)
  note ends = visit_ends_in_fair_schedules [OF r(1,2) fix_fetch(2-4) r(3) fix_fetch(6) this order.refl,
      of fix_codes "new_ArgsForThread 5"]
  have "fetch_os fix_request [fix_response @ ''a'', ''bc''] fix_rounds cs 9 (fix_ask fix_rounds cs)" for cs
    by (simp add: fetch_os_def fix_ask_def ERROR_CODE_def)
  moreover have "Suc (Suc (Suc (length fix_rounds))) = 7" by (simp add: fix_rounds_def)
  moreover obtain cs where "concat cs = concat [fix_response @ ''a'', ''bc'']" and
    run: "\<And>os sfd. fetch_os fix_request [fix_response @ ''a'', ''bc''] fix_rounds cs sfd os \<Longrightarrow>
      \<exists>h. startingMethodForThread (Suc (Suc (Suc (length fix_rounds)))) 4 (fix_env (\<lambda>c. c)) fix_codes (new_ArgsForThread 5)
        (fix_cash 0 []) os = Done () h \<and> visit_over (fix_env (\<lambda>c. c)) fix_request 0 (concat [fix_response @ ''a'', ''bc'']) h"
    using ends by blast
  ultimately show ?thesis using run [of 9 "fix_ask fix_rounds cs"] by (intro exI [of _ cs]) simp
qed

text \<open>
  C2: what one user's request brought is what the next user gets, without a server. A first user's
  request is fetched as above. Then a second user, served by a thread of its own on the cache the
  first thread left, asks for the same. That thread returns as well, and sends, over its own user's
  descriptor, the same bytes that were sent to the first user; it dials nobody.
\<close>

theorem second_visitor_served_from_cache:
  assumes s: "asks_for s hdg r" "rtype r = GET_REQUEST" and locks: "all_locks env"
    and cash: "wf_cash cash" "\<not> isElementInCash (hash env) SUCCESS hdg cash"
    and room: "addStringToCash (hash env) SUCCESS hdg (of_nat (m + length rh)) cash = Done (Some e) c1"
    and resp: "answers_with ps rh m" and relayed: "relay (length rh + m, ps, []) rs = Some cs"
    and os: "fetch_os s ps rs cs sfd os" and n: "n \<ge> 4"
    and os2: "o_polls os2 = (1, [POLLIN]) # pls" "o_reads os2 = Bytes s # rds"
      "o_writes os2 = full_writes (length rh + m) @ ws"
    and n2: "n > length (full_writes (length rh + m))" and v2: "quiet_codes v2"
  shows "\<exists>h1 h2 cs2. startingMethodForThread (Suc (Suc (Suc (length rs)))) n env v args cash os = Done () h1
    \<and> startingMethodForThread 1 n env v2 args2 (h_cash h1) os2 = Done () h2
    \<and> o_wire (h_os h1) = o_wire os @ (sfd, s) # map (Pair (getSock args)) cs
    \<and> o_wire (h_os h2) = o_wire os2 @ map (Pair (getSock args2)) cs2 \<and> concat cs2 = concat cs
    \<and> o_dialed (h_os h2) = o_dialed os2"
proof -
  obtain h1 where h1: "startingMethodForThread (Suc (Suc (Suc (length rs)))) n env v args cash os = Done () h1"
    "visit_over env hdg e (concat ps) h1" "o_wire (h_os h1) = o_wire os @ (sfd, s) # map (Pair (getSock args)) cs"
    "concat cs = concat ps"
    using fetched_visit [OF s locks cash room resp relayed os n] by blast
  have el: "find_hash (store (h_cash h1)) (hash env hdg) (listCash (h_cash h1)) = Some e"
    "e_cash (store (h_cash h1) e) = concat ps" "\<not> isIsServerConnected (store (h_cash h1) e)"
    using h1(2) by (simp_all add: visit_over_def)
  have len: "length (concat ps) = length rh + m" "length rh + m < 2 ^ 61"
    using resp by (simp_all add: answers_with_def pieces_def)
  have s': "s \<noteq> []" "length s \<le> 524287" "fst (findEndHeading s) = END_HEADING"
    "substr0 s (snd (findEndHeading s)) = hdg" "parsingHeading hdg = Inr r"
    using s(1) by (simp_all add: asks_for_def)
  have lk: "testLock env = SUCCESS" "cashLock env = SUCCESS" "userLock env = SUCCESS" "subsLock env = SUCCESS"
    "others env = (\<lambda>c. c)" using locks by (simp_all add: all_locks_def)
  have "length (e_cash (store (h_cash h1) e)) < 2 ^ 62" "o_writes os2 = full_writes (length (e_cash (store (h_cash h1) e))) @ ws"
    "n > length (full_writes (length (e_cash (store (h_cash h1) e))))"
    using len os2(3) n2 by (simp_all add: el(2))
  from cached_visit [OF os2(1) _ _ _ os2(2) s'(1-3), unfolded s'(4), OF _ _ _ s'(5) el(1,3) this(1) lk v2 this(2,3), of 0 args2]
  obtain h2 cs2 where "startingMethodForThread 1 n env v2 args2 (h_cash h1) os2 = Done () h2"
    "o_wire (h_os h2) = o_wire os2 @ map (Pair (getSock args2)) cs2" "concat cs2 = concat ps"
    "o_dialed (h_os h2) = o_dialed os2"
    by (auto simp: el(2))
  with h1 show ?thesis by auto
qed

theorem second_visitor_served_from_cache_witness:
  "\<exists>h1 h2 cs2. startingMethodForThread 7 4 (fix_env (\<lambda>c. c)) fix_codes (new_ArgsForThread 5) (fix_cash 0 [])
        (fix_ask fix_rounds [fix_response @ ''abc'']) = Done () h1
     \<and> startingMethodForThread 1 4 (fix_env (\<lambda>c. c)) fix_codes (new_ArgsForThread 6) (h_cash h1)
        (fix_os\<lparr>o_polls := [(1, [POLLIN])], o_reads := [Bytes fix_request], o_writes := [41]\<rparr>) = Done () h2
     \<and> o_wire (h_os h2) = map (Pair 6) cs2 \<and> concat cs2 = fix_response @ ''abc'' \<and> o_dialed (h_os h2) = []"
proof -
  let ?os2 = "fix_os\<lparr>o_polls := [(1, [POLLIN])], o_reads := [Bytes fix_request], o_writes := [41]\<rparr>"
  obtain r c1 where r: "asks_for fix_request fix_request r" "rtype r = GET_REQUEST"
    "addStringToCash (hash (fix_env (\<lambda>c. c))) SUCCESS fix_request (of_nat (3 + length fix_response)) (fix_cash 0 []) = Done (Some 0) c1"
    using fix_fetch(1,5) by blast
  have "length fix_response = 38" by code_simp
  moreover have "full_writes 41 = [41]"
    by (subst full_writes.simps) (simp add: full_writes.simps [of 0])
  ultimately have os2: "o_polls ?os2 = (1, [POLLIN]) # []" "o_reads ?os2 = Bytes fix_request # []"
    "o_writes ?os2 = full_writes (length fix_response + 3) @ []" "4 > length (full_writes (length fix_response + 3))"
    "quiet_codes fix_codes" "Suc (Suc (Suc (length fix_rounds))) = 7" "o_wire ?os2 = []" "o_dialed ?os2 = []"
    by (simp_all add: fix_rounds_def quiet_codes_def fix_codes_def) (simp_all add: fix_os_def)
  show ?thesis
    using second_visitor_served_from_cache [OF r(1,2) fix_fetch(2-4) r(3) fix_fetch(6-8) order.refl os2(1-5),
        of fix_codes "new_ArgsForThread 5" "new_ArgsForThread 6"] os2(6-8)
    by (auto simp: new_ArgsForThread_def getSock_def)
qed

end
