(* ===== verification/Invariants.thy ===== *)
theory Invariants
  imports Main
begin

text \<open>
  Interleavings of several threads are step relations on a shared state. The locale states what
  an invariant of such a system is, and proves once what follows for the states it can reach.
\<close>

locale invariant_system =
  fixes init :: "'s \<Rightarrow> bool"
    and step :: "'s \<Rightarrow> 's \<Rightarrow> bool"
    and inv :: "'s \<Rightarrow> bool"
  assumes init_inv: "init s \<Longrightarrow> inv s"
    and step_inv: "inv s \<Longrightarrow> step s t \<Longrightarrow> inv t"
begin

lemma steps_inv: "step\<^sup>*\<^sup>* s t \<Longrightarrow> inv s \<Longrightarrow> inv t"
  by (induction rule: rtranclp_induct) (auto intro: step_inv)

lemma reachable_inv: "init s \<Longrightarrow> step\<^sup>*\<^sup>* s t \<Longrightarrow> inv t"
  using steps_inv init_inv by blast

lemma reachable_safe: "init s \<Longrightarrow> step\<^sup>*\<^sup>* s t \<Longrightarrow> (\<And>t. inv t \<Longrightarrow> P t) \<Longrightarrow> P t"
  using reachable_inv by blast

end

text \<open>A system whose every step lowers a measure runs to an end.\<close>

locale terminating_system =
  fixes step :: "'s \<Rightarrow> 's \<Rightarrow> bool"
    and left :: "'s \<Rightarrow> nat"
  assumes step_left: "step s t \<Longrightarrow> left t < left s"
begin

lemma steps_bounded: "(step ^^ n) s t \<Longrightarrow> n + left t \<le> left s"
proof (induction n arbitrary: t)
  case (Suc n)
  then obtain u where "(step ^^ n) s u" "step u t" by auto
  with Suc.IH [of u] step_left [of u t] show ?case by auto
qed simp

lemma ends: "\<exists>t. step\<^sup>*\<^sup>* s t \<and> (\<forall>u. \<not> step t u)"
proof (induction "left s" arbitrary: s rule: less_induct)
  case less
  show ?case
  proof (cases "\<exists>u. step s u")
    case True
    then obtain u where u: "step s u" ..
    from less.hyps [OF step_left [OF u]] obtain t where "step\<^sup>*\<^sup>* u t" "\<forall>v. \<not> step t v" by blast
    with u show ?thesis by (meson converse_rtranclp_into_rtranclp)
  qed blast
qed

end

end
