(* ===== verification/Subscribers.thy ===== *)
theory Subscribers
  imports Handler Invariants
begin

text \<open>
  The protocol between a thread in \<open>getFromCash\<close> and the thread that downloads the element it
  reads: \<open>lab32v2/server/HandlerOneClientImpl.cpp\<close> on one side, \<open>appendStringToCash\<close>,
  \<open>setIsServerConnect\<close> and \<open>signalUsers\<close> of \<open>CashElementImpl\<close> on the other. The reader tests
  the state of the element, and then waits; the mutex it holds over both is its own local one,
  which the downloading thread never takes, so a signal can fall between the test and the
  wait. All lock codes are \<open>SUCCESS\<close> and there are no spurious wake-ups here.
\<close>

section \<open>The step relation\<close>

datatype ReaderPc = Enter | Check | AboutToWait | Waiting | Act | Left

record Protocol =
  el :: CashElement
  cond :: nat
  sent :: nat
  pc :: ReaderPc
  chunks :: "string list"
  serverClosed :: bool
  missed :: bool

text \<open>
  A signal wakes the reader only if it is waiting; \<open>missed\<close> records, for the statements only,
  that one came just before.
\<close>

definition wake :: "nat list \<Rightarrow> Protocol \<Rightarrow> Protocol" where
  "wake signalled s = (if cond s \<in> set signalled
     then (if pc s = Waiting then s\<lparr>pc := Check\<rparr>
           else if pc s = AboutToWait then s\<lparr>missed := True\<rparr> else s)
     else s)"

definition nothing_to_send :: "Protocol \<Rightarrow> bool" where
  "nothing_to_send s \<longleftrightarrow> isIsServerConnected (el s) \<and> length (e_cash (el s)) = sent s"

inductive pstep :: "Protocol \<Rightarrow> Protocol \<Rightarrow> bool" where
  enter: "pc s = Enter \<Longrightarrow> pstep s (s\<lparr>el := addCondVar SUCCESS (cond s) (el s), pc := Check\<rparr>)"
| test_wait: "pc s = Check \<Longrightarrow> nothing_to_send s \<Longrightarrow> pstep s (s\<lparr>pc := AboutToWait\<rparr>)"
| test_go: "pc s = Check \<Longrightarrow> \<not> nothing_to_send s \<Longrightarrow> pstep s (s\<lparr>pc := Act\<rparr>)"
| sleep: "pc s = AboutToWait \<Longrightarrow> pstep s (s\<lparr>pc := Waiting\<rparr>)"
| send_last: "pc s = Act \<Longrightarrow> \<not> isIsServerConnected (el s) \<Longrightarrow>
    pstep s (s\<lparr>sent := length (e_cash (el s)), pc := Left, el := dellCondVar SUCCESS (cond s) (el s)\<rparr>)"
| send_more: "pc s = Act \<Longrightarrow> isIsServerConnected (el s) \<Longrightarrow>
    pstep s (s\<lparr>sent := length (e_cash (el s)), pc := Check\<rparr>)"
| append: "chunks s = b # bs \<Longrightarrow> appendStringToCash SUCCESS SUCCESS b (el s) = (e, sg) \<Longrightarrow>
    pstep s (wake sg (s\<lparr>el := e, chunks := bs\<rparr>))"
| close_server: "chunks s = [] \<Longrightarrow> \<not> serverClosed s \<Longrightarrow> setIsServerConnect SUCCESS False (el s) = (e, sg) \<Longrightarrow>
    pstep s (wake sg (s\<lparr>el := e, serverClosed := True\<rparr>))"

inductive_cases pstepE: "pstep s t"

text \<open>The start: the reader has found an element that is being downloaded, with \<open>bs\<close> still to come.\<close>

definition pstart :: "nat \<Rightarrow> string list \<Rightarrow> Protocol \<Rightarrow> bool" where
  "pstart c bs s \<longleftrightarrow> pc s = Enter \<and> cond s = c \<and> sent s = 0 \<and> chunks s = bs \<and> \<not> serverClosed s
     \<and> \<not> missed s \<and> isIsServerConnected (el s)"

section \<open>What the protocol keeps\<close>

text \<open>
  A reader that has passed its test has nothing to send unless a signal was missed; the
  connection flag tells whether the downloading thread is done; a reader inside the loop is subscribed.
\<close>

definition pinv :: "Protocol \<Rightarrow> bool" where
  "pinv s \<longleftrightarrow> (pc s \<in> {AboutToWait, Waiting} \<and> \<not> missed s \<longrightarrow> nothing_to_send s)
     \<and> isIsServerConnected (el s) = (\<not> serverClosed s)
     \<and> (serverClosed s \<longrightarrow> chunks s = [])
     \<and> (pc s \<notin> {Enter, Left} \<longrightarrow> cond s \<in> set (e_listSubscribers (el s)))
     \<and> (pc s = Left \<longrightarrow> serverClosed s \<and> sent s = length (e_cash (el s)))
     \<and> sent s \<le> length (e_cash (el s))"

lemma wake_simps [simp]:
  "el (wake sg s) = el s" "sent (wake sg s) = sent s" "chunks (wake sg s) = chunks s"
  "serverClosed (wake sg s) = serverClosed s" "cond (wake sg s) = cond s"
  "nothing_to_send (wake sg s) = nothing_to_send s"
  by (simp_all add: wake_def nothing_to_send_def)

lemma subs_simps [simp]:
  "isIsServerConnected (addCondVar l v e) = isIsServerConnected e"
  "isIsServerConnected (dellCondVar l v e) = isIsServerConnected e"
  "e_cash (addCondVar l v e) = e_cash e"
  "e_cash (dellCondVar l v e) = e_cash e"
  by (simp_all add: addCondVar_def dellCondVar_def isIsServerConnected_def)

lemma append_SUCCESS:
  "appendStringToCash SUCCESS SUCCESS b e = (e', sg) \<Longrightarrow>
     e' = e\<lparr>e_cash := e_cash e @ b\<rparr> \<and> sg = e_listSubscribers e"
  by (auto simp: appendStringToCash_def Let_def signalUsers_def)

lemma disconnect_SUCCESS:
  "setIsServerConnect SUCCESS False e = (e', sg) \<Longrightarrow>
     e' = e\<lparr>e_isServerConnected := False\<rparr> \<and> sg = e_listSubscribers e"
  by (auto simp: setIsServerConnect_def Let_def signalUsers_def)

lemma pinv_start: "pstart c bs s \<Longrightarrow> pinv s"
  by (simp add: pstart_def pinv_def)

lemma pinv_step:
  assumes "pinv s" and "pstep s t" shows "pinv t"
  using assms(2,1)
proof cases
  case enter
  with assms(1) show ?thesis by (auto simp: pinv_def addCondVar_def isIsServerConnected_def)
next
  case (append b bs e sg)
  then show ?thesis
    using assms(1) append_SUCCESS [OF append(3)]
    by (cases "pc s") (auto simp: pinv_def wake_def nothing_to_send_def isIsServerConnected_def)
next
  case (close_server e sg)
  then show ?thesis
    using assms(1) disconnect_SUCCESS [OF close_server(4)]
    by (cases "pc s") (auto simp: pinv_def wake_def nothing_to_send_def isIsServerConnected_def)
qed (auto simp: pinv_def nothing_to_send_def)

interpretation protocol: invariant_system "pstart c bs" pstep pinv for c bs
  by unfold_locales (auto intro: pinv_start pinv_step)

text \<open>
  Every step is counted: what the downloading thread has left to do, seven times, since the reader
  takes at most six steps between two of its actions.
\<close>

definition reader_left :: "Protocol \<Rightarrow> nat" where
  "reader_left s = (case pc s of
     Enter \<Rightarrow> 6
   | Check \<Rightarrow> if nothing_to_send s then 3 else 5
   | Act \<Rightarrow> 4
   | AboutToWait \<Rightarrow> 2
   | Waiting \<Rightarrow> 1
   | Left \<Rightarrow> 0)"

definition steps_left :: "Protocol \<Rightarrow> nat" where
  "steps_left s = 7 * (length (chunks s) + (if serverClosed s then 0 else 1)) + reader_left s"

lemma reader_left_le: "reader_left s \<le> 6"
  by (simp add: reader_left_def split: ReaderPc.split)

lemma steps_left_step: "pstep s t \<Longrightarrow> steps_left t < steps_left s"
proof (induction rule: pstep.induct)
  case (append s b bs e sg)
  then show ?case using reader_left_le [of "wake sg (s\<lparr>el := e, chunks := bs\<rparr>)"] by (simp add: steps_left_def)
next
  case (close_server s e sg)
  then show ?case using reader_left_le [of "wake sg (s\<lparr>el := e, serverClosed := True\<rparr>)"]
    by (simp add: steps_left_def)
qed (simp_all add: steps_left_def reader_left_def nothing_to_send_def isIsServerConnected_def addCondVar_def)

interpretation ending: terminating_system pstep steps_left
  by unfold_locales (rule steps_left_step)

section \<open>Properties\<close>

lemma no_missed_signal_ends:
  assumes "pstart c bs s" and "pstep\<^sup>*\<^sup>* s t" and "\<forall>u. \<not> pstep t u" and "\<not> missed t"
  shows "pc t = Left \<and> sent t = length (e_cash (el t)) \<and> serverClosed t \<and> chunks t = []"
proof -
  from protocol.reachable_inv [OF assms(1,2)] have inv: "pinv t" .
  have "chunks t = []"
    using assms(3) pstep.append [of t] by (cases "chunks t") (auto, metis surj_pair)
  moreover from this have "serverClosed t"
    using assms(3) pstep.close_server [of t] by (metis surj_pair)
  moreover have "pc t = Left"
  proof (cases "pc t")
    case Waiting
    with inv assms(4) have "nothing_to_send t" by (simp add: pinv_def)
    with inv \<open>serverClosed t\<close> show ?thesis by (simp add: nothing_to_send_def pinv_def)
  qed (use assms(3) pstep.intros(1-6) [of t] in blast)+
  ultimately show ?thesis using inv by (simp add: pinv_def)
qed

text \<open>
  C8: the protocol always comes to an end, and as long as no signal falls between a reader's test
  and its wait, nothing is lost and nobody is left behind. A run with \<open>n\<close> chunks to come has at
  most \<open>7 n + 13\<close> steps; some state without a further step is reached; and in every such state in
  which no signal was missed the reader has left with every byte of the element sent, the download
  is finished and the server closed.
\<close>

theorem no_missed_signal_no_deadlock:
  assumes "pstart c bs s"
  shows "(\<forall>n t. (pstep ^^ n) s t \<longrightarrow> n \<le> 7 * length bs + 13)
    \<and> (\<exists>t. pstep\<^sup>*\<^sup>* s t \<and> (\<forall>u. \<not> pstep t u))
    \<and> (\<forall>t. pstep\<^sup>*\<^sup>* s t \<and> (\<forall>u. \<not> pstep t u) \<and> \<not> missed t \<longrightarrow>
        pc t = Left \<and> sent t = length (e_cash (el t)) \<and> serverClosed t \<and> chunks t = [])"
proof -
  have "steps_left s = 7 * length bs + 13"
    using assms by (simp add: steps_left_def reader_left_def pstart_def)
  then have "n \<le> 7 * length bs + 13" if "(pstep ^^ n) s t" for n t
    using ending.steps_bounded [OF that] by simp
  then show ?thesis using ending.ends [of s] no_missed_signal_ends [OF assms] by blast
qed

definition fix_protocol :: "string list \<Rightarrow> Protocol" where
  "fix_protocol bs = \<lparr>el = \<lparr>e_countConnectedUsers = 1, e_isDownloadEnd = False, e_isServerConnected = True,
      e_hashRequestHeading = 0, e_requestHeading = [], e_cash = [], e_listSubscribers = []\<rparr>,
     cond = 7, sent = 0, pc = Enter, chunks = bs, serverClosed = False, missed = False\<rparr>"

lemma pstart_fix: "pstart 7 bs (fix_protocol bs)"
  by (simp add: pstart_def fix_protocol_def isIsServerConnected_def)

text \<open>The run in which the server closes before the reader has entered.\<close>

lemma fix_run:
  "\<exists>t. pstep\<^sup>*\<^sup>* (fix_protocol []) t \<and> (\<forall>u. \<not> pstep t u) \<and> \<not> missed t"
proof -
  define e1 where "e1 = (el (fix_protocol []))\<lparr>e_isServerConnected := False\<rparr>"
  define s1 where "s1 = (fix_protocol [])\<lparr>el := e1, serverClosed := True\<rparr>"
  define s2 where "s2 = s1\<lparr>el := addCondVar SUCCESS 7 e1, pc := Check\<rparr>"
  define s3 where "s3 = s2\<lparr>pc := Act\<rparr>"
  define s4 where "s4 = s3\<lparr>sent := 0, pc := Left, el := dellCondVar SUCCESS 7 (addCondVar SUCCESS 7 e1)\<rparr>"
  have "setIsServerConnect SUCCESS False (el (fix_protocol [])) = (e1, [])"
    by (simp add: setIsServerConnect_def Let_def e1_def signalUsers_def fix_protocol_def)
  from pstep.close_server [OF _ _ this] have 1: "pstep (fix_protocol []) s1"
    by (simp add: fix_protocol_def s1_def wake_def)
  have 2: "pstep s1 s2"
    using pstep.enter [of s1] by (simp add: s2_def s1_def fix_protocol_def)
  have off: "\<not> isIsServerConnected (addCondVar SUCCESS 7 e1)"
    by (simp add: isIsServerConnected_def addCondVar_def e1_def)
  have 3: "pstep s2 s3"
    using pstep.test_go [of s2] off by (simp add: s3_def s2_def nothing_to_send_def)
  have "e_cash (addCondVar SUCCESS 7 e1) = []" by (simp add: e1_def fix_protocol_def)
  then have 4: "pstep s3 s4"
    using pstep.send_last [of s3] off by (simp add: s4_def s3_def s2_def s1_def fix_protocol_def)
  have "\<not> pstep s4 u" for u
    by (auto elim!: pstepE simp: s4_def s3_def s2_def s1_def fix_protocol_def)
  moreover have "\<not> missed s4" by (simp add: s4_def s3_def s2_def s1_def fix_protocol_def)
  moreover have "pstep\<^sup>*\<^sup>* (fix_protocol []) s4"
    using 1 2 3 4 by (meson converse_rtranclp_into_rtranclp rtranclp.rtrancl_refl)
  ultimately show ?thesis by blast
qed

theorem no_missed_signal_no_deadlock_witness:
  "\<exists>t. pstep\<^sup>*\<^sup>* (fix_protocol []) t \<and> pc t = Left \<and> sent t = length (e_cash (el t))"
  using fix_run no_missed_signal_no_deadlock [OF pstart_fix] by blast

lemma reach_wait:
  assumes "pc s = Check" and "isIsServerConnected (el s)"
  shows "pstep\<^sup>*\<^sup>* s (s\<lparr>sent := length (e_cash (el s)), pc := AboutToWait\<rparr>)"
proof (cases "nothing_to_send s")
  case True
  then have "s\<lparr>sent := length (e_cash (el s)), pc := AboutToWait\<rparr> = s\<lparr>pc := AboutToWait\<rparr>"
    by (simp add: nothing_to_send_def)
  with pstep.test_wait [OF assms(1) True] show ?thesis by simp
next
  case False
  define s1 where "s1 = s\<lparr>pc := Act\<rparr>"
  define s2 where "s2 = s\<lparr>sent := length (e_cash (el s)), pc := Check\<rparr>"
  have "pstep s s1" using pstep.test_go [OF assms(1) False] by (simp add: s1_def)
  moreover have "pstep s1 s2"
    using pstep.send_more [of s1] assms(2) by (simp add: s1_def s2_def)
  moreover have "pstep s2 (s2\<lparr>pc := AboutToWait\<rparr>)"
    using pstep.test_wait [of s2] assms(2) by (simp add: s2_def nothing_to_send_def)
  ultimately have "pstep\<^sup>*\<^sup>* s (s2\<lparr>pc := AboutToWait\<rparr>)"
    by (meson converse_rtranclp_into_rtranclp rtranclp.rtrancl_refl)
  then show ?thesis by (simp add: s2_def)
qed

text \<open>
  C36: a signal that falls between the test and the wait hangs the reader for good. For every element
  whose last bytes \<open>b\<close> are still to come there is an interleaving in which the downloading
  thread appends them and closes while the reader is about to wait: the reader then sleeps with
  these bytes unsent, and no thread has a step left that would wake it.
\<close>

theorem lost_wakeup_hangs_reader:
  assumes "pstart c [b] s" and "b \<noteq> []"
  shows "\<exists>t. pstep\<^sup>*\<^sup>* s t \<and> pc t = Waiting \<and> sent t < length (e_cash (el t)) \<and> (\<forall>u. \<not> pstep t u)"
proof -
  from assms(1) have s: "pc s = Enter" "cond s = c" "chunks s = [b]" "\<not> serverClosed s"
    "isIsServerConnected (el s)" by (simp_all add: pstart_def)
  define e1 where "e1 = addCondVar SUCCESS c (el s)"
  have e1: "c \<in> set (e_listSubscribers e1)" "isIsServerConnected e1"
    using s by (simp_all add: e1_def addCondVar_def isIsServerConnected_def)
  define s1 where "s1 = s\<lparr>el := e1, pc := Check\<rparr>"
  have 1: "pstep s s1" using pstep.enter [OF s(1)] s(2) by (simp add: s1_def e1_def)
  define s2 where "s2 = s1\<lparr>sent := length (e_cash e1), pc := AboutToWait\<rparr>"
  have 2: "pstep\<^sup>*\<^sup>* s1 s2" using reach_wait [of s1] e1 by (simp add: s2_def s1_def)
  define e3 where "e3 = e1\<lparr>e_cash := e_cash e1 @ b\<rparr>"
  define s3 where "s3 = s2\<lparr>el := e3, chunks := [], missed := True\<rparr>"
  have "appendStringToCash SUCCESS SUCCESS b (el s2) = (e3, e_listSubscribers e1)"
    by (simp add: appendStringToCash_def Let_def signalUsers_def s2_def s1_def e3_def)
  from pstep.append [OF _ this, of "[]"] have 3: "pstep s2 s3"
    using e1 s by (simp add: s3_def s2_def s1_def wake_def)
  define e4 where "e4 = e3\<lparr>e_isServerConnected := False\<rparr>"
  define s4 where "s4 = s3\<lparr>el := e4, serverClosed := True, missed := True\<rparr>"
  have "setIsServerConnect SUCCESS False (el s3) = (e4, e_listSubscribers e1)"
    by (simp add: setIsServerConnect_def Let_def signalUsers_def s3_def e3_def e4_def)
  from pstep.close_server [OF _ _ this] have 4: "pstep s3 s4"
    using e1 s by (simp add: s4_def s3_def s2_def s1_def wake_def)
  define s5 where "s5 = s4\<lparr>pc := Waiting\<rparr>"
  have 5: "pstep s4 s5"
    using pstep.sleep [of s4] by (simp add: s5_def s4_def s3_def s2_def)
  have "\<not> pstep s5 u" for u
    by (auto elim!: pstepE simp: s5_def s4_def s3_def s2_def)
  moreover have "pc s5 = Waiting" "sent s5 < length (e_cash (el s5))"
    using assms(2) by (simp_all add: s5_def s4_def s3_def s2_def e4_def e3_def)
  moreover have "pstep\<^sup>*\<^sup>* s s5"
    using 1 2 3 4 5 by (meson converse_rtranclp_into_rtranclp rtranclp.rtrancl_into_rtrancl)
  ultimately show ?thesis by blast
qed

theorem lost_wakeup_hangs_reader_witness:
  "\<exists>t. pstep\<^sup>*\<^sup>* (fix_protocol [''a'']) t \<and> pc t = Waiting \<and> sent t < length (e_cash (el t))
     \<and> (\<forall>u. \<not> pstep t u)"
  by (rule lost_wakeup_hangs_reader [OF pstart_fix]) simp

end
