(* ===== verification/Loggers.thy ===== *)
theory Loggers
  imports Parser_Correct
begin

text \<open>
  \<open>logger/Logger.h\<close> of the three C++ proxies: a singleton with an \<open>ofstream\<close>, whose methods write a
  line with the time of day to the file (\<open>lab31/v2\<close>), to the file and the console (\<open>lab32\<close>), or to
  the console only (\<open>lab32v2\<close>, where opening and closing the file is commented out). The time is an
  input: hours, minutes and seconds as \<open>localtime\<close> gives them. The components are modelled without
  their calls of the logger, which change none of their state.
\<close>

section \<open>Streams\<close>

text \<open>
  An \<open>ofstream\<close>: \<open>open\<close> empties the file, or fails; what is written to a stream that is not open, or
  has failed before, is lost, and the stream counts as failed from then on. \<open>close\<close> keeps the file;
  on a stream that is not open it fails.
\<close>

record Ofstream =
  is_open :: bool
  good :: bool
  contents :: string

definition closed_file :: "string \<Rightarrow> Ofstream" where
  "closed_file old = \<lparr>is_open = False, good = True, contents = old\<rparr>"

definition open_file :: "bool \<Rightarrow> Ofstream \<Rightarrow> Ofstream" where
  "open_file succeeds f =
     (if is_open f \<or> \<not> succeeds then f\<lparr>good := False\<rparr> else f\<lparr>is_open := True, good := True, contents := []\<rparr>)"

definition write_file :: "string \<Rightarrow> Ofstream \<Rightarrow> Ofstream" where
  "write_file s f = (if is_open f \<and> good f then f\<lparr>contents := contents f @ s\<rparr> else f\<lparr>good := False\<rparr>)"

definition close_file :: "Ofstream \<Rightarrow> Ofstream" where
  "close_file f = (if is_open f then f\<lparr>is_open := False\<rparr> else f\<lparr>good := False\<rparr>)"

section \<open>The loggers\<close>

type_synonym tm = "nat \<times> nat \<times> nat"

definition TIME_NOW :: "tm \<Rightarrow> string" where
  "TIME_NOW now = (case now of (tm_hour, tm_min, tm_sec) \<Rightarrow> dec tm_hour @ '':'' @ dec tm_min @ '':'' @ dec tm_sec)"

definition event_line :: "tm \<Rightarrow> string \<Rightarrow> string" where
  "event_line now str = ''time: '' @ TIME_NOW now @ ''   event --->    '' @ str @ [CHR 0x0A]"

definition error_line :: "tm \<Rightarrow> string \<Rightarrow> string" where
  "error_line now str = ''time: '' @ TIME_NOW now @ ''   ERROR --->    '' @ str @ [CHR 0x0A]"

record Logger =
  loggerFile :: Ofstream
  cout :: string

definition to_file :: "string \<Rightarrow> Logger \<Rightarrow> Logger" where
  "to_file s l = l\<lparr>loggerFile := write_file s (loggerFile l)\<rparr>"

definition to_cout :: "string \<Rightarrow> Logger \<Rightarrow> Logger" where
  "to_cout s l = l\<lparr>cout := cout l @ s\<rparr>"

text \<open>\<open>lab31/v2\<close>.\<close>

definition openFile_31 :: "bool \<Rightarrow> Logger \<Rightarrow> Logger" where
  "openFile_31 succeeds l = l\<lparr>loggerFile := open_file succeeds (loggerFile l)\<rparr>"

definition new_Logger_31 :: "bool \<Rightarrow> string \<Rightarrow> Logger" where
  "new_Logger_31 succeeds old = openFile_31 succeeds \<lparr>loggerFile = closed_file old, cout = []\<rparr>"

definition logEvent_31 :: "tm \<Rightarrow> string \<Rightarrow> Logger \<Rightarrow> Logger" where
  "logEvent_31 now str l = to_file (event_line now str) l"

definition logError_31 :: "tm \<Rightarrow> string \<Rightarrow> Logger \<Rightarrow> Logger" where
  "logError_31 now err l = to_file (error_line now err) l"

definition closeFile_31 :: "Logger \<Rightarrow> Logger" where
  "closeFile_31 l = l\<lparr>loggerFile := close_file (loggerFile l)\<rparr>"

text \<open>\<open>lab32\<close>.\<close>

definition openFile_32 :: "bool \<Rightarrow> Logger \<Rightarrow> Logger" where
  "openFile_32 succeeds l = l\<lparr>loggerFile := open_file succeeds (loggerFile l)\<rparr>"

definition new_Logger_32 :: "bool \<Rightarrow> string \<Rightarrow> Logger" where
  "new_Logger_32 succeeds old = openFile_32 succeeds \<lparr>loggerFile = closed_file old, cout = []\<rparr>"

definition logEvent_32 :: "tm \<Rightarrow> string \<Rightarrow> Logger \<Rightarrow> Logger" where
  "logEvent_32 now str l = to_cout (event_line now str) (to_file (event_line now str) l)"

definition logError_32 :: "tm \<Rightarrow> string \<Rightarrow> Logger \<Rightarrow> Logger" where
  "logError_32 now err l = to_cout (error_line now err) (to_file (error_line now err) l)"

definition closeFile_32 :: "Logger \<Rightarrow> Logger" where
  "closeFile_32 l = l\<lparr>loggerFile := close_file (loggerFile l)\<rparr>"

text \<open>\<open>lab32v2\<close>: the file is never opened.\<close>

definition openFile_v2 :: "Logger \<Rightarrow> Logger" where
  "openFile_v2 l = l"

definition new_Logger_v2 :: "string \<Rightarrow> Logger" where
  "new_Logger_v2 old = openFile_v2 \<lparr>loggerFile = closed_file old, cout = []\<rparr>"

definition logEvent_v2 :: "tm \<Rightarrow> string \<Rightarrow> Logger \<Rightarrow> Logger" where
  "logEvent_v2 now str l = to_cout (event_line now str) l"

definition logError_v2 :: "tm \<Rightarrow> string \<Rightarrow> Logger \<Rightarrow> Logger" where
  "logError_v2 now err l = to_cout (error_line now err) l"

definition closeFile_v2 :: "Logger \<Rightarrow> Logger" where
  "closeFile_v2 l = l"

text \<open>\<open>LOG_ERROR_WITH_ERRNO\<close> adds the text of the system's last error; the other macros only forward.\<close>

definition LOG_ERROR_WITH_ERRNO_31 :: "string \<Rightarrow> tm \<Rightarrow> string \<Rightarrow> Logger \<Rightarrow> Logger" where
  "LOG_ERROR_WITH_ERRNO_31 errno_text now event = logError_31 now (event @ errno_text)"

definition LOG_ERROR_WITH_ERRNO_32 :: "string \<Rightarrow> tm \<Rightarrow> string \<Rightarrow> Logger \<Rightarrow> Logger" where
  "LOG_ERROR_WITH_ERRNO_32 errno_text now event = logError_32 now (event @ errno_text)"

definition LOG_ERROR_WITH_ERRNO_v2 :: "string \<Rightarrow> tm \<Rightarrow> string \<Rightarrow> Logger \<Rightarrow> Logger" where
  "LOG_ERROR_WITH_ERRNO_v2 errno_text now event = logError_v2 now (event @ errno_text)"

section \<open>What is in the log\<close>

datatype log_call = Event tm string | Error tm string | Close

fun line_of :: "log_call \<Rightarrow> string" where
  "line_of (Event now s) = event_line now s"
| "line_of (Error now s) = error_line now s"
| "line_of Close = []"

fun call_31 :: "log_call \<Rightarrow> Logger \<Rightarrow> Logger" where
  "call_31 (Event now s) = logEvent_31 now s"
| "call_31 (Error now s) = logError_31 now s"
| "call_31 Close = closeFile_31"

fun call_32 :: "log_call \<Rightarrow> Logger \<Rightarrow> Logger" where
  "call_32 (Event now s) = logEvent_32 now s"
| "call_32 (Error now s) = logError_32 now s"
| "call_32 Close = closeFile_32"

fun call_v2 :: "log_call \<Rightarrow> Logger \<Rightarrow> Logger" where
  "call_v2 (Event now s) = logEvent_v2 now s"
| "call_v2 (Error now s) = logError_v2 now s"
| "call_v2 Close = closeFile_v2"

lemma shut_31: "\<not> is_open (loggerFile l) \<Longrightarrow> contents (loggerFile (fold call_31 cs l)) = contents (loggerFile l)"
proof (induction cs arbitrary: l)
  case (Cons c cs)
  have "\<not> is_open (loggerFile (call_31 c l)) \<and> contents (loggerFile (call_31 c l)) = contents (loggerFile l)"
    using Cons.prems by (cases c) (simp_all add: logEvent_31_def logError_31_def closeFile_31_def to_file_def
        write_file_def close_file_def)
  with Cons.IH show ?case by simp
qed simp

lemma written_31:
  "is_open (loggerFile l) \<Longrightarrow> good (loggerFile l) \<Longrightarrow>
   contents (loggerFile (fold call_31 cs l)) = contents (loggerFile l) @ concat (map line_of (takeWhile ((\<noteq>) Close) cs))
   \<and> cout (fold call_31 cs l) = cout l"
proof (induction cs arbitrary: l)
  case (Cons c cs)
  have co: "cout (fold call_31 ds k) = cout k" for ds k
  proof (induction ds arbitrary: k)
    case (Cons d ds)
    have "cout (call_31 d k) = cout k"
      by (cases d) (simp_all add: logEvent_31_def logError_31_def closeFile_31_def to_file_def)
    with Cons.IH show ?case by simp
  qed simp
  show ?case
  proof (cases "c = Close")
    case True
    with Cons.prems co shut_31 [of "closeFile_31 l" cs] show ?thesis
      by (simp add: closeFile_31_def close_file_def)
  next
    case False
    then have "is_open (loggerFile (call_31 c l))" "good (loggerFile (call_31 c l))" "cout (call_31 c l) = cout l"
      "contents (loggerFile (call_31 c l)) = contents (loggerFile l) @ line_of c"
      using Cons.prems by (cases c; simp add: logEvent_31_def logError_31_def to_file_def write_file_def)+
    with Cons.IH [of "call_31 c l"] False show ?thesis by auto
  qed
qed simp

text \<open>The logger of \<open>lab32\<close> is that of \<open>lab31/v2\<close> with a copy of every line on the console, as is \<open>lab32v2\<close>'s.\<close>

lemma same_file_32: "loggerFile (fold call_32 cs l) = loggerFile (fold call_31 cs l)"
proof (induction cs arbitrary: l rule: rev_induct)
  case (snoc c cs)
  then show ?case
    by (cases c) (simp_all add: logEvent_31_def logEvent_32_def logError_31_def logError_32_def closeFile_31_def
        closeFile_32_def to_file_def to_cout_def)
qed simp

lemma console_32: "cout (fold call_32 cs l) = cout l @ concat (map line_of cs)"
proof (induction cs arbitrary: l)
  case (Cons c cs)
  have "cout (call_32 c l) = cout l @ line_of c"
    by (cases c) (simp_all add: logEvent_32_def logError_32_def closeFile_32_def to_file_def to_cout_def)
  with Cons.IH show ?case by simp
qed simp

lemma console_v2: "cout (fold call_v2 cs l) = cout l @ concat (map line_of cs) \<and> loggerFile (fold call_v2 cs l) = loggerFile l"
proof (induction cs arbitrary: l)
  case (Cons c cs)
  have "cout (call_v2 c l) = cout l @ line_of c" "loggerFile (call_v2 c l) = loggerFile l"
    by (cases c; simp add: logEvent_v2_def logError_v2_def closeFile_v2_def to_cout_def)+
  with Cons.IH show ?case by simp
qed simp

text \<open>
  What a run of the program leaves in \<open>log.txt\<close> and on the console, whatever it logs and when it closes
  the log. The file is emptied at the start and holds the lines logged up to the first \<open>LOGGER_CLOSE\<close>,
  in order; what is logged later reaches only the console of \<open>lab32\<close>. The logger of \<open>lab32v2\<close> never
  touches the file, and everything is on the console.
\<close>

theorem log_of_a_run:
  "contents (loggerFile (fold call_31 cs (new_Logger_31 True old))) = concat (map line_of (takeWhile ((\<noteq>) Close) cs))
   \<and> cout (fold call_31 cs (new_Logger_31 True old)) = []
   \<and> contents (loggerFile (fold call_32 cs (new_Logger_32 True old))) = concat (map line_of (takeWhile ((\<noteq>) Close) cs))
   \<and> cout (fold call_32 cs (new_Logger_32 True old)) = concat (map line_of cs)
   \<and> contents (loggerFile (fold call_v2 cs (new_Logger_v2 old))) = old
   \<and> cout (fold call_v2 cs (new_Logger_v2 old)) = concat (map line_of cs)"
proof -
  have "new_Logger_32 True old = new_Logger_31 True old"
    by (simp add: new_Logger_32_def new_Logger_31_def openFile_32_def openFile_31_def)
  moreover have "is_open (loggerFile (new_Logger_31 True old))" "good (loggerFile (new_Logger_31 True old))"
    "contents (loggerFile (new_Logger_31 True old)) = []" "cout (new_Logger_31 True old) = []"
    "cout (new_Logger_v2 old) = []" "contents (loggerFile (new_Logger_v2 old)) = old"
    by (simp_all add: new_Logger_31_def openFile_31_def open_file_def closed_file_def new_Logger_v2_def openFile_v2_def)
  ultimately show ?thesis
    using written_31 [of "new_Logger_31 True old" cs] same_file_32 [of cs "new_Logger_31 True old"]
      console_32 [of cs "new_Logger_31 True old"] console_v2 [of cs "new_Logger_v2 old"] by simp
qed

end
