(* ===== verification/Lab31_BinaryString.thy ===== *)
theory Lab31_BinaryString
  imports Prelude
begin

text \<open>
  \<open>lab31/v2/binaryString\<close>: a hand-made byte string, a pointer to an array of \<open>char\<close> with the
  number of bytes in use and the number allocated. Objects and arrays live in a memory: an object
  is a number, so that a reference parameter may be the object itself, and an array is a list of
  characters, or \<open>None\<close> once it is deleted. \<open>new char[n]\<close> gives an array whose contents come from
  \<open>junk\<close>, and throws for a negative \<open>n\<close>. Every access is checked: a null pointer, a deleted
  array and an index outside the array are faults. Loops that count with an \<open>int\<close> up to a 64-bit
  size overflow for sizes from 2147483648 bytes on, which is a fault too. \<open>printer\<close> only prints.
\<close>

section \<open>Memory\<close>

record BinaryString =
  bs_dataSize :: int64
  bs_data :: "nat option"
  bs_mallocedSize :: int64

record Mem =
  objs :: "nat \<Rightarrow> BinaryString"
  blocks :: "nat \<Rightarrow> string option"
  nextBlock :: nat
  nextObj :: nat
  junk :: "nat \<Rightarrow> char"

definition upd :: "nat \<Rightarrow> (BinaryString \<Rightarrow> BinaryString) \<Rightarrow> Mem \<Rightarrow> Mem" where
  "upd this f m = m\<lparr>objs := (objs m)(this := f (objs m this))\<rparr>"

definition new_chars :: "int64 \<Rightarrow> Mem \<Rightarrow> (nat, Mem) outcome" where
  "new_chars n m =
     (if sint n < 0 then Throws BadArrayLength m
      else Done (nextBlock m) (m\<lparr>blocks := (blocks m)(nextBlock m := Some (map (junk m) [0..<unat n])),
        nextBlock := Suc (nextBlock m)\<rparr>))"

definition delete_chars :: "nat option \<Rightarrow> Mem \<Rightarrow> (unit, Mem) outcome" where
  "delete_chars p m = (case p of
     None \<Rightarrow> Done () m
   | Some a \<Rightarrow> (case blocks m a of
         None \<Rightarrow> Fault UseAfterFree
       | Some s \<Rightarrow> Done () (m\<lparr>blocks := (blocks m)(a := None)\<rparr>)))"

definition load :: "nat option \<Rightarrow> int \<Rightarrow> Mem \<Rightarrow> (char, Mem) outcome" where
  "load p i m = (case p of
     None \<Rightarrow> Fault NullDereference
   | Some a \<Rightarrow> (case blocks m a of
         None \<Rightarrow> Fault UseAfterFree
       | Some s \<Rightarrow> if 0 \<le> i \<and> i < int (length s) then Done (s ! nat i) m else Fault OutOfBounds))"

definition store :: "nat option \<Rightarrow> int \<Rightarrow> char \<Rightarrow> Mem \<Rightarrow> (unit, Mem) outcome" where
  "store p i c m = (case p of
     None \<Rightarrow> Fault NullDereference
   | Some a \<Rightarrow> (case blocks m a of
         None \<Rightarrow> Fault UseAfterFree
       | Some s \<Rightarrow> if 0 \<le> i \<and> i < int (length s)
           then Done () (m\<lparr>blocks := (blocks m)(a := Some (s[nat i := c]))\<rparr>) else Fault OutOfBounds))"

text \<open>\<open>dst[i] = src[j]\<close> for \<open>n\<close> steps of both indices.\<close>

fun copy_loop :: "nat \<Rightarrow> nat option \<Rightarrow> int \<Rightarrow> nat option \<Rightarrow> int \<Rightarrow> Mem \<Rightarrow> (unit, Mem) outcome" where
  "copy_loop 0 dst i src j m = Done () m"
| "copy_loop (Suc n) dst i src j m =
     bind (load src j m) (\<lambda>c m. bind (store dst i c m) (\<lambda>_ m. copy_loop n dst (i + 1) src (j + 1) m))"

fun fill_loop :: "nat \<Rightarrow> nat option \<Rightarrow> int \<Rightarrow> Mem \<Rightarrow> (unit, Mem) outcome" where
  "fill_loop 0 dst i m = Done () m"
| "fill_loop (Suc n) dst i m = bind (store dst i (CHR 0x00) m) (\<lambda>_ m. fill_loop n dst (i + 1) m)"

fun read_loop :: "nat \<Rightarrow> nat option \<Rightarrow> int \<Rightarrow> Mem \<Rightarrow> (string, Mem) outcome" where
  "read_loop 0 src j m = Done [] m"
| "read_loop (Suc n) src j m = bind (load src j m) (\<lambda>c m.
     bind (read_loop n src (j + 1) m) (\<lambda>s m. Done (c # s) m))"

text \<open>The number of rounds of \<open>for (i = 0; i < n; i++)\<close>.\<close>

definition rounds :: "int64 \<Rightarrow> nat" where
  "rounds n = nat (sint n)"

definition new_object :: "Mem \<Rightarrow> nat \<times> Mem" where
  "new_object m = (nextObj m, m\<lparr>nextObj := Suc (nextObj m)\<rparr>)"

section \<open>Construction and destruction\<close>

definition BinaryString0 :: "nat \<Rightarrow> Mem \<Rightarrow> (unit, Mem) outcome" where
  "BinaryString0 this m =
     Done () (upd this (\<lambda>_. \<lparr>bs_dataSize = 0, bs_data = None, bs_mallocedSize = 0\<rparr>) m)"

definition BinaryString_chars :: "nat \<Rightarrow> nat option \<Rightarrow> int64 \<Rightarrow> Mem \<Rightarrow> (unit, Mem) outcome" where
  "BinaryString_chars this otherData otherLength m =
     (let m = upd this (\<lambda>_. \<lparr>bs_dataSize = otherLength, bs_data = None, bs_mallocedSize = 0\<rparr>) m
      in if sint otherLength > 0 then
           bind (new_chars otherLength m) (\<lambda>p m.
           copy_loop (rounds otherLength) (Some p) 0 otherData 0
             (upd this (\<lambda>b. b\<lparr>bs_data := Some p, bs_mallocedSize := otherLength\<rparr>) m))
         else Done () m)"

definition BinaryString_copy :: "nat \<Rightarrow> nat \<Rightarrow> Mem \<Rightarrow> (unit, Mem) outcome" where
  "BinaryString_copy this other m =
     (let n = bs_dataSize (objs m other)
      in bind (new_chars n m) (\<lambda>p m.
         let m = upd this (\<lambda>_. \<lparr>bs_dataSize = n, bs_data = Some p, bs_mallocedSize = n\<rparr>) m
         in copy_loop (rounds n) (Some p) 0 (bs_data (objs m other)) 0 m))"

definition BinaryString_destroy :: "nat \<Rightarrow> Mem \<Rightarrow> (unit, Mem) outcome" where
  "BinaryString_destroy this m = delete_chars (bs_data (objs m this)) m"

section \<open>Reading\<close>

definition getLength_bs :: "nat \<Rightarrow> Mem \<Rightarrow> int64" where
  "getLength_bs this m = bs_dataSize (objs m this)"

definition toSting :: "nat \<Rightarrow> Mem \<Rightarrow> (string, Mem) outcome" where
  "toSting this m =
     (if bs_dataSize (objs m this) = 0 \<or> bs_dataSize (objs m this) = -1 then Done [] m
      else read_loop (rounds (bs_dataSize (objs m this))) (bs_data (objs m this)) 0 m)"

definition getData :: "nat \<Rightarrow> Mem \<Rightarrow> nat option" where
  "getData this m = bs_data (objs m this)"

definition getMallocedSize :: "nat \<Rightarrow> Mem \<Rightarrow> int64" where
  "getMallocedSize this m = bs_mallocedSize (objs m this)"

text \<open>\<open>subBinaryString\<close> returns its local object (its copy is elided) and sets the caller's
  \<open>_mallocedSize\<close>, not the result's.\<close>

definition subBinaryString :: "nat \<Rightarrow> int64 \<Rightarrow> int64 \<Rightarrow> Mem \<Rightarrow> (nat, Mem) outcome" where
  "subBinaryString this positionStart positionEnd m =
     (let (res, m) = new_object m
      in bind (BinaryString0 res m) (\<lambda>_ m.
         let n = (if sint (bs_dataSize (objs m this)) \<ge> sint (positionEnd - positionStart)
                  then positionEnd - positionStart else bs_dataSize (objs m this));
             m = upd res (\<lambda>b. b\<lparr>bs_dataSize := n\<rparr>) m
         in bind (new_chars n m) (\<lambda>p m.
            let m = upd res (\<lambda>b. b\<lparr>bs_data := Some p\<rparr>) m;
                m = upd this (\<lambda>b. b\<lparr>bs_mallocedSize := n\<rparr>) m
            in bind (copy_loop (rounds n) (Some p) 0 (bs_data (objs m this)) (sint positionStart) m) (\<lambda>_ m.
               Done res m))))"

section \<open>Concatenation\<close>

definition plus_bs :: "nat \<Rightarrow> nat \<Rightarrow> Mem \<Rightarrow> (nat, Mem) outcome" where
  "plus_bs other1 other2 m =
     (let n1 = getLength_bs other1 m; n2 = getLength_bs other2 m; total = n1 + n2
      in bind (new_chars total m) (\<lambda>buf m.
         bind (copy_loop (rounds n1) (Some buf) 0 (getData other1 m) 0 m) (\<lambda>_ m.
         bind (copy_loop (rounds n2) (Some buf) (sint n1) (getData other2 m) 0 m) (\<lambda>_ m.
         let (res, m) = new_object m
         in bind (BinaryString_chars res (Some buf) total m) (\<lambda>_ m.
            bind (delete_chars (Some buf) m) (\<lambda>_ m. Done res m))))))"

text \<open>\<open>add\<close> takes its argument by value: a copy is made before and destroyed after.\<close>

definition add_bs :: "nat \<Rightarrow> nat \<Rightarrow> Mem \<Rightarrow> (unit, Mem) outcome" where
  "add_bs this argument m =
     (let (binaryString, m) = new_object m
      in bind (BinaryString_copy binaryString argument m) (\<lambda>_ m.
         let n1 = bs_dataSize (objs m this); n2 = bs_dataSize (objs m binaryString); newSize = n1 + n2
         in bind (new_chars newSize m) (\<lambda>newData m.
            bind (copy_loop (rounds n1) (Some newData) 0 (bs_data (objs m this)) 0 m) (\<lambda>_ m.
            bind (copy_loop (rounds n2) (Some newData) (sint n1) (getData binaryString m) 0 m) (\<lambda>_ m.
            bind (delete_chars (bs_data (objs m this)) m) (\<lambda>_ m.
            BinaryString_destroy binaryString
              (upd this (\<lambda>_. \<lparr>bs_dataSize = newSize, bs_data = Some newData, bs_mallocedSize = newSize\<rparr>) m)))))))"

section \<open>Assignment\<close>

definition assign_bs :: "nat \<Rightarrow> nat \<Rightarrow> Mem \<Rightarrow> (unit, Mem) outcome" where
  "assign_bs this other m =
     bind (delete_chars (bs_data (objs m this)) m) (\<lambda>_ m.
     let n = bs_dataSize (objs m other); m = upd this (\<lambda>b. b\<lparr>bs_dataSize := n\<rparr>) m
     in bind (new_chars n m) (\<lambda>p m.
        let m = upd this (\<lambda>b. b\<lparr>bs_data := Some p, bs_mallocedSize := n\<rparr>) m
        in copy_loop (rounds (bs_dataSize (objs m other))) (Some p) 0 (bs_data (objs m other)) 0 m))"

definition clearData :: "nat \<Rightarrow> Mem \<Rightarrow> (unit, Mem) outcome" where
  "clearData this m =
     bind (fill_loop (rounds (bs_mallocedSize (objs m this))) (bs_data (objs m this)) 0 m) (\<lambda>_ m.
     Done () (upd this (\<lambda>b. b\<lparr>bs_dataSize := 0\<rparr>) m))"

definition setBinaryString :: "nat \<Rightarrow> nat option \<Rightarrow> int64 \<Rightarrow> Mem \<Rightarrow> (unit, Mem) outcome" where
  "setBinaryString this otherData otherLength m =
     (let m = upd this (\<lambda>b. b\<lparr>bs_dataSize := otherLength\<rparr>) m
      in copy_loop (rounds otherLength) (bs_data (objs m this)) 0 otherData 0 m)"

definition copyData :: "nat \<Rightarrow> nat \<Rightarrow> Mem \<Rightarrow> (unit, Mem) outcome" where
  "copyData this other m =
     (let m = upd this (\<lambda>b. b\<lparr>bs_dataSize := bs_dataSize (objs m other)\<rparr>) m
      in copy_loop (rounds (bs_dataSize (objs m other))) (bs_data (objs m this)) 0
           (bs_data (objs m other)) 0 m)"

definition setNewDataNotMalloc :: "nat \<Rightarrow> nat \<Rightarrow> int64 \<Rightarrow> int64 \<Rightarrow> Mem \<Rightarrow> (unit, Mem) outcome" where
  "setNewDataNotMalloc this other start end' m =
     bind (if sint (bs_mallocedSize (objs m this)) < sint (end' - start) then
             bind (delete_chars (bs_data (objs m this)) m) (\<lambda>_ m.
             bind (new_chars (end' - start + 10) m) (\<lambda>p m.
             Done () (upd this (\<lambda>b. b\<lparr>bs_data := Some p, bs_mallocedSize := end' - start + 10\<rparr>) m)))
           else Done () m) (\<lambda>_ m.
     let m = upd this (\<lambda>b. b\<lparr>bs_dataSize := end' - start\<rparr>) m
     in copy_loop (nat (sint end' - sint start)) (bs_data (objs m this)) 0
          (bs_data (objs m other)) (sint start) m)"

text \<open>The bound of this loop is the size after it was reduced.\<close>

definition shiftDataNotMalloc :: "nat \<Rightarrow> nat \<Rightarrow> int64 \<Rightarrow> Mem \<Rightarrow> (unit, Mem) outcome" where
  "shiftDataNotMalloc this other shift m =
     (let n = bs_dataSize (objs m this) - shift; m = upd this (\<lambda>b. b\<lparr>bs_dataSize := n\<rparr>) m
      in copy_loop (nat (sint n - sint shift)) (bs_data (objs m this)) 0
           (bs_data (objs m other)) (sint shift) m)"

definition setNewDataNotMallocWithPtr :: "nat \<Rightarrow> nat \<Rightarrow> int64 \<Rightarrow> int64 \<Rightarrow> Mem \<Rightarrow> (unit, Mem) outcome" where
  "setNewDataNotMallocWithPtr this other start end' m =
     (let m = upd this (\<lambda>b. b\<lparr>bs_dataSize := end' - start\<rparr>) m
      in copy_loop (nat (sint end' - sint start)) (bs_data (objs m this)) 0
           (bs_data (objs m other)) (sint start) m)"

definition copyAndCreateData :: "nat \<Rightarrow> nat \<Rightarrow> Mem \<Rightarrow> (unit, Mem) outcome" where
  "copyAndCreateData this other m =
     (let n = bs_dataSize (objs m other); m = upd this (\<lambda>b. b\<lparr>bs_dataSize := n\<rparr>) m
      in bind (new_chars n m) (\<lambda>p m.
         let m = upd this (\<lambda>b. b\<lparr>bs_data := Some p, bs_mallocedSize := n\<rparr>) m
         in copy_loop (rounds (bs_dataSize (objs m other))) (Some p) 0 (bs_data (objs m other)) 0 m))"

section \<open>The growing buffer\<close>

definition mallocNeedSize :: "nat \<Rightarrow> int64 \<Rightarrow> Mem \<Rightarrow> (unit, Mem) outcome" where
  "mallocNeedSize this bytes m =
     bind (new_chars (bytes + 10) m) (\<lambda>p m.
     Done () (upd this (\<lambda>_. \<lparr>bs_dataSize = 0, bs_data = Some p, bs_mallocedSize = bytes + 10\<rparr>) m))"

text \<open>A loop with an \<open>int\<close> counter up to a 64-bit bound.\<close>

definition int_rounds :: "int64 \<Rightarrow> Mem \<Rightarrow> (nat, Mem) outcome" where
  "int_rounds n m = (if sint n \<ge> 2 ^ 31 then Fault SignedOverflow else Done (rounds n) m)"

definition addToMallocedBuf :: "nat \<Rightarrow> nat \<Rightarrow> Mem \<Rightarrow> (unit, Mem) outcome" where
  "addToMallocedBuf this other m =
     (let n1 = bs_dataSize (objs m this); n2 = bs_dataSize (objs m other)
      in if sint (bs_mallocedSize (objs m this)) < sint (n1 + n2) then
           bind (new_chars (n1 + n2 + 10) m) (\<lambda>newBuf m.
           let m = upd this (\<lambda>b. b\<lparr>bs_mallocedSize := n1 + n2 + 10\<rparr>) m
           in bind (int_rounds n1 m) (\<lambda>k m.
              bind (copy_loop k (Some newBuf) 0 (bs_data (objs m this)) 0 m) (\<lambda>_ m.
              bind (delete_chars (bs_data (objs m this)) m) (\<lambda>_ m.
              bind (copy_loop (rounds n2) (Some newBuf) (sint n1) (bs_data (objs m other)) 0 m) (\<lambda>_ m.
              Done () (upd this (\<lambda>b. b\<lparr>bs_dataSize := n1 + n2, bs_data := Some newBuf\<rparr>) m))))))
         else
           bind (int_rounds n2 m) (\<lambda>k m.
           bind (copy_loop k (bs_data (objs m this)) (sint n1) (bs_data (objs m other)) 0 m) (\<lambda>_ m.
           Done () (upd this (\<lambda>b. b\<lparr>bs_dataSize := n1 + n2\<rparr>) m))))"

text \<open>\<open>deleteMallocedBuf\<close> keeps the pointer it deletes.\<close>

definition deleteMallocedBuf :: "nat \<Rightarrow> Mem \<Rightarrow> (unit, Mem) outcome" where
  "deleteMallocedBuf this m = bind (delete_chars (bs_data (objs m this)) m) (\<lambda>_ m.
     Done () (upd this (\<lambda>b. b\<lparr>bs_mallocedSize := 0, bs_dataSize := 0\<rparr>) m))"

definition deleteData :: "nat \<Rightarrow> Mem \<Rightarrow> (unit, Mem) outcome" where
  "deleteData this m = bind (delete_chars (bs_data (objs m this)) m) (\<lambda>_ m.
     Done () (upd this (\<lambda>_. \<lparr>bs_dataSize = 0, bs_data = None, bs_mallocedSize = 0\<rparr>) m))"

end
