(* ===== verification/Lab31_BinaryString_Correct.thy ===== *)
theory Lab31_BinaryString_Correct
  imports Lab31_BinaryString
begin

text \<open>
  The byte string of \<open>lab31/v2\<close> as an implementation of strings: \<open>rep m b s\<close> says that object \<open>b\<close>
  stands for the string \<open>s\<close>, zero bytes included. Construction and appending refine the list
  operations inside the allocated arrays; assignment to itself, shifting and appending to itself do
  not.
\<close>

section \<open>Representation\<close>

definition array_of :: "Mem \<Rightarrow> nat \<Rightarrow> string option" where
  "array_of m b = (case bs_data (objs m b) of None \<Rightarrow> Some [] | Some a \<Rightarrow> blocks m a)"

definition rep :: "Mem \<Rightarrow> nat \<Rightarrow> string \<Rightarrow> bool" where
  "rep m b s \<longleftrightarrow> (\<exists>blk. array_of m b = Some blk \<and> s = take (length s) blk \<and> length blk < 2 ^ 30
     \<and> bs_dataSize (objs m b) = of_nat (length s) \<and> bs_mallocedSize (objs m b) = of_nat (length blk))
     \<and> (\<forall>a. bs_data (objs m b) = Some a \<longrightarrow> a < nextBlock m)"

text \<open>Two objects that do not share their array.\<close>

definition apart :: "Mem \<Rightarrow> nat \<Rightarrow> nat \<Rightarrow> bool" where
  "apart m b b' \<longleftrightarrow> (\<forall>a. bs_data (objs m b) = Some a \<longrightarrow> bs_data (objs m b') \<noteq> Some a)"

lemma repD:
  assumes "rep m b s"
  obtains blk where "array_of m b = Some blk" "length s \<le> length blk" "s = take (length s) blk"
    "length blk < 2 ^ 30" "bs_dataSize (objs m b) = of_nat (length s)"
    "bs_mallocedSize (objs m b) = of_nat (length blk)"
  using assms unfolding rep_def by (metis length_take min.cobounded1)

lemma sizes_small: "n < 2 ^ 30 \<Longrightarrow> sint (of_nat n :: int64) = int n \<and> rounds (of_nat n) = n"
  by (simp add: rounds_def sint_of_nat_small)

section \<open>The loops\<close>

lemma copy_loop_ok:
  assumes "blocks m d = Some blk" and "i + n \<le> length blk"
    and "n > 0 \<Longrightarrow> blocks m s = Some src \<and> j + n \<le> length src" and "d \<noteq> s"
  shows "copy_loop n (Some d) (int i) (Some s) (int j) m
    = Done () (m\<lparr>blocks := (blocks m)(d := Some (take i blk @ take n (drop j src) @ drop (i + n) blk))\<rparr>)"
  using assms
proof (induction n arbitrary: i j blk m)
  case 0
  then show ?case by (simp add: fun_upd_idem)
next
  case (Suc n)
  let ?m = "m\<lparr>blocks := (blocks m)(d := Some (blk[i := src ! j]))\<rparr>"
  have l: "load (Some s) (int j) m = Done (src ! j) m"
    using Suc.prems by (simp add: load_def)
  have st: "store (Some d) (int i) (src ! j) m = Done () ?m"
    using Suc.prems by (simp add: store_def)
  have "copy_loop n (Some d) (int (Suc i)) (Some s) (int (Suc j)) ?m
    = Done () (?m\<lparr>blocks := (blocks ?m)(d := Some (take (Suc i) (blk[i := src ! j])
        @ take n (drop (Suc j) src) @ drop (Suc i + n) (blk[i := src ! j])))\<rparr>)"
    by (rule Suc.IH) (use Suc.prems in auto)
  moreover have "take (Suc i) (blk[i := src ! j]) = take i blk @ [src ! j]"
    using Suc.prems by (simp add: take_Suc_conv_app_nth)
  moreover have "take (Suc n) (drop j src) = src ! j # take n (drop (Suc j) src)"
    using Suc.prems by (simp add: Cons_nth_drop_Suc [symmetric])
  ultimately show ?case using l st by (simp add: add.commute fun_upd_def cong: if_cong)
qed

text \<open>Within one array, from a later position to an earlier one.\<close>

lemma copy_loop_same:
  assumes "blocks m d = Some blk" and "j + n \<le> length blk" and "i \<le> j"
  shows "copy_loop n (Some d) (int i) (Some d) (int j) m
    = Done () (m\<lparr>blocks := (blocks m)(d := Some (take i blk @ take n (drop j blk) @ drop (i + n) blk))\<rparr>)"
  using assms
proof (induction n arbitrary: i j blk m)
  case 0
  then show ?case by (simp add: fun_upd_idem)
next
  case (Suc n)
  let ?b = "blk[i := blk ! j]"
  let ?m = "m\<lparr>blocks := (blocks m)(d := Some ?b)\<rparr>"
  have l: "load (Some d) (int j) m = Done (blk ! j) m"
    using Suc.prems by (simp add: load_def)
  have st: "store (Some d) (int i) (blk ! j) m = Done () ?m"
    using Suc.prems by (simp add: store_def)
  have "copy_loop n (Some d) (int (Suc i)) (Some d) (int (Suc j)) ?m
    = Done () (?m\<lparr>blocks := (blocks ?m)(d := Some (take (Suc i) ?b
        @ take n (drop (Suc j) ?b) @ drop (Suc i + n) ?b))\<rparr>)"
    by (rule Suc.IH) (use Suc.prems in auto)
  moreover have "take (Suc i) ?b = take i blk @ [blk ! j]"
    using Suc.prems by (simp add: take_Suc_conv_app_nth)
  moreover have "take (Suc n) (drop j blk) = blk ! j # take n (drop (Suc j) ?b)"
    using Suc.prems by (simp add: Cons_nth_drop_Suc [symmetric])
  ultimately show ?case using l st Suc.prems(3) by (simp add: add.commute fun_upd_def cong: if_cong)
qed

lemma read_loop_ok:
  assumes "n > 0 \<Longrightarrow> blocks m s = Some src \<and> j + n \<le> length src"
  shows "read_loop n (Some s) (int j) m = Done (take n (drop j src)) m"
  using assms
proof (induction n arbitrary: j)
  case (Suc n)
  have "take (Suc n) (drop j src) = src ! j # take n (drop (Suc j) src)"
    using Suc.prems by (simp add: Cons_nth_drop_Suc [symmetric])
  with Suc.IH [of "Suc j"] Suc.prems show ?case by (auto simp: load_def add.commute)
qed simp

text \<open>Copying the contents of an object.\<close>

lemma copy_rep:
  assumes "rep m b s" and "blocks m d = Some blk" and "bs_data (objs m b) \<noteq> Some d"
    and "i + length s \<le> length blk"
  shows "copy_loop (length s) (Some d) (int i) (bs_data (objs m b)) 0 m
    = Done () (m\<lparr>blocks := (blocks m)(d := Some (take i blk @ s @ drop (i + length s) blk))\<rparr>)"
proof (cases "bs_data (objs m b)")
  case None
  with assms(1) have "s = []" by (auto elim!: repD simp: array_of_def)
  with None assms(2) show ?thesis by (simp add: fun_upd_idem)
next
  case (Some a)
  with assms(1) obtain src where src: "blocks m a = Some src" "length s \<le> length src" "s = take (length s) src"
    by (auto elim!: repD simp: array_of_def)
  with copy_loop_ok [of m d blk i "length s" a src 0] assms Some show ?thesis by simp
qed

lemma toSting_rep: "rep m b s \<Longrightarrow> toSting b m = Done s m"
proof -
  assume r: "rep m b s"
  from r obtain blk where blk: "array_of m b = Some blk" "length s \<le> length blk" "s = take (length s) blk"
    "length blk < 2 ^ 30" "bs_dataSize (objs m b) = of_nat (length s)"
    by (rule repD)
  have small: "length s < 2 ^ 30" using blk(2,4) by linarith
  have ne: "(of_nat (length s) :: int64) \<noteq> -1"
    using of_nat_neq_npos [of "length s"] small by (simp add: npos_def)
  show ?thesis
  proof (cases "s = []")
    case False
    then obtain a where a: "bs_data (objs m b) = Some a" "blocks m a = Some blk"
      using blk by (cases "bs_data (objs m b)") (auto simp: array_of_def)
    have "(of_nat (length s) :: int64) \<noteq> 0"
      using sizes_small [OF small] False by (metis length_0_conv of_nat_eq_0_iff sint_0)
    with ne a blk sizes_small [OF small] read_loop_ok [of "length s" m a blk 0] show ?thesis
      by (simp add: toSting_def)
  qed (simp add: toSting_def blk(5))
qed

section \<open>Allocation\<close>

lemma new_chars_ok:
  "n < 2 ^ 31 \<Longrightarrow> new_chars (of_nat n) m = Done (nextBlock m)
     (m\<lparr>blocks := (blocks m)(nextBlock m := Some (map (junk m) [0..<n])), nextBlock := Suc (nextBlock m)\<rparr>)"
  by (simp add: new_chars_def sint_of_nat_small unat_of_nat_small)

lemma rep_frame:
  assumes "rep m b s" and "objs m' b = objs m b" and "nextBlock m \<le> nextBlock m'"
    and "\<And>a. bs_data (objs m b) = Some a \<Longrightarrow> blocks m' a = blocks m a"
  shows "rep m' b s"
  using assms unfolding rep_def array_of_def by (auto split: option.splits)

lemma int_rounds_small: "n < 2 ^ 30 \<Longrightarrow> int_rounds (of_nat n) m = Done n m"
  by (simp add: int_rounds_def sizes_small)

section \<open>Appending\<close>

lemma rep_length: "rep m b s \<Longrightarrow> length s < 2 ^ 30"
  by (auto elim!: repD)

lemma delete_chars_ok:
  "rep m b s \<Longrightarrow> \<exists>m'. delete_chars (bs_data (objs m b)) m = Done () m' \<and> objs m' = objs m
     \<and> nextBlock m' = nextBlock m \<and> (\<forall>a. bs_data (objs m b) \<noteq> Some a \<longrightarrow> blocks m' a = blocks m a)"
  by (cases "bs_data (objs m b)") (auto elim!: repD simp: delete_chars_def array_of_def)

lemma append_fits:
  assumes "rep m this s" and "rep m other t" and "apart m other this" and "this \<noteq> other"
    and "sint (bs_mallocedSize (objs m this)) \<ge> int (length s + length t)"
  shows "\<exists>m'. addToMallocedBuf this other m = Done () m' \<and> rep m' this (s @ t) \<and> rep m' other t"
proof -
  from assms(1) obtain blk where blk: "array_of m this = Some blk" "length s \<le> length blk"
    "s = take (length s) blk" "length blk < 2 ^ 30" "bs_dataSize (objs m this) = of_nat (length s)"
    "bs_mallocedSize (objs m this) = of_nat (length blk)" by (rule repD)
  from assms(2) have n2: "bs_dataSize (objs m other) = of_nat (length t)" by (auto elim: repD)
  have fits: "length s + length t \<le> length blk"
    using assms(5) blk(4,6) by (simp add: sizes_small)
  then have lt: "length t < 2 ^ 30" and sum: "length s + length t < 2 ^ 30" using blk(4) by linarith+
  have ge: "\<not> sint (bs_mallocedSize (objs m this)) < sint (of_nat (length s) + of_nat (length t) :: int64)"
    using assms(5) sizes_small [OF sum] by simp
  have si: "sint (of_nat (length s) :: int64) = int (length s)"
    using sizes_small [of "length s"] sum by simp
  have go: "addToMallocedBuf this other m
    = bind (copy_loop (length t) (bs_data (objs m this)) (int (length s)) (bs_data (objs m other)) 0 m) (\<lambda>_ m.
        Done () (upd this (\<lambda>b. b\<lparr>bs_dataSize := of_nat (length s + length t)\<rparr>) m))"
    using ge by (simp add: addToMallocedBuf_def Let_def blk(5) n2 int_rounds_small [OF lt] si)
  show ?thesis
  proof (cases "bs_data (objs m this)")
    case None
    then have "s = []" "t = []" using blk fits by (auto simp: array_of_def)
    moreover have "(objs m this)\<lparr>bs_dataSize := 0\<rparr> = objs m this"
      using blk(5) \<open>s = []\<close> by (cases "objs m this") simp
    ultimately have "addToMallocedBuf this other m = Done () m"
      using go by (simp add: upd_def)
    with assms(1,2) \<open>s = []\<close> \<open>t = []\<close> show ?thesis by auto
  next
    case (Some a)
    with blk(1) have a: "blocks m a = Some blk" by (simp add: array_of_def)
    let ?new = "take (length s) blk @ t @ drop (length s + length t) blk"
    let ?m = "m\<lparr>blocks := (blocks m)(a := Some ?new)\<rparr>"
    have "bs_data (objs m other) \<noteq> Some a" using assms(3) Some by (auto simp: apart_def)
    from copy_rep [OF assms(2) a this fits] go Some
    have "addToMallocedBuf this other m
      = Done () (upd this (\<lambda>b. b\<lparr>bs_dataSize := of_nat (length s + length t)\<rparr>) ?m)" (is "_ = Done () ?m'")
      by simp
    moreover have "rep ?m' this (s @ t)"
      using blk Some fits assms(1) by (auto simp: rep_def array_of_def upd_def)
    moreover have "rep ?m' other t"
      using \<open>bs_data (objs m other) \<noteq> Some a\<close> assms(4) by (intro rep_frame [OF assms(2)]) (auto simp: upd_def)
    ultimately show ?thesis by blast
  qed
qed

lemma append_grows:
  assumes "rep m this s" and "rep m other t" and "apart m other this" and "this \<noteq> other"
    and "sint (bs_mallocedSize (objs m this)) < int (length s + length t)"
    and "length s + length t < 2 ^ 30 - 10"
  shows "\<exists>m'. addToMallocedBuf this other m = Done () m' \<and> rep m' this (s @ t) \<and> rep m' other t"
proof -
  let ?n = "length s + length t"
  let ?p = "nextBlock m"
  from assms(1) have n1: "bs_dataSize (objs m this) = of_nat (length s)" by (auto elim: repD)
  from assms(2) have n2: "bs_dataSize (objs m other) = of_nat (length t)" by (auto elim: repD)
  have lt: "length s < 2 ^ 30" "length t < 2 ^ 30" "?n < 2 ^ 30" "?n + 10 < 2 ^ 31" using assms(6) by simp_all
  have less: "sint (bs_mallocedSize (objs m this)) < sint (of_nat (length s) + of_nat (length t) :: int64)"
    using assms(5) sizes_small [OF lt(3)] by simp
  define junk0 where "junk0 = map (junk m) [0..<?n + 10]"
  define m1 where "m1 = upd this (\<lambda>b. b\<lparr>bs_mallocedSize := of_nat (?n + 10)\<rparr>)
    (m\<lparr>blocks := (blocks m)(?p := Some junk0), nextBlock := Suc ?p\<rparr>)"
  have ne: "bs_data (objs m b) \<noteq> Some ?p" if "rep m b r" for b r
    using that by (auto simp: rep_def)
  have keep: "bs_data (objs m1 b) = bs_data (objs m b)" for b by (simp add: m1_def upd_def)
  have blk1: "blocks m1 ?p = Some junk0" by (simp add: m1_def upd_def)
  have src1: "copy_loop (length s) (Some ?p) 0 (bs_data (objs m this)) 0 m1
    = Done () (m1\<lparr>blocks := (blocks m1)(?p := Some (s @ drop (length s) junk0))\<rparr>)"
  proof -
    let ?m = "m\<lparr>blocks := (blocks m)(?p := Some junk0), nextBlock := Suc ?p\<rparr>"
    show ?thesis
    proof (cases "bs_data (objs m this)")
      case None
      with assms(1) have "s = []" by (auto elim!: repD simp: array_of_def)
      with blk1 show ?thesis by (simp add: fun_upd_idem)
    next
      case (Some a)
      with assms(1) obtain src where "blocks m a = Some src" "length s \<le> length src" "s = take (length s) src"
        by (auto elim!: repD simp: array_of_def)
      with ne [OF assms(1)] Some copy_loop_ok [of m1 ?p junk0 0 "length s" a src 0] show ?thesis
        by (auto simp: m1_def upd_def junk0_def)
    qed
  qed
  define m2 where "m2 = m1\<lparr>blocks := (blocks m1)(?p := Some (s @ drop (length s) junk0))\<rparr>"
  obtain m3 where del: "delete_chars (bs_data (objs m this)) m2 = Done () m3"
    and m3: "objs m3 = objs m2" "nextBlock m3 = nextBlock m2"
      "\<And>a. bs_data (objs m this) \<noteq> Some a \<Longrightarrow> blocks m3 a = blocks m2 a"
    using assms(1) ne [OF assms(1)]
    by (cases "bs_data (objs m this)")
       (auto elim!: repD simp: delete_chars_def array_of_def m2_def m1_def upd_def)
  have p3: "blocks m3 ?p = Some (s @ drop (length s) junk0)"
    using m3(3) [of ?p] ne [OF assms(1)] by (simp add: m2_def)
  have other3: "rep m3 other t"
  proof (rule rep_frame [OF assms(2)])
    show "objs m3 other = objs m other" using assms(4) by (simp add: m3 m2_def m1_def upd_def)
    show "nextBlock m \<le> nextBlock m3" by (simp add: m3 m2_def m1_def upd_def)
    fix a assume a: "bs_data (objs m other) = Some a"
    with assms(3) ne [OF assms(2)] m3(3) [of a] show "blocks m3 a = blocks m a"
      by (auto simp: apart_def m2_def m1_def upd_def)
  qed
  have dat: "bs_data (objs m3 other) = bs_data (objs m other)"
    by (simp add: m3 m2_def keep)
  define new where "new = s @ t @ drop ?n junk0"
  have "take (length s) (s @ drop (length s) junk0) @ t @ drop (length s + length t) (s @ drop (length s) junk0) = new"
    by (simp add: new_def add.commute)
  with copy_rep [OF other3 p3, of "length s"] ne [OF assms(2)] dat lt
  have src3: "copy_loop (length t) (Some ?p) (int (length s)) (bs_data (objs m other)) 0 m3
    = Done () (m3\<lparr>blocks := (blocks m3)(?p := Some new)\<rparr>)"
    by (simp add: junk0_def)
  define m4 where "m4 = upd this (\<lambda>b. b\<lparr>bs_dataSize := of_nat ?n, bs_data := Some ?p\<rparr>)
    (m3\<lparr>blocks := (blocks m3)(?p := Some new)\<rparr>)"
  have si: "sint (of_nat (length s) :: int64) = int (length s)" "rounds (of_nat (length t)) = length t"
    using sizes_small lt by simp_all
  have nc: "new_chars (of_nat (length s) + of_nat (length t) + 10) m = Done ?p
      (m\<lparr>blocks := (blocks m)(?p := Some junk0), nextBlock := Suc ?p\<rparr>)"
    using new_chars_ok [OF lt(4)] by (simp add: junk0_def)
  have "addToMallocedBuf this other m = Done () m4"
    using less src1 del src3 keep int_rounds_small [OF lt(1)]
    by (simp add: addToMallocedBuf_def n1 n2 nc si Let_def m1_def [symmetric] m2_def [symmetric] m4_def)
       (simp add: m1_def m2_def m3 upd_def dat)
  moreover have "rep m4 this (s @ t)"
    using lt assms(6) by (auto simp: rep_def array_of_def m4_def upd_def new_def m3 m2_def m1_def junk0_def)
  moreover have "rep m4 other t"
    using ne [OF assms(2)] assms(4) dat by (intro rep_frame [OF other3]) (auto simp: m4_def upd_def)
  ultimately show ?thesis by blast
qed

section \<open>An object to try the properties on\<close>

text \<open>Two objects whose arrays hold some strings and \<open>room\<close> more places.\<close>

definition fix_mem :: "string \<Rightarrow> nat \<Rightarrow> string \<Rightarrow> Mem" where
  "fix_mem s room t = \<lparr>objs = (\<lambda>b. if b = 0
        then \<lparr>bs_dataSize = of_nat (length s), bs_data = Some 0, bs_mallocedSize = of_nat (length s + room)\<rparr>
        else \<lparr>bs_dataSize = of_nat (length t), bs_data = Some 1, bs_mallocedSize = of_nat (length t)\<rparr>),
     blocks = (\<lambda>a. if a = 0 then Some (s @ replicate room (CHR 0x00)) else if a = 1 then Some t else None),
     nextBlock = 2, nextObj = 2, junk = (\<lambda>_. CHR ''?'')\<rparr>"

lemma fix_mem_rep:
  "length s + room < 2 ^ 30 \<Longrightarrow> rep (fix_mem s room t) 0 s"
  "length t < 2 ^ 30 \<Longrightarrow> rep (fix_mem s room t) 1 t"
  "apart (fix_mem s room t) 1 0"
  by (auto simp: rep_def fix_mem_def array_of_def apart_def)

section \<open>Properties\<close>

text \<open>
  C10: appending to the growing buffer is string concatenation. For two objects with arrays of
  their own, \<open>addToMallocedBuf\<close> stays inside the allocated arrays whether the bytes still fit or
  the array is replaced by a bigger one; the receiver then stands for the two strings one after
  the other, zero bytes included, and the argument is unchanged.
\<close>

theorem addToMallocedBuf_appends:
  assumes "rep m this s" and "rep m other t" and "apart m other this" and "this \<noteq> other"
    and "length s + length t < 2 ^ 30 - 10"
  shows "\<exists>m'. addToMallocedBuf this other m = Done () m' \<and> rep m' this (s @ t) \<and> rep m' other t
    \<and> toSting this m' = Done (s @ t) m'"
proof -
  have "\<exists>m'. addToMallocedBuf this other m = Done () m' \<and> rep m' this (s @ t) \<and> rep m' other t"
  proof (cases "sint (bs_mallocedSize (objs m this)) \<ge> int (length s + length t)")
    case True
    then show ?thesis by (rule append_fits [OF assms(1-4)])
  next
    case False
    then have "sint (bs_mallocedSize (objs m this)) < int (length s + length t)" by linarith
    then show ?thesis using assms(5) by (rule append_grows [OF assms(1-4)])
  qed
  then show ?thesis using toSting_rep by blast
qed

theorem addToMallocedBuf_appends_witness:
  "\<exists>m'. addToMallocedBuf 0 1 (fix_mem ''ab'' 1 ''cd'') = Done () m' \<and> toSting 0 m' = Done ''abcd'' m'"
proof -
  have r: "rep (fix_mem ''ab'' 1 ''cd'') 0 ''ab''" "rep (fix_mem ''ab'' 1 ''cd'') 1 ''cd''"
    by (rule fix_mem_rep; simp)+
  show ?thesis
    using addToMallocedBuf_appends [OF r fix_mem_rep(3)] by auto
qed

text \<open>
  A buffer appended to itself reads an array it has just deleted, as soon as the bytes do not
  fit: the old array is freed before the second copy, whose source it still is.
\<close>

theorem self_append_uses_freed_array:
  assumes "rep m this s" and "s \<noteq> []"
    and "sint (bs_mallocedSize (objs m this)) < 2 * int (length s)" and "length s < 2 ^ 29 - 10"
  shows "addToMallocedBuf this this m = Fault UseAfterFree"
proof -
  let ?n = "length s + length s"
  let ?p = "nextBlock m"
  from assms(1) obtain src where src: "array_of m this = Some src" "length s \<le> length src"
    "bs_dataSize (objs m this) = of_nat (length s)" by (rule repD)
  with assms(1,2) obtain a where a: "bs_data (objs m this) = Some a" "blocks m a = Some src" "a < ?p"
    by (cases "bs_data (objs m this)") (auto simp: array_of_def rep_def)
  have lt: "length s < 2 ^ 30" "?n < 2 ^ 30" "?n + 10 < 2 ^ 31" using assms(4) by simp_all
  define N where "N = (of_nat (length s) + of_nat (length s) :: int64)"
  have N: "N = of_nat ?n" by (simp only: N_def of_nat_add)
  define junk0 where "junk0 = map (junk m) [0..<?n + 10]"
  define m1 where "m1 = upd this (\<lambda>b. b\<lparr>bs_mallocedSize := N + 10\<rparr>)
    (m\<lparr>blocks := (blocks m)(?p := Some junk0), nextBlock := Suc ?p\<rparr>)"
  have less: "sint (bs_mallocedSize (objs m this)) < sint N"
    using assms(3) sizes_small [OF lt(2)] unfolding N by simp
  have nc: "new_chars (N + 10) m = Done ?p
      (m\<lparr>blocks := (blocks m)(?p := Some junk0), nextBlock := Suc ?p\<rparr>)"
    using new_chars_ok [OF lt(3)] unfolding N by (simp add: junk0_def)
  define m2 where "m2 = m1\<lparr>blocks := (blocks m1)(?p := Some (take (length s) src @ drop (length s) junk0))\<rparr>"
  have c1: "copy_loop (length s) (Some ?p) 0 (Some a) 0 m1 = Done () m2"
    using copy_loop_ok [of m1 ?p junk0 0 "length s" a src 0] a src
    by (simp add: m1_def m2_def upd_def junk0_def)
  define m3 where "m3 = m2\<lparr>blocks := (blocks m2)(a := None)\<rparr>"
  have del: "delete_chars (Some a) m2 = Done () m3"
    using a by (simp add: delete_chars_def m2_def m1_def upd_def m3_def)
  have dat: "bs_data (objs m1 this) = Some a" "bs_data (objs m2 this) = Some a" "bs_data (objs m3 this) = Some a"
    using a by (simp_all add: m3_def m2_def m1_def upd_def)
  obtain k where k: "length s = Suc k" using assms(2) by (cases s) auto
  have "copy_loop (length s) (Some ?p) (int (length s)) (Some a) 0 m3 = Fault UseAfterFree"
    unfolding k by (simp add: load_def m3_def)
  with less c1 del dat int_rounds_small [OF lt(1)] sizes_small [OF lt(1)] show ?thesis
    unfolding addToMallocedBuf_def Let_def src(3) N_def [symmetric]
    by (simp add: nc m1_def [symmetric] dat)
qed

theorem self_append_uses_freed_array_witness:
  "addToMallocedBuf 0 0 (fix_mem ''ab'' 1 []) = Fault UseAfterFree"
proof -
  have "rep (fix_mem ''ab'' 1 []) 0 ''ab''" by (simp add: fix_mem_rep)
  moreover have "sint (bs_mallocedSize (objs (fix_mem ''ab'' 1 []) 0)) < 2 * int (length ''ab'')"
    by (simp add: fix_mem_def)
  ultimately show ?thesis
    using self_append_uses_freed_array [of "fix_mem ''ab'' 1 []" 0 "''ab''"] by simp
qed

text \<open>
  Assigning an object to itself loses its contents: \<open>operator=\<close> deletes the array before it
  copies from it, so what is left is as many bytes of a fresh, uninitialised array.
\<close>

theorem self_assignment_loses_contents:
  assumes "rep m this s" and "s \<noteq> []"
  shows "\<exists>m'. assign_bs this this m = Done () m'
    \<and> toSting this m' = Done (map (junk m) [0..<length s]) m'"
proof -
  let ?p = "nextBlock m"
  let ?n = "length s"
  from assms(1) obtain src where src: "array_of m this = Some src" "?n \<le> length src" "length src < 2 ^ 30"
    "bs_dataSize (objs m this) = of_nat ?n" by (rule repD)
  with assms obtain a where a: "bs_data (objs m this) = Some a" "blocks m a = Some src" "a < ?p"
    by (cases "bs_data (objs m this)") (auto simp: array_of_def rep_def)
  have lt: "?n < 2 ^ 30" "?n < 2 ^ 31" using src(2,3) by simp_all
  define j where "j = map (junk m) [0..<?n]"
  define m1 where "m1 = m\<lparr>blocks := (blocks m)(a := None)\<rparr>"
  define m2 where "m2 = upd this (\<lambda>b. b\<lparr>bs_dataSize := of_nat ?n\<rparr>) m1"
  have nc: "new_chars (of_nat ?n) m2 = Done ?p
      (m2\<lparr>blocks := (blocks m2)(?p := Some j), nextBlock := Suc ?p\<rparr>)"
    using new_chars_ok [OF lt(2), of m2] by (simp add: j_def m2_def m1_def upd_def)
  define m3 where "m3 = upd this (\<lambda>b. b\<lparr>bs_data := Some ?p, bs_mallocedSize := of_nat ?n\<rparr>)
    (m2\<lparr>blocks := (blocks m2)(?p := Some j), nextBlock := Suc ?p\<rparr>)"
  have m3: "blocks m3 ?p = Some j" "bs_data (objs m3 this) = Some ?p" "bs_dataSize (objs m3 this) = of_nat ?n"
    "bs_mallocedSize (objs m3 this) = of_nat ?n" "nextBlock m3 = Suc ?p"
    by (simp_all add: m3_def m2_def upd_def)
  have "copy_loop ?n (Some ?p) 0 (Some ?p) 0 m3 = Done () (m3\<lparr>blocks := (blocks m3)(?p := Some j)\<rparr>)"
    using copy_loop_same [of m3 ?p j 0 ?n 0] m3(1) by (simp add: j_def)
  also have "m3\<lparr>blocks := (blocks m3)(?p := Some j)\<rparr> = m3" using m3(1) by (simp add: fun_upd_idem)
  finally have c: "copy_loop ?n (Some ?p) 0 (Some ?p) 0 m3 = Done () m3" .
  have d: "delete_chars (bs_data (objs m this)) m = Done () m1"
    using a by (simp add: delete_chars_def m1_def)
  have "bs_dataSize (objs m1 this) = of_nat ?n" using src(4) by (simp add: m1_def)
  then have "assign_bs this this m = Done () m3"
    using sizes_small [OF lt(1)]
    by (simp add: assign_bs_def d Let_def m2_def [symmetric] nc m3_def [symmetric] m3(2,3) c)
  moreover have "rep m3 this j"
    using m3 lt by (simp add: rep_def array_of_def j_def)
  ultimately show ?thesis using toSting_rep by (auto simp: j_def)
qed

theorem self_assignment_loses_contents_witness:
  "\<exists>m'. assign_bs 0 0 (fix_mem ''ab'' 0 []) = Done () m' \<and> toSting 0 m' = Done ''??'' m'"
proof -
  have "rep (fix_mem ''ab'' 0 []) 0 ''ab''" by (simp add: fix_mem_rep)
  from self_assignment_loses_contents [OF this] show ?thesis
    by (simp add: fix_mem_def upt_rec numeral_2_eq_2)
qed

text \<open>
  \<open>shiftDataNotMalloc\<close> on the object itself, meant to drop its first \<open>k\<close> bytes, copies \<open>k\<close>
  bytes too few: its loop runs up to the size it has just reduced. The last \<open>k\<close> bytes of the result
  are what was in their places before.
\<close>

theorem shift_copies_too_few:
  assumes "rep m this s" and "2 * k \<le> length s"
  shows "\<exists>m'. shiftDataNotMalloc this this (of_nat k) m = Done () m'
    \<and> toSting this m' = Done (take (length s - 2 * k) (drop k s) @ take k (drop (length s - 2 * k) s)) m'"
proof (cases "s = []")
  case True
  with assms(1,2) have "bs_dataSize (objs m this) = 0" by (auto elim: repD)
  with True assms(2) show ?thesis
    by (simp add: shiftDataNotMalloc_def toSting_def upd_def)
next
  case False
  let ?n = "length s"
  from assms(1) obtain src where src: "array_of m this = Some src" "?n \<le> length src" "s = take ?n src"
    "length src < 2 ^ 30" "bs_dataSize (objs m this) = of_nat ?n"
    "bs_mallocedSize (objs m this) = of_nat (length src)" by (rule repD)
  with assms(1) False obtain a where a: "bs_data (objs m this) = Some a" "blocks m a = Some src" "a < nextBlock m"
    by (cases "bs_data (objs m this)") (auto simp: array_of_def rep_def)
  have lt: "?n < 2 ^ 30" "?n - k < 2 ^ 30" "k < 2 ^ 30" using src(2,4) assms(2) by simp_all
  have sub: "of_nat ?n - of_nat k = (of_nat (?n - k) :: int64)" using assms(2) by (simp add: of_nat_diff)
  have sh: "nat (sint (of_nat (?n - k) :: int64) - int k) = ?n - 2 * k"
    "sint (of_nat k :: int64) = int k"
    using sizes_small [OF lt(2)] sizes_small [OF lt(3)] assms(2) by simp_all
  define m1 where "m1 = upd this (\<lambda>b. b\<lparr>bs_dataSize := of_nat (?n - k)\<rparr>) m"
  have m1: "blocks m1 a = Some src" "bs_data (objs m1 this) = Some a" using a by (simp_all add: m1_def upd_def)
  define new where "new = take (?n - 2 * k) (drop k src) @ drop (?n - 2 * k) src"
  define m2 where "m2 = m1\<lparr>blocks := (blocks m1)(a := Some new)\<rparr>"
  have "copy_loop (?n - 2 * k) (Some a) 0 (Some a) (int k) m1 = Done () m2"
    using copy_loop_same [of m1 a src k "?n - 2 * k" 0] m1 src(2) assms(2) by (simp add: m2_def new_def)
  then have run: "shiftDataNotMalloc this this (of_nat k) m = Done () m2"
    using m1 by (simp add: shiftDataNotMalloc_def Let_def src(5) sub sh m1_def [symmetric])
  let ?r = "take (?n - 2 * k) (drop k s) @ take k (drop (?n - 2 * k) s)"
  have len: "length ?r = ?n - k" using assms(2) by simp
  have "?r = take (?n - k) new"
  proof -
    have "take (?n - 2 * k) (drop k s) = take (?n - 2 * k) (drop k src)"
      using assms(2) by (subst src(3)) (simp add: drop_take take_take min_def)
    moreover have "take k (drop (?n - 2 * k) s) = take k (drop (?n - 2 * k) src)"
      using assms(2) by (subst src(3)) (simp add: drop_take take_take min_def)
    ultimately show ?thesis
      using assms(2) src(2) by (simp add: new_def)
  qed
  with len have "rep m2 this ?r"
    using src(2,4,6) a assms(2) by (auto simp: rep_def array_of_def m2_def m1_def upd_def new_def)
  with run show ?thesis using toSting_rep by blast
qed

theorem shift_copies_too_few_witness:
  "\<exists>m'. shiftDataNotMalloc 0 0 2 (fix_mem ''abcdef'' 0 []) = Done () m' \<and> toSting 0 m' = Done ''cdcd'' m'"
proof -
  have "rep (fix_mem ''abcdef'' 0 []) 0 ''abcdef''" by (simp add: fix_mem_rep)
  from shift_copies_too_few [OF this, of 2] show ?thesis by simp
qed

end
