(* ===== verification/Lab31_Cash.thy ===== *)
theory Lab31_Cash
  imports CashElement "HOL-Library.Multiset"
begin

text \<open>
  \<open>lab31/v2/cash\<close>: the cache of the single-threaded proxy and its elements. There is no lock and
  no subscriber here: one thread does everything. The bytes of an element are behind a shared
  pointer that no one else keeps, so they are a field. Elements live in a store from addresses to
  elements; an evicted element is taken off the list and never freed. The class has no constructor
  of its own, so \<open>new CashImpl()\<close> zeroes \<open>_byteInCash\<close> (unlike \<open>lab32v2\<close>). Sums with the
  unsigned \<open>dataSize\<close> are unsigned, and so are the comparisons on them. As in \<open>lab32v2\<close> the
  eviction loop increments its iterator after an \<open>erase\<close>; the model follows libstdc++, where the
  list is circular, and records in \<open>lc_endPassed\<close> that \<open>end()\<close> was incremented.
\<close>

section \<open>Elements\<close>

record CashElement_31 =
  ce_countUsers :: int32
  ce_isCashEnd :: bool
  ce_isServerConnected :: bool
  ce_hashHead :: int64
  ce_head :: string
  ce_cash :: string

definition new_CashElementImpl_31 :: "(string \<Rightarrow> int64) \<Rightarrow> string \<Rightarrow> CashElement_31" where
  "new_CashElementImpl_31 hasher heading =
     \<lparr>ce_countUsers = 0, ce_isCashEnd = False, ce_isServerConnected = False,
      ce_hashHead = hasher heading, ce_head = heading, ce_cash = []\<rparr>"

definition isCashEnd_31 :: "CashElement_31 \<Rightarrow> bool" where
  "isCashEnd_31 e = ce_isCashEnd e"

definition setIsCashEnd_31 :: "bool \<Rightarrow> CashElement_31 \<Rightarrow> CashElement_31" where
  "setIsCashEnd_31 var e = e\<lparr>ce_isCashEnd := var\<rparr>"

definition getCash_31 :: "CashElement_31 \<Rightarrow> string" where
  "getCash_31 e = ce_cash e"

text \<open>\<open>getCash()->append(s)\<close>.\<close>

definition append_getCash_31 :: "string \<Rightarrow> CashElement_31 \<Rightarrow> CashElement_31" where
  "append_getCash_31 s e = e\<lparr>ce_cash := getCash_31 e @ s\<rparr>"

definition getHash_31 :: "CashElement_31 \<Rightarrow> int64" where
  "getHash_31 e = ce_hashHead e"

definition getCountUsers_31 :: "CashElement_31 \<Rightarrow> int32" where
  "getCountUsers_31 e = ce_countUsers e"

definition addCountUsers_31 :: "CashElement_31 \<Rightarrow> CashElement_31" where
  "addCountUsers_31 e = e\<lparr>ce_countUsers := ce_countUsers e + 1\<rparr>"

definition minusCountUsers_31 :: "CashElement_31 \<Rightarrow> CashElement_31" where
  "minusCountUsers_31 e = e\<lparr>ce_countUsers := ce_countUsers e - 1\<rparr>"

definition isIsServerConnected_31 :: "CashElement_31 \<Rightarrow> bool" where
  "isIsServerConnected_31 e = ce_isServerConnected e"

definition setIsServerConnect_31 :: "bool \<Rightarrow> CashElement_31 \<Rightarrow> CashElement_31" where
  "setIsServerConnect_31 isServerConnected e = e\<lparr>ce_isServerConnected := isServerConnected\<rparr>"

definition getHead_31 :: "CashElement_31 \<Rightarrow> string" where
  "getHead_31 e = ce_head e"

lemmas cash_element_31_defs =
  isCashEnd_31_def setIsCashEnd_31_def getCash_31_def append_getCash_31_def getHash_31_def
  getCountUsers_31_def addCountUsers_31_def minusCountUsers_31_def isIsServerConnected_31_def
  setIsServerConnect_31_def getHead_31_def

section \<open>The cache\<close>

definition SIZE_EACH_CASH_ELEMENT_31 :: int64 where
  "SIZE_EACH_CASH_ELEMENT_31 = 9223372036854775000"

definition MAX_CASH_SIZE_31 :: int64 where
  "MAX_CASH_SIZE_31 = 1024 * 1024 * 1024"

record CashImpl_31 =
  lc_listCash :: "nat list"
  lc_byteInCash :: int64
  lc_store :: "nat \<Rightarrow> CashElement_31"
  lc_fresh :: nat
  lc_endPassed :: bool

definition new_CashImpl_31 :: "(nat \<Rightarrow> CashElement_31) \<Rightarrow> CashImpl_31" where
  "new_CashImpl_31 mem =
     \<lparr>lc_listCash = [], lc_byteInCash = 0, lc_store = mem, lc_fresh = 0, lc_endPassed = False\<rparr>"

fun find_hash_31 :: "(nat \<Rightarrow> CashElement_31) \<Rightarrow> int64 \<Rightarrow> nat list \<Rightarrow> nat option" where
  "find_hash_31 s hashHeading [] = None"
| "find_hash_31 s hashHeading (it # its) =
     (if getHash_31 (s it) = hashHeading then Some it else find_hash_31 s hashHeading its)"

definition findResponseInCash_31 ::
    "(string \<Rightarrow> int64) \<Rightarrow> string \<Rightarrow> CashImpl_31 \<Rightarrow> nat option \<times> CashImpl_31" where
  "findResponseInCash_31 hasher heading c =
     (case find_hash_31 (lc_store c) (hasher heading) (lc_listCash c) of
        Some it \<Rightarrow> (Some it, c\<lparr>lc_listCash := erase_first it (lc_listCash c) @ [it]\<rparr>)
      | None \<Rightarrow> (None, c))"

definition isElementInCash_31 :: "(string \<Rightarrow> int64) \<Rightarrow> string \<Rightarrow> CashImpl_31 \<Rightarrow> bool" where
  "isElementInCash_31 hasher request c =
     (case find_hash_31 (lc_store c) (hasher request) (lc_listCash c) of
        Some it \<Rightarrow> True
      | None \<Rightarrow> False)"

function evict_31 :: "(nat \<Rightarrow> CashElement_31) \<Rightarrow> int64 \<Rightarrow> nat list \<Rightarrow> nat list \<Rightarrow> int64 \<Rightarrow> bool
    \<Rightarrow> nat list \<times> int64 \<times> bool" where
  "evict_31 s dataSize pre [] b p = (pre, b, p)"
| "evict_31 s dataSize pre (it # suf) b p =
     (if sint (getCountUsers_31 (s it)) \<le> 0 then
        let b = b - size_of (getCash_31 (s it));
            b = b - size_of (getHead_31 (s it))
        in if b + dataSize < MAX_CASH_SIZE_31 then (pre @ suf, b, p)
           else (case suf of
               next # suf \<Rightarrow> evict_31 s dataSize (pre @ [next]) suf b p
             | [] \<Rightarrow> evict_31 s dataSize [] pre b True)
      else evict_31 s dataSize (pre @ [it]) suf b p)"
  by pat_completeness auto
termination
  by (relation "measures [\<lambda>(s, d, pre, suf, b, p). length pre + length suf,
        \<lambda>(s, d, pre, suf, b, p). length suf]") auto

definition addStringToCash_31 ::
    "(string \<Rightarrow> int64) \<Rightarrow> string \<Rightarrow> int64 \<Rightarrow> CashImpl_31 \<Rightarrow> nat option \<times> CashImpl_31" where
  "addStringToCash_31 hasher request dataSize c =
     (let dataSize = dataSize + size_of request;
          push = (\<lambda>c. (Some (lc_fresh c),
            c\<lparr>lc_byteInCash := lc_byteInCash c + dataSize,
              lc_store := (lc_store c)(lc_fresh c := new_CashElementImpl_31 hasher request),
              lc_fresh := Suc (lc_fresh c), lc_listCash := lc_listCash c @ [lc_fresh c]\<rparr>))
      in if lc_byteInCash c + dataSize \<ge> MAX_CASH_SIZE_31 then
           if dataSize > SIZE_EACH_CASH_ELEMENT_31 then (None, c)
           else
             let (l, b, p) = evict_31 (lc_store c) dataSize [] (lc_listCash c) (lc_byteInCash c)
                   (lc_endPassed c);
                 c = c\<lparr>lc_listCash := l, lc_byteInCash := b, lc_endPassed := p\<rparr>
             in if b + dataSize \<ge> MAX_CASH_SIZE_31 then (None, c) else push c
         else push c)"

end
