(* ===== verification/Lab31_Cash_Correct.thy ===== *)
theory Lab31_Cash_Correct
  imports Lab31_Cash CacheInterface Lru
begin

text \<open>
  The cache of \<open>lab31/v2\<close> against the contract of \<open>Cash.h\<close>: its look-up and its eviction loop are
  those of \<open>Lru\<close>, it keeps its list well formed, and it implements the interface of a response
  cache.
\<close>

section \<open>Look-up and eviction\<close>

lemma find_hash_31_key: "find_hash_31 s h l = find_key (\<lambda>a. getHash_31 (s a)) h l"
  by (induction l) auto

definition idle_31 :: "CashElement_31 \<Rightarrow> bool" where
  "idle_31 e \<longleftrightarrow> sint (getCountUsers_31 e) \<le> 0"

definition weight_31 :: "CashElement_31 \<Rightarrow> int64" where
  "weight_31 e = size_of (getCash_31 e) + size_of (getHead_31 e)"

definition room_31 :: "int64 \<Rightarrow> int64 \<Rightarrow> bool" where
  "room_31 b d \<longleftrightarrow> b + d < MAX_CASH_SIZE_31"

lemma evict_31_simps:
  "evict_31 s d pre [] b p = (pre, b, p)"
  "\<not> idle_31 (s it) \<Longrightarrow> evict_31 s d pre (it # suf) b p = evict_31 s d (pre @ [it]) suf b p"
  "idle_31 (s it) \<Longrightarrow> room_31 (b - weight_31 (s it)) d \<Longrightarrow>
     evict_31 s d pre (it # suf) b p = (pre @ suf, b - weight_31 (s it), p)"
  "idle_31 (s it) \<Longrightarrow> \<not> room_31 (b - weight_31 (s it)) d \<Longrightarrow>
     evict_31 s d pre (it # x # suf) b p = evict_31 s d (pre @ [x]) suf (b - weight_31 (s it)) p"
  "idle_31 (s it) \<Longrightarrow> \<not> room_31 (b - weight_31 (s it)) d \<Longrightarrow>
     evict_31 s d pre [it] b p = evict_31 s d [] pre (b - weight_31 (s it)) True"
  by (simp_all add: idle_31_def room_31_def weight_31_def Let_def diff_diff_eq)

declare evict_31.simps [simp del]

lemma evict_31_evict_by:
  "evict_31 s d pre suf b p
     = evict_by (\<lambda>a. idle_31 (s a)) (\<lambda>a. weight_31 (s a)) (\<lambda>b. room_31 b d) pre suf b p"
  by (induction pre suf b p rule: evict_by_induct
      [where i = "\<lambda>a. idle_31 (s a)" and w = "\<lambda>a. weight_31 (s a)" and r = "\<lambda>b. room_31 b d"])
     (simp_all add: evict_31_simps evict_by_simps)

section \<open>Adding\<close>

text \<open>
  An addition leaves a cache with some idle elements evicted (\<open>evicted_31\<close>), refuses, or appends a
  fresh element that the counter has room for.
\<close>

definition evicted_31 :: "CashImpl_31 \<Rightarrow> CashImpl_31 \<Rightarrow> bool" where
  "evicted_31 c c1 \<longleftrightarrow> lc_store c1 = lc_store c \<and> lc_fresh c1 = lc_fresh c
     \<and> subseq (lc_listCash c1) (lc_listCash c)
     \<and> (\<forall>a \<in> set (lc_listCash c) - set (lc_listCash c1). idle_31 (lc_store c a))"

definition pushed_31 :: "(string \<Rightarrow> int64) \<Rightarrow> string \<Rightarrow> int64 \<Rightarrow> CashImpl_31 \<Rightarrow> CashImpl_31" where
  "pushed_31 h r d c = c\<lparr>lc_byteInCash := lc_byteInCash c + d,
     lc_store := (lc_store c)(lc_fresh c := new_CashElementImpl_31 h r),
     lc_fresh := Suc (lc_fresh c), lc_listCash := lc_listCash c @ [lc_fresh c]\<rparr>"

lemma evicted_31_refl [simp]: "evicted_31 c c"
  by (simp add: evicted_31_def)

lemma addStringToCash_31_cases:
  obtains (refused) c1 where "evicted_31 c c1" and "addStringToCash_31 h r n c = (None, c1)"
  | (added) c1 where "evicted_31 c c1" and "room_31 (lc_byteInCash c1) (n + size_of r)"
      and "addStringToCash_31 h r n c = (Some (lc_fresh c1), pushed_31 h r (n + size_of r) c1)"
proof -
  obtain l b p where ev: "evict_31 (lc_store c) (n + size_of r) [] (lc_listCash c) (lc_byteInCash c)
      (lc_endPassed c) = (l, b, p)"
    by (metis prod_cases3)
  let ?c1 = "c\<lparr>lc_listCash := l, lc_byteInCash := b, lc_endPassed := p\<rparr>"
  note by_ev = ev [unfolded evict_31_evict_by]
  have sub: "subseq l (lc_listCash c)"
    using evict_by_subseq [of "\<lambda>a. idle_31 (lc_store c a)" "\<lambda>a. weight_31 (lc_store c a)"
        "\<lambda>b. room_31 b (n + size_of r)" "[]" "lc_listCash c"]
    by (metis append_Nil by_ev fst_conv)
  have "idle_31 (lc_store c a)" if "a \<in> set (lc_listCash c) - set l" for a
    using evict_by_set(3) [OF by_ev, of a] that by blast
  with sub have ev1: "evicted_31 c ?c1" by (simp add: evicted_31_def)
  let ?d = "n + size_of r"
  have eq: "addStringToCash_31 h r n c =
      (if room_31 (lc_byteInCash c) ?d then (Some (lc_fresh c), pushed_31 h r ?d c)
       else if ?d > SIZE_EACH_CASH_ELEMENT_31 then (None, c)
       else if room_31 b ?d then (Some (lc_fresh ?c1), pushed_31 h r ?d ?c1) else (None, ?c1))"
    unfolding addStringToCash_31_def Let_def room_31_def pushed_31_def ev not_less [symmetric]
    by simp
  consider "room_31 (lc_byteInCash c) ?d"
    | "addStringToCash_31 h r n c = (None, c)"
    | "room_31 b ?d" "addStringToCash_31 h r n c = (Some (lc_fresh ?c1), pushed_31 h r ?d ?c1)"
    | "addStringToCash_31 h r n c = (None, ?c1)"
    unfolding eq by argo
  then show ?thesis
  proof cases
    case 1
    then show ?thesis by (intro added [of c]) (simp_all add: eq)
  next
    case 2
    then show ?thesis by (rule refused [OF evicted_31_refl])
  next
    case 3
    then show ?thesis by (intro added [of ?c1] ev1) simp_all
  next
    case 4
    then show ?thesis by (rule refused [OF ev1])
  qed
qed

definition wf_cash_31 :: "CashImpl_31 \<Rightarrow> bool" where
  "wf_cash_31 c \<longleftrightarrow> distinct (lc_listCash c) \<and> (\<forall>a \<in> set (lc_listCash c). a < lc_fresh c)"

definition cash_invar_31 :: "CashImpl_31 \<Rightarrow> bool" where
  "cash_invar_31 c \<longleftrightarrow> wf_cash_31 c \<and> distinct (map (\<lambda>a. getHash_31 (lc_store c a)) (lc_listCash c))"

lemma isElementInCash_31_iff:
  "isElementInCash_31 h r c \<longleftrightarrow> (\<exists>a \<in> set (lc_listCash c). getHash_31 (lc_store c a) = h r)"
  using find_key_None_iff [of "\<lambda>a. getHash_31 (lc_store c a)" "h r" "lc_listCash c"]
  by (auto simp: isElementInCash_31_def find_hash_31_key split: option.splits dest: find_key_Some)

lemma evicted_31_invar: "evicted_31 c c1 \<Longrightarrow> cash_invar_31 c \<Longrightarrow> cash_invar_31 c1"
  using subseq_wf [of "lc_listCash c1" "lc_listCash c"]
  by (auto simp: evicted_31_def cash_invar_31_def wf_cash_31_def intro: distinct_map_subseq)

lemma evicted_31_absent:
  "evicted_31 c c1 \<Longrightarrow> \<not> isElementInCash_31 h r c \<Longrightarrow> \<not> isElementInCash_31 h r c1"
  using subseq_sub [of "lc_listCash c1" "lc_listCash c"]
  by (auto simp: evicted_31_def isElementInCash_31_iff)

lemma pushed_31_hashes:
  assumes "wf_cash_31 c"
  shows "map (\<lambda>a. getHash_31 (lc_store (pushed_31 h r d c) a)) (lc_listCash (pushed_31 h r d c))
     = map (\<lambda>a. getHash_31 (lc_store c a)) (lc_listCash c) @ [h r]"
  using assms by (auto simp: pushed_31_def wf_cash_31_def getHash_31_def new_CashElementImpl_31_def)

lemma pushed_31_invar:
  assumes "cash_invar_31 c" and "\<not> isElementInCash_31 h r c"
  shows "cash_invar_31 (pushed_31 h r d c)"
proof -
  from assms(1) have wf: "wf_cash_31 c" by (simp add: cash_invar_31_def)
  then have "wf_cash_31 (pushed_31 h r d c)"
    by (auto simp: wf_cash_31_def pushed_31_def less_SucI)
  moreover have "h r \<notin> set (map (\<lambda>a. getHash_31 (lc_store c a)) (lc_listCash c))"
    using assms(2) by (auto simp: isElementInCash_31_iff)
  ultimately show ?thesis
    using assms(1) by (simp add: cash_invar_31_def pushed_31_hashes [OF wf] del: set_map)
qed

lemma addStringToCash_31_invar:
  assumes "cash_invar_31 c" and "\<not> isElementInCash_31 h r c"
  shows "cash_invar_31 (snd (addStringToCash_31 h r n c))"
  by (cases rule: addStringToCash_31_cases [of c h r n])
     (use assms evicted_31_invar evicted_31_absent pushed_31_invar in auto)

lemma pushed_31_lookup:
  assumes "cash_invar_31 c" and "\<not> isElementInCash_31 h r c"
  shows "fst (findResponseInCash_31 h r (pushed_31 h r d c)) = Some (lc_fresh c)"
proof -
  have inv: "cash_invar_31 (pushed_31 h r d c)" using assms by (rule pushed_31_invar)
  have "lc_fresh c \<in> set (lc_listCash (pushed_31 h r d c))"
    and "getHash_31 (lc_store (pushed_31 h r d c) (lc_fresh c)) = h r"
    by (simp_all add: pushed_31_def getHash_31_def new_CashElementImpl_31_def)
  with inv find_key_unique [of "\<lambda>a. getHash_31 (lc_store (pushed_31 h r d c) a)"
      "lc_listCash (pushed_31 h r d c)" "lc_fresh c"]
  have "find_hash_31 (lc_store (pushed_31 h r d c)) (h r) (lc_listCash (pushed_31 h r d c))
      = Some (lc_fresh c)"
    by (simp add: cash_invar_31_def find_hash_31_key)
  then show ?thesis by (simp add: findResponseInCash_31_def)
qed

lemma findResponseInCash_31_again:
  assumes "cash_invar_31 c"
  shows "find_hash_31 (lc_store (snd (findResponseInCash_31 h r c))) g
      (lc_listCash (snd (findResponseInCash_31 h r c))) = find_hash_31 (lc_store c) g (lc_listCash c)"
  using assms find_key_moved [of "\<lambda>a. getHash_31 (lc_store c a)" "lc_listCash c"]
  by (auto simp: findResponseInCash_31_def find_hash_31_key cash_invar_31_def erase_first_remove1
      split: option.splits)

lemma findResponseInCash_31_invar:
  "cash_invar_31 c \<Longrightarrow> cash_invar_31 (snd (findResponseInCash_31 h r c))"
  by (auto simp: cash_invar_31_def wf_cash_31_def findResponseInCash_31_def erase_first_remove1
      find_hash_31_key distinct_map inj_on_def split: option.splits dest: find_key_Some)

interpretation lru31: response_cache "isElementInCash_31 h" "findResponseInCash_31 h"
  "\<lambda>k n c. case addStringToCash_31 h k n c of (r, c') \<Rightarrow> Done r c'" cash_invar_31 for h
proof (unfold_locales, goal_cases)
  case (1 c k)
  then show ?case
    by (auto simp: isElementInCash_31_def findResponseInCash_31_def split: option.splits)
next
  case (2 c k' k)
  then show ?case by (simp add: isElementInCash_31_def findResponseInCash_31_again)
next
  case (3 c k)
  then show ?case by (rule findResponseInCash_31_invar)
next
  case (4 c k)
  then have "fst (findResponseInCash_31 h k c') = find_hash_31 (lc_store c') (h k) (lc_listCash c')" for c'
    by (simp add: findResponseInCash_31_def split: option.splits)
  with 4 show ?case by (simp add: findResponseInCash_31_again)
next
  case (5 c k n r c')
  then show ?case using addStringToCash_31_invar [of c h k n] by (auto split: prod.splits)
next
  case (6 c k n e c')
  then show ?case
    by (cases rule: addStringToCash_31_cases [of c h k n])
       (use evicted_31_invar evicted_31_absent pushed_31_lookup in auto)
qed

lemma evicted_31_busy:
  "evicted_31 c c1 \<Longrightarrow> a \<in> set (lc_listCash c) \<Longrightarrow> 0 < sint (getCountUsers_31 (lc_store c a)) \<Longrightarrow> a \<in> set (lc_listCash c1)"
  unfolding evicted_31_def idle_31_def by (metis DiffI not_less)

text \<open>
  C22: adding to the cache of the single-threaded proxy, for a request that is not in it, keeps the
  list free of duplicate addresses and hashes, whatever it evicts, and never throws out an element
  that has users; an element it returns is fresh and is what the next look-ups of that request find.
\<close>

theorem cache_31_add:
  assumes "cash_invar_31 c" "\<not> isElementInCash_31 h r c" "addStringToCash_31 h r n c = (x, c')"
  shows "cash_invar_31 c'
    \<and> (\<forall>a \<in> set (lc_listCash c). sint (getCountUsers_31 (lc_store c a)) > 0 \<longrightarrow> a \<in> set (lc_listCash c'))
    \<and> (\<forall>e. x = Some e \<longrightarrow> e \<notin> set (lc_listCash c) \<and> isElementInCash_31 h r c'
        \<and> (\<exists>c''. findResponseInCash_31 h r c' = (Some e, c'') \<and> fst (findResponseInCash_31 h r c'') = Some e))"
proof -
  have add: "(case addStringToCash_31 h r n c of (r, c') \<Rightarrow> Done r c') = Done x c'" using assms(3) by simp
  have "a \<in> set (lc_listCash c')" if "a \<in> set (lc_listCash c)" "sint (getCountUsers_31 (lc_store c a)) > 0" for a
    by (cases rule: addStringToCash_31_cases [of c h r n])
       (use assms(3) that evicted_31_busy in \<open>auto simp: pushed_31_def\<close>)
  moreover have "e \<notin> set (lc_listCash c)" if "x = Some e" for e
    by (cases rule: addStringToCash_31_cases [of c h r n])
       (use assms(1,3) that in \<open>auto simp: evicted_31_def cash_invar_31_def wf_cash_31_def\<close>)
  ultimately show ?thesis
    using lru31.add_invar [OF assms(1,2) add] lru31.added_is_found [OF assms(1,2), of n _ c'] add by blast
qed

theorem cache_31_add_witness:
  "\<exists>c'. addStringToCash_31 (\<lambda>_. 7) ''GET'' 10 (new_CashImpl_31 (\<lambda>_. new_CashElementImpl_31 (\<lambda>_. 0) [])) = (Some 0, c')
     \<and> isElementInCash_31 (\<lambda>_. 7) ''GET'' c'"
proof -
  let ?c = "new_CashImpl_31 (\<lambda>_. new_CashElementImpl_31 (\<lambda>_. 0) [])"
  have "cash_invar_31 ?c" "\<not> isElementInCash_31 (\<lambda>_. 7) ''GET'' ?c"
    by (simp_all add: cash_invar_31_def wf_cash_31_def isElementInCash_31_iff new_CashImpl_31_def)
  moreover have "fst (addStringToCash_31 (\<lambda>_. 7) ''GET'' 10 ?c) = Some 0"
    by code_simp
  then obtain c' where "addStringToCash_31 (\<lambda>_. 7) ''GET'' 10 ?c = (Some 0, c')" by (metis prod.collapse)
  ultimately show ?thesis using cache_31_add by blast
qed

end
