(* ===== verification/Lab31_Parser.thy ===== *)
theory Lab31_Parser
  imports Parser
begin

text \<open>
  \<open>lab31/v2/parser\<close>: the heading parser of the single-threaded proxy. Its enumerations and its
  result class have the values and members of \<open>lab32v2\<close>'s, so they are synonyms of those types;
  the patterns of \<open>Constants.h\<close> and the functions of \<open>ParserImpl.cpp\<close> are translated here on
  their own. The lemmas show that they agree with \<open>lab32v2\<close>'s, so that what is proved of one
  parser holds of the other. Log lines and console output are left out.
\<close>

section \<open>Types\<close>

type_synonym TypeRequestAndResponse_31 = TypeRequestAndResponse

type_synonym ResultPars_31 = ResultPars

type_synonym ResultParseHeading_31 = ResultParseHeading

definition new_ResultParseHeading_31 :: ResultParseHeading_31 where
  "new_ResultParseHeading_31 = \<lparr>hostName = [], contentLength = 0, rtype = INVALID,
     responseWithError = False, port = 80, haveContentLength = False\<rparr>"

section \<open>Patterns\<close>

definition REGEX_FOR_HOST_AND_PORT_31 :: re where
  "REGEX_FOR_HOST_AND_PORT_31 =
     Seq (Lit ''Host: '')
      (Seq (Group 1 (Star (Cls host_char)))
           (Star (Group 2 (Seq (Cls (\<lambda>c. c = CHR '':'')) (Plus (Group 3 (Cls is_digit)))))))"

definition REGEX_FOR_CONTENT_LENGTH_31 :: re where
  "REGEX_FOR_CONTENT_LENGTH_31 =
     Seq (Lit ''Content-Length: '') (Group 1 (Star (Cls is_digit)))"

section \<open>Searches\<close>

definition findEndHeading_31 :: "string \<Rightarrow> ResultPars_31 \<times> int32" where
  "findEndHeading_31 buf =
     (let resultFinding = (ucast (str_find buf [CHR 0x0D, CHR 0x0A, CHR 0x0D, CHR 0x0A]) :: int32)
      in if scast resultFinding = npos then (NOTHING, -1)
         else (END_HEADING, resultFinding + 4))"

definition findEndBody_31 :: "string \<Rightarrow> ResultPars_31 \<times> int32" where
  "findEndBody_31 buffer =
     (let resultFinding =
        (ucast (str_find buffer [CHR ''0'', CHR 0x0D, CHR 0x0A, CHR 0x0D, CHR 0x0A]) :: int32)
      in if scast resultFinding = npos then (NOTHING, -1)
         else (END_BODY, resultFinding + 5))"

definition findHostAndPort_31 ::
    "ResultParseHeading_31 \<Rightarrow> string \<Rightarrow> exn + ResultParseHeading_31" where
  "findHostAndPort_31 result buf =
     (case regex_search REGEX_FOR_HOST_AND_PORT_31 buf of
        Some resRegex \<Rightarrow>
          if match_size REGEX_FOR_HOST_AND_PORT_31 = 2
          then Inr (result\<lparr>hostName := sub_str resRegex 1\<rparr>)
          else
            let result = result\<lparr>hostName := sub_str resRegex 1\<rparr>
            in if length (sub_str resRegex 2) > 1
               then Inr (result\<lparr>port := atoi (drop 1 (sub_str resRegex 2))\<rparr>)
               else Inr (result\<lparr>port := 80\<rparr>)
      | None \<Rightarrow> Inl (ParseException ''incorrect heading''))"

definition findContentLength_31 :: "ResultParseHeading_31 \<Rightarrow> string \<Rightarrow> ResultParseHeading_31" where
  "findContentLength_31 result buf =
     (case regex_search REGEX_FOR_CONTENT_LENGTH_31 buf of
        Some resRegex \<Rightarrow>
          if match_size REGEX_FOR_CONTENT_LENGTH_31 = 2
          then result\<lparr>contentLength := scast (atoi (sub_str resRegex 1)), haveContentLength := True\<rparr>
          else result
      | None \<Rightarrow> result\<lparr>haveContentLength := False\<rparr>)"

section \<open>Headings\<close>

definition parsingRequest_31 :: "string \<Rightarrow> string \<Rightarrow> TypeRequestAndResponse_31" where
  "parsingRequest_31 buf host = NOT_GET_REQUEST"

definition parsingHeading_31 :: "string \<Rightarrow> exn + ResultParseHeading_31" where
  "parsingHeading_31 heading =
     (let result = new_ResultParseHeading_31
      in if length heading > 3 then
           let result = (if take 3 heading = ''GET'' then result\<lparr>rtype := GET_REQUEST\<rparr>
                         else result\<lparr>rtype := NOT_GET_REQUEST\<rparr>)
           in findHostAndPort_31 (findContentLength_31 result heading) heading
         else Inl (ParseException ''incorrect heading''))"

definition parsingResponseHeading_31 :: "string \<Rightarrow> ResultParseHeading_31" where
  "parsingResponseHeading_31 heading =
     (let result = new_ResultParseHeading_31;
          statusResponse = (ucast (str_find heading ''HTTP/1.1 200 OK'') :: int32)
      in if scast statusResponse = npos then
           let test = (ucast (str_find heading ''200 OK'') :: int32)
           in if scast test \<noteq> npos then
                findContentLength_31 (result\<lparr>rtype := NORMAL_RESPONSE, responseWithError := False\<rparr>) heading
              else
                findContentLength_31 (result\<lparr>rtype := INVALID, responseWithError := True\<rparr>) heading
         else
           findContentLength_31 (result\<lparr>rtype := NORMAL_RESPONSE, responseWithError := False\<rparr>) heading)"

section \<open>Agreement with \<open>lab32v2\<close>\<close>

lemma patterns_31:
  "REGEX_FOR_HOST_AND_PORT_31 = REGEX_FOR_HOST_AND_PORT"
  "REGEX_FOR_CONTENT_LENGTH_31 = REGEX_FOR_CONTENT_LENGTH"
  by (simp_all add: REGEX_FOR_HOST_AND_PORT_31_def REGEX_FOR_HOST_AND_PORT_def host_pattern_def
      port_pattern_def REGEX_FOR_CONTENT_LENGTH_31_def REGEX_FOR_CONTENT_LENGTH_def length_pattern_def)

lemma searches_31:
  "findEndHeading_31 = findEndHeading"
  "findEndBody_31 = findEndBody"
  "findHostAndPort_31 = findHostAndPort"
  "findContentLength_31 = findContentLength"
  unfolding fun_eq_iff findEndHeading_31_def findEndHeading_def findEndBody_31_def findEndBody_def
    findHostAndPort_31_def findHostAndPort_def findContentLength_31_def findContentLength_def
    patterns_31 by simp_all

lemma headings_31:
  "new_ResultParseHeading_31 = new_ResultParseHeading"
  "parsingHeading_31 = parsingHeading"
  "parsingResponseHeading_31 = parsingResponseHeading"
  unfolding fun_eq_iff new_ResultParseHeading_31_def new_ResultParseHeading_def parsingHeading_31_def
    parsingHeading_def parsingResponseHeading_31_def parsingResponseHeading_def searches_31 Let_def
  by simp_all

end
