(* ===== verification/Lab31_Buffer.thy ===== *)
theory Lab31_Buffer
  imports Lab31_Parser Lab31_Cash Buffer
begin

text \<open>
  \<open>lab31/v2/buffer\<close>: the state machine of one exchange in the single-threaded proxy. The record
  has the members of \<open>BufferImpl.h\<close>. \<open>_lengthBody\<close>, the bytes of a body still to come, is
  unsigned: it is never below zero, so the tests \<open>_lengthBody <= 0\<close> hold only at zero. The cache
  the buffer points to is part of the state a method runs on. Console and log output are left out,
  and so is the destructor.
\<close>

section \<open>State\<close>

type_synonym StatusHttp_31 = StatusHttp

definition BUF_SIZE_31 :: int64 where
  "BUF_SIZE_31 = 1024 * 1024"

record Buffer_31 =
  f_statusClient :: StatusHttp_31
  f_statusHttpServer :: StatusHttp_31
  f_requestHeading :: string
  f_buf :: string
  f_isClientConnect :: bool
  f_isServerConnect :: bool
  f_sendingString :: string
  f_isReadyToSend :: bool
  f_isEndSend :: bool
  f_isReadyConnectHttpServer :: bool
  f_lengthBody :: int64
  f_resultParseHeading :: "ResultParseHeading_31 option"
  f_isHaveContentLengthResponse :: bool
  f_isAddDataToCash :: bool
  f_isDataGetCash :: bool
  f_countByteReadFromCash :: int64
  f_cashElement :: "nat option"
  f_error :: bool

definition new_BufferImpl_31 :: Buffer_31 where
  "new_BufferImpl_31 = \<lparr>f_statusClient = WRITE_REQUEST_HEADING, f_statusHttpServer = READ_REQUEST,
     f_requestHeading = [], f_buf = [], f_isClientConnect = False, f_isServerConnect = False,
     f_sendingString = [], f_isReadyToSend = False, f_isEndSend = False,
     f_isReadyConnectHttpServer = False, f_lengthBody = 0, f_resultParseHeading = None,
     f_isHaveContentLengthResponse = False, f_isAddDataToCash = False, f_isDataGetCash = False,
     f_countByteReadFromCash = 0, f_cashElement = None, f_error = False\<rparr>"

record BufCtx_31 =
  bx_buf :: Buffer_31
  bx_cash :: CashImpl_31

definition put_buf :: "Buffer_31 \<Rightarrow> BufCtx_31 \<Rightarrow> BufCtx_31" where
  "put_buf b x = x\<lparr>bx_buf := b\<rparr>"

text \<open>A call through \<open>_cashElement\<close>.\<close>

definition ask_element_31 :: "(CashElement_31 \<Rightarrow> 'a) \<Rightarrow> BufCtx_31 \<Rightarrow> ('a, BufCtx_31) outcome" where
  "ask_element_31 f x = (case f_cashElement (bx_buf x) of
     None \<Rightarrow> Fault NullDereference
   | Some a \<Rightarrow> Done (f (lc_store (bx_cash x) a)) x)"

definition on_element_31 :: "(CashElement_31 \<Rightarrow> CashElement_31) \<Rightarrow> BufCtx_31 \<Rightarrow> (unit, BufCtx_31) outcome" where
  "on_element_31 f x = (case f_cashElement (bx_buf x) of
     None \<Rightarrow> Fault NullDereference
   | Some a \<Rightarrow>
       let c = bx_cash x
       in Done () (x\<lparr>bx_cash := c\<lparr>lc_store := (lc_store c)(a := f (lc_store c a))\<rparr>\<rparr>))"

section \<open>Accessors\<close>

definition isReadyConnectHttpServer_31 :: "Buffer_31 \<Rightarrow> bool" where
  "isReadyConnectHttpServer_31 b = f_isReadyConnectHttpServer b"

definition setReadyConnectHttpServer_31 :: "bool \<Rightarrow> Buffer_31 \<Rightarrow> Buffer_31" where
  "setReadyConnectHttpServer_31 value b = b\<lparr>f_isReadyConnectHttpServer := value\<rparr>"

definition getStatusClient_31 :: "Buffer_31 \<Rightarrow> StatusHttp_31" where
  "getStatusClient_31 b = f_statusClient b"

definition setStatusServer_31 :: "StatusHttp_31 \<Rightarrow> Buffer_31 \<Rightarrow> Buffer_31" where
  "setStatusServer_31 statusHttp b = b\<lparr>f_statusHttpServer := statusHttp\<rparr>"

definition isSendEnd_31 :: "Buffer_31 \<Rightarrow> bool" where
  "isSendEnd_31 b = f_isEndSend b"

definition getParseResult_31 :: "Buffer_31 \<Rightarrow> ResultParseHeading_31 option" where
  "getParseResult_31 b = f_resultParseHeading b"

definition getStatusHttpServer_31 :: "Buffer_31 \<Rightarrow> StatusHttp_31" where
  "getStatusHttpServer_31 b = f_statusHttpServer b"

definition isIsAddDataToCash_31 :: "Buffer_31 \<Rightarrow> bool" where
  "isIsAddDataToCash_31 b = f_isAddDataToCash b"

definition isIsDataGetCash_31 :: "Buffer_31 \<Rightarrow> bool" where
  "isIsDataGetCash_31 b = f_isDataGetCash b"

definition getCashElement_31 :: "Buffer_31 \<Rightarrow> nat option" where
  "getCashElement_31 b = f_cashElement b"

definition setStatusClient_31 :: "StatusHttp_31 \<Rightarrow> Buffer_31 \<Rightarrow> Buffer_31" where
  "setStatusClient_31 statusHttp b = b\<lparr>f_statusClient := statusHttp\<rparr>"

definition isIsClientConnect_31 :: "Buffer_31 \<Rightarrow> bool" where
  "isIsClientConnect_31 b = f_isClientConnect b"

definition setIsClientConnect_31 :: "bool \<Rightarrow> Buffer_31 \<Rightarrow> Buffer_31" where
  "setIsClientConnect_31 isClientConnect b = b\<lparr>f_isClientConnect := isClientConnect\<rparr>"

definition isIsServerConnect_31 :: "Buffer_31 \<Rightarrow> bool" where
  "isIsServerConnect_31 b = f_isServerConnect b"

definition setIsServerConnect_buf_31 :: "bool \<Rightarrow> Buffer_31 \<Rightarrow> Buffer_31" where
  "setIsServerConnect_buf_31 isServerConnect b = b\<lparr>f_isServerConnect := isServerConnect\<rparr>"

lemmas buffer_accessors_31 =
  isReadyConnectHttpServer_31_def setReadyConnectHttpServer_31_def getStatusClient_31_def
  setStatusServer_31_def isSendEnd_31_def getParseResult_31_def getStatusHttpServer_31_def
  isIsAddDataToCash_31_def isIsDataGetCash_31_def getCashElement_31_def setStatusClient_31_def
  isIsClientConnect_31_def setIsClientConnect_31_def isIsServerConnect_31_def
  setIsServerConnect_buf_31_def

section \<open>Reading from the two sockets\<close>

definition parsHead_31 :: "BufCtx_31 \<Rightarrow> (unit, BufCtx_31) outcome" where
  "parsHead_31 x =
     (let b = bx_buf x
      in case parsingHeading_31 (f_requestHeading b) of
           Inr r \<Rightarrow> Done () (put_buf (b\<lparr>f_resultParseHeading := Some r\<rparr>) x)
         | Inl (ParseException ex) \<Rightarrow>
             Throws (ParseException ''incorrect heading'')
               (put_buf (b\<lparr>f_buf := ''incorrect heading'' @ [CHR 0x0D, CHR 0x0A],
                  f_statusClient := READ_RESPONSE, f_isReadyToSend := True,
                  f_isEndSend := True, f_error := True\<rparr>) x)
         | Inl ex \<Rightarrow> Throws ex x)"

text \<open>What \<open>wrightRequestHeading\<close> does once the heading is parsed.\<close>

definition serveRequest_31 :: "(string \<Rightarrow> int64) \<Rightarrow> BufCtx_31 \<Rightarrow> (unit, BufCtx_31) outcome" where
  "serveRequest_31 hasher x =
     (if isElementInCash_31 hasher (f_requestHeading (bx_buf x)) (bx_cash x) then
        let b = (bx_buf x)\<lparr>f_isDataGetCash := True\<rparr>;
            (element, c) = findResponseInCash_31 hasher (f_requestHeading b) (bx_cash x);
            x = x\<lparr>bx_buf := b\<lparr>f_cashElement := element\<rparr>, bx_cash := c\<rparr>
        in bind (on_element_31 addCountUsers_31 x) (\<lambda>_ x.
          Done () (put_buf ((bx_buf x)\<lparr>f_buf := [], f_statusClient := READ_RESPONSE\<rparr>) x))
      else
        let b = (bx_buf x)\<lparr>f_isReadyConnectHttpServer := True\<rparr>
        in case f_resultParseHeading b of
             None \<Rightarrow> Fault NullDereference
           | Some heading \<Rightarrow>
               if rtype heading = GET_REQUEST then
                 Done () (put_buf (b\<lparr>f_isReadyToSend := True, f_isEndSend := True\<rparr>) x)
               else
                 let left = contentLength heading - (size_of (f_buf b) - size_of (f_requestHeading b));
                     b = b\<lparr>f_isReadyToSend := True, f_statusClient := WRITE_REQUEST_BODY,
                           f_lengthBody := left\<rparr>
                 in Done () (put_buf (if left \<le> 0 then b\<lparr>f_isEndSend := True\<rparr> else b) x))"

definition wrightRequestHeading_31 :: "(string \<Rightarrow> int64) \<Rightarrow> BufCtx_31 \<Rightarrow> (unit, BufCtx_31) outcome" where
  "wrightRequestHeading_31 hasher x =
     (let b = bx_buf x; (found, posEndHeading) = findEndHeading_31 (f_buf b)
      in if found = END_HEADING then
           bind (parsHead_31 (put_buf (b\<lparr>f_requestHeading := substr0 (f_buf b) posEndHeading\<rparr>) x))
             (\<lambda>_ x. serveRequest_31 hasher x)
         else Done () x)"

definition wrightRequestBody_31 :: "string \<Rightarrow> BufCtx_31 \<Rightarrow> (unit, BufCtx_31) outcome" where
  "wrightRequestBody_31 binaryString x =
     (let b = bx_buf x; left = f_lengthBody b - size_of binaryString;
          b = b\<lparr>f_isReadyToSend := True, f_lengthBody := left\<rparr>
      in Done () (put_buf (if left \<le> 0 then b\<lparr>f_isEndSend := True\<rparr> else b) x))"

definition isCashingData_31 :: "ResultParseHeading_31 \<Rightarrow> BufCtx_31 \<Rightarrow> (bool, BufCtx_31) outcome" where
  "isCashingData_31 heading x =
     (if \<not> responseWithError heading
         \<and> size_of (f_buf (bx_buf x)) + contentLength heading < SIZE_EACH_CASH_ELEMENT_31
      then case f_resultParseHeading (bx_buf x) of
             None \<Rightarrow> Fault NullDereference
           | Some request \<Rightarrow> Done (rtype request = GET_REQUEST \<and> haveContentLength heading) x
      else Done False x)"

text \<open>\<open>wrightResponseHeading\<close> in its two parts: the cache entry, then the body that follows.\<close>

definition addResponseToCash_31 ::
    "(string \<Rightarrow> int64) \<Rightarrow> string \<Rightarrow> ResultParseHeading_31 \<Rightarrow> BufCtx_31 \<Rightarrow> (unit, BufCtx_31) outcome" where
  "addResponseToCash_31 hasher responseHead heading x =
     bind (isCashingData_31 heading x) (\<lambda>cashing x.
       if cashing \<and> \<not> isElementInCash_31 hasher (f_requestHeading (bx_buf x)) (bx_cash x)
       then
         let (element, c) = addStringToCash_31 hasher (f_requestHeading (bx_buf x))
               (contentLength heading + size_of responseHead) (bx_cash x);
             b = (bx_buf x)\<lparr>f_cashElement := element\<rparr>
         in if element \<noteq> None then
              let x = x\<lparr>bx_cash := c, bx_buf := b\<lparr>f_isAddDataToCash := True\<rparr>\<rparr>
              in bind (on_element_31 (append_getCash_31 (f_buf b)) x) (\<lambda>_ x.
                 bind (on_element_31 (setIsCashEnd_31 False) x) (\<lambda>_ x.
                 on_element_31 (setIsServerConnect_31 True) x))
            else Done () (x\<lparr>bx_cash := c, bx_buf := b\<lparr>f_isAddDataToCash := False\<rparr>\<rparr>)
       else Done () x)"

definition startResponseBody_31 :: "string \<Rightarrow> ResultParseHeading_31 \<Rightarrow> BufCtx_31 \<Rightarrow> (unit, BufCtx_31) outcome" where
  "startResponseBody_31 responseHead heading x =
     (let b = (bx_buf x)\<lparr>f_isReadyToSend := True, f_statusHttpServer := WRITE_RESPONSE_BODY,
            f_isHaveContentLengthResponse := haveContentLength heading\<rparr>
      in if haveContentLength heading then
           let left = contentLength heading - (size_of (f_buf b) - size_of responseHead);
               b = b\<lparr>f_lengthBody := left\<rparr>
           in if left \<le> 0 then
                let x = put_buf (b\<lparr>f_isEndSend := True\<rparr>) x
                in if f_isAddDataToCash b then on_element_31 (setIsCashEnd_31 True) x else Done () x
              else Done () (put_buf b x)
         else if fst (findEndBody_31 (f_buf b)) = END_BODY
              then Done () (put_buf (b\<lparr>f_isEndSend := True\<rparr>) x)
              else Done () (put_buf b x))"

definition wrightResponseHeading_31 :: "(string \<Rightarrow> int64) \<Rightarrow> BufCtx_31 \<Rightarrow> (unit, BufCtx_31) outcome" where
  "wrightResponseHeading_31 hasher x =
     (let b = bx_buf x; (found, posEndHeading) = findEndHeading_31 (f_buf b)
      in if found = END_HEADING then
           let responseHead = substr0 (f_buf b) posEndHeading;
               heading = parsingResponseHeading_31 responseHead
           in bind (addResponseToCash_31 hasher responseHead heading x) (\<lambda>_ x.
                startResponseBody_31 responseHead heading x)
         else Done () x)"

definition wrightResponseBody_31 :: "string \<Rightarrow> BufCtx_31 \<Rightarrow> (unit, BufCtx_31) outcome" where
  "wrightResponseBody_31 binaryString x =
     (let x = put_buf ((bx_buf x)\<lparr>f_isReadyToSend := True\<rparr>) x
      in bind (if f_isAddDataToCash (bx_buf x)
               then on_element_31 (append_getCash_31 binaryString) x else Done () x) (\<lambda>_ x.
         let b = bx_buf x
         in if f_isHaveContentLengthResponse b then
              let left = f_lengthBody b - size_of binaryString; b = b\<lparr>f_lengthBody := left\<rparr>
              in if left \<le> 0 then
                   let x = put_buf (b\<lparr>f_isEndSend := True\<rparr>) x
                   in if f_isAddDataToCash b then on_element_31 (setIsCashEnd_31 True) x else Done () x
                 else Done () (put_buf b x)
            else if fst (findEndBody_31 (f_buf b)) = END_BODY
                 then Done () (put_buf (b\<lparr>f_isEndSend := True\<rparr>) x)
                 else Done () x))"

definition readFromSocket_31 :: "(string \<Rightarrow> int64) \<Rightarrow> string \<Rightarrow> BufCtx_31 \<Rightarrow> (unit, BufCtx_31) outcome" where
  "readFromSocket_31 hasher binaryString x =
     (let b = bx_buf x; b = b\<lparr>f_buf := f_buf b @ binaryString\<rparr>; x = put_buf b x
      in if f_statusClient b = WRITE_REQUEST_HEADING then wrightRequestHeading_31 hasher x
         else if f_statusClient b = WRITE_REQUEST_BODY then wrightRequestBody_31 binaryString x
         else if f_statusHttpServer b = WRITE_RESPONSE_HEADING then wrightResponseHeading_31 hasher x
         else if f_statusHttpServer b = WRITE_RESPONSE_BODY then wrightResponseBody_31 binaryString x
         else Done () x)"

section \<open>Sending to the two sockets\<close>

text \<open>
  \<open>resize\<close> of the target to \<open>n\<close> bytes followed by \<open>memcpy\<close> of as many from position \<open>i\<close> of the
  source: it overwrites the whole target, and must not read past the end of the source.
\<close>

definition resize_copy :: "nat \<Rightarrow> string \<Rightarrow> nat \<Rightarrow> string option" where
  "resize_copy n source i = (if i + n \<le> length source then Some (take n (drop i source)) else None)"

definition copied :: "string option \<Rightarrow> BufCtx_31 \<Rightarrow> (string, BufCtx_31) outcome" where
  "copied r x = (case r of None \<Rightarrow> Fault OutOfBounds | Some s \<Rightarrow> Done s x)"

definition sendBuf_31 :: "string \<Rightarrow> BufCtx_31 \<Rightarrow> (string, BufCtx_31) outcome" where
  "sendBuf_31 binaryString x =
     (let b = bx_buf x; from = f_countByteReadFromCash b
      in if f_isDataGetCash b then
           bind (ask_element_31 getCash_31 x) (\<lambda>cash x.
             if size_of cash > from then
               if size_of cash \<ge> from + BUF_SIZE_31 - 1
               then copied (resize_copy (unat (BUF_SIZE_31 - 1)) cash (unat from)) x
               else copied (resize_copy (unat (size_of cash - from)) cash (unat from)) x
             else Done binaryString x)
         else if length (f_buf b) \<ge> unat (BUF_SIZE_31 - 1)
              then copied (resize_copy (unat (BUF_SIZE_31 - 1)) (f_buf b) 0) x
              else copied (resize_copy (length (f_buf b)) (f_buf b) 0) x)"

definition proofSendCash_31 :: "string \<Rightarrow> BufCtx_31 \<Rightarrow> (unit, BufCtx_31) outcome" where
  "proofSendCash_31 binaryString x =
     (let b = bx_buf x; from = f_countByteReadFromCash b + size_of binaryString;
          x = put_buf (b\<lparr>f_countByteReadFromCash := from\<rparr>) x
      in bind (ask_element_31 (\<lambda>e. e) x) (\<lambda>e x.
           let b = bx_buf x;
               b = (if size_of (getCash_31 e) = from then b\<lparr>f_isReadyToSend := False\<rparr> else b)
           in if isCashEnd_31 e
              then Done () (put_buf (b\<lparr>f_isEndSend := True, f_statusClient := END_WORK\<rparr>) x)
              else if \<not> isIsServerConnected_31 e then Done () (put_buf (b\<lparr>f_error := True\<rparr>) x)
              else Done () (put_buf b x)))"

definition proofSendBuf_31 :: "string \<Rightarrow> Buffer_31 \<Rightarrow> Buffer_31" where
  "proofSendBuf_31 binaryString b =
     (let b = b\<lparr>f_buf := drop (length binaryString) (f_buf b)\<rparr>;
          b = (if f_buf b = [] \<and> \<not> f_isEndSend b then b\<lparr>f_isReadyToSend := False\<rparr> else b)
      in if f_buf b = [] \<and> f_isEndSend b then
           if f_statusClient b = READ_RESPONSE \<and> f_error b then b\<lparr>f_statusClient := END_WORK\<rparr>
           else
             let b = (if f_statusHttpServer b = READ_REQUEST
                      then b\<lparr>f_statusClient := READ_RESPONSE,
                        f_statusHttpServer := WRITE_RESPONSE_HEADING\<rparr>
                      else if f_statusClient b = READ_RESPONSE
                      then b\<lparr>f_statusClient := END_WORK, f_statusHttpServer := END_WORK\<rparr>
                      else b)
             in b\<lparr>f_isReadyToSend := False, f_isEndSend := False\<rparr>
         else b)"

definition proofSend_31 :: "string \<Rightarrow> BufCtx_31 \<Rightarrow> (unit, BufCtx_31) outcome" where
  "proofSend_31 binaryString x =
     (if f_isDataGetCash (bx_buf x) then proofSendCash_31 binaryString x
      else Done () (put_buf (proofSendBuf_31 binaryString (bx_buf x)) x))"

definition isReadyToSend_31 :: "BufCtx_31 \<Rightarrow> (bool, BufCtx_31) outcome" where
  "isReadyToSend_31 x =
     (let b = bx_buf x
      in if \<not> f_isReadyToSend b \<and> f_isDataGetCash b then
           bind (ask_element_31 getCash_31 x) (\<lambda>cash x.
             if size_of cash > f_countByteReadFromCash b
             then Done True (put_buf (b\<lparr>f_isReadyToSend := True\<rparr>) x)
             else Done (f_isReadyToSend b) x)
         else Done (f_isReadyToSend b) x)"

end
