(* ===== verification/Lab31_Buffer_Correct.thy ===== *)
theory Lab31_Buffer_Correct
  imports Lab31_Buffer Lab31_Cash_Correct
begin

text \<open>
  The exchange of \<open>lab31/v2\<close>: its well-formedness, what keeps it without a null
  dereference and the one call that does not; how a body is counted and mirrored into the cache, with the unsigned count; and what
  a user gets from a finished element.
\<close>

section \<open>Well-formedness\<close>

definition buf_wf_31 :: "Buffer_31 \<Rightarrow> bool" where
  "buf_wf_31 b \<longleftrightarrow> (f_isAddDataToCash b \<or> f_isDataGetCash b \<longrightarrow> f_cashElement b \<noteq> None)
     \<and> (f_statusHttpServer b \<in> {WRITE_RESPONSE_HEADING, WRITE_RESPONSE_BODY} \<longrightarrow> f_resultParseHeading b \<noteq> None
        \<and> f_statusClient b \<in> {READ_RESPONSE, END_WORK} \<and> \<not> f_isDataGetCash b)
     \<and> (f_isReadyConnectHttpServer b \<longrightarrow> f_resultParseHeading b \<noteq> None)
     \<and> (f_isDataGetCash b \<longrightarrow> f_statusClient b \<in> {READ_RESPONSE, END_WORK})
     \<and> (f_isEndSend b \<and> \<not> f_error b \<and> \<not> f_isDataGetCash b \<longrightarrow> f_resultParseHeading b \<noteq> None)
     \<and> (f_error b \<longrightarrow> f_statusClient b \<in> {READ_RESPONSE, END_WORK})
     \<and> (f_statusClient b = WRITE_REQUEST_BODY \<longrightarrow> f_resultParseHeading b \<noteq> None)"

abbreviation wf_ctx_31 :: "BufCtx_31 \<Rightarrow> bool" where
  "wf_ctx_31 x \<equiv> buf_wf_31 (bx_buf x)"

lemma buf_wf_31_new: "buf_wf_31 new_BufferImpl_31" "buf_wf_31 (setIsClientConnect_31 v new_BufferImpl_31)"
  by (simp_all add: buf_wf_31_def new_BufferImpl_31_def setIsClientConnect_31_def)

lemma element_31:
  "f_cashElement (bx_buf x) = Some a \<Longrightarrow> ask_element_31 f x = Done (f (lc_store (bx_cash x) a)) x"
  "f_cashElement (bx_buf x) = Some a \<Longrightarrow> on_element_31 g x = Done ()
     (x\<lparr>bx_cash := (bx_cash x)\<lparr>lc_store := (lc_store (bx_cash x))(a := g (lc_store (bx_cash x) a))\<rparr>\<rparr>)"
  by (simp_all add: ask_element_31_def on_element_31_def Let_def)

lemma put_buf_simps [simp]:
  "bx_buf (put_buf b x) = b" "bx_cash (put_buf b x) = bx_cash x"
  "put_buf b (put_buf b' x) = put_buf b x"
  by (simp_all add: put_buf_def)

lemma buf_wf_31D:
  assumes "buf_wf_31 b"
  shows "f_isAddDataToCash b \<Longrightarrow> f_cashElement b \<noteq> None"
    and "f_isDataGetCash b \<Longrightarrow> f_cashElement b \<noteq> None \<and> f_statusClient b \<in> {READ_RESPONSE, END_WORK}"
    and "f_statusHttpServer b \<in> {WRITE_RESPONSE_HEADING, WRITE_RESPONSE_BODY} \<Longrightarrow> f_resultParseHeading b \<noteq> None
        \<and> f_statusClient b \<in> {READ_RESPONSE, END_WORK} \<and> \<not> f_isDataGetCash b"
    and "f_isReadyConnectHttpServer b \<Longrightarrow> f_resultParseHeading b \<noteq> None"
    and "f_isEndSend b \<Longrightarrow> \<not> f_error b \<Longrightarrow> \<not> f_isDataGetCash b \<Longrightarrow> f_resultParseHeading b \<noteq> None"
    and "f_error b \<Longrightarrow> f_statusClient b \<in> {READ_RESPONSE, END_WORK}"
    and "f_statusClient b = WRITE_REQUEST_BODY \<Longrightarrow> f_resultParseHeading b \<noteq> None"
  using assms unfolding buf_wf_31_def by blast+

lemma parsHead_31_wf:
  assumes "wf_ctx_31 x" and "f_statusClient (bx_buf x) = WRITE_REQUEST_HEADING"
  shows "ends_in wf_ctx_31 (parsHead_31 x)
    \<and> (\<forall>y. parsHead_31 x = Done () y \<longrightarrow> wf_ctx_31 y \<and> f_resultParseHeading (bx_buf y) \<noteq> None
        \<and> f_statusClient (bx_buf y) = WRITE_REQUEST_HEADING)"
proof -
  note d = buf_wf_31D [OF assms(1)]
  from d(3) assms(2) have s: "f_statusHttpServer (bx_buf x) \<notin> {WRITE_RESPONSE_HEADING, WRITE_RESPONSE_BODY}"
    by fastforce
  from d(2) assms(2) have g: "\<not> f_isDataGetCash (bx_buf x)" by auto
  from d(6) assms(2) have e: "\<not> f_error (bx_buf x)" by auto
  have w: "wf_ctx_31 (put_buf ((bx_buf x)\<lparr>f_resultParseHeading := Some r\<rparr>) x)" for r
    using assms s g e by (simp add: buf_wf_31_def)
  have w': "wf_ctx_31 (put_buf ((bx_buf x)\<lparr>f_buf := t, f_statusClient := READ_RESPONSE, f_isReadyToSend := True,
      f_isEndSend := True, f_error := True\<rparr>) x)" for t
    using assms s g e by (simp add: buf_wf_31_def)
  show ?thesis
    using w w' assms(2,1) by (auto simp: parsHead_31_def Let_def split: sum.split exn.split)
qed

text \<open>The exchange after a heading that was parsed: served from the cache, or forwarded.\<close>

lemma serveRequest_31_wf:
  assumes "wf_ctx_31 y" and "f_resultParseHeading (bx_buf y) \<noteq> None"
    and "f_statusClient (bx_buf y) = WRITE_REQUEST_HEADING"
  shows "ends_in wf_ctx_31 (serveRequest_31 h y)"
proof -
  note d = buf_wf_31D [OF assms(1)]
  from d(3) assms(3) have s: "f_statusHttpServer (bx_buf y) \<notin> {WRITE_RESPONSE_HEADING, WRITE_RESPONSE_BODY}"
    by fastforce
  from d(2) assms(3) have g: "\<not> f_isDataGetCash (bx_buf y)" by auto
  from d(6) assms(3) have e: "\<not> f_error (bx_buf y)" by auto
  from assms(2) obtain r where r: "f_resultParseHeading (bx_buf y) = Some r" by auto
  show ?thesis
  proof (cases "isElementInCash_31 h (f_requestHeading (bx_buf y)) (bx_cash y)")
    case True
    then obtain a c where "findResponseInCash_31 h (f_requestHeading (bx_buf y)) (bx_cash y) = (Some a, c)"
      by (auto simp: isElementInCash_31_def findResponseInCash_31_def split: option.splits)
    with True s e r show ?thesis
      by (simp add: serveRequest_31_def Let_def element_31 buf_wf_31_def)
  next
    case False
    then show ?thesis
      using assms(1) s g e r d(1) by (simp add: serveRequest_31_def Let_def buf_wf_31_def)
  qed
qed

lemma wrightRequestHeading_31_wf:
  assumes "wf_ctx_31 x" and "f_statusClient (bx_buf x) = WRITE_REQUEST_HEADING"
  shows "ends_in wf_ctx_31 (wrightRequestHeading_31 h x)"
proof -
  have w0: "wf_ctx_31 (put_buf ((bx_buf x)\<lparr>f_requestHeading := r\<rparr>) x)" for r
    using assms(1) by (simp add: buf_wf_31_def)
  have "ends_in wf_ctx_31 (bind (parsHead_31 (put_buf ((bx_buf x)\<lparr>f_requestHeading := r\<rparr>) x))
     (\<lambda>_ x. serveRequest_31 h x))" for r
    using parsHead_31_wf [OF w0, of r] assms(2)
    by (intro ends_in_bind [where P = wf_ctx_31]) (auto intro: serveRequest_31_wf)
  with assms(1) show ?thesis by (simp add: wrightRequestHeading_31_def Let_def case_prod_beta)
qed

lemma wrightRequestBody_31_wf:
  assumes "wf_ctx_31 x" and "f_statusClient (bx_buf x) = WRITE_REQUEST_BODY"
  shows "ends_in wf_ctx_31 (wrightRequestBody_31 s x)"
  using assms by (simp add: wrightRequestBody_31_def buf_wf_31_def Let_def)

text \<open>A state in which a response is read, and what its two parts keep.\<close>

definition responding_31 :: "BufCtx_31 \<Rightarrow> bool" where
  "responding_31 x \<longleftrightarrow> wf_ctx_31 x \<and> f_statusHttpServer (bx_buf x) \<in> {WRITE_RESPONSE_HEADING, WRITE_RESPONSE_BODY}"

lemma responding_31D:
  assumes "responding_31 x"
  shows "\<exists>r. f_resultParseHeading (bx_buf x) = Some r" and "f_statusClient (bx_buf x) \<in> {READ_RESPONSE, END_WORK}"
    and "\<not> f_isDataGetCash (bx_buf x)" and "f_isAddDataToCash (bx_buf x) \<Longrightarrow> f_cashElement (bx_buf x) \<noteq> None"
    and "wf_ctx_31 x"
  using assms buf_wf_31D [of "bx_buf x"] unfolding responding_31_def by auto

lemma addResponseToCash_31_wf:
  assumes "responding_31 x"
  shows "\<exists>y. addResponseToCash_31 h hdg rh x = Done () y \<and> responding_31 y
    \<and> f_buf (bx_buf y) = f_buf (bx_buf x)"
proof -
  note d = responding_31D [OF assms]
  from d(1) obtain r where r: "f_resultParseHeading (bx_buf x) = Some r" ..
  have st: "f_statusHttpServer (bx_buf x) \<in> {WRITE_RESPONSE_HEADING, WRITE_RESPONSE_BODY}"
    using assms by (simp add: responding_31_def)
  have "\<exists>v. isCashingData_31 rh x = Done v x" using r by (auto simp: isCashingData_31_def)
  then obtain v where v: "isCashingData_31 rh x = Done v x" ..
  obtain el c where ad: "addStringToCash_31 h (f_requestHeading (bx_buf x)) (contentLength rh + size_of hdg) (bx_cash x) = (el, c)"
    by fastforce
  have wfn: "responding_31 z" if "bx_buf z = (bx_buf x)\<lparr>f_cashElement := e, f_isAddDataToCash := (e \<noteq> None)\<rparr>"
    for z e using d(2,3,5) r st that by (simp add: responding_31_def buf_wf_31_def)
  show ?thesis
  proof (cases "v \<and> \<not> isElementInCash_31 h (f_requestHeading (bx_buf x)) (bx_cash x)")
    case False
    with v assms show ?thesis by (auto simp: addResponseToCash_31_def)
  next
    case True
    show ?thesis
    proof (cases el)
      case None
      with True v ad show ?thesis by (auto simp: addResponseToCash_31_def intro!: wfn [of _ None])
    next
      case (Some a)
      with True v ad show ?thesis
        by (simp add: addResponseToCash_31_def Let_def element_31 wfn [of _ "Some a"])
    qed
  qed
qed

lemma startResponseBody_31_wf:
  assumes "responding_31 x" shows "ends_in wf_ctx_31 (startResponseBody_31 hdg rh x)"
proof -
  note d = responding_31D [OF assms]
  define b where "b = (bx_buf x)\<lparr>f_isReadyToSend := True, f_statusHttpServer := WRITE_RESPONSE_BODY,
            f_isHaveContentLengthResponse := haveContentLength rh\<rparr>"
  have w: "buf_wf_31 b" "buf_wf_31 (b\<lparr>f_isEndSend := True\<rparr>)" "buf_wf_31 (b\<lparr>f_lengthBody := l\<rparr>)"
    "buf_wf_31 (b\<lparr>f_lengthBody := l, f_isEndSend := True\<rparr>)" for l
    using d by (auto simp: b_def buf_wf_31_def)
  show ?thesis
  proof (cases "f_isAddDataToCash b")
    case True
    then obtain a where "f_cashElement b = Some a" using d(4) by (auto simp: b_def)
    with True w show ?thesis
      by (simp add: startResponseBody_31_def Let_def b_def [symmetric] element_31)
  next
    case False
    with w show ?thesis by (simp add: startResponseBody_31_def Let_def b_def [symmetric])
  qed
qed

lemma wrightResponseHeading_31_wf:
  assumes "responding_31 x" shows "ends_in wf_ctx_31 (wrightResponseHeading_31 h x)"
proof -
  have "ends_in wf_ctx_31 (bind (addResponseToCash_31 h hdg rh x) (\<lambda>_ x. startResponseBody_31 hdg rh x))" for hdg rh
    using addResponseToCash_31_wf [OF assms, of h hdg rh] startResponseBody_31_wf by auto
  with assms show ?thesis
    by (simp add: wrightResponseHeading_31_def Let_def case_prod_beta responding_31_def)
qed

lemma wrightResponseBody_31_wf:
  assumes "responding_31 x" shows "ends_in wf_ctx_31 (wrightResponseBody_31 s x)"
proof -
  note d = responding_31D [OF assms]
  define b where "b = (bx_buf x)\<lparr>f_isReadyToSend := True\<rparr>"
  have w: "buf_wf_31 b" "buf_wf_31 (b\<lparr>f_isEndSend := True\<rparr>)" "buf_wf_31 (b\<lparr>f_lengthBody := l\<rparr>)"
    "buf_wf_31 (b\<lparr>f_lengthBody := l, f_isEndSend := True\<rparr>)" for l
    using d by (auto simp: b_def buf_wf_31_def)
  show ?thesis
  proof (cases "f_isAddDataToCash b")
    case True
    then obtain a where "f_cashElement b = Some a" using d(4) by (auto simp: b_def)
    with True w show ?thesis
      by (simp add: wrightResponseBody_31_def Let_def b_def [symmetric] element_31)
  next
    case False
    with w show ?thesis by (simp add: wrightResponseBody_31_def Let_def b_def [symmetric])
  qed
qed

lemma readFromSocket_31_wf:
  assumes "wf_ctx_31 x" shows "ends_in wf_ctx_31 (readFromSocket_31 h s x)"
proof -
  define y where "y = put_buf ((bx_buf x)\<lparr>f_buf := f_buf (bx_buf x) @ s\<rparr>) x"
  have wf: "wf_ctx_31 y" using assms by (simp add: y_def buf_wf_31_def)
  have "readFromSocket_31 h s x =
    (if f_statusClient (bx_buf y) = WRITE_REQUEST_HEADING then wrightRequestHeading_31 h y
     else if f_statusClient (bx_buf y) = WRITE_REQUEST_BODY then wrightRequestBody_31 s y
     else if f_statusHttpServer (bx_buf y) = WRITE_RESPONSE_HEADING then wrightResponseHeading_31 h y
     else if f_statusHttpServer (bx_buf y) = WRITE_RESPONSE_BODY then wrightResponseBody_31 s y
     else Done () y)"
    by (simp add: readFromSocket_31_def Let_def y_def)
  with wf show ?thesis
    by (auto intro!: wrightRequestHeading_31_wf wrightRequestBody_31_wf wrightResponseHeading_31_wf
        wrightResponseBody_31_wf simp: responding_31_def)
qed

text \<open>
  The one way out of well-formedness: the text for a heading that could not be parsed has been
  sent, which ended the user's side, and a further confirmation is made.
\<close>

definition reopened_31 :: "string \<Rightarrow> Buffer_31 \<Rightarrow> bool" where
  "reopened_31 s b \<longleftrightarrow> f_statusClient b = END_WORK \<and> f_statusHttpServer b = READ_REQUEST
     \<and> f_error b \<and> f_isEndSend b \<and> \<not> f_isDataGetCash b \<and> f_resultParseHeading b = None
     \<and> length (f_buf b) \<le> length s"

lemma proofSend_31_wf:
  assumes "wf_ctx_31 x" and "\<not> reopened_31 s (bx_buf x)"
  shows "ends_in wf_ctx_31 (proofSend_31 s x)"
proof (cases "f_isDataGetCash (bx_buf x)")
  case True
  note d = buf_wf_31D [OF assms(1)]
  from d(2) True obtain a where a: "f_cashElement (bx_buf x) = Some a" by auto
  from d(3) True have "f_statusHttpServer (bx_buf x) \<notin> {WRITE_RESPONSE_HEADING, WRITE_RESPONSE_BODY}" by blast
  with True a d(2) d(4) d(7) show ?thesis
    by (simp add: proofSend_31_def proofSendCash_31_def Let_def element_31 buf_wf_31_def)
next
  case False
  note d = buf_wf_31D [OF assms(1)]
  let ?b = "bx_buf x"
  define b where "b = ?b\<lparr>f_buf := drop (length s) (f_buf ?b)\<rparr>"
  have w: "buf_wf_31 b" "buf_wf_31 (b\<lparr>f_isReadyToSend := False\<rparr>)"
    using assms(1) by (simp_all add: b_def buf_wf_31_def)
  have end_w: "buf_wf_31 (b\<lparr>f_statusClient := END_WORK\<rparr>)"
    "buf_wf_31 (b\<lparr>f_statusClient := END_WORK, f_statusHttpServer := END_WORK, f_isReadyToSend := False, f_isEndSend := False\<rparr>)"
    "buf_wf_31 (b\<lparr>f_isReadyToSend := False, f_isEndSend := False\<rparr>)"
    using assms(1) False d(1,5) by (simp_all add: b_def buf_wf_31_def)
  have req_w: "buf_wf_31 (b\<lparr>f_statusClient := READ_RESPONSE, f_statusHttpServer := WRITE_RESPONSE_HEADING,
      f_isReadyToSend := False, f_isEndSend := False\<rparr>)"
    if "f_isEndSend b" "\<not> (f_statusClient b = READ_RESPONSE \<and> f_error b)"
      "f_statusHttpServer b = READ_REQUEST" "f_buf b = []"
  proof -
    have "f_resultParseHeading ?b \<noteq> None"
      using that d(5,6) False assms(2) by (auto simp: b_def reopened_31_def)
    with assms(1) False d(1) show ?thesis by (simp add: b_def buf_wf_31_def)
  qed
  have "buf_wf_31 (proofSendBuf_31 s ?b)"
    unfolding proofSendBuf_31_def Let_def b_def [symmetric]
    using w end_w req_w by simp
  with False show ?thesis by (simp add: proofSend_31_def)
qed

lemma proofSend_31_reopens:
  "reopened_31 s (bx_buf x) \<Longrightarrow> \<exists>y. proofSend_31 s x = Done () y
     \<and> f_statusHttpServer (bx_buf y) = WRITE_RESPONSE_HEADING \<and> f_statusClient (bx_buf y) = READ_RESPONSE
     \<and> f_resultParseHeading (bx_buf y) = None"
  by (simp add: reopened_31_def proofSend_31_def proofSendBuf_31_def Let_def)

lemma isReadyToSend_31_wf:
  assumes "wf_ctx_31 x" shows "ends_in wf_ctx_31 (isReadyToSend_31 x)"
proof (cases "f_isDataGetCash (bx_buf x)")
  case True
  with buf_wf_31D(2) [OF assms] obtain a where a: "f_cashElement (bx_buf x) = Some a" by auto
  have "buf_wf_31 ((bx_buf x)\<lparr>f_isReadyToSend := True\<rparr>)" using assms by (simp add: buf_wf_31_def)
  with assms show ?thesis by (simp add: isReadyToSend_31_def Let_def element_31 a)
qed (use assms in \<open>simp add: isReadyToSend_31_def Let_def\<close>)

lemma setters_31_wf:
  assumes "buf_wf_31 b"
  shows "buf_wf_31 (setReadyConnectHttpServer_31 False b)" "buf_wf_31 (setStatusServer_31 END_WORK b)"
    "buf_wf_31 (setStatusClient_31 END_WORK b)" "buf_wf_31 (setIsClientConnect_31 v b)"
    "buf_wf_31 (setIsServerConnect_buf_31 v b)"
  using assms by (simp_all add: buffer_accessors_31 buf_wf_31_def)

lemma sendBuf_31_own:
  "\<not> f_isDataGetCash (bx_buf x) \<Longrightarrow> sendBuf_31 s x = Done (take 1048575 (f_buf (bx_buf x))) x"
  by (simp add: sendBuf_31_def Let_def resize_copy_def copied_def BUF_SIZE_31_def)

section \<open>The body of a response\<close>

text \<open>An exchange whose response body, of an announced length, is on its way into the cache.\<close>

definition downloading_31 :: "BufCtx_31 \<Rightarrow> nat \<Rightarrow> nat \<Rightarrow> bool" where
  "downloading_31 x a n \<longleftrightarrow> f_statusClient (bx_buf x) = READ_RESPONSE
     \<and> f_statusHttpServer (bx_buf x) = WRITE_RESPONSE_BODY \<and> f_isHaveContentLengthResponse (bx_buf x)
     \<and> f_isAddDataToCash (bx_buf x) \<and> f_cashElement (bx_buf x) = Some a
     \<and> f_lengthBody (bx_buf x) = of_nat n \<and> \<not> f_isEndSend (bx_buf x)
     \<and> \<not> ce_isCashEnd (lc_store (bx_cash x) a) \<and> 0 < n \<and> n < 2 ^ 31"

lemma of_nat_diff_zero:
  "n < 2 ^ 62 \<Longrightarrow> m < 2 ^ 62 \<Longrightarrow> (of_nat n - of_nat m :: int64) = 0 \<longleftrightarrow> m = n"
proof -
  assume "n < 2 ^ 62" "m < 2 ^ 62"
  then have "sint (of_nat n :: int64) = int n" "sint (of_nat m :: int64) = int m"
    by (simp_all add: sint_of_nat_small)
  then show ?thesis by (metis eq_iff_diff_eq_0 of_nat_eq_iff)
qed

lemma read_body_31:
  assumes "downloading_31 x a n" and "length s < 2 ^ 31"
  shows "\<exists>x'. readFromSocket_31 h s x = Done () x'
    \<and> f_buf (bx_buf x') = f_buf (bx_buf x) @ s
    \<and> ce_cash (lc_store (bx_cash x') a) = ce_cash (lc_store (bx_cash x) a) @ s
    \<and> f_lengthBody (bx_buf x') = of_nat n - of_nat (length s)
    \<and> f_isReadyToSend (bx_buf x')
    \<and> (f_isEndSend (bx_buf x') \<longleftrightarrow> length s = n)
    \<and> (ce_isCashEnd (lc_store (bx_cash x') a) \<longleftrightarrow> length s = n)
    \<and> (length s < n \<longrightarrow> downloading_31 x' a (n - length s))"
proof -
  let ?b = "bx_buf x"
  let ?e = "lc_store (bx_cash x) a"
  from assms(1) have b: "f_statusClient ?b = READ_RESPONSE" "f_statusHttpServer ?b = WRITE_RESPONSE_BODY"
    "f_isHaveContentLengthResponse ?b" "f_isAddDataToCash ?b" "f_cashElement ?b = Some a"
    "f_lengthBody ?b = of_nat n" "\<not> f_isEndSend ?b" "\<not> ce_isCashEnd ?e" and n: "0 < n" "n < 2 ^ 31"
    by (auto simp: downloading_31_def)
  define b1 where "b1 = ?b\<lparr>f_buf := f_buf ?b @ s, f_isReadyToSend := True\<rparr>"
  define c1 where "c1 = (bx_cash x)\<lparr>lc_store := (lc_store (bx_cash x))(a := append_getCash_31 s ?e)\<rparr>"
  define left where "left = (of_nat n - of_nat (length s) :: int64)"
  define x1 where "x1 = x\<lparr>bx_buf := b1\<lparr>f_lengthBody := left\<rparr>, bx_cash := c1\<rparr>"
  have left0: "left \<le> 0 \<longleftrightarrow> length s = n" using of_nat_diff_zero [of n "length s"] n(2) assms(2) by (simp add: left_def)
  have run: "readFromSocket_31 h s x
    = (if left \<le> 0 then on_element_31 (setIsCashEnd_31 True) (put_buf (b1\<lparr>f_lengthBody := left, f_isEndSend := True\<rparr>) x1)
       else Done () x1)"
    using b by (simp add: readFromSocket_31_def Let_def wrightResponseBody_31_def on_element_31_def put_buf_def
        x1_def b1_def c1_def left_def size_of_def)
  show ?thesis
  proof (cases "length s = n")
    case True
    with left0 show ?thesis
      using b by (simp add: run on_element_31_def put_buf_def x1_def b1_def c1_def Let_def
          cash_element_31_defs left_def)
  next
    case False
    with left0 have "readFromSocket_31 h s x = Done () x1" by (simp add: run)
    moreover have "downloading_31 x1 a (n - length s)" if "length s < n"
      using b n that by (simp add: downloading_31_def x1_def b1_def c1_def left_def cash_element_31_defs of_nat_diff)
    ultimately show ?thesis
      using b False by (auto simp: x1_def b1_def c1_def cash_element_31_defs left_def)
  qed
qed

section \<open>Serving from the cache\<close>

definition reads_31 :: "BufCtx_31 \<Rightarrow> nat \<Rightarrow> nat \<Rightarrow> bool" where
  "reads_31 x a k \<longleftrightarrow> f_isDataGetCash (bx_buf x) \<and> f_cashElement (bx_buf x) = Some a
     \<and> f_countByteReadFromCash (bx_buf x) = of_nat k \<and> f_statusClient (bx_buf x) = READ_RESPONSE
     \<and> k < length (ce_cash (lc_store (bx_cash x) a)) \<and> length (ce_cash (lc_store (bx_cash x) a)) < 2 ^ 62"

lemma BUF_SIZE_31_nat: "unat (BUF_SIZE_31 - 1) = 1048575" "BUF_SIZE_31 - 1 = of_nat 1048575"
  by (simp_all add: BUF_SIZE_31_def)

lemma word_less_of_nat: "m < 2 ^ 63 \<Longrightarrow> n < 2 ^ 63 \<Longrightarrow> (of_nat m :: int64) < of_nat n \<longleftrightarrow> m < n"
  by (simp add: word_less_nat_alt unat_of_nat_small)

lemma sendBuf_31_cached:
  assumes b: "f_isDataGetCash (bx_buf x)" "f_cashElement (bx_buf x) = Some a"
    "f_countByteReadFromCash (bx_buf x) = of_nat k"
    and k: "k < length (ce_cash (lc_store (bx_cash x) a))" "length (ce_cash (lc_store (bx_cash x) a)) < 2 ^ 62"
  shows "sendBuf_31 s x = Done (take 1048575 (drop k (ce_cash (lc_store (bx_cash x) a)))) x"
proof -
  let ?s = "ce_cash (lc_store (bx_cash x) a)"
  have gt: "size_of ?s > (of_nat k :: int64)"
    using word_less_of_nat [of k "length ?s"] k by (simp add: size_of_def)
  have sum: "of_nat k + BUF_SIZE_31 - 1 = (of_nat (k + 1048575) :: int64)"
    using BUF_SIZE_31_nat(2) by (simp add: algebra_simps)
  have ge: "size_of ?s \<ge> of_nat k + BUF_SIZE_31 - 1 \<longleftrightarrow> k + 1048575 \<le> length ?s"
    using word_less_of_nat [of "length ?s" "k + 1048575"] k unfolding sum size_of_def
    by (simp add: linorder_not_less [symmetric] del: of_nat_add)
  have uk: "unat (of_nat k :: int64) = k" using k by (simp add: unat_of_nat_small)
  have rest: "unat (size_of ?s - of_nat k) = length ?s - k"
    using k by (simp add: size_of_def of_nat_diff [symmetric] unat_of_nat_small del: of_nat_diff)
  show ?thesis
  proof (cases "k + 1048575 \<le> length ?s")
    case True
    then show ?thesis using gt ge uk
      by (simp add: sendBuf_31_def Let_def b element_31 getCash_31_def BUF_SIZE_31_nat resize_copy_def copied_def)
  next
    case False
    then have "take 1048575 (drop k ?s) = drop k ?s" by simp
    with False gt ge uk rest k show ?thesis
      by (simp add: sendBuf_31_def Let_def b element_31 getCash_31_def resize_copy_def copied_def)
  qed
qed

lemma send_cash_31:
  "reads_31 x a k \<Longrightarrow> sendBuf_31 [] x = Done (take 1048575 (drop k (ce_cash (lc_store (bx_cash x) a)))) x"
  by (rule sendBuf_31_cached) (auto simp: reads_31_def)

text \<open>The element an exchange refers to holds fewer than 2^62 bytes.\<close>

definition short_element_31 :: "BufCtx_31 \<Rightarrow> bool" where
  "short_element_31 x \<longleftrightarrow>
     pred_option (\<lambda>a. length (ce_cash (lc_store (bx_cash x) a)) < 2 ^ 62) (f_cashElement (bx_buf x))"

lemma sendBuf_31_ends:
  assumes "wf_ctx_31 x" and "short_element_31 x"
  shows "\<exists>r. sendBuf_31 s x = Done r x"
proof (cases "f_isDataGetCash (bx_buf x)")
  case True
  with buf_wf_31D(2) [OF assms(1)] obtain a where a: "f_cashElement (bx_buf x) = Some a" by auto
  let ?s = "ce_cash (lc_store (bx_cash x) a)"
  define k where "k = unat (f_countByteReadFromCash (bx_buf x))"
  have k: "f_countByteReadFromCash (bx_buf x) = of_nat k" by (simp add: k_def)
  have len: "length ?s < 2 ^ 62" using assms(2) a by (simp add: short_element_31_def)
  show ?thesis
  proof (cases "k < length ?s")
    case True
    from sendBuf_31_cached [OF \<open>f_isDataGetCash (bx_buf x)\<close> a k True len] show ?thesis by blast
  next
    case False
    have "unat (size_of ?s) = length ?s" using len by (simp add: size_of_def unat_of_nat_small)
    with False have "\<not> size_of ?s > f_countByteReadFromCash (bx_buf x)"
      by (simp add: word_less_nat_alt k_def)
    with True a show ?thesis
      by (simp add: sendBuf_31_def Let_def element_31 getCash_31_def)
  qed
qed (simp add: sendBuf_31_own)

section \<open>An exchange to try the properties on\<close>

definition fix_cash_31 :: "string \<Rightarrow> bool \<Rightarrow> CashImpl_31" where
  "fix_cash_31 bytes ended = \<lparr>lc_listCash = [0], lc_byteInCash = 0,
     lc_store = (\<lambda>_. \<lparr>ce_countUsers = 1, ce_isCashEnd = ended, ce_isServerConnected = True, ce_hashHead = 7,
       ce_head = ''h'', ce_cash = bytes\<rparr>), lc_fresh = 1, lc_endPassed = False\<rparr>"

definition fix_download_31 :: "nat \<Rightarrow> BufCtx_31" where
  "fix_download_31 n = \<lparr>bx_buf = new_BufferImpl_31\<lparr>f_statusClient := READ_RESPONSE,
     f_statusHttpServer := WRITE_RESPONSE_BODY, f_isHaveContentLengthResponse := True, f_isAddDataToCash := True,
     f_cashElement := Some 0, f_lengthBody := of_nat n,
     f_resultParseHeading := Some new_ResultParseHeading_31\<rparr>, bx_cash = fix_cash_31 ''HTTP'' False\<rparr>"

definition fix_reader_31 :: "string \<Rightarrow> BufCtx_31" where
  "fix_reader_31 bytes = \<lparr>bx_buf = new_BufferImpl_31\<lparr>f_statusClient := READ_RESPONSE, f_isDataGetCash := True,
     f_cashElement := Some 0, f_isReadyToSend := True\<rparr>, bx_cash = fix_cash_31 bytes True\<rparr>"

lemma fix_downloading_31: "0 < n \<Longrightarrow> n < 2 ^ 31 \<Longrightarrow> downloading_31 (fix_download_31 n) 0 n"
  by (simp add: downloading_31_def fix_download_31_def new_BufferImpl_31_def fix_cash_31_def)

section \<open>Properties\<close>

text \<open>
  C14: no method of the exchange dereferences a null pointer, and one single call leaves a
  well-formed exchange ill-formed. From a well-formed exchange whose element holds fewer than
  2^62 bytes, \<open>readFromSocket\<close>, \<open>isReadyToSend\<close> and \<open>sendBuf\<close> (from its own bytes or from the
  cache) end without a fault and leave it well-formed, and so do the setters as the server uses
  them; the parsed heading and the element are there whenever the server asks for them.
  \<open>proofSend\<close> leaves it well-formed except when it confirms, once more, the text sent for a
  heading that could not be parsed: then the exchange, already over, waits for a response
  without a parsed request.
\<close>

theorem exchange_31_well_formed:
  assumes "buf_wf_31 (bx_buf x)" and "short_element_31 x"
  shows "ends_in (\<lambda>y. buf_wf_31 (bx_buf y)) (readFromSocket_31 h s x)
    \<and> ends_in (\<lambda>y. buf_wf_31 (bx_buf y)) (isReadyToSend_31 x)
    \<and> ends_in (\<lambda>y. buf_wf_31 (bx_buf y)) (sendBuf_31 u x)
    \<and> (if reopened_31 t (bx_buf x)
       then \<exists>y. proofSend_31 t x = Done () y \<and> f_statusHttpServer (bx_buf y) = WRITE_RESPONSE_HEADING
          \<and> f_statusClient (bx_buf y) = READ_RESPONSE \<and> f_resultParseHeading (bx_buf y) = None
       else ends_in (\<lambda>y. buf_wf_31 (bx_buf y)) (proofSend_31 t x))
    \<and> (isReadyConnectHttpServer_31 (bx_buf x) \<longrightarrow> getParseResult_31 (bx_buf x) \<noteq> None)
    \<and> (isIsDataGetCash_31 (bx_buf x) \<or> isIsAddDataToCash_31 (bx_buf x) \<longrightarrow> getCashElement_31 (bx_buf x) \<noteq> None)
    \<and> buf_wf_31 (setReadyConnectHttpServer_31 False (bx_buf x))
    \<and> buf_wf_31 (setStatusServer_31 END_WORK (bx_buf x)) \<and> buf_wf_31 (setStatusClient_31 END_WORK (bx_buf x))
    \<and> buf_wf_31 (setIsClientConnect_31 v (bx_buf x)) \<and> buf_wf_31 (setIsServerConnect_buf_31 v (bx_buf x))"
proof (intro conjI)
  from sendBuf_31_ends [OF assms, of u] assms(1)
  show "ends_in (\<lambda>y. buf_wf_31 (bx_buf y)) (sendBuf_31 u x)" by auto
  show "if reopened_31 t (bx_buf x)
       then \<exists>y. proofSend_31 t x = Done () y \<and> f_statusHttpServer (bx_buf y) = WRITE_RESPONSE_HEADING
          \<and> f_statusClient (bx_buf y) = READ_RESPONSE \<and> f_resultParseHeading (bx_buf y) = None
       else ends_in (\<lambda>y. buf_wf_31 (bx_buf y)) (proofSend_31 t x)"
    using proofSend_31_reopens [of t x] proofSend_31_wf [OF assms(1), of t] by simp
  show "isReadyConnectHttpServer_31 (bx_buf x) \<longrightarrow> getParseResult_31 (bx_buf x) \<noteq> None"
    "isIsDataGetCash_31 (bx_buf x) \<or> isIsAddDataToCash_31 (bx_buf x) \<longrightarrow> getCashElement_31 (bx_buf x) \<noteq> None"
    using buf_wf_31D(1,2,4) [OF assms(1)] by (auto simp: buffer_accessors_31)
qed (fact readFromSocket_31_wf [OF assms(1)] isReadyToSend_31_wf [OF assms(1)] setters_31_wf [OF assms(1)])+

theorem exchange_31_well_formed_witness:
  "ends_in (\<lambda>y. buf_wf_31 (bx_buf y)) (readFromSocket_31 (\<lambda>_. 0) ''GET''
      \<lparr>bx_buf = new_BufferImpl_31, bx_cash = fix_cash_31 [] False\<rparr>)
   \<and> ends_in (\<lambda>y. buf_wf_31 (bx_buf y)) (sendBuf_31 [] (fix_reader_31 ''abc''))"
proof
  have "short_element_31 \<lparr>bx_buf = new_BufferImpl_31, bx_cash = fix_cash_31 [] False\<rparr>"
    by (simp add: short_element_31_def new_BufferImpl_31_def)
  with exchange_31_well_formed [of "\<lparr>bx_buf = new_BufferImpl_31, bx_cash = fix_cash_31 [] False\<rparr>"] buf_wf_31_new(1)
  show "ends_in (\<lambda>y. buf_wf_31 (bx_buf y)) (readFromSocket_31 (\<lambda>_. 0) ''GET''
      \<lparr>bx_buf = new_BufferImpl_31, bx_cash = fix_cash_31 [] False\<rparr>)" by simp
  have "buf_wf_31 (bx_buf (fix_reader_31 ''abc''))" "short_element_31 (fix_reader_31 ''abc'')"
    by (simp_all add: short_element_31_def fix_reader_31_def new_BufferImpl_31_def fix_cash_31_def buf_wf_31_def)
  from exchange_31_well_formed [OF this]
  show "ends_in (\<lambda>y. buf_wf_31 (bx_buf y)) (sendBuf_31 [] (fix_reader_31 ''abc''))" by blast
qed

text \<open>
  C15: while a body of announced length comes in, the bytes are appended unchanged to what the user
  is still to get and to the cached element, and the exchange and the element are finished exactly
  by the chunk that ends at the announced length.
\<close>

theorem body_mirrored_31:
  assumes "downloading_31 x a n" and "length s \<le> n"
  shows "\<exists>x'. readFromSocket_31 h s x = Done () x'
    \<and> f_buf (bx_buf x') = f_buf (bx_buf x) @ s
    \<and> ce_cash (lc_store (bx_cash x') a) = ce_cash (lc_store (bx_cash x) a) @ s
    \<and> (f_isEndSend (bx_buf x') \<longleftrightarrow> length s = n)
    \<and> (ce_isCashEnd (lc_store (bx_cash x') a) \<longleftrightarrow> length s = n)
    \<and> (length s < n \<longrightarrow> downloading_31 x' a (n - length s))"
proof -
  from assms have "length s < 2 ^ 31" by (auto simp: downloading_31_def)
  from read_body_31 [OF assms(1) this] show ?thesis by blast
qed

theorem body_mirrored_31_witness:
  "\<exists>x'. readFromSocket_31 (\<lambda>_. 0) ''ab'' (fix_download_31 2) = Done () x' \<and> f_isEndSend (bx_buf x')
     \<and> ce_cash (lc_store (bx_cash x') 0) = ''HTTPab''"
proof -
  have "downloading_31 (fix_download_31 2) 0 2" by (rule fix_downloading_31) simp_all
  from body_mirrored_31 [OF this, of "''ab''" "\<lambda>_. 0"] show ?thesis
    by (auto simp: fix_download_31_def fix_cash_31_def)
qed

text \<open>
  What happens to an exchange while a body comes in: bytes arrive from the server, and bytes sent
  to the user are confirmed, in any order.
\<close>

datatype body_event = Comes string | Confirmed string

fun body_events :: "(string \<Rightarrow> int64) \<Rightarrow> body_event list \<Rightarrow> BufCtx_31 \<Rightarrow> (unit, BufCtx_31) outcome" where
  "body_events h [] x = Done () x"
| "body_events h (Comes s # es) x = bind (readFromSocket_31 h s x) (\<lambda>_ y. body_events h es y)"
| "body_events h (Confirmed s # es) x = bind (proofSend_31 s x) (\<lambda>_ y. body_events h es y)"

fun arrived :: "body_event list \<Rightarrow> string" where
  "arrived [] = []"
| "arrived (Comes s # es) = s @ arrived es"
| "arrived (Confirmed s # es) = arrived es"

text \<open>An exchange that waits for the rest of a body, \<open>m\<close> bytes of the \<open>n\<close> announced being here.\<close>

definition waiting_31 :: "BufCtx_31 \<Rightarrow> nat \<Rightarrow> nat \<Rightarrow> nat \<Rightarrow> bool" where
  "waiting_31 x a n m \<longleftrightarrow> f_statusClient (bx_buf x) = READ_RESPONSE
     \<and> f_statusHttpServer (bx_buf x) = WRITE_RESPONSE_BODY \<and> f_isHaveContentLengthResponse (bx_buf x)
     \<and> f_isAddDataToCash (bx_buf x) \<and> \<not> f_isDataGetCash (bx_buf x) \<and> f_cashElement (bx_buf x) = Some a
     \<and> f_lengthBody (bx_buf x) = of_nat n - of_nat m \<and> \<not> f_isEndSend (bx_buf x)
     \<and> \<not> ce_isCashEnd (lc_store (bx_cash x) a)"

lemma waiting_31_comes:
  assumes "waiting_31 x a n m" and "n < 2 ^ 62" and "m + length s < 2 ^ 62" and "m + length s \<noteq> n"
  shows "\<exists>y. readFromSocket_31 h s x = Done () y \<and> waiting_31 y a n (m + length s)
    \<and> ce_cash (lc_store (bx_cash y) a) = ce_cash (lc_store (bx_cash x) a) @ s"
proof -
  have eq: "of_nat n - of_nat m - (of_nat (length s) :: int64) = of_nat n - of_nat (m + length s)" by simp
  have "of_nat n - of_nat (m + length s) \<noteq> (0 :: int64)"
    using of_nat_diff_zero [OF assms(2,3)] assms(4) by simp
  then have "of_nat n - of_nat m - (of_nat (length s) :: int64) \<noteq> 0" unfolding eq .
  with assms(1) show ?thesis
    by (simp add: waiting_31_def readFromSocket_31_def Let_def wrightResponseBody_31_def on_element_31_def
        put_buf_def size_of_def cash_element_31_defs)
qed

lemma waiting_31_confirmed:
  assumes "waiting_31 x a n m"
  shows "\<exists>y. proofSend_31 s x = Done () y \<and> waiting_31 y a n m \<and> bx_cash y = bx_cash x"
  using assms by (simp add: waiting_31_def proofSend_31_def proofSendBuf_31_def Let_def)

lemma body_events_waiting:
  "waiting_31 x a n m \<Longrightarrow> n < 2 ^ 62 \<Longrightarrow> m + length (arrived es) < 2 ^ 62
    \<Longrightarrow> (\<And>k. 0 < k \<Longrightarrow> k \<le> length es \<Longrightarrow> arrived (take k es) \<noteq> [] \<Longrightarrow> m + length (arrived (take k es)) \<noteq> n)
    \<Longrightarrow> m \<noteq> n \<Longrightarrow> \<exists>y. body_events h es x = Done () y \<and> waiting_31 y a n (m + length (arrived es))
      \<and> ce_cash (lc_store (bx_cash y) a) = ce_cash (lc_store (bx_cash x) a) @ arrived es"
proof (induction h es x arbitrary: m rule: body_events.induct)
  case (2 h s es x)
  have ne: "m + length s \<noteq> n" using 2(5) [of "Suc 0"] 2(6) by (cases "s = []") simp_all
  have le: "m + length s < 2 ^ 62" using 2(4) by simp
  from waiting_31_comes [OF 2(2,3) le ne, of h] obtain y where
    y: "readFromSocket_31 h s x = Done () y" "waiting_31 y a n (m + length s)"
    "ce_cash (lc_store (bx_cash y) a) = ce_cash (lc_store (bx_cash x) a) @ s" by blast
  have "m + length s + length (arrived (take k es)) \<noteq> n"
    if "0 < k" "k \<le> length es" "arrived (take k es) \<noteq> []" for k
    using 2(5) [of "Suc k"] that by simp
  with 2(1) [OF y(1) y(2) 2(3) _ _ ne] 2(4) y(1,3) show ?case by (simp add: add.assoc)
next
  case (3 h s es x)
  from waiting_31_confirmed [OF 3(2), of s] obtain y where
    y: "proofSend_31 s x = Done () y" "waiting_31 y a n m" "bx_cash y = bx_cash x" by blast
  have "m + length (arrived (take k es)) \<noteq> n"
    if "0 < k" "k \<le> length es" "arrived (take k es) \<noteq> []" for k
    using 3(5) [of "Suc k"] that by simp
  with 3(1) [OF y(1) y(2) 3(3) _ _ 3(6)] 3(4) y(1,3) show ?case by simp
qed simp

text \<open>
  C37: a body whose announced end falls inside a chunk never ends the exchange. The count of bytes
  left is unsigned and wraps around below zero, so the test \<open>_lengthBody <= 0\<close> asks for zero: when
  no read ends exactly at the announced length, then after any reads and confirmations, in any
  order (up to 2^62 bytes in all), the exchange is still waiting for the body, its element is not marked finished,
  and everything that came, also what is beyond the announced length, has been appended to the
  element.
\<close>

theorem over_long_body_never_ends:
  assumes "downloading_31 x a n" and "\<not> f_isDataGetCash (bx_buf x)" and "length (arrived es) < 2 ^ 62"
    and "\<And>k. k \<le> length es \<Longrightarrow> length (arrived (take k es)) \<noteq> n"
  shows "\<exists>y. body_events h es x = Done () y \<and> \<not> f_isEndSend (bx_buf y)
    \<and> f_statusClient (bx_buf y) = READ_RESPONSE \<and> f_statusHttpServer (bx_buf y) = WRITE_RESPONSE_BODY
    \<and> \<not> ce_isCashEnd (lc_store (bx_cash y) a)
    \<and> ce_cash (lc_store (bx_cash y) a) = ce_cash (lc_store (bx_cash x) a) @ arrived es"
proof -
  have "waiting_31 x a n 0" "n < 2 ^ 62" "0 \<noteq> n"
    using assms(1,2) by (auto simp: downloading_31_def waiting_31_def)
  from body_events_waiting [OF this(1,2) _ _ this(3), of es h] assms(3,4) show ?thesis
    by (fastforce simp: waiting_31_def)
qed

theorem over_long_body_never_ends_witness:
  "\<exists>y. body_events (\<lambda>_. 0) [Comes ''abc'', Confirmed ''abc'', Comes ''d''] (fix_download_31 2) = Done () y
     \<and> \<not> f_isEndSend (bx_buf y) \<and> ce_cash (lc_store (bx_cash y) 0) = ''HTTPabcd''"
proof -
  have d: "downloading_31 (fix_download_31 2) 0 2" by (rule fix_downloading_31) simp_all
  have g: "\<not> f_isDataGetCash (bx_buf (fix_download_31 2))"
    by (simp add: fix_download_31_def new_BufferImpl_31_def)
  let ?es = "[Comes ''abc'', Confirmed ''abc'', Comes ''d'']"
  have no: "length (arrived (take k ?es)) \<noteq> 2" for k
    by (cases k; cases "k - 1"; cases "k - 2"; cases "k - 3") simp_all
  from over_long_body_never_ends [OF d g, of ?es "\<lambda>_. 0", OF _ no] show ?thesis
    by (auto simp: fix_download_31_def fix_cash_31_def)
qed

text \<open>
  A user served from the cache gets at most one chunk of a finished element. Confirming the
  first chunk of an element already marked finished ends the user's side, whatever is left of it,
  so a cached response longer than 1048575 bytes is cut.
\<close>

theorem cached_response_is_cut:
  assumes "reads_31 x a k" and "ce_isCashEnd (lc_store (bx_cash x) a)"
  shows "\<exists>x'. bind (sendBuf_31 [] x) proofSend_31 = Done () x'
    \<and> sendBuf_31 [] x = Done (take 1048575 (drop k (ce_cash (lc_store (bx_cash x) a)))) x
    \<and> f_statusClient (bx_buf x') = END_WORK \<and> bx_cash x' = bx_cash x"
proof -
  from assms have b: "f_isDataGetCash (bx_buf x)" "f_cashElement (bx_buf x) = Some a"
    by (auto simp: reads_31_def)
  show ?thesis
    using b assms(2)
    by (simp add: send_cash_31 [OF assms(1)] proofSend_31_def proofSendCash_31_def Let_def element_31
        isCashEnd_31_def)
qed

theorem cached_response_is_cut_witness:
  "\<exists>x'. bind (sendBuf_31 [] (fix_reader_31 (replicate 2000000 CHR ''x''))) proofSend_31 = Done () x'
     \<and> f_statusClient (bx_buf x') = END_WORK"
proof -
  have "reads_31 (fix_reader_31 (replicate 2000000 CHR ''x'')) 0 0"
    by (simp add: reads_31_def fix_reader_31_def fix_cash_31_def new_BufferImpl_31_def)
  from cached_response_is_cut [OF this] show ?thesis
    by (auto simp: fix_reader_31_def fix_cash_31_def)
qed

end
