(* ===== verification/Lab31_Client.thy ===== *)
theory Lab31_Client
  imports Lab31_Buffer Client
begin

text \<open>
  \<open>lab31/v2/client\<close> and \<open>lab31/v2/socket\<close>: a connection of the single-threaded proxy and the
  calls to the operating system, whose answers are inputs, as in \<open>Client\<close>. The listening socket
  has the one member of \<open>lab32v2\<close>'s, so its record is used here too. \<open>_pair\<close> is never set.
\<close>

section \<open>Connections\<close>

type_synonym TypeClient_31 = TypeClient

record Client_31 =
  cl_fd :: int32
  cl_typeClient :: TypeClient_31
  cl_buffer :: "nat option"
  cl_pair :: "nat option"
  cl_structPollFd :: PollFd

definition new_ClientImpl_31 :: "int32 \<Rightarrow> TypeClient_31 \<Rightarrow> nat option \<Rightarrow> Client_31" where
  "new_ClientImpl_31 sock typeClient buf =
     \<lparr>cl_fd = sock, cl_typeClient = typeClient, cl_buffer = buf, cl_pair = None,
      cl_structPollFd = \<lparr>p_fd = sock, p_events = or POLLIN POLLOUT, p_revents = 0\<rparr>\<rparr>"

definition getFdClient_31 :: "Client_31 \<Rightarrow> int32" where
  "getFdClient_31 c = cl_fd c"

text \<open>\<open>sendBuf\<close> drops what \<open>write\<close> returns.\<close>

definition sendBuf_client_31 :: "Client_31 \<Rightarrow> string \<Rightarrow> Os \<Rightarrow> (unit, Os) outcome" where
  "sendBuf_client_31 c buf os = bind (sys_write (cl_fd c) buf os) (\<lambda>code os. Done () os)"

text \<open>
  \<open>readBuf\<close> gives the new contents of the string: nothing when \<open>read\<close> fails, else the at most
  \<open>BUF_SIZE - 1\<close> bytes read.
\<close>

definition readBuf_31 :: "Client_31 \<Rightarrow> string \<Rightarrow> Os \<Rightarrow> (string, Os) outcome" where
  "readBuf_31 c buf os = bind (sys_read os) (\<lambda>r os.
     case r of
       ReadFails \<Rightarrow> Done [] os
     | Bytes s \<Rightarrow>
         let readBuf = take (unat (BUF_SIZE_31 - 1)) s; byte = length readBuf;
             resized = take byte buf @ replicate (byte - length buf) (CHR '' '')
         in Done (readBuf @ drop byte resized) os)"

definition getTypeClient_31 :: "Client_31 \<Rightarrow> TypeClient_31" where
  "getTypeClient_31 c = cl_typeClient c"

definition getBuffer_31 :: "Client_31 \<Rightarrow> nat option" where
  "getBuffer_31 c = cl_buffer c"

definition setBuffer_31 :: "nat option \<Rightarrow> Client_31 \<Rightarrow> Client_31" where
  "setBuffer_31 buffer c = c\<lparr>cl_buffer := buffer\<rparr>"

definition getPollFd_31 :: "Client_31 \<Rightarrow> PollFd" where
  "getPollFd_31 c = cl_structPollFd c"

definition setPollElement_31 :: "PollFd \<Rightarrow> Client_31 \<Rightarrow> Client_31" where
  "setPollElement_31 pollfd c = c\<lparr>cl_structPollFd := (cl_structPollFd c)
     \<lparr>p_fd := p_fd pollfd, p_events := p_events pollfd, p_revents := p_revents pollfd\<rparr>\<rparr>"

definition setReventsZero_31 :: "Client_31 \<Rightarrow> Client_31" where
  "setReventsZero_31 c = c\<lparr>cl_structPollFd := (cl_structPollFd c)\<lparr>p_revents := 0\<rparr>\<rparr>"

text \<open>The \<open>int\<close> argument is narrowed to the \<open>short\<close> field.\<close>

definition setEvents_31 :: "int32 \<Rightarrow> Client_31 \<Rightarrow> Client_31" where
  "setEvents_31 event c = c\<lparr>cl_structPollFd := (cl_structPollFd c)\<lparr>p_events := ucast event\<rparr>\<rparr>"

lemmas client_accessors_31 =
  getFdClient_31_def getTypeClient_31_def getBuffer_31_def setBuffer_31_def getPollFd_31_def
  setPollElement_31_def setReventsZero_31_def setEvents_31_def

section \<open>Sockets\<close>

definition ERROR_CODE_31 :: int32 where
  "ERROR_CODE_31 = -1"

definition PORT_SERVER_SOCKET_31 :: int32 where
  "PORT_SERVER_SOCKET_31 = 8099"

type_synonym ServerSocketImpl_31 = ServerSocketImpl

definition new_ServerSocketImpl_31 :: "int32 list \<Rightarrow> ServerSocketImpl_31" where
  "new_ServerSocketImpl_31 accepts =
     \<lparr>serverSocket = 0, listenPort = None, acceptCodes = accepts, socketClosed = False\<rparr>"

definition connectSocket_31 :: "ListenAnswers \<Rightarrow> ServerSocketImpl_31 \<Rightarrow> (int32, ServerSocketImpl_31) outcome" where
  "connectSocket_31 ans s =
     (if sint (l_socket ans) < 0 then Throws (ConnectException ''bind socket'') s
      else if sint (l_reuseaddr ans) < 0
        then Throws (ConnectException ''setsockopt(SO_REUSEADDR) failed'') s
      else if sint (l_reuseport ans) < 0
        then Throws (ConnectException ''setsockopt(SO_REUSEADDR) failed'') s
      else if sint (l_bind ans) < 0 then Throws (ConnectException ''bind socket'') s
      else let s = s\<lparr>listenPort := Some (ucast PORT_SERVER_SOCKET_31)\<rparr>
           in if sint (l_listen ans) < 0 then Throws (ConnectException ''listen socket'') s
              else Done 0 (s\<lparr>serverSocket := l_socket ans\<rparr>))"

definition getFdSocket_31 :: "ServerSocketImpl_31 \<Rightarrow> int32" where
  "getFdSocket_31 s = serverSocket s"

text \<open>The connection's buffer is made together with it; \<open>buf\<close> is its address.\<close>

definition acceptNewClient_31 ::
    "nat \<Rightarrow> ServerSocketImpl_31 \<Rightarrow> (Client_31 \<times> Buffer_31, ServerSocketImpl_31) outcome" where
  "acceptNewClient_31 buf s = (case acceptCodes s of
     [] \<Rightarrow> Fault OutOfFuel
   | clientSock # rest \<Rightarrow>
       let s = s\<lparr>acceptCodes := rest\<rparr>
       in if sint clientSock < 0 then Throws (ConnectException ''accept new client'') s
          else Done (new_ClientImpl_31 clientSock USER (Some buf),
                     setIsClientConnect_31 True new_BufferImpl_31) s)"

definition closeSocket_31 :: "ServerSocketImpl_31 \<Rightarrow> ServerSocketImpl_31" where
  "closeSocket_31 s = s\<lparr>socketClosed := True\<rparr>"

definition connectToClient_31 :: "string \<Rightarrow> int32 \<Rightarrow> Os \<Rightarrow> (Client_31, Os) outcome" where
  "connectToClient_31 url portNr os = (case o_connects os of
     [] \<Rightarrow> Fault OutOfFuel
   | answer # answers \<Rightarrow>
       let os = os\<lparr>o_connects := answers\<rparr>
       in if \<not> a_resolved answer then Throws (ConnectException ''gethostbyname'') os
          else if a_sock answer = ERROR_CODE_31 then Throws (ConnectException ''setsockport'') os
          else let os = os\<lparr>o_dialed := o_dialed os @ [(url, ucast portNr)]\<rparr>
               in if a_connect answer = ERROR_CODE_31 then Throws (ConnectException ''connect error'') os
                  else Done (new_ClientImpl_31 (a_sock answer) HTTP_SERVER None) os)"

end
