(* ===== verification/Lab31_Server.thy ===== *)
theory Lab31_Server
  imports Lab31_Client Handler
begin

text \<open>
  \<open>lab31/v2/server/ServerImpl\<close> and \<open>main.cpp\<close>: one thread, one \<open>poll\<close> over the listening socket
  and every connection. Connections and buffers live in heaps from addresses to objects, where a
  deleted object is \<open>None\<close>. An iterator over the connections is the address its node holds, or
  \<open>None\<close> for \<open>end()\<close>; as in libstdc++ the list is circular through \<open>end()\<close>. Line 120 of
  \<open>ServerImpl.cpp\<close> prints a variable that is declared nowhere; the model leaves that statement
  out. Loops take fuel.
\<close>

section \<open>State\<close>

definition MAX_COUNT_CONNECTIONS_31 :: nat where
  "MAX_COUNT_CONNECTIONS_31 = 65000"

record ServerImpl_31 =
  sv_isWork :: bool
  sv_serverSocket :: ServerSocketImpl_31
  sv_pollSet :: "nat \<Rightarrow> PollFd"
  sv_clientList :: "nat list"
  sv_clients :: "nat \<Rightarrow> Client_31 option"
  sv_buffers :: "nat \<Rightarrow> Buffer_31 option"
  sv_fresh :: nat
  sv_cash :: CashImpl_31
  sv_os :: Os

definition zero_pollfd_31 :: PollFd where
  "zero_pollfd_31 = \<lparr>p_fd = 0, p_events = 0, p_revents = 0\<rparr>"

definition ask_client_31 :: "nat \<Rightarrow> (Client_31 \<Rightarrow> 'v) \<Rightarrow> ServerImpl_31 \<Rightarrow> ('v, ServerImpl_31) outcome" where
  "ask_client_31 a f s = (case sv_clients s a of
     None \<Rightarrow> Fault UseAfterFree
   | Some c \<Rightarrow> Done (f c) s)"

definition on_client_31 ::
    "nat \<Rightarrow> (Client_31 \<Rightarrow> Client_31) \<Rightarrow> ServerImpl_31 \<Rightarrow> (unit, ServerImpl_31) outcome" where
  "on_client_31 a f s = (case sv_clients s a of
     None \<Rightarrow> Fault UseAfterFree
   | Some c \<Rightarrow> Done () (s\<lparr>sv_clients := (sv_clients s)(a := Some (f c))\<rparr>))"

definition on_buffer_31 ::
    "nat \<Rightarrow> (BufCtx_31 \<Rightarrow> ('v, BufCtx_31) outcome) \<Rightarrow> ServerImpl_31 \<Rightarrow> ('v, ServerImpl_31) outcome" where
  "on_buffer_31 a f s = bind (ask_client_31 a getBuffer_31 s) (\<lambda>p s.
     case p of
       None \<Rightarrow> Fault NullDereference
     | Some p \<Rightarrow> (case sv_buffers s p of
           None \<Rightarrow> Fault UseAfterFree
         | Some b \<Rightarrow> map_state (\<lambda>x. s\<lparr>sv_buffers := (sv_buffers s)(p := Some (bx_buf x)), sv_cash := bx_cash x\<rparr>)
             (f \<lparr>bx_buf = b, bx_cash = sv_cash s\<rparr>)))"

definition ask_buffer_31 :: "nat \<Rightarrow> (Buffer_31 \<Rightarrow> 'v) \<Rightarrow> ServerImpl_31 \<Rightarrow> ('v, ServerImpl_31) outcome" where
  "ask_buffer_31 a f = on_buffer_31 a (\<lambda>x. Done (f (bx_buf x)) x)"

definition set_buffer_31 ::
    "nat \<Rightarrow> (Buffer_31 \<Rightarrow> Buffer_31) \<Rightarrow> ServerImpl_31 \<Rightarrow> (unit, ServerImpl_31) outcome" where
  "set_buffer_31 a f = on_buffer_31 a (\<lambda>x. Done () (put_buf (f (bx_buf x)) x))"

definition on_os_31 :: "(Os \<Rightarrow> ('v, Os) outcome) \<Rightarrow> ServerImpl_31 \<Rightarrow> ('v, ServerImpl_31) outcome" where
  "on_os_31 f s = map_state (\<lambda>os. s\<lparr>sv_os := os\<rparr>) (f (sv_os s))"

section \<open>The poll set\<close>

definition setPollElements_31 :: "ServerImpl_31 \<Rightarrow> (unit, ServerImpl_31) outcome" where
  "setPollElements_31 s =
     foldl (\<lambda>m (i, a). bind m (\<lambda>_ s.
         if i < MAX_COUNT_CONNECTIONS_31 then on_client_31 a (setPollElement_31 (sv_pollSet s i)) s
         else Fault OutOfBounds))
       (Done () s) (enumerate 1 (sv_clientList s))"

definition configurePollArr_31 :: "ServerImpl_31 \<Rightarrow> (unit, ServerImpl_31) outcome" where
  "configurePollArr_31 s =
     (let s = s\<lparr>sv_pollSet := (\<lambda>_. zero_pollfd_31)
            (0 := \<lparr>p_fd = getFdSocket_31 (sv_serverSocket s), p_events = POLLIN, p_revents = 0\<rparr>)\<rparr>
      in foldl (\<lambda>m (i, a). bind m (\<lambda>_ s. bind (ask_client_31 a getPollFd_31 s) (\<lambda>pollElement s.
             if i < MAX_COUNT_CONNECTIONS_31
             then Done () (s\<lparr>sv_pollSet := (sv_pollSet s)(i := pollElement)\<rparr>)
             else Fault OutOfBounds)))
           (Done () s) (enumerate 1 (sv_clientList s)))"

section \<open>Deleting connections\<close>

fun after_31 :: "nat \<Rightarrow> nat list \<Rightarrow> nat option" where
  "after_31 a [] = None"
| "after_31 a (x # xs) =
     (if x = a then (case xs of [] \<Rightarrow> None | y # ys \<Rightarrow> Some y) else after_31 a xs)"

definition begin_31 :: "nat list \<Rightarrow> nat option" where
  "begin_31 l = (case l of [] \<Rightarrow> None | x # xs \<Rightarrow> Some x)"

definition next_31 :: "nat option \<Rightarrow> ServerImpl_31 \<Rightarrow> (nat option, ServerImpl_31) outcome" where
  "next_31 it s = (case it of
     None \<Rightarrow> Done (begin_31 (sv_clientList s)) s
   | Some a \<Rightarrow> if a \<in> set (sv_clientList s) then Done (after_31 a (sv_clientList s)) s
               else Fault UseAfterFree)"

definition erase_31 :: "nat option \<Rightarrow> ServerImpl_31 \<Rightarrow> (nat option, ServerImpl_31) outcome" where
  "erase_31 it s = (case it of
     None \<Rightarrow> Fault UseAfterFree
   | Some a \<Rightarrow> if a \<in> set (sv_clientList s)
               then Done (after_31 a (sv_clientList s))
                      (s\<lparr>sv_clientList := erase_first a (sv_clientList s)\<rparr>)
               else Fault UseAfterFree)"

definition delete_buffer_31 :: "nat \<Rightarrow> ServerImpl_31 \<Rightarrow> ServerImpl_31" where
  "delete_buffer_31 p s = s\<lparr>sv_buffers := (sv_buffers s)(p := None)\<rparr>"

text \<open>The destructor closes the descriptor.\<close>

definition delete_client_31 :: "nat \<Rightarrow> ServerImpl_31 \<Rightarrow> (unit, ServerImpl_31) outcome" where
  "delete_client_31 a s = bind (ask_client_31 a getFdClient_31 s) (\<lambda>fd s.
     Done () (s\<lparr>sv_clients := (sv_clients s)(a := None), sv_os := sys_close fd (sv_os s)\<rparr>))"

text \<open>
  \<open>deleteClient\<close> gives its \<open>bool\<close> and the new position of the caller's iterator. Both kinds of
  connection are treated alike up to the side of the exchange they stand for.
\<close>

definition leaveUser_31 :: "nat \<Rightarrow> nat \<Rightarrow> ServerImpl_31 \<Rightarrow> (unit, ServerImpl_31) outcome" where
  "leaveUser_31 client p s =
     bind (ask_buffer_31 client isIsDataGetCash_31 s) (\<lambda>reading s.
     bind (if reading then on_buffer_31 client (on_element_31 minusCountUsers_31) s else Done () s) (\<lambda>_ s.
     bind (set_buffer_31 client (setStatusClient_31 END_WORK) s) (\<lambda>_ s.
     bind (set_buffer_31 client (setIsClientConnect_31 False) s) (\<lambda>_ s.
     bind (ask_buffer_31 client isIsServerConnect_31 s) (\<lambda>connected s.
     if \<not> connected then on_client_31 client (setBuffer_31 None) (delete_buffer_31 p s)
     else Done () s)))))"

definition leaveServer_31 :: "nat \<Rightarrow> nat \<Rightarrow> ServerImpl_31 \<Rightarrow> (unit, ServerImpl_31) outcome" where
  "leaveServer_31 client p s =
     bind (ask_buffer_31 client isIsAddDataToCash_31 s) (\<lambda>adding s.
     bind (if adding then on_buffer_31 client (on_element_31 (setIsServerConnect_31 False)) s
           else Done () s) (\<lambda>_ s.
     bind (set_buffer_31 client (setStatusServer_31 END_WORK) s) (\<lambda>_ s.
     bind (set_buffer_31 client (setIsServerConnect_buf_31 False) s) (\<lambda>_ s.
     bind (ask_buffer_31 client isIsClientConnect_31 s) (\<lambda>connected s.
     if \<not> connected then on_client_31 client (setBuffer_31 None) (delete_buffer_31 p s)
     else Done () s)))))"

definition deleteClient_31 ::
    "nat \<Rightarrow> nat option \<Rightarrow> ServerImpl_31 \<Rightarrow> (bool \<times> nat option, ServerImpl_31) outcome" where
  "deleteClient_31 client it s =
     bind (ask_client_31 client getTypeClient_31 s) (\<lambda>typ s.
     bind (erase_31 it s) (\<lambda>it s.
     bind (ask_client_31 client getBuffer_31 s) (\<lambda>p s.
     bind (case p of
         None \<Rightarrow> Done () s
       | Some p \<Rightarrow> if typ = USER then leaveUser_31 client p s else leaveServer_31 client p s) (\<lambda>_ s.
     bind (delete_client_31 client s) (\<lambda>_ s. Done (True, it) s)))))"

section \<open>One round of events\<close>

text \<open>
  The body of the loop at connection \<open>a\<close> gives the value it assigned to \<open>isNeedUpdatePollSet\<close>,
  if any, and the iterator it leaves. First the branch that connects to the HTTP server.
\<close>

definition openServer_31 :: "nat \<Rightarrow> ServerImpl_31 \<Rightarrow> (bool option \<times> nat option, ServerImpl_31) outcome" where
  "openServer_31 a s =
     bind (ask_buffer_31 a isReadyConnectHttpServer_31 s) (\<lambda>ready s.
     if \<not> ready then Done (None, Some a) s
     else
       bind (set_buffer_31 a (setReadyConnectHttpServer_31 False) s) (\<lambda>_ s.
       bind (ask_buffer_31 a getParseResult_31 s) (\<lambda>result s. case result of
         None \<Rightarrow> Fault NullDereference
       | Some r \<Rightarrow> (case on_os_31 (connectToClient_31 (hostName r) (port r)) s of
           Fault x \<Rightarrow> Fault x
         | Throws ex s \<Rightarrow> bind (deleteClient_31 a (Some a) s) (\<lambda>(upd, it) s. Done (Some upd, it) s)
         | Done client s \<Rightarrow>
             let n = sv_fresh s;
                 s = s\<lparr>sv_clients := (sv_clients s)(n := Some client), sv_fresh := Suc n\<rparr>
             in bind (ask_client_31 a getBuffer_31 s) (\<lambda>p s.
                bind (on_client_31 n (setBuffer_31 p) s) (\<lambda>_ s.
                bind (set_buffer_31 n (setIsServerConnect_buf_31 True) s) (\<lambda>_ s.
                Done (Some True, Some a) (s\<lparr>sv_clientList := sv_clientList s @ [n]\<rparr>))))))))"

definition readEvent_31 ::
    "(string \<Rightarrow> int64) \<Rightarrow> nat \<Rightarrow> ServerImpl_31 \<Rightarrow> (bool option \<times> nat option, ServerImpl_31) outcome" where
  "readEvent_31 hasher a s =
     bind (on_client_31 a setReventsZero_31 s) (\<lambda>_ s.
     bind (ask_client_31 a (\<lambda>c. c) s) (\<lambda>c s.
     bind (on_os_31 (readBuf_31 c []) s) (\<lambda>buffer s.
     if buffer = [] then bind (deleteClient_31 a (Some a) s) (\<lambda>(upd, it) s. Done (Some upd, it) s)
     else
       bind (case on_buffer_31 a (readFromSocket_31 hasher buffer) s of
               Throws (ParseException ex) s \<Rightarrow> Done () s
             | r \<Rightarrow> r) (\<lambda>_ s. openServer_31 a s))))"

definition writeEvent_31 :: "nat \<Rightarrow> ServerImpl_31 \<Rightarrow> (bool option \<times> nat option, ServerImpl_31) outcome" where
  "writeEvent_31 a s =
     bind (on_client_31 a setReventsZero_31 s) (\<lambda>_ s.
     bind (on_buffer_31 a isReadyToSend_31 s) (\<lambda>ready s.
     if \<not> ready then Done (None, Some a) s
     else
       bind (ask_client_31 a getTypeClient_31 s) (\<lambda>typ s.
       bind (ask_buffer_31 a (\<lambda>b. b) s) (\<lambda>b s.
       if \<not> (typ = HTTP_SERVER \<and> getStatusHttpServer_31 b = READ_REQUEST
             \<or> typ = USER \<and> getStatusClient_31 b = READ_RESPONSE) then Done (None, Some a) s
       else
         bind (on_buffer_31 a (sendBuf_31 []) s) (\<lambda>buffer s.
         bind (ask_client_31 a (\<lambda>c. c) s) (\<lambda>c s.
         bind (on_os_31 (sendBuf_client_31 c buffer) s) (\<lambda>_ s.
         bind (on_buffer_31 a (proofSend_31 buffer) s) (\<lambda>_ s. Done (None, Some a) s))))))))"

definition oneEvent_31 ::
    "(string \<Rightarrow> int64) \<Rightarrow> nat \<Rightarrow> ServerImpl_31 \<Rightarrow> (bool option \<times> nat option, ServerImpl_31) outcome" where
  "oneEvent_31 hasher a s =
     bind (ask_client_31 a (\<lambda>c. c) s) (\<lambda>c s.
     let typ = getTypeClient_31 c; revents = p_revents (getPollFd_31 c);
         gone = (\<lambda>s. bind (deleteClient_31 a (Some a) s) (\<lambda>(upd, it) s. Done (Some upd, it) s));
         write = (\<lambda>s. if and revents POLLOUT \<noteq> 0 then writeEvent_31 a s else Done (None, Some a) s)
     in if and revents POLLIN \<noteq> 0 then readEvent_31 hasher a s
        else
          bind (ask_buffer_31 a (\<lambda>b. b) s) (\<lambda>b s.
          if typ = USER \<and> getStatusClient_31 b = END_WORK then gone s
          else if typ = HTTP_SERVER \<and> getStatusHttpServer_31 b = END_WORK then gone s
          else if typ = USER \<and> getStatusHttpServer_31 b = END_WORK then
            bind (on_buffer_31 a isReadyToSend_31 s) (\<lambda>ready s. if \<not> ready then gone s else write s)
          else if typ = HTTP_SERVER \<and> getStatusClient_31 b = END_WORK \<and> isSendEnd_31 b then gone s
          else write s))"

fun handleFrom_31 ::
    "nat \<Rightarrow> (string \<Rightarrow> int64) \<Rightarrow> bool \<Rightarrow> nat option \<Rightarrow> ServerImpl_31 \<Rightarrow> (bool, ServerImpl_31) outcome" where
  "handleFrom_31 0 hasher upd it s = Fault OutOfFuel"
| "handleFrom_31 (Suc k) hasher upd it s = (case it of
     None \<Rightarrow> Done upd s
   | Some a \<Rightarrow> bind (oneEvent_31 hasher a s) (\<lambda>(u, it) s.
       bind (next_31 it s) (\<lambda>it s.
       handleFrom_31 k hasher (case u of None \<Rightarrow> upd | Some b \<Rightarrow> b) it s)))"

definition handlingEvent_31 ::
    "nat \<Rightarrow> (string \<Rightarrow> int64) \<Rightarrow> ServerImpl_31 \<Rightarrow> (unit, ServerImpl_31) outcome" where
  "handlingEvent_31 k hasher s =
     bind (handleFrom_31 k hasher False (begin_31 (sv_clientList s)) s) (\<lambda>isNeedUpdatePollSet s.
     if isNeedUpdatePollSet then configurePollArr_31 s else Done () s)"

section \<open>The server\<close>

text \<open>
  \<open>poll\<close> overwrites the \<open>revents\<close> of the entries it was given, unless it fails. Its answer
  lists them from entry 0 on.
\<close>

definition sys_poll_31 :: "ServerImpl_31 \<Rightarrow> (int32, ServerImpl_31) outcome" where
  "sys_poll_31 s = (case o_polls (sv_os s) of
     [] \<Rightarrow> Fault OutOfFuel
   | (code, revents) # rest \<Rightarrow>
       Done code (s\<lparr>sv_os := (sv_os s)\<lparr>o_polls := rest\<rparr>,
         sv_pollSet := (if code = -1 then sv_pollSet s
           else (\<lambda>i. if i \<le> length (sv_clientList s)
             then (sv_pollSet s i)\<lparr>p_revents := (if i < length revents then revents ! i else 0)\<rparr>
             else sv_pollSet s i))\<rparr>))"

definition acceptEvent_31 :: "ServerImpl_31 \<Rightarrow> (unit, ServerImpl_31) outcome" where
  "acceptEvent_31 s =
     (if and (p_revents (sv_pollSet s 0)) POLLIN = 0 then Done () s
      else
        let s = s\<lparr>sv_pollSet := (sv_pollSet s)(0 := (sv_pollSet s 0)\<lparr>p_revents := 0\<rparr>)\<rparr>
        in case acceptNewClient_31 (sv_fresh s) (sv_serverSocket s) of
             Fault x \<Rightarrow> Fault x
           | Throws ex sock \<Rightarrow> Throws ex (s\<lparr>sv_serverSocket := sock\<rparr>)
           | Done (client, buf) sock \<Rightarrow>
               let n = sv_fresh s
               in configurePollArr_31 (s\<lparr>sv_serverSocket := sock,
                    sv_clients := (sv_clients s)(n := Some client),
                    sv_buffers := (sv_buffers s)(n := Some buf), sv_fresh := Suc n,
                    sv_clientList := sv_clientList s @ [n]\<rparr>))"

text \<open>\<open>_isWork\<close> is never changed, so the loop ends only by an exception.\<close>

fun serverLoop_31 :: "nat \<Rightarrow> nat \<Rightarrow> (string \<Rightarrow> int64) \<Rightarrow> ServerImpl_31 \<Rightarrow> (unit, ServerImpl_31) outcome" where
  "serverLoop_31 0 n hasher s = Fault OutOfFuel"
| "serverLoop_31 (Suc k) n hasher s =
     (if \<not> sv_isWork s then Done () s
      else
        bind (sys_poll_31 s) (\<lambda>code s.
        bind (setPollElements_31 s) (\<lambda>_ s.
        bind (if code = -1 then Done () s
              else if code = 0 then Done () s
              else bind (handlingEvent_31 n hasher s) (\<lambda>_ s. acceptEvent_31 s)) (\<lambda>_ s.
        serverLoop_31 k n hasher s))))"

definition startServer_31 :: "nat \<Rightarrow> nat \<Rightarrow> (string \<Rightarrow> int64) \<Rightarrow> ServerImpl_31 \<Rightarrow> (unit, ServerImpl_31) outcome" where
  "startServer_31 k n hasher s = bind (configurePollArr_31 s) (\<lambda>_ s. serverLoop_31 k n hasher s)"

definition new_ServerImpl_31 ::
    "ListenAnswers \<Rightarrow> int32 list \<Rightarrow> Os \<Rightarrow> (nat \<Rightarrow> CashElement_31) \<Rightarrow> (unit, ServerImpl_31) outcome" where
  "new_ServerImpl_31 ans accepts os mem =
     (let server = (\<lambda>sock. \<lparr>sv_isWork = True, sv_serverSocket = sock, sv_pollSet = (\<lambda>_. zero_pollfd_31),
            sv_clientList = [], sv_clients = (\<lambda>_. None), sv_buffers = (\<lambda>_. None), sv_fresh = 0,
            sv_cash = new_CashImpl_31 mem, sv_os = os\<rparr>)
      in map_state server (bind (connectSocket_31 ans (new_ServerSocketImpl_31 accepts)) (\<lambda>code sock.
           Done () sock)))"

definition main_31 ::
    "nat \<Rightarrow> nat \<Rightarrow> (string \<Rightarrow> int64) \<Rightarrow> ListenAnswers \<Rightarrow> int32 list \<Rightarrow> Os \<Rightarrow> (nat \<Rightarrow> CashElement_31)
     \<Rightarrow> (int32, ServerImpl_31) outcome" where
  "main_31 k n hasher ans accepts os mem =
     (case bind (new_ServerImpl_31 ans accepts os mem) (\<lambda>_ server. startServer_31 k n hasher server) of
        Throws ex server \<Rightarrow> Done 0 server
      | Done u server \<Rightarrow> Done 0 server
      | Fault x \<Rightarrow> Fault x)"

end
