(* ===== verification/Lab31_Server_Correct.thy ===== *)
theory Lab31_Server_Correct
  imports Lab31_Server Lab31_Buffer_Correct Handler_Correct
begin

text \<open>
  The single-threaded proxy: who holds an exchange and what deleting a connection keeps of that; the
  poll set; what a second server connection for one exchange does; and the connection a round
  passes over.
\<close>

section \<open>Access through a connection\<close>

lemma ask_client_31_Some: "sv_clients s a = Some c \<Longrightarrow> ask_client_31 a f s = Done (f c) s"
  by (simp add: ask_client_31_def)

lemma on_client_31_Some:
  "sv_clients s a = Some c \<Longrightarrow> on_client_31 a f s = Done () (s\<lparr>sv_clients := (sv_clients s)(a := Some (f c))\<rparr>)"
  by (simp add: on_client_31_def)

lemma on_buffer_31_Some:
  "sv_clients s a = Some c \<Longrightarrow> cl_buffer c = Some p \<Longrightarrow> sv_buffers s p = Some b \<Longrightarrow>
   on_buffer_31 a f s = map_state (\<lambda>x. s\<lparr>sv_buffers := (sv_buffers s)(p := Some (bx_buf x)), sv_cash := bx_cash x\<rparr>)
     (f \<lparr>bx_buf = b, bx_cash = sv_cash s\<rparr>)"
  by (simp add: on_buffer_31_def ask_client_31_def getBuffer_31_def)

lemma ask_buffer_31_Some:
  "sv_clients s a = Some c \<Longrightarrow> cl_buffer c = Some p \<Longrightarrow> sv_buffers s p = Some b \<Longrightarrow> ask_buffer_31 a f s = Done (f b) s"
  by (simp add: ask_buffer_31_def on_buffer_31_Some fun_upd_idem)

lemma set_buffer_31_Some:
  "sv_clients s a = Some c \<Longrightarrow> cl_buffer c = Some p \<Longrightarrow> sv_buffers s p = Some b \<Longrightarrow>
   set_buffer_31 a f s = Done () (s\<lparr>sv_buffers := (sv_buffers s)(p := Some (f b))\<rparr>)"
  by (simp add: set_buffer_31_def on_buffer_31_Some)

lemma on_element_buffer_31:
  assumes "sv_clients s a = Some c" "cl_buffer c = Some p" "sv_buffers s p = Some b" "f_cashElement b \<noteq> None"
  shows "\<exists>k. on_buffer_31 a (on_element_31 g) s = Done () (s\<lparr>sv_cash := k\<rparr>)"
  using assms by (auto simp: on_buffer_31_Some on_element_31_def Let_def fun_upd_idem)

section \<open>Who holds an exchange\<close>

definition holder :: "ServerImpl_31 \<Rightarrow> TypeClient_31 \<Rightarrow> nat \<Rightarrow> nat \<Rightarrow> bool" where
  "holder s ty p a \<longleftrightarrow> a \<in> set (sv_clientList s)
     \<and> (\<exists>c. sv_clients s a = Some c \<and> cl_typeClient c = ty \<and> cl_buffer c = Some p)"

text \<open>
  Every connection in the list is alive and holds a live exchange; a live exchange is held by some
  connection; its two flags say whether a user and a server hold it; no two connections of one kind
  hold the same.
\<close>

definition linked_31 :: "ServerImpl_31 \<Rightarrow> bool" where
  "linked_31 s \<longleftrightarrow> distinct (sv_clientList s)
     \<and> (\<forall>a \<in> set (sv_clientList s). \<exists>ty p b. holder s ty p a \<and> sv_buffers s p = Some b)
     \<and> (\<forall>p b. sv_buffers s p = Some b \<longrightarrow>
          (f_isClientConnect b \<longleftrightarrow> (\<exists>a. holder s USER p a)) \<and> (f_isServerConnect b \<longleftrightarrow> (\<exists>a. holder s HTTP_SERVER p a))
          \<and> (f_isClientConnect b \<or> f_isServerConnect b)
          \<and> (f_isDataGetCash b \<or> f_isAddDataToCash b \<longrightarrow> f_cashElement b \<noteq> None))
     \<and> (\<forall>ty p a a'. holder s ty p a \<longrightarrow> holder s ty p a' \<longrightarrow> a = a')"

text \<open>What is left of an exchange when its user, or its server, leaves.\<close>

definition left_behind :: "TypeClient_31 \<Rightarrow> Buffer_31 \<Rightarrow> Buffer_31 option" where
  "left_behind ty b = (case ty of
     USER \<Rightarrow> if f_isServerConnect b then Some (b\<lparr>f_statusClient := END_WORK, f_isClientConnect := False\<rparr>) else None
   | HTTP_SERVER \<Rightarrow> if f_isClientConnect b then Some (b\<lparr>f_statusHttpServer := END_WORK, f_isServerConnect := False\<rparr>)
       else None)"

lemma leave_31:
  assumes "sv_clients s a = Some c" "cl_buffer c = Some p" "sv_buffers s p = Some b"
    and "f_isDataGetCash b \<or> f_isAddDataToCash b \<Longrightarrow> f_cashElement b \<noteq> None"
  shows "\<exists>s'. (if cl_typeClient c = USER then leaveUser_31 a p s else leaveServer_31 a p s) = Done () s'
    \<and> sv_clientList s' = sv_clientList s \<and> sv_os s' = sv_os s \<and> sv_pollSet s' = sv_pollSet s
    \<and> sv_buffers s' = (sv_buffers s)(p := left_behind (cl_typeClient c) b)
    \<and> (\<exists>q. sv_clients s' = (sv_clients s)(a := Some (c\<lparr>cl_buffer := q\<rparr>)))"
proof (cases "cl_typeClient c")
  case USER
  define s1 where "s1 = (if f_isDataGetCash b then (case on_buffer_31 a (on_element_31 minusCountUsers_31) s of
      Done u t \<Rightarrow> t | _ \<Rightarrow> s) else s)"
  have step: "(if f_isDataGetCash b then on_buffer_31 a (on_element_31 minusCountUsers_31) s else Done () s) = Done () s1"
    and s1: "sv_clients s1 = sv_clients s" "sv_buffers s1 = sv_buffers s" "sv_clientList s1 = sv_clientList s"
      "sv_os s1 = sv_os s" "sv_pollSet s1 = sv_pollSet s"
    using on_element_buffer_31 [OF assms(1-3), of minusCountUsers_31] assms(4) by (auto simp: s1_def)
  have c1: "sv_clients s1 a = Some c" "sv_buffers s1 p = Some b" using assms s1 by simp_all
  show ?thesis
    using USER s1 c1 assms(2)
    by (cases "f_isServerConnect b")
       (auto simp: leaveUser_31_def ask_buffer_31_Some [OF assms(1-3)] isIsDataGetCash_31_def step
         set_buffer_31_Some [OF c1(1) assms(2) c1(2)] set_buffer_31_Some ask_buffer_31_Some
         setStatusClient_31_def setIsClientConnect_31_def isIsServerConnect_31_def left_behind_def
         on_client_31_Some delete_buffer_31_def setBuffer_31_def fun_upd_idem
         intro: exI [of _ "cl_buffer c"] exI [of _ None])
next
  case HTTP_SERVER
  define s1 where "s1 = (if f_isAddDataToCash b then (case on_buffer_31 a (on_element_31 (setIsServerConnect_31 False)) s of
      Done u t \<Rightarrow> t | _ \<Rightarrow> s) else s)"
  have step: "(if f_isAddDataToCash b then on_buffer_31 a (on_element_31 (setIsServerConnect_31 False)) s else Done () s) = Done () s1"
    and s1: "sv_clients s1 = sv_clients s" "sv_buffers s1 = sv_buffers s" "sv_clientList s1 = sv_clientList s"
      "sv_os s1 = sv_os s" "sv_pollSet s1 = sv_pollSet s"
    using on_element_buffer_31 [OF assms(1-3), of "setIsServerConnect_31 False"] assms(4) by (auto simp: s1_def)
  have c1: "sv_clients s1 a = Some c" "sv_buffers s1 p = Some b" using assms s1 by simp_all
  show ?thesis
    using HTTP_SERVER s1 c1 assms(2)
    by (cases "f_isClientConnect b")
       (auto simp: leaveServer_31_def ask_buffer_31_Some [OF assms(1-3)] isIsAddDataToCash_31_def step
         set_buffer_31_Some [OF c1(1) assms(2) c1(2)] set_buffer_31_Some ask_buffer_31_Some
         setStatusServer_31_def setIsServerConnect_buf_31_def isIsClientConnect_31_def left_behind_def
         on_client_31_Some delete_buffer_31_def setBuffer_31_def fun_upd_idem
         intro: exI [of _ "cl_buffer c"] exI [of _ None])
qed

lemma deleteClient_31_eq:
  assumes "a \<in> set (sv_clientList s)" "sv_clients s a = Some c" "cl_buffer c = Some p" "sv_buffers s p = Some b"
    and "f_isDataGetCash b \<or> f_isAddDataToCash b \<Longrightarrow> f_cashElement b \<noteq> None"
  shows "\<exists>s'. deleteClient_31 a (Some a) s = Done (True, after_31 a (sv_clientList s)) s'
    \<and> sv_clientList s' = remove1 a (sv_clientList s)
    \<and> sv_clients s' = (sv_clients s)(a := None)
    \<and> sv_buffers s' = (sv_buffers s)(p := left_behind (cl_typeClient c) b)
    \<and> o_closed (sv_os s') = o_closed (sv_os s) @ [cl_fd c]
    \<and> sv_pollSet s' = sv_pollSet s"
proof -
  define s1 where "s1 = s\<lparr>sv_clientList := erase_first a (sv_clientList s)\<rparr>"
  have s1: "sv_clients s1 a = Some c" "sv_buffers s1 p = Some b" using assms by (simp_all add: s1_def)
  from leave_31 [OF s1(1) assms(3) s1(2) assms(5)] obtain s2 q where
    s2: "(if cl_typeClient c = USER then leaveUser_31 a p s1 else leaveServer_31 a p s1) = Done () s2"
    "sv_clientList s2 = sv_clientList s1" "sv_os s2 = sv_os s1" "sv_pollSet s2 = sv_pollSet s1"
    "sv_buffers s2 = (sv_buffers s1)(p := left_behind (cl_typeClient c) b)"
    "sv_clients s2 = (sv_clients s1)(a := Some (c\<lparr>cl_buffer := q\<rparr>))" by blast
  have "erase_31 (Some a) s = Done (after_31 a (sv_clientList s)) s1"
    using assms(1) by (simp add: erase_31_def s1_def)
  then have "deleteClient_31 a (Some a) s
    = Done (True, after_31 a (sv_clientList s)) (s2\<lparr>sv_clients := (sv_clients s2)(a := None),
        sv_os := sys_close (cl_fd c) (sv_os s2)\<rparr>)"
    using s1(1) s2(1,6) assms(2,3)
    by (simp add: deleteClient_31_def
        getTypeClient_31_def getBuffer_31_def delete_client_31_def ask_client_31_def getFdClient_31_def)
  then show ?thesis
    using s2 by (simp add: s1_def erase_first_remove1 sys_close_def)
qed

lemma holder_type: "holder s ty p a \<Longrightarrow> holder s ty' q a \<Longrightarrow> ty' = ty \<and> q = p"
  by (auto simp: holder_def)

lemma holder_after_delete:
  assumes "distinct (sv_clientList s)" "sv_clientList s' = remove1 a (sv_clientList s)"
    and "sv_clients s' = (sv_clients s)(a := None)"
  shows "holder s' ty q x \<longleftrightarrow> x \<noteq> a \<and> holder s ty q x"
  using assms by (auto simp: holder_def)

text \<open>A buffer that somebody else holds is kept, and its flags say who that is.\<close>

lemma left_behind_flags:
  assumes "linked_31 s" "holder s ty p a" "sv_buffers s p = Some b" "left_behind ty b = Some b'"
  shows "(f_isClientConnect b' \<longleftrightarrow> (\<exists>x. x \<noteq> a \<and> holder s USER p x))
    \<and> (f_isServerConnect b' \<longleftrightarrow> (\<exists>x. x \<noteq> a \<and> holder s HTTP_SERVER p x))
    \<and> (f_isClientConnect b' \<or> f_isServerConnect b')
    \<and> f_isDataGetCash b' = f_isDataGetCash b \<and> f_isAddDataToCash b' = f_isAddDataToCash b
    \<and> f_cashElement b' = f_cashElement b"
proof -
  have flags: "f_isClientConnect b \<longleftrightarrow> (\<exists>x. holder s USER p x)" "f_isServerConnect b \<longleftrightarrow> (\<exists>x. holder s HTTP_SERVER p x)"
    and one: "\<And>ty x y. holder s ty p x \<Longrightarrow> holder s ty p y \<Longrightarrow> x = y"
    using assms(1,3) unfolding linked_31_def by blast+
  have mine: "holder s ty p x \<longleftrightarrow> x = a" and ne: "holder s ty' p x \<Longrightarrow> ty' \<noteq> ty \<Longrightarrow> x \<noteq> a" for ty' x
    using one [of ty x a] assms(2) holder_type [of s ty p a ty' p] by auto
  show ?thesis
  proof (cases ty)
    case USER
    then have b': "f_isServerConnect b" "b' = b\<lparr>f_statusClient := END_WORK, f_isClientConnect := False\<rparr>"
      using assms(4) by (auto simp: left_behind_def split: if_splits)
    show ?thesis
      using b' flags mine ne [of HTTP_SERVER] USER by auto
  next
    case HTTP_SERVER
    then have b': "f_isClientConnect b" "b' = b\<lparr>f_statusHttpServer := END_WORK, f_isServerConnect := False\<rparr>"
      using assms(4) by (auto simp: left_behind_def split: if_splits)
    show ?thesis
      using b' flags mine ne [of USER] HTTP_SERVER by auto
  qed
qed

lemma left_behind_held:
  assumes "linked_31 s" "holder s ty p a" "sv_buffers s p = Some b" "holder s ty' p x" "x \<noteq> a"
  shows "\<exists>b'. left_behind ty b = Some b'"
proof -
  have "ty' \<noteq> ty" using assms unfolding linked_31_def by blast
  moreover have "f_isClientConnect b \<longleftrightarrow> (\<exists>x. holder s USER p x)" "f_isServerConnect b \<longleftrightarrow> (\<exists>x. holder s HTTP_SERVER p x)"
    using assms(1,3) unfolding linked_31_def by blast+
  ultimately show ?thesis
    using assms(4) by (cases ty; cases ty') (auto simp: left_behind_def)
qed

lemma linked_31_after_delete:
  assumes "linked_31 s" "holder s ty p a" "sv_buffers s p = Some b"
    and "sv_clientList s' = remove1 a (sv_clientList s)" "sv_clients s' = (sv_clients s)(a := None)"
    and "sv_buffers s' = (sv_buffers s)(p := left_behind ty b)"
  shows "linked_31 s'"
proof -
  have dist: "distinct (sv_clientList s)"
    and each: "\<And>x. x \<in> set (sv_clientList s) \<Longrightarrow> \<exists>ty p b. holder s ty p x \<and> sv_buffers s p = Some b"
    and one: "\<And>ty p x y. holder s ty p x \<Longrightarrow> holder s ty p y \<Longrightarrow> x = y"
    and cached: "\<And>p b. sv_buffers s p = Some b \<Longrightarrow> f_isDataGetCash b \<or> f_isAddDataToCash b \<Longrightarrow> f_cashElement b \<noteq> None"
    and flags: "\<And>p b. sv_buffers s p = Some b \<Longrightarrow> (f_isClientConnect b \<longleftrightarrow> (\<exists>a. holder s USER p a))
      \<and> (f_isServerConnect b \<longleftrightarrow> (\<exists>a. holder s HTTP_SERVER p a)) \<and> (f_isClientConnect b \<or> f_isServerConnect b)"
    using assms(1) unfolding linked_31_def by blast+
  note holder' = holder_after_delete [OF dist assms(4,5)]
  have other: "holder s ty' q a \<Longrightarrow> q = p" for ty' q using holder_type [OF assms(2)] by blast
  have "\<exists>ty q b. holder s' ty q x \<and> sv_buffers s' q = Some b" if x: "x \<in> set (sv_clientList s')" for x
  proof -
    from x have x': "x \<in> set (sv_clientList s)" "x \<noteq> a" using assms(4) dist by auto
    from each [OF x'(1)] obtain t q c where q: "holder s t q x" "sv_buffers s q = Some c" by blast
    show ?thesis
    proof (cases "q = p")
      case True
      then show ?thesis
        using q x'(2) left_behind_held [OF assms(1-3), of t x] assms(6) holder' by auto
    next
      case False
      then show ?thesis using q x'(2) assms(6) holder' by auto
    qed
  qed
  moreover have "(f_isClientConnect c \<longleftrightarrow> (\<exists>a. holder s' USER q a)) \<and> (f_isServerConnect c \<longleftrightarrow> (\<exists>a. holder s' HTTP_SERVER q a))
      \<and> (f_isClientConnect c \<or> f_isServerConnect c)
      \<and> (f_isDataGetCash c \<or> f_isAddDataToCash c \<longrightarrow> f_cashElement c \<noteq> None)" if c: "sv_buffers s' q = Some c" for q c
  proof (cases "q = p")
    case True
    then show ?thesis
      using c assms(6) left_behind_flags [OF assms(1-3), of c] cached [OF assms(3)] holder' by auto
  next
    case False
    then have "sv_buffers s q = Some c" "\<And>t. holder s t q x \<longleftrightarrow> holder s' t q x" for x
      using c assms(6) holder' other by auto
    then show ?thesis using flags [of q c] cached [of q c] by auto
  qed
  ultimately show ?thesis
    unfolding linked_31_def using dist one holder' assms(4) by auto
qed

text \<open>
  C11: Removing any connection from a server whose connections and exchanges are properly linked
  never touches freed memory: it closes exactly that connection's descriptor, takes it from the
  list, moves the caller's iterator to the connection after it, frees the exchange exactly when
  nobody else holds it, and leaves a properly linked server.
\<close>

theorem deleteClient_keeps_links:
  assumes "linked_31 s" "a \<in> set (sv_clientList s)"
  shows "\<exists>c p s'. sv_clients s a = Some c \<and> cl_buffer c = Some p
    \<and> deleteClient_31 a (Some a) s = Done (True, after_31 a (sv_clientList s)) s'
    \<and> linked_31 s' \<and> sv_clientList s' = remove1 a (sv_clientList s)
    \<and> o_closed (sv_os s') = o_closed (sv_os s) @ [cl_fd c]
    \<and> (sv_buffers s' p = None \<longleftrightarrow> (\<forall>x ty. holder s ty p x \<longrightarrow> x = a))"
proof -
  from assms obtain ty p b where h: "holder s ty p a" "sv_buffers s p = Some b"
    unfolding linked_31_def by blast
  then obtain c where c: "sv_clients s a = Some c" "cl_typeClient c = ty" "cl_buffer c = Some p"
    by (auto simp: holder_def)
  have cached: "f_isDataGetCash b \<or> f_isAddDataToCash b \<Longrightarrow> f_cashElement b \<noteq> None"
    using assms(1) h(2) unfolding linked_31_def by blast
  from deleteClient_31_eq [OF assms(2) c(1,3) h(2) cached] obtain s' where
    s': "deleteClient_31 a (Some a) s = Done (True, after_31 a (sv_clientList s)) s'"
    "sv_clientList s' = remove1 a (sv_clientList s)" "sv_clients s' = (sv_clients s)(a := None)"
    "sv_buffers s' = (sv_buffers s)(p := left_behind ty b)"
    "o_closed (sv_os s') = o_closed (sv_os s) @ [cl_fd c]" using c(2) by blast
  have linked: "linked_31 s'" by (rule linked_31_after_delete [OF assms(1) h s'(2-4)])
  have "left_behind ty b = None \<longleftrightarrow> (\<forall>x ty. holder s ty p x \<longrightarrow> x = a)"
    using left_behind_held [OF assms(1) h] left_behind_flags [OF assms(1) h]
    by (metis not_None_eq)
  then show ?thesis using c s' linked by auto
qed

section \<open>A second server connection for one exchange\<close>

text \<open>More bytes from a user whose request is still unsent are taken for the heading again.\<close>

lemma heading_again_31:
  assumes "f_statusClient (bx_buf x) = WRITE_REQUEST_HEADING"
    and "findEndHeading_31 (f_buf (bx_buf x) @ bs) = (END_HEADING, e)"
    and "h = substr0 (f_buf (bx_buf x) @ bs) e" "parsingHeading_31 h = Inr r" "rtype r = GET_REQUEST"
    and "\<not> isElementInCash_31 hasher h (bx_cash x)"
  shows "readFromSocket_31 hasher bs x = Done () (put_buf ((bx_buf x)\<lparr>f_buf := f_buf (bx_buf x) @ bs,
    f_requestHeading := h, f_resultParseHeading := Some r, f_isReadyConnectHttpServer := True,
    f_isReadyToSend := True, f_isEndSend := True\<rparr>) x)"
  using assms
  by (simp add: readFromSocket_31_def wrightRequestHeading_31_def parsHead_31_def serveRequest_31_def put_buf_def Let_def)

lemma openServer_31_connects:
  assumes "sv_clients s a = Some c" "cl_buffer c = Some p" "sv_buffers s p = Some b"
    and "f_isReadyConnectHttpServer b" "f_resultParseHeading b = Some r" "a \<noteq> sv_fresh s"
    and "o_connects (sv_os s) = ans # answers" "a_resolved ans" "a_sock ans \<noteq> -1" "a_connect ans \<noteq> -1"
  shows "\<exists>s'. openServer_31 a s = Done (Some True, Some a) s'
    \<and> sv_clientList s' = sv_clientList s @ [sv_fresh s]
    \<and> sv_clients s' = (sv_clients s)(sv_fresh s := Some (new_ClientImpl_31 (a_sock ans) HTTP_SERVER (Some p)))
    \<and> sv_buffers s' = (sv_buffers s)(p := Some (b\<lparr>f_isReadyConnectHttpServer := False, f_isServerConnect := True\<rparr>))"
proof -
  let ?b = "b\<lparr>f_isReadyConnectHttpServer := False\<rparr>"
  define s1 where "s1 = s\<lparr>sv_buffers := (sv_buffers s)(p := Some ?b)\<rparr>"
  have s1: "sv_clients s1 = sv_clients s" "sv_buffers s1 p = Some ?b" "sv_os s1 = sv_os s" "sv_fresh s1 = sv_fresh s"
    "sv_clientList s1 = sv_clientList s" "sv_buffers s1 = (sv_buffers s)(p := Some ?b)"
    by (simp_all add: s1_def)
  have set1: "set_buffer_31 a (setReadyConnectHttpServer_31 False) s = Done () s1"
    by (simp add: set_buffer_31_Some [OF assms(1-3)] s1_def setReadyConnectHttpServer_31_def)
  have c1: "sv_clients s1 a = Some c" using assms(1) s1 by simp
  let ?os = "(sv_os s)\<lparr>o_connects := answers, o_dialed := o_dialed (sv_os s) @ [(hostName r, ucast (port r))]\<rparr>"
  have dial: "connectToClient_31 (hostName r) (port r) (sv_os s) = Done (new_ClientImpl_31 (a_sock ans) HTTP_SERVER None) ?os"
    using assms(7-10) by (simp add: connectToClient_31_def ERROR_CODE_31_def Let_def)
  let ?n = "sv_fresh s"
  let ?c = "new_ClientImpl_31 (a_sock ans) HTTP_SERVER None"
  define s2 where "s2 = s1\<lparr>sv_os := ?os, sv_clients := (sv_clients s)(?n := Some ?c), sv_fresh := Suc ?n\<rparr>"
  define s3 where "s3 = s2\<lparr>sv_clients := (sv_clients s2)(?n := Some (setBuffer_31 (Some p) ?c))\<rparr>"
  have n2: "sv_clients s2 a = Some c" "sv_clients s2 ?n = Some ?c" using assms(1,6) by (simp_all add: s2_def)
  have n3: "sv_clients s3 ?n = Some (setBuffer_31 (Some p) ?c)" "cl_buffer (setBuffer_31 (Some p) ?c) = Some p"
    "sv_buffers s3 p = Some ?b"
    using s1 by (simp_all add: s3_def s2_def setBuffer_31_def)
  have "openServer_31 a s
    = Done (Some True, Some a) (s3\<lparr>sv_buffers := (sv_buffers s3)(p := Some (?b\<lparr>f_isServerConnect := True\<rparr>)),
        sv_clientList := sv_clientList s3 @ [?n]\<rparr>)"
    using assms(4,5) s1 n2 dial
    by (simp add: openServer_31_def ask_buffer_31_Some [OF assms(1-3)] isReadyConnectHttpServer_31_def set1
        ask_buffer_31_Some [OF c1 assms(2) s1(2)] getParseResult_31_def on_os_31_def s2_def [symmetric] Let_def
        ask_client_31_Some on_client_31_Some getBuffer_31_def assms(2) s3_def [symmetric]
        set_buffer_31_Some [OF n3] setIsServerConnect_buf_31_def)
  then show ?thesis
    using s1 by (simp add: s3_def s2_def setBuffer_31_def new_ClientImpl_31_def)
qed

lemma readEvent_31_again:
  assumes "sv_clients s a = Some c" "cl_buffer c = Some p" "sv_buffers s p = Some b" "a \<noteq> sv_fresh s"
    and "o_reads (sv_os s) = Bytes bs # rs" "bs \<noteq> []" "length bs < 2 ^ 20"
    and "f_statusClient b = WRITE_REQUEST_HEADING" "findEndHeading_31 (f_buf b @ bs) = (END_HEADING, e)"
    and "h = substr0 (f_buf b @ bs) e" "parsingHeading_31 h = Inr r" "rtype r = GET_REQUEST"
    and "\<not> isElementInCash_31 hasher h (sv_cash s)"
    and "o_connects (sv_os s) = ans # answers" "a_resolved ans" "a_sock ans \<noteq> -1" "a_connect ans \<noteq> -1"
  shows "\<exists>s' c' b'. readEvent_31 hasher a s = Done (Some True, Some a) s'
    \<and> sv_clientList s' = sv_clientList s @ [sv_fresh s]
    \<and> sv_clients s' = (sv_clients s)(a := Some c', sv_fresh s := Some (new_ClientImpl_31 (a_sock ans) HTTP_SERVER (Some p)))
    \<and> cl_typeClient c' = cl_typeClient c \<and> cl_buffer c' = Some p
    \<and> sv_buffers s' = (sv_buffers s)(p := Some b') \<and> f_isClientConnect b' = f_isClientConnect b \<and> f_isServerConnect b'
    \<and> f_isDataGetCash b' = f_isDataGetCash b \<and> f_isAddDataToCash b' = f_isAddDataToCash b
    \<and> f_cashElement b' = f_cashElement b"
proof -
  let ?c = "setReventsZero_31 c" and ?os = "(sv_os s)\<lparr>o_reads := rs\<rparr>"
  define s1 where "s1 = s\<lparr>sv_clients := (sv_clients s)(a := Some ?c)\<rparr>"
  define s2 where "s2 = s1\<lparr>sv_os := ?os\<rparr>"
  have c: "cl_buffer ?c = Some p" "cl_typeClient ?c = cl_typeClient c" using assms(2) by (simp_all add: setReventsZero_31_def)
  have s2: "sv_clients s2 a = Some ?c" "sv_buffers s2 p = Some b" "sv_clients s1 a = Some ?c" using assms(3) by (simp_all add: s1_def s2_def)
  have "unat (BUF_SIZE_31 - 1) = 1048575" by (simp add: BUF_SIZE_31_def)
  then have read: "on_os_31 (readBuf_31 ?c []) s1 = Done bs s2"
    using assms(5,7) by (simp add: on_os_31_def readBuf_31_def sys_read_def s1_def s2_def Let_def)
  let ?b = "b\<lparr>f_buf := f_buf b @ bs, f_requestHeading := h, f_resultParseHeading := Some r,
    f_isReadyConnectHttpServer := True, f_isReadyToSend := True, f_isEndSend := True\<rparr>"
  have "readFromSocket_31 hasher bs \<lparr>bx_buf = b, bx_cash = sv_cash s\<rparr> = Done () \<lparr>bx_buf = ?b, bx_cash = sv_cash s\<rparr>"
    by (subst heading_again_31 [where h = h and r = r and e = e]) (use assms in \<open>simp_all add: put_buf_def\<close>)
  moreover define s3 where "s3 = s2\<lparr>sv_buffers := (sv_buffers s)(p := Some ?b)\<rparr>"
  ultimately have parse: "on_buffer_31 a (readFromSocket_31 hasher bs) s2 = Done () s3"
    by (subst on_buffer_31_Some [OF s2(1) c(1) s2(2)]) (simp add: s2_def s1_def)
  have "readEvent_31 hasher a s = openServer_31 a s3"
    using assms(6) by (simp add: readEvent_31_def on_client_31_Some [OF assms(1)] s1_def [symmetric] ask_client_31_Some [OF s2(3)] read parse)
  moreover have s3: "sv_clients s3 = (sv_clients s)(a := Some ?c)" "sv_buffers s3 = (sv_buffers s)(p := Some ?b)"
    "sv_clientList s3 = sv_clientList s" "sv_fresh s3 = sv_fresh s" "o_connects (sv_os s3) = ans # answers"
    using assms(14) by (simp_all add: s3_def s2_def s1_def)
  moreover have "\<exists>s'. openServer_31 a s3 = Done (Some True, Some a) s'
    \<and> sv_clientList s' = sv_clientList s3 @ [sv_fresh s3]
    \<and> sv_clients s' = (sv_clients s3)(sv_fresh s3 := Some (new_ClientImpl_31 (a_sock ans) HTTP_SERVER (Some p)))
    \<and> sv_buffers s' = (sv_buffers s3)(p := Some (?b\<lparr>f_isReadyConnectHttpServer := False, f_isServerConnect := True\<rparr>))"
    by (rule openServer_31_connects [where c = ?c and r = r]) (use assms s3 c in simp_all)
  ultimately obtain s' where "readEvent_31 hasher a s = Done (Some True, Some a) s'
    \<and> sv_clientList s' = sv_clientList s @ [sv_fresh s]
    \<and> sv_clients s' = (sv_clients s)(a := Some ?c, sv_fresh s := Some (new_ClientImpl_31 (a_sock ans) HTTP_SERVER (Some p)))
    \<and> sv_buffers s' = (sv_buffers s)(p := Some (?b\<lparr>f_isReadyConnectHttpServer := False, f_isServerConnect := True\<rparr>))"
    by (metis fun_upd_upd)
  then show ?thesis
    by (intro exI [of _ s'] exI [of _ ?c] exI [of _ "?b\<lparr>f_isReadyConnectHttpServer := False, f_isServerConnect := True\<rparr>"])
       (simp add: c)
qed

text \<open>
  C20: bytes that a user sends on top of a GET request still waiting to be forwarded open a second
  connection to the origin for the same exchange. Once the user and the first of the two are gone
  the exchange is freed, and the next event of the second one uses it.
\<close>

theorem second_connection_uses_freed_exchange:
  assumes "linked_31 s" "holder s USER p a" "holder s HTTP_SERVER p w" "sv_buffers s p = Some b"
    and "sv_clients s (sv_fresh s) = None"
    and "o_reads (sv_os s) = Bytes bs # rs" "bs \<noteq> []" "length bs < 2 ^ 20"
    and "f_statusClient b = WRITE_REQUEST_HEADING" "findEndHeading_31 (f_buf b @ bs) = (END_HEADING, e)"
    and "h = substr0 (f_buf b @ bs) e" "parsingHeading_31 h = Inr r" "rtype r = GET_REQUEST"
    and "\<not> isElementInCash_31 hasher h (sv_cash s)"
    and "o_connects (sv_os s) = ans # answers" "a_resolved ans" "a_sock ans \<noteq> -1" "a_connect ans \<noteq> -1"
  shows "\<exists>s'. readEvent_31 hasher a s = Done (Some True, Some a) s'
    \<and> holder s' HTTP_SERVER p w \<and> holder s' HTTP_SERVER p (sv_fresh s)
    \<and> bind (bind (deleteClient_31 a (Some a) s') (\<lambda>_. deleteClient_31 w (Some w)))
        (\<lambda>_. oneEvent_31 hasher (sv_fresh s)) = Fault UseAfterFree"
proof -
  let ?n = "sv_fresh s"
  obtain c where c: "a \<in> set (sv_clientList s)" "sv_clients s a = Some c" "cl_typeClient c = USER" "cl_buffer c = Some p"
    using assms(2) by (auto simp: holder_def)
  obtain cw where cw: "w \<in> set (sv_clientList s)" "sv_clients s w = Some cw" "cl_typeClient cw = HTTP_SERVER" "cl_buffer cw = Some p"
    using assms(3) by (auto simp: holder_def)
  have ne: "a \<noteq> ?n" "w \<noteq> ?n" "w \<noteq> a" using c cw assms(5) by auto
  have b: "f_isClientConnect b" "f_isDataGetCash b \<or> f_isAddDataToCash b \<Longrightarrow> f_cashElement b \<noteq> None"
    using assms(1-4) unfolding linked_31_def by blast+
  obtain s' c' b' where s': "readEvent_31 hasher a s = Done (Some True, Some a) s'"
    "sv_clientList s' = sv_clientList s @ [?n]"
    "sv_clients s' = (sv_clients s)(a := Some c', ?n := Some (new_ClientImpl_31 (a_sock ans) HTTP_SERVER (Some p)))"
    "cl_typeClient c' = USER" "cl_buffer c' = Some p"
    "sv_buffers s' = (sv_buffers s)(p := Some b')" "f_isServerConnect b'"
    "f_isDataGetCash b' \<or> f_isAddDataToCash b' \<Longrightarrow> f_cashElement b' \<noteq> None"
    using readEvent_31_again [OF c(2,4) assms(4) ne(1) assms(6-18)] b c(3) by auto
  obtain s1 where s1: "deleteClient_31 a (Some a) s' = Done (True, after_31 a (sv_clientList s')) s1"
    "sv_clientList s1 = remove1 a (sv_clientList s')" "sv_clients s1 = (sv_clients s')(a := None)"
    "sv_buffers s1 = (sv_buffers s')(p := left_behind USER b')"
    using deleteClient_31_eq [of a s' c' p b'] s' c(1) ne by auto
  let ?b1 = "b'\<lparr>f_statusClient := END_WORK, f_isClientConnect := False\<rparr>"
  have b1: "left_behind USER b' = Some ?b1" "left_behind HTTP_SERVER ?b1 = None"
    using s'(7) by (simp_all add: left_behind_def)
  obtain s2 where s2: "deleteClient_31 w (Some w) s1 = Done (True, after_31 w (sv_clientList s1)) s2"
    "sv_clients s2 = (sv_clients s1)(w := None)" "sv_buffers s2 = (sv_buffers s1)(p := None)"
    using deleteClient_31_eq [of w s1 cw p ?b1] s1 b1 s' cw ne by auto
  let ?new = "new_ClientImpl_31 (a_sock ans) HTTP_SERVER (Some p)"
  have "sv_clients s2 ?n = Some ?new" "sv_buffers s2 p = None"
    using s2 s1 s' ne by simp_all
  then have "oneEvent_31 hasher ?n s2 = Fault UseAfterFree"
    by (simp add: oneEvent_31_def ask_client_31_def ask_buffer_31_def on_buffer_31_def getPollFd_31_def getBuffer_31_def
        new_ClientImpl_31_def)
  moreover have "holder s' HTTP_SERVER p w" "holder s' HTTP_SERVER p ?n"
    using cw s'(2,3) ne by (auto simp: holder_def new_ClientImpl_31_def)
  ultimately show ?thesis using s'(1) s1(1) s2(1) by auto
qed

text \<open>A user on connection 0 and an origin on connection 1 of one exchange whose request is unsent.\<close>

definition fix_server_31 :: "Buffer_31 \<Rightarrow> ServerImpl_31" where
  "fix_server_31 b = \<lparr>sv_isWork = True, sv_serverSocket = new_ServerSocketImpl_31 [],
     sv_pollSet = (\<lambda>_. zero_pollfd_31), sv_clientList = [0, 1],
     sv_clients = (\<lambda>_. None)(0 := Some (new_ClientImpl_31 4 USER (Some 0)),
       1 := Some (new_ClientImpl_31 5 HTTP_SERVER (Some 0))),
     sv_buffers = (\<lambda>_. None)(0 := Some b), sv_fresh = 2, sv_cash = new_CashImpl_31 (\<lambda>_. new_CashElementImpl_31 (\<lambda>_. 0) []),
     sv_os = fix_os\<lparr>o_reads := [Bytes ''x''], o_connects := [\<lparr>a_resolved = True, a_sock = 6, a_connect = 0\<rparr>]\<rparr>\<rparr>"

definition fix_unsent_31 :: Buffer_31 where
  "fix_unsent_31 = new_BufferImpl_31\<lparr>f_buf := fix_request, f_isClientConnect := True, f_isServerConnect := True\<rparr>"

lemma fix_holder_31: "holder (fix_server_31 b) ty p a \<longleftrightarrow> p = 0 \<and> (ty = USER \<and> a = 0 \<or> ty = HTTP_SERVER \<and> a = 1)"
  by (auto simp: holder_def fix_server_31_def new_ClientImpl_31_def split: if_splits)

lemma fix_linked_31: "f_isClientConnect b \<Longrightarrow> f_isServerConnect b \<Longrightarrow> \<not> f_isDataGetCash b \<Longrightarrow> \<not> f_isAddDataToCash b \<Longrightarrow>
  linked_31 (fix_server_31 b)"
  unfolding linked_31_def fix_holder_31 by (auto simp: fix_server_31_def)

theorem deleteClient_keeps_links_witness:
  "\<exists>s'. deleteClient_31 0 (Some 0) (fix_server_31 fix_unsent_31) = Done (True, Some 1) s' \<and> sv_buffers s' 0 \<noteq> None"
proof -
  have "linked_31 (fix_server_31 fix_unsent_31)"
    by (rule fix_linked_31) (simp_all add: fix_unsent_31_def new_BufferImpl_31_def)
  moreover have "sv_clientList (fix_server_31 fix_unsent_31) = [0, 1]" "cl_buffer (the (sv_clients (fix_server_31 fix_unsent_31) 0)) = Some 0"
    by (simp_all add: fix_server_31_def new_ClientImpl_31_def)
  moreover have "holder (fix_server_31 fix_unsent_31) HTTP_SERVER 0 1" by (simp add: fix_holder_31)
  ultimately show ?thesis
    using deleteClient_keeps_links [of "fix_server_31 fix_unsent_31" 0]
    by (auto simp del: One_nat_def dest!: spec [of _ "1 :: nat"])
qed

theorem second_connection_uses_freed_exchange_witness:
  "\<exists>s'. readEvent_31 fix_hash 0 (fix_server_31 fix_unsent_31) = Done (Some True, Some 0) s'
     \<and> bind (bind (deleteClient_31 0 (Some 0) s') (\<lambda>_. deleteClient_31 1 (Some 1)))
         (\<lambda>_. oneEvent_31 fix_hash 2) = Fault UseAfterFree"
proof -
  let ?s = "fix_server_31 fix_unsent_31"
  have "linked_31 ?s" by (rule fix_linked_31) (simp_all add: fix_unsent_31_def new_BufferImpl_31_def)
  moreover have "holder ?s USER 0 0" "holder ?s HTTP_SERVER 0 1" by (simp_all add: fix_holder_31)
  moreover have "sv_buffers ?s 0 = Some fix_unsent_31" "sv_clients ?s (sv_fresh ?s) = None" "sv_fresh ?s = 2"
    "o_reads (sv_os ?s) = [Bytes ''x'']" "o_connects (sv_os ?s) = [\<lparr>a_resolved = True, a_sock = 6, a_connect = 0\<rparr>]"
    "f_statusClient fix_unsent_31 = WRITE_REQUEST_HEADING" "f_buf fix_unsent_31 = fix_request"
    by (simp_all add: fix_server_31_def fix_unsent_31_def new_BufferImpl_31_def)
  moreover have "findEndHeading_31 (fix_request @ ''x'') = (END_HEADING, 17)" "substr0 (fix_request @ ''x'') 17 = fix_request"
    by code_simp+
  moreover have "parsingHeading_31 fix_request = Inr (new_ResultParseHeading\<lparr>hostName := ''a'', rtype := GET_REQUEST\<rparr>)"
    by code_simp
  moreover have "\<not> isElementInCash_31 fix_hash fix_request (sv_cash ?s)"
    by (simp add: isElementInCash_31_def fix_server_31_def new_CashImpl_31_def)
  ultimately show ?thesis
    using second_connection_uses_freed_exchange [of ?s 0 0 1 fix_unsent_31 "''x''" "[]" 17 fix_request
        "new_ResultParseHeading\<lparr>hostName := ''a'', rtype := GET_REQUEST\<rparr>" fix_hash "\<lparr>a_resolved = True, a_sock = 6, a_connect = 0\<rparr>" "[]"]
    by auto
qed

section \<open>The connection a round passes over\<close>

lemma after_31_append: "a \<notin> set pre \<Longrightarrow> after_31 a (pre @ a # suf) = begin_31 suf"
  by (induction pre) (auto simp: begin_31_def split: list.split)

lemma begin_31_simps [simp]: "begin_31 [] = None" "begin_31 (x # xs) = Some x"
  by (simp_all add: begin_31_def)

text \<open>
  The loop over the connections steps once after a deletion although the deletion has already
  moved its iterator on, so the connection behind a removed one is not looked at in this round; and
  when the removed one was the last, the step goes past the end and the round begins again.
\<close>

theorem deletion_skips_next:
  assumes "linked_31 s" "sv_clientList s = pre @ a # suf" "holder s USER p a" "sv_buffers s p = Some b"
    and "f_statusClient b = END_WORK" "sv_clients s a = Some c" "and (p_revents (cl_structPollFd c)) POLLIN = 0"
  shows "\<exists>s'. sv_clientList s' = pre @ suf \<and> linked_31 s'
    \<and> handleFrom_31 (Suc k) hasher upd (Some a) s
      = handleFrom_31 k hasher True (case suf of [] \<Rightarrow> begin_31 pre | y # rest \<Rightarrow> begin_31 rest) s'"
proof -
  have c: "cl_typeClient c = USER" "cl_buffer c = Some p" using assms(3,6) by (auto simp: holder_def)
  have dist: "distinct (pre @ a # suf)" using assms(1) unfolding linked_31_def assms(2) by blast
  have cached: "f_isDataGetCash b \<or> f_isAddDataToCash b \<Longrightarrow> f_cashElement b \<noteq> None"
    using assms(1,4) unfolding linked_31_def by blast
  obtain s' where s': "deleteClient_31 a (Some a) s = Done (True, begin_31 suf) s'"
    "sv_clientList s' = pre @ suf" "sv_clients s' = (sv_clients s)(a := None)"
    "sv_buffers s' = (sv_buffers s)(p := left_behind USER b)"
    using deleteClient_31_eq [OF _ assms(6) c(2) assms(4) cached] assms(2) dist c(1)
    by (auto simp: after_31_append remove1_append)
  have "linked_31 s'"
    by (rule linked_31_after_delete [OF assms(1,3,4)]) (use s' assms(2) dist in \<open>auto simp: remove1_append\<close>)
  moreover have "oneEvent_31 hasher a s = Done (Some True, begin_31 suf) s'"
    using assms(5,7) c s'(1)
    by (simp add: oneEvent_31_def ask_client_31_Some [OF assms(6)] ask_buffer_31_Some [OF assms(6) c(2) assms(4)]
        getPollFd_31_def getTypeClient_31_def getStatusClient_31_def)
  moreover have "next_31 (begin_31 suf) s'
    = Done (case suf of [] \<Rightarrow> begin_31 pre | y # rest \<Rightarrow> begin_31 rest) s'"
    using s'(2) dist by (auto simp: next_31_def after_31_append split: list.split)
  ultimately show ?thesis using s'(2) by auto
qed

definition fix_ended_31 :: Buffer_31 where
  "fix_ended_31 = new_BufferImpl_31\<lparr>f_statusClient := END_WORK, f_isClientConnect := True, f_isServerConnect := True\<rparr>"

theorem deletion_skips_next_witness:
  "\<exists>s'. sv_clientList s' = [1] \<and> handleFrom_31 2 fix_hash False (Some 0) (fix_server_31 fix_ended_31) = Done True s'"
proof -
  let ?s = "fix_server_31 fix_ended_31"
  have "linked_31 ?s" by (rule fix_linked_31) (simp_all add: fix_ended_31_def new_BufferImpl_31_def)
  moreover have "sv_clientList ?s = [] @ 0 # [1]" "holder ?s USER 0 0" "sv_buffers ?s 0 = Some fix_ended_31"
    "f_statusClient fix_ended_31 = END_WORK" "sv_clients ?s 0 = Some (new_ClientImpl_31 4 USER (Some 0))"
    "and (p_revents (cl_structPollFd (new_ClientImpl_31 4 USER (Some 0)))) POLLIN = 0"
    by (simp_all add: fix_holder_31) (simp_all add: fix_server_31_def fix_ended_31_def new_ClientImpl_31_def)
  ultimately show ?thesis
    using deletion_skips_next [of ?s "[]" 0 "[1]" 0 fix_ended_31 "new_ClientImpl_31 4 USER (Some 0)" "Suc 0" fix_hash False]
    by (auto simp: numeral_2_eq_2)
qed

section \<open>The poll set\<close>

lemma configure_bounds:
  assumes "\<And>m i a. f m (i, a) = bind m (\<lambda>_ s. bind (ask_client_31 a getPollFd_31 s) (\<lambda>pollElement s.
      if i < MAX_COUNT_CONNECTIONS_31 then Done () (s\<lparr>sv_pollSet := (sv_pollSet s)(i := pollElement)\<rparr>) else Fault OutOfBounds))"
    and "\<And>a. a \<in> set l \<Longrightarrow> \<exists>c. sv_clients s a = Some c"
  shows "foldl f (Done () s) (enumerate n l)
    = (if l = [] \<or> n + length l \<le> MAX_COUNT_CONNECTIONS_31 then Done () (s\<lparr>sv_pollSet := (\<lambda>i. if n \<le> i \<and> i < n + length l
        then cl_structPollFd (the (sv_clients s (l ! (i - n)))) else sv_pollSet s i)\<rparr>) else Fault OutOfBounds)"
  using assms(2)
proof (induction l arbitrary: n s)
  case Nil
  have "(\<lambda>i. if n \<le> i \<and> i < n then X i else g i) = g" for X g :: "nat \<Rightarrow> PollFd"
    by (rule ext) auto
  then show ?case by simp
next
  case (Cons a l)
  from Cons.prems obtain c where c: "sv_clients s a = Some c" by auto
  have stuck: "foldl f (Fault e) xs = Fault e" for e xs
    by (induction xs) (auto simp: assms(1))
  show ?case
  proof (cases "n < MAX_COUNT_CONNECTIONS_31")
    case True
    let ?s = "s\<lparr>sv_pollSet := (sv_pollSet s)(n := cl_structPollFd c)\<rparr>"
    have "f (Done () s) (n, a) = Done () ?s"
      using True by (simp add: assms(1) ask_client_31_Some [OF c] getPollFd_31_def)
    moreover have "foldl f (Done () ?s) (enumerate (Suc n) l) = (if l = [] \<or> Suc n + length l \<le> MAX_COUNT_CONNECTIONS_31
        then Done () (?s\<lparr>sv_pollSet := (\<lambda>i. if Suc n \<le> i \<and> i < Suc n + length l
          then cl_structPollFd (the (sv_clients ?s (l ! (i - Suc n)))) else sv_pollSet ?s i)\<rparr>) else Fault OutOfBounds)"
      using Cons.prems by (intro Cons.IH) simp
    moreover have "(\<lambda>i. if Suc n \<le> i \<and> i < Suc n + length l
          then cl_structPollFd (the (sv_clients ?s (l ! (i - Suc n)))) else sv_pollSet ?s i)
      = (\<lambda>i. if n \<le> i \<and> i < n + length (a # l)
          then cl_structPollFd (the (sv_clients s ((a # l) ! (i - n)))) else sv_pollSet s i)"
      by (rule ext) (auto simp: c nth_Cons' not_less_eq_eq)
    ultimately show ?thesis using True by auto
  next
    case False
    then have "f (Done () s) (n, a) = Fault OutOfBounds"
      by (simp add: assms(1) ask_client_31_Some [OF c])
    with False stuck show ?thesis by simp
  qed
qed

text \<open>
  Rebuilding the poll set puts the listening socket first and behind it, in list order, the
  poll entry of every connection, and zeroes the rest; it stays inside the array as long as there
  are fewer than 65000 connections, and writes past its end from the 65000th on.
\<close>

theorem configurePollArr_mirrors_list:
  assumes "linked_31 s"
  shows "configurePollArr_31 s = (if length (sv_clientList s) < 65000
    then Done () (s\<lparr>sv_pollSet := (\<lambda>i.
      if i = 0 then \<lparr>p_fd = serverSocket (sv_serverSocket s), p_events = POLLIN, p_revents = 0\<rparr>
      else if i \<le> length (sv_clientList s) then cl_structPollFd (the (sv_clients s (sv_clientList s ! (i - 1))))
      else zero_pollfd_31)\<rparr>)
    else Fault OutOfBounds)"
proof -
  let ?s = "s\<lparr>sv_pollSet := (\<lambda>_. zero_pollfd_31)
     (0 := \<lparr>p_fd = serverSocket (sv_serverSocket s), p_events = POLLIN, p_revents = 0\<rparr>)\<rparr>"
  let ?f = "\<lambda>m (i, a). bind m (\<lambda>_ s. bind (ask_client_31 a getPollFd_31 s) (\<lambda>pollElement s.
      if i < MAX_COUNT_CONNECTIONS_31 then Done () (s\<lparr>sv_pollSet := (sv_pollSet s)(i := pollElement)\<rparr>) else Fault OutOfBounds))"
  have alive: "\<exists>c. sv_clients ?s a = Some c" if "a \<in> set (sv_clientList s)" for a
    using assms that unfolding linked_31_def holder_def by auto
  have "configurePollArr_31 s = foldl ?f (Done () ?s) (enumerate 1 (sv_clientList s))"
    by (simp add: configurePollArr_31_def getFdSocket_31_def Let_def)
  also have "\<dots> = (if sv_clientList s = [] \<or> 1 + length (sv_clientList s) \<le> MAX_COUNT_CONNECTIONS_31
    then Done () (?s\<lparr>sv_pollSet := (\<lambda>i. if 1 \<le> i \<and> i < 1 + length (sv_clientList s)
        then cl_structPollFd (the (sv_clients ?s (sv_clientList s ! (i - 1)))) else sv_pollSet ?s i)\<rparr>) else Fault OutOfBounds)"
    by (rule configure_bounds) (use alive in auto)
  also have "(\<lambda>i. if 1 \<le> i \<and> i < 1 + length (sv_clientList s)
        then cl_structPollFd (the (sv_clients ?s (sv_clientList s ! (i - 1)))) else sv_pollSet ?s i)
    = (\<lambda>i. if i = 0 then \<lparr>p_fd = serverSocket (sv_serverSocket s), p_events = POLLIN, p_revents = 0\<rparr>
      else if i \<le> length (sv_clientList s) then cl_structPollFd (the (sv_clients s (sv_clientList s ! (i - 1))))
      else zero_pollfd_31)"
    by (rule ext) auto
  finally show ?thesis by (auto simp: MAX_COUNT_CONNECTIONS_31_def)
qed

theorem configurePollArr_mirrors_list_witness:
  "\<exists>q. configurePollArr_31 (fix_server_31 fix_unsent_31) = Done () (fix_server_31 fix_unsent_31\<lparr>sv_pollSet := q\<rparr>)
     \<and> p_fd (q 1) = 4 \<and> p_fd (q 2) = 5"
proof -
  have "linked_31 (fix_server_31 fix_unsent_31)"
    by (rule fix_linked_31) (simp_all add: fix_unsent_31_def new_BufferImpl_31_def)
  from configurePollArr_mirrors_list [OF this] show ?thesis
    by (simp add: fix_server_31_def new_ClientImpl_31_def)
qed

end
