(* ===== verification/Lab32_Cash.thy ===== *)
theory Lab32_Cash
  imports Prelude Invariants
begin

text \<open>
  \<open>lab32/context/cash/CashContext\<close>: the cache of the thread-per-client proxy, a map from whole
  requests to whole responses behind one mutex. An operation that gets the mutex is one step; the
  code of the lock call is a parameter, that of the unlock call is only logged. The constructor
  sets up the mutex; its state tells which of the attribute and the mutex are alive, and
  \<open>strerror\<close> is a parameter. The destructor only destroys the mutex.
\<close>

definition CORRECT_CODE_32 :: int32 where
  "CORRECT_CODE_32 = 0"

definition ERROR_CODE_32 :: int32 where
  "ERROR_CODE_32 = -1"

record CashContext =
  requestResponse :: "string \<rightharpoonup> string"
  attrAlive :: bool
  mutexAlive :: bool

definition findInCash :: "int32 \<Rightarrow> string \<Rightarrow> CashContext \<Rightarrow> string" where
  "findInCash lockCode request c =
     (if lockCode \<noteq> CORRECT_CODE_32 then []
      else case requestResponse c request of Some response \<Rightarrow> response | None \<Rightarrow> [])"

definition addToCash :: "int32 \<Rightarrow> string \<Rightarrow> string \<Rightarrow> CashContext \<Rightarrow> CashContext" where
  "addToCash lockCode request response c =
     (if lockCode \<noteq> CORRECT_CODE_32 then c
      else if requestResponse c request = None
           then c\<lparr>requestResponse := (requestResponse c)(request \<mapsto> response)\<rparr>
           else c)"

definition new_CashContext ::
    "(int32 \<Rightarrow> string) \<Rightarrow> int32 \<Rightarrow> int32 \<Rightarrow> int32 \<Rightarrow> (unit, CashContext) outcome" where
  "new_CashContext strerror attrInitCode setTypeCode mutexInitCode =
     (let c = \<lparr>requestResponse = Map.empty, attrAlive = False, mutexAlive = False\<rparr>
      in if attrInitCode \<noteq> CORRECT_CODE_32
         then Throws (CashContextException (''mutex attr init error: '' @ strerror attrInitCode)) c
         else
           let c = c\<lparr>attrAlive := True\<rparr>
           in if setTypeCode \<noteq> CORRECT_CODE_32
              then Throws (CashContextException (''mutex attr settype error: '' @ strerror setTypeCode))
                (c\<lparr>attrAlive := False\<rparr>)
              else if mutexInitCode \<noteq> CORRECT_CODE_32
              then Throws (CashContextException (''mutex init error: '' @ strerror mutexInitCode))
                (c\<lparr>attrAlive := False\<rparr>)
              else Done () (c\<lparr>mutexAlive := True\<rparr>))"

section \<open>The cache shared by the threads\<close>

text \<open>What other threads may do to the cache at any moment: add a response under their request.\<close>

inductive cash_step :: "CashContext \<Rightarrow> CashContext \<Rightarrow> bool" where
  add: "cash_step c (addToCash lockCode request response c)"

inductive_cases cash_stepE: "cash_step c c'"

lemma addToCash_keeps:
  "requestResponse c \<subseteq>\<^sub>m requestResponse (addToCash lockCode request response c)"
  by (auto simp: addToCash_def map_le_def)

interpretation stored: invariant_system "\<lambda>c. requestResponse c request = Some response" cash_step
  "\<lambda>c. requestResponse c request = Some response" for request response
  by unfold_locales (auto elim!: cash_stepE simp: addToCash_def)

lemma findInCash_stored:
  "requestResponse c request = Some response \<Longrightarrow> findInCash CORRECT_CODE_32 request c = response"
  by (simp add: findInCash_def)

lemma addToCash_stores:
  "\<exists>response'. requestResponse (addToCash CORRECT_CODE_32 request response c) request = Some response'
     \<and> (requestResponse c request = None \<longrightarrow> response' = response)
     \<and> (requestResponse c request \<noteq> None \<longrightarrow> requestResponse c request = Some response')"
  by (auto simp: addToCash_def)

end
