(* ===== verification/Lab32_Parser.thy ===== *)
theory Lab32_Parser
  imports Parser
begin

text \<open>
  \<open>lab32/parser\<close>: the heading parser of the thread-per-client proxy, in namespace \<open>Proxy\<close>. Its
  types are synonyms of \<open>lab32v2\<close>'s, whose values and members they have; the patterns of
  \<open>Consts.h\<close> and the functions of \<open>ParserImpl.cpp\<close> are translated here on their own, and shown to
  agree with \<open>lab32v2\<close>'s. Log lines and console output are left out.
\<close>

section \<open>Types\<close>

type_synonym TypeRequestAndResponse_32 = TypeRequestAndResponse

type_synonym ResultPars_32 = ResultPars

type_synonym ResultParseHeading_32 = ResultParseHeading

definition new_ResultParseHeading_32 :: ResultParseHeading_32 where
  "new_ResultParseHeading_32 = \<lparr>hostName = [], contentLength = 0, rtype = INVALID,
     responseWithError = False, port = 80, haveContentLength = False\<rparr>"

section \<open>Patterns\<close>

definition REGEX_FOR_HOST_AND_PORT_32 :: re where
  "REGEX_FOR_HOST_AND_PORT_32 =
     Seq (Lit ''Host: '')
      (Seq (Group 1 (Star (Cls host_char)))
           (Star (Group 2 (Seq (Cls (\<lambda>c. c = CHR '':'')) (Plus (Group 3 (Cls is_digit)))))))"

definition REGEX_FOR_CONTENT_LENGTH_32 :: re where
  "REGEX_FOR_CONTENT_LENGTH_32 =
     Seq (Lit ''Content-Length: '') (Group 1 (Star (Cls is_digit)))"

section \<open>Searches\<close>

definition findEndHeading_32 :: "string \<Rightarrow> ResultPars_32 \<times> int32" where
  "findEndHeading_32 buf =
     (let resultFinding = (ucast (str_find buf [CHR 0x0D, CHR 0x0A, CHR 0x0D, CHR 0x0A]) :: int32)
      in if scast resultFinding = npos then (NOTHING, -1)
         else (END_HEADING, resultFinding + 4))"

definition findEndBody_32 :: "string \<Rightarrow> ResultPars_32 \<times> int32" where
  "findEndBody_32 buffer =
     (let resultFinding =
        (ucast (str_find buffer [CHR ''0'', CHR 0x0D, CHR 0x0A, CHR 0x0D, CHR 0x0A]) :: int32)
      in if scast resultFinding = npos then (NOTHING, -1)
         else (END_BODY, resultFinding + 5))"

definition findHostAndPort_32 ::
    "ResultParseHeading_32 \<Rightarrow> string \<Rightarrow> exn + ResultParseHeading_32" where
  "findHostAndPort_32 result buf =
     (case regex_search REGEX_FOR_HOST_AND_PORT_32 buf of
        Some resRegex \<Rightarrow>
          if match_size REGEX_FOR_HOST_AND_PORT_32 = 2
          then Inr (result\<lparr>hostName := sub_str resRegex 1\<rparr>)
          else
            let result = result\<lparr>hostName := sub_str resRegex 1\<rparr>
            in if length (sub_str resRegex 2) > 1
               then Inr (result\<lparr>port := atoi (drop 1 (sub_str resRegex 2))\<rparr>)
               else Inr (result\<lparr>port := 80\<rparr>)
      | None \<Rightarrow> Inl (ParseException ''incorrect heading''))"

definition findContentLength_32 :: "ResultParseHeading_32 \<Rightarrow> string \<Rightarrow> ResultParseHeading_32" where
  "findContentLength_32 result buf =
     (case regex_search REGEX_FOR_CONTENT_LENGTH_32 buf of
        Some resRegex \<Rightarrow>
          if match_size REGEX_FOR_CONTENT_LENGTH_32 = 2
          then result\<lparr>contentLength := scast (atoi (sub_str resRegex 1)), haveContentLength := True\<rparr>
          else result
      | None \<Rightarrow> result\<lparr>haveContentLength := False\<rparr>)"

section \<open>Headings\<close>

definition parsingRequest_32 :: "string \<Rightarrow> string \<Rightarrow> TypeRequestAndResponse_32" where
  "parsingRequest_32 buf host = NOT_GET_REQUEST"

definition parsingHeading_32 :: "string \<Rightarrow> exn + ResultParseHeading_32" where
  "parsingHeading_32 heading =
     (let result = new_ResultParseHeading_32
      in if length heading > 3 then
           let result = (if take 3 heading = ''GET'' then result\<lparr>rtype := GET_REQUEST\<rparr>
                         else result\<lparr>rtype := NOT_GET_REQUEST\<rparr>)
           in findHostAndPort_32 (findContentLength_32 result heading) heading
         else Inl (ParseException ''incorrect heading''))"

definition parsingResponseHeading_32 :: "string \<Rightarrow> ResultParseHeading_32" where
  "parsingResponseHeading_32 heading =
     (let result = new_ResultParseHeading_32;
          statusResponse = (ucast (str_find heading ''HTTP/1.1 200 OK'') :: int32)
      in if scast statusResponse = npos then
           let test = (ucast (str_find heading ''200 OK'') :: int32)
           in if scast test \<noteq> npos then
                findContentLength_32 (result\<lparr>rtype := NORMAL_RESPONSE, responseWithError := False\<rparr>) heading
              else
                findContentLength_32 (result\<lparr>rtype := INVALID, responseWithError := True\<rparr>) heading
         else
           findContentLength_32 (result\<lparr>rtype := NORMAL_RESPONSE, responseWithError := False\<rparr>) heading)"

section \<open>Agreement with \<open>lab32v2\<close>\<close>

lemma patterns_32:
  "REGEX_FOR_HOST_AND_PORT_32 = REGEX_FOR_HOST_AND_PORT"
  "REGEX_FOR_CONTENT_LENGTH_32 = REGEX_FOR_CONTENT_LENGTH"
  by (simp_all add: REGEX_FOR_HOST_AND_PORT_32_def REGEX_FOR_HOST_AND_PORT_def host_pattern_def
      port_pattern_def REGEX_FOR_CONTENT_LENGTH_32_def REGEX_FOR_CONTENT_LENGTH_def length_pattern_def)

lemma searches_32:
  "findEndHeading_32 = findEndHeading"
  "findEndBody_32 = findEndBody"
  "findHostAndPort_32 = findHostAndPort"
  "findContentLength_32 = findContentLength"
  unfolding fun_eq_iff findEndHeading_32_def findEndHeading_def findEndBody_32_def findEndBody_def
    findHostAndPort_32_def findHostAndPort_def findContentLength_32_def findContentLength_def
    patterns_32 by simp_all

lemma headings_32:
  "new_ResultParseHeading_32 = new_ResultParseHeading"
  "parsingHeading_32 = parsingHeading"
  "parsingResponseHeading_32 = parsingResponseHeading"
  unfolding fun_eq_iff new_ResultParseHeading_32_def new_ResultParseHeading_def parsingHeading_32_def
    parsingHeading_def parsingResponseHeading_32_def parsingResponseHeading_def searches_32 Let_def
  by simp_all

end
