(* ===== verification/Lab32_Thread.thy ===== *)
theory Lab32_Thread
  imports Lab32_Cash Lab32_Parser Client
begin

text \<open>
  \<open>lab32/context/thread/ThreadContext\<close>: the thread that serves one user, request by request. Calls
  to the operating system take their answers from the record \<open>Os\<close> of \<open>Client\<close>: all \<open>read\<close> calls
  of the thread share one list, in the order they are made. The state is the thread's context,
  the shared cache and the operating system. What other threads do to the cache between the
  look-up and the insertion of one request is the function \<open>t_others\<close>.
\<close>

definition BUF_SIZE_32 :: int64 where
  "BUF_SIZE_32 = 1024 * 1024"

record ThreadContext =
  t_tid :: int64
  t_isWorking :: bool
  t_socketFD :: int32

record ThreadEnv =
  t_findLock :: int32
  t_addLock :: int32
  t_others :: "CashContext \<Rightarrow> CashContext"

record ThreadState =
  ts_this :: ThreadContext
  ts_cash :: CashContext
  ts_os :: Os

definition ts_call :: "(Os \<Rightarrow> ('v, Os) outcome) \<Rightarrow> ThreadState \<Rightarrow> ('v, ThreadState) outcome" where
  "ts_call f t = (case f (ts_os t) of
     Done v os \<Rightarrow> Done v (t\<lparr>ts_os := os\<rparr>)
   | Throws e os \<Rightarrow> Throws e (t\<lparr>ts_os := os\<rparr>)
   | Fault x \<Rightarrow> Fault x)"

definition ts_close :: "int32 \<Rightarrow> ThreadState \<Rightarrow> ThreadState" where
  "ts_close fd t = t\<lparr>ts_os := sys_close fd (ts_os t)\<rparr>"

text \<open>
  The constructor: the code of \<open>pthread_create\<close> and what it left in \<open>_tid\<close> are inputs. The
  second result tells whether the socket was closed.
\<close>

definition new_ThreadContext :: "int32 \<Rightarrow> int64 \<Rightarrow> int32 \<Rightarrow> ThreadContext \<times> bool" where
  "new_ThreadContext createCode tid socketFD =
     (let this = \<lparr>t_tid = tid, t_isWorking = True, t_socketFD = socketFD\<rparr>
      in if createCode \<noteq> CORRECT_CODE_32 then (this\<lparr>t_isWorking := False\<rparr>, True)
         else (this, False))"

definition getTid :: "ThreadContext \<Rightarrow> int64" where
  "getTid this = t_tid this"

definition isWorking :: "ThreadContext \<Rightarrow> bool" where
  "isWorking this = t_isWorking this"

text \<open>A \<open>read\<close> into a buffer of \<open>BUF_SIZE\<close> bytes: its \<open>int\<close> result and the bytes.\<close>

definition read_32 :: "Os \<Rightarrow> (int32 \<times> string, Os) outcome" where
  "read_32 os = bind (sys_read os) (\<lambda>r os.
     case r of
       ReadFails \<Rightarrow> Done (-1, []) os
     | Bytes s \<Rightarrow> let readBuf = take (unat (BUF_SIZE_32 - 1)) s
                  in Done (of_nat (length readBuf), readBuf) os)"

definition createHTTPSocket :: "string \<Rightarrow> int32 \<Rightarrow> Os \<Rightarrow> (int32, Os) outcome" where
  "createHTTPSocket host portNr os = (case o_connects os of
     [] \<Rightarrow> Fault OutOfFuel
   | answer # answers \<Rightarrow>
       let os = os\<lparr>o_connects := answers\<rparr>
       in if \<not> a_resolved answer then Done ERROR_CODE_32 os
          else if a_sock answer = ERROR_CODE_32 then Done ERROR_CODE_32 os
          else let os = os\<lparr>o_dialed := o_dialed os @ [(host, ucast portNr)]\<rparr>
               in if a_connect answer = ERROR_CODE_32
                  then Done ERROR_CODE_32 (sys_close (a_sock answer) os)
                  else Done (a_sock answer) os)"

definition sendResponse :: "int32 \<Rightarrow> string \<Rightarrow> Os \<Rightarrow> (int32, Os) outcome" where
  "sendResponse socketFD response os = bind (sys_write socketFD response os) (\<lambda>n os.
     let byte = (ucast n :: int32)
     in if sint byte < 0 then Done ERROR_CODE_32 os else Done CORRECT_CODE_32 os)"

definition blank_line :: string where
  "blank_line = [CHR 0x0D, CHR 0x0A, CHR 0x0D, CHR 0x0A]"

lemma read_32_shrinks: "read_32 os = Done v os' \<Longrightarrow> length (o_reads os') < length (o_reads os)"
  by (auto simp: read_32_def sys_read_def Let_def split: list.splits ReadAnswer.splits)

text \<open>The loop of \<open>readResponse\<close>, its unreachable test for an error included.\<close>

function readResponse :: "int32 \<Rightarrow> string \<Rightarrow> Os \<Rightarrow> (int32 \<times> string, Os) outcome" where
  "readResponse httpSocket response os =
     bind (read_32 os) (\<lambda>r os. case r of (byte, chunk) \<Rightarrow>
     if sint byte > 0 then
       if sint byte < 0 then Done (ERROR_CODE_32, response) (sys_close httpSocket os)
       else
         let response = response @ chunk
         in if suffix blank_line response then Done (CORRECT_CODE_32, response) os
            else readResponse httpSocket response os
     else Done (CORRECT_CODE_32, response) os)"
  by pat_completeness auto
termination
  by (relation "measure (\<lambda>(s, r, os). length (o_reads os))") (auto dest: read_32_shrinks)

declare readResponse.simps [simp del]

text \<open>One request. An exception of the parser is not caught.\<close>

definition fetch :: "ThreadEnv \<Rightarrow> string \<Rightarrow> ResultParseHeading_32 \<Rightarrow> ThreadState \<Rightarrow> (int32, ThreadState) outcome" where
  "fetch env request res t =
     bind (ts_call (createHTTPSocket (hostName res) (port res)) t) (\<lambda>httpSocket t.
     if httpSocket = ERROR_CODE_32 then Done ERROR_CODE_32 t
     else
       bind (ts_call (sys_write httpSocket request) t) (\<lambda>n t.
       let byte = (ucast n :: int32)
       in if sint byte < 0 then Done ERROR_CODE_32 (ts_close httpSocket t)
          else
            bind (ts_call (readResponse httpSocket []) t) (\<lambda>(readCode, response) t.
            let t = ts_close httpSocket t
            in if readCode \<noteq> CORRECT_CODE_32 then Done ERROR_CODE_32 t
               else
                 let t = t\<lparr>ts_cash := addToCash (t_addLock env) request response (t_others env (ts_cash t))\<rparr>
                 in bind (ts_call (sys_write (t_socketFD (ts_this t)) response) t) (\<lambda>n t.
                    let byte = (ucast n :: int32)
                    in if sint byte < 0 then Done ERROR_CODE_32 t else Done CORRECT_CODE_32 t))))"

definition handleRequest :: "ThreadEnv \<Rightarrow> string \<Rightarrow> ThreadState \<Rightarrow> (int32, ThreadState) outcome" where
  "handleRequest env request t =
     (let findResult = findInCash (t_findLock env) request (ts_cash t)
      in if findResult \<noteq> [] then
           bind (ts_call (sendResponse (t_socketFD (ts_this t)) findResult) t) (\<lambda>sendCode t.
           if sendCode \<noteq> CORRECT_CODE_32 then Done ERROR_CODE_32 t else Done CORRECT_CODE_32 t)
         else case parsingHeading_32 request of
           Inl ex \<Rightarrow> Throws ex t
         | Inr res \<Rightarrow> fetch env request res t)"

section \<open>The loop of the thread\<close>

definition reads_left :: "ThreadState \<Rightarrow> nat" where
  "reads_left t = length (o_reads (ts_os t))"

lemma sys_write_reads: "sys_write fd s os = Done n os' \<Longrightarrow> o_reads os' = o_reads os"
  by (auto simp: sys_write_def split: list.splits)

lemma sys_close_reads [simp]: "o_reads (sys_close fd os) = o_reads os"
  by (simp add: sys_close_def)

lemma createHTTPSocket_reads: "createHTTPSocket h p os = Done s os' \<Longrightarrow> o_reads os' = o_reads os"
  by (auto simp: createHTTPSocket_def Let_def split: list.splits if_splits)

lemma sendResponse_reads: "sendResponse fd s os = Done n os' \<Longrightarrow> o_reads os' = o_reads os"
  by (auto simp: sendResponse_def Let_def bind_eq_Done dest: sys_write_reads split: if_splits)

lemma readResponse_shrinks:
  "readResponse sock response os = Done v os' \<Longrightarrow> length (o_reads os') \<le> length (o_reads os)"
proof (induction sock response os arbitrary: v os' rule: readResponse.induct)
  case (1 sock response os)
  from 1(2) obtain byte buf os1 where r: "read_32 os = Done (byte, buf) os1"
    by (auto simp: readResponse.simps [of sock response os] bind_eq_Done)
  from read_32_shrinks [OF r] 1(1) [OF r refl] 1(2) show ?case
    by (fastforce simp: readResponse.simps [of sock response os] r Let_def split: if_splits)
qed

lemma ts_call_Done:
  "ts_call f t = Done v t' \<longleftrightarrow> (\<exists>os. f (ts_os t) = Done v os \<and> t' = t\<lparr>ts_os := os\<rparr>)"
  by (auto simp: ts_call_def split: outcome.splits)

lemma ts_close_reads [simp]: "reads_left (ts_close fd t) = reads_left t"
  by (simp add: reads_left_def ts_close_def)

lemma ts_call_reads:
  assumes "ts_call f t = Done v t'" and "\<And>v os'. f (ts_os t) = Done v os' \<Longrightarrow> length (o_reads os') \<le> length (o_reads (ts_os t))"
  shows "reads_left t' \<le> reads_left t"
  using assms by (auto simp: ts_call_Done reads_left_def)

lemma fetch_reads:
  assumes "fetch env request res t = Done v t'" shows "reads_left t' \<le> reads_left t"
proof -
  have w: "ts_call (sys_write fd s) u = Done n u' \<Longrightarrow> reads_left u' \<le> reads_left u" for fd s u n u'
    by (erule ts_call_reads) (auto dest: sys_write_reads)
  have c: "ts_call (createHTTPSocket h p) u = Done n u' \<Longrightarrow> reads_left u' \<le> reads_left u" for h p u n u'
    by (erule ts_call_reads) (auto dest: createHTTPSocket_reads)
  have r: "ts_call (readResponse s q) u = Done n u' \<Longrightarrow> reads_left u' \<le> reads_left u" for s q u n u'
    by (erule ts_call_reads) (auto dest: readResponse_shrinks)
  have cash: "reads_left (u\<lparr>ts_cash := k\<rparr>) = reads_left u" for u k by (simp add: reads_left_def)
  show ?thesis
    using assms unfolding fetch_def Let_def bind_eq_Done
    by (auto simp: bind_eq_Done cash dest!: w c r split: if_splits)
qed

lemma handleRequest_reads:
  assumes "handleRequest env request t = Done v t'" shows "reads_left t' \<le> reads_left t"
proof -
  have "ts_call (sendResponse fd s) u = Done n u' \<Longrightarrow> reads_left u' \<le> reads_left u" for fd s u n u'
    by (erule ts_call_reads) (auto dest: sendResponse_reads)
  then show ?thesis
    using assms fetch_reads unfolding handleRequest_def Let_def
    by (fastforce simp: bind_eq_Done split: if_splits sum.splits)
qed

function startRoutine :: "ThreadEnv \<Rightarrow> ThreadState \<Rightarrow> (unit, ThreadState) outcome" where
  "startRoutine env t =
     (if \<not> t_isWorking (ts_this t) then Done () t
      else
        let leave = (\<lambda>t. Done () (ts_close (t_socketFD (ts_this t))
              (t\<lparr>ts_this := (ts_this t)\<lparr>t_isWorking := False\<rparr>\<rparr>)))
        in bind (ts_call read_32 t) (\<lambda>r t. case r of (byte, buf) \<Rightarrow>
           if sint byte \<le> 0 then leave t
           else bind (handleRequest env buf t) (\<lambda>code t.
                if code \<noteq> CORRECT_CODE_32 then leave t else startRoutine env t)))"
  by pat_completeness auto
termination
proof (relation "measure (\<lambda>(env, t). reads_left t)", goal_cases)
  case (2 env t x v t1 byte buf code t2)
  then have "reads_left t1 < reads_left t"
    by (auto simp: ts_call_Done reads_left_def dest: read_32_shrinks)
  moreover from 2 have "reads_left t2 \<le> reads_left t1" by (blast dest: handleRequest_reads)
  ultimately show ?case by simp
qed simp

declare startRoutine.simps [simp del]

text \<open>
  The function the thread runs. Nothing catches what \<open>startRoutine\<close> throws, so an exception ends
  the whole process.
\<close>

definition run_thread :: "ThreadEnv \<Rightarrow> ThreadState \<Rightarrow> (unit, ThreadState) outcome" where
  "run_thread env t = (case startRoutine env t of
     Throws ex t \<Rightarrow> Fault Terminate
   | Done u t \<Rightarrow> Done () t
   | Fault x \<Rightarrow> Fault x)"

end
