(* ===== verification/Lab32_Thread_Correct.thy ===== *)
theory Lab32_Thread_Correct
  imports Lab32_Thread Parser_Correct
begin

text \<open>
  The client thread of \<open>lab32\<close>: what a response is to it, what a request does on each of its paths,
  how the thread ends, and what the cache keeps.
\<close>

section \<open>What counts as a response\<close>

text \<open>
  \<open>gathered r rs\<close>: reading from \<open>r\<close> on, the response the answers \<open>rs\<close> of \<open>read\<close> make, and the
  answers left. It ends at the first failing or empty read and at the first chunk after which the
  text ends in a blank line; with neither it has not ended.
\<close>

fun gathered :: "string \<Rightarrow> ReadAnswer list \<Rightarrow> (string \<times> ReadAnswer list) option" where
  "gathered r [] = None"
| "gathered r (ReadFails # rs) = Some (r, rs)"
| "gathered r (Bytes s # rs) =
     (let s = take 1048575 s
      in if s = [] then Some (r, rs)
         else if suffix blank_line (r @ s) then Some (r @ s, rs)
         else gathered (r @ s) rs)"

lemma no_blank_line: "length s < 4 \<Longrightarrow> \<not> suffix blank_line s"
  using suffix_length_le [of blank_line s] by (auto simp: blank_line_def)

lemma BUF_SIZE_32_nat: "unat (BUF_SIZE_32 - 1) = 1048575"
  by (simp add: BUF_SIZE_32_def)

lemma read_32_Bytes:
  "o_reads os = Bytes s # rs \<Longrightarrow>
     read_32 os = Done (of_nat (length (take 1048575 s)), take 1048575 s) (os\<lparr>o_reads := rs\<rparr>)"
  by (simp add: read_32_def sys_read_def Let_def BUF_SIZE_32_nat)

lemma read_32_Fails:
  "o_reads os = ReadFails # rs \<Longrightarrow> read_32 os = Done (-1, []) (os\<lparr>o_reads := rs\<rparr>)"
  by (simp add: read_32_def sys_read_def)

lemma chunk_length:
  "sint (of_nat (length (take 1048575 s)) :: int32) = int (length (take 1048575 s))"
  by (rule sint32_of_nat_small) simp

lemma readResponse_gathered:
  "gathered r (o_reads os) = Some (response, rs) \<Longrightarrow>
     readResponse sock r os = Done (CORRECT_CODE_32, response) (os\<lparr>o_reads := rs\<rparr>)"
proof (induction r "o_reads os" arbitrary: os response rs rule: gathered.induct)
  case (2 r rs')
  from 2(1) [symmetric] 2(2) read_32_Fails [of os rs'] show ?case
    by (subst readResponse.simps) (auto simp: CORRECT_CODE_32_def)
next
  case (3 r s rs')
  from 3(2) [symmetric] have rd: "read_32 os
      = Done (of_nat (length (take 1048575 s)), take 1048575 s) (os\<lparr>o_reads := rs'\<rparr>)"
    by (rule read_32_Bytes)
  from 3(3) 3(2) [symmetric] 3(1) [OF refl _ _ , of "os\<lparr>o_reads := rs'\<rparr>" response rs] chunk_length [of s] show ?case
    by (subst readResponse.simps) (auto simp: rd Let_def split: if_splits)
qed simp

section \<open>One request\<close>

definition server_of :: "string \<Rightarrow> (string \<times> int32) option" where
  "server_of request = (case parsingHeading_32 request of Inr res \<Rightarrow> Some (hostName res, port res) | _ \<Rightarrow> None)"

lemma handleRequest_hit:
  assumes "findInCash (t_findLock env) request (ts_cash t) = response" and "response \<noteq> []"
    and "o_writes (ts_os t) = n # ns" and "n = of_nat (length response)" and "length response < 2 ^ 31"
  shows "handleRequest env request t = Done CORRECT_CODE_32 (t\<lparr>ts_os := (ts_os t)\<lparr>o_writes := ns,
      o_wire := o_wire (ts_os t) @ [(t_socketFD (ts_this t), response)]\<rparr>\<rparr>)"
proof -
  have "sint n = int (length response)" "sint (ucast n :: int32) = int (length response)"
    using assms(4,5) by (simp_all add: sint_of_nat_small narrow_small sint32_of_nat_small)
  moreover have "unat n = length response" using assms(4,5) by (simp add: unat_of_nat_small)
  ultimately show ?thesis
    using assms(1-3) by (simp add: handleRequest_def Let_def ts_call_def sendResponse_def sys_write_def)
qed

text \<open>What the operating system answers when a request goes through from end to end.\<close>

definition served :: "string \<Rightarrow> string \<Rightarrow> ConnectAnswer \<Rightarrow> ReadAnswer list \<Rightarrow> Os \<Rightarrow> bool" where
  "served request response answer rs os \<longleftrightarrow>
     (\<exists>as ns. o_connects os = answer # as \<and> a_resolved answer \<and> a_sock answer \<noteq> ERROR_CODE_32
       \<and> a_connect answer \<noteq> ERROR_CODE_32
       \<and> gathered [] (o_reads os) = Some (response, rs)
       \<and> o_writes os = of_nat (length request) # of_nat (length response) # ns)
     \<and> length request < 2 ^ 31 \<and> length response < 2 ^ 31"

lemma write_all:
  assumes "o_writes os = of_nat (length s) # ns" and "length s < 2 ^ 31"
  shows "sys_write fd s os = Done (of_nat (length s)) (os\<lparr>o_writes := ns, o_wire := o_wire os @ [(fd, s)]\<rparr>)"
    and "\<not> sint (ucast (of_nat (length s) :: int64) :: int32) < 0"
proof -
  have "\<not> sint (of_nat (length s) :: int64) < 0" "unat (of_nat (length s) :: int64) = length s"
    using assms(2) by (simp_all add: sint_of_nat_small unat_of_nat_small)
  then show "sys_write fd s os = Done (of_nat (length s)) (os\<lparr>o_writes := ns, o_wire := o_wire os @ [(fd, s)]\<rparr>)"
    using assms(1) by (simp add: sys_write_def)
  show "\<not> sint (ucast (of_nat (length s) :: int64) :: int32) < 0"
    using assms(2) by (simp add: narrow_small sint32_of_nat_small)
qed

lemma handleRequest_miss:
  assumes "findInCash (t_findLock env) request (ts_cash t) = []"
    and "parsingHeading_32 request = Inr res"
    and "served request response answer rs (ts_os t)"
  shows "\<exists>t'. handleRequest env request t = Done CORRECT_CODE_32 t'
     \<and> ts_this t' = ts_this t
     \<and> ts_cash t' = addToCash (t_addLock env) request response (t_others env (ts_cash t))
     \<and> o_dialed (ts_os t') = o_dialed (ts_os t) @ [(hostName res, ucast (port res))]
     \<and> o_wire (ts_os t') = o_wire (ts_os t) @ [(a_sock answer, request), (t_socketFD (ts_this t), response)]
     \<and> o_closed (ts_os t') = o_closed (ts_os t) @ [a_sock answer]
     \<and> o_reads (ts_os t') = rs"
proof -
  let ?os = "ts_os t"
  from assms(3) obtain as ns where os: "o_connects ?os = answer # as" "a_resolved answer"
    "a_sock answer \<noteq> ERROR_CODE_32" "a_connect answer \<noteq> ERROR_CODE_32"
    "gathered [] (o_reads ?os) = Some (response, rs)"
    "o_writes ?os = of_nat (length request) # of_nat (length response) # ns"
    and len: "length request < 2 ^ 31" "length response < 2 ^ 31"
    unfolding served_def by blast
  define os1 where "os1 = ?os\<lparr>o_connects := as,
      o_dialed := o_dialed ?os @ [(hostName res, ucast (port res))]\<rparr>"
  have 1: "createHTTPSocket (hostName res) (port res) ?os = Done (a_sock answer) os1"
    using os by (simp add: createHTTPSocket_def Let_def os1_def)
  define os2 where "os2 = os1\<lparr>o_writes := of_nat (length response) # ns,
      o_wire := o_wire os1 @ [(a_sock answer, request)]\<rparr>"
  have 2: "sys_write (a_sock answer) request os1 = Done (of_nat (length request)) os2"
    using write_all(1) [of os1 request] os len by (simp add: os2_def os1_def)
  have 3: "readResponse (a_sock answer) [] os2 = Done (CORRECT_CODE_32, response) (os2\<lparr>o_reads := rs\<rparr>)"
    using os(5) by (intro readResponse_gathered) (simp add: os2_def os1_def)
  define os4 where "os4 = sys_close (a_sock answer) (os2\<lparr>o_reads := rs\<rparr>)"
  define os5 where "os5 = os4\<lparr>o_writes := ns,
      o_wire := o_wire os4 @ [(t_socketFD (ts_this t), response)]\<rparr>"
  have 4: "sys_write (t_socketFD (ts_this t)) response os4 = Done (of_nat (length response)) os5"
    using write_all(1) [of os4 response] len by (simp add: os5_def os4_def os2_def sys_close_def)
  have "handleRequest env request t = Done CORRECT_CODE_32
      (t\<lparr>ts_os := os5, ts_cash := addToCash (t_addLock env) request response (t_others env (ts_cash t))\<rparr>)"
    using assms(1,2) os(3) write_all(2) [OF os(6) len(1)] write_all(2) [of os4 response ns] len
    by (simp add: handleRequest_def fetch_def Let_def ts_call_def 1 2 3 4 ts_close_def
        os4_def [symmetric] CORRECT_CODE_32_def) (simp add: os4_def os2_def sys_close_def)
  then show ?thesis
    by (simp add: os5_def os4_def os2_def os1_def sys_close_def)
qed

section \<open>The end of the thread\<close>

lemma ts_call_this: "ts_call f t = Done v t' \<Longrightarrow> ts_this t' = ts_this t"
  by (auto simp: ts_call_Done)

lemma fetch_this: "fetch env request res t = Done v t' \<Longrightarrow> ts_this t' = ts_this t"
  unfolding fetch_def Let_def bind_eq_Done
  by (auto simp: bind_eq_Done ts_close_def dest!: ts_call_this split: if_splits)

lemma handleRequest_this: "handleRequest env request t = Done v t' \<Longrightarrow> ts_this t' = ts_this t"
  unfolding handleRequest_def Let_def
  by (auto simp: bind_eq_Done dest: ts_call_this fetch_this split: if_splits sum.splits)

lemma startRoutine_end:
  "startRoutine env t = Done u t' \<Longrightarrow> t_isWorking (ts_this t) \<Longrightarrow>
     \<not> t_isWorking (ts_this t') \<and> t_tid (ts_this t') = t_tid (ts_this t)
     \<and> (\<exists>closed. o_closed (ts_os t') = closed @ [t_socketFD (ts_this t)])"
proof (induction env t arbitrary: t' rule: startRoutine.induct)
  case (1 env t)
  let ?left = "\<lambda>v. \<not> t_isWorking (ts_this t') \<and> t_tid (ts_this t') = t_tid (ts_this v)
     \<and> (\<exists>closed. o_closed (ts_os t') = closed @ [t_socketFD (ts_this v)])"
  have leave: "?left v" if "t' = ts_close (t_socketFD (ts_this v)) (v\<lparr>ts_this := (ts_this v)\<lparr>t_isWorking := False\<rparr>\<rparr>)" for v
    using that by (simp add: ts_close_def sys_close_def)
  from 1(2,3) obtain byte buf t1 where r: "ts_call read_32 t = Done (byte, buf) t1"
    by (subst (asm) startRoutine.simps) (auto simp: Let_def bind_eq_Done)
  from ts_call_this [OF r] have this1: "ts_this t1 = ts_this t" .
  show ?case
  proof (cases "sint byte \<le> 0")
    case True
    with 1(2,3) r have "t' = ts_close (t_socketFD (ts_this t1)) (t1\<lparr>ts_this := (ts_this t1)\<lparr>t_isWorking := False\<rparr>\<rparr>)"
      by (subst (asm) startRoutine.simps) (simp add: Let_def)
    from leave [OF this] this1 show ?thesis by simp
  next
    case False
    with 1(2,3) r obtain code t2 where h: "handleRequest env buf t1 = Done code t2"
      by (subst (asm) startRoutine.simps) (auto simp: Let_def bind_eq_Done)
    from handleRequest_this [OF h] this1 have this2: "ts_this t2 = ts_this t" by simp
    show ?thesis
    proof (cases "code = CORRECT_CODE_32")
      case True
      with 1(2,3) r h False have "startRoutine env t2 = Done u t'"
        by (subst (asm) startRoutine.simps) (simp add: Let_def)
      with 1(1) [OF _ refl r refl False h] True 1(3) this2 show ?thesis by simp
    next
      case nok: False
      with 1(2,3) r h False have "t' = ts_close (t_socketFD (ts_this t2)) (t2\<lparr>ts_this := (ts_this t2)\<lparr>t_isWorking := False\<rparr>\<rparr>)"
        by (subst (asm) startRoutine.simps) (simp add: Let_def)
      from leave [OF this] this2 show ?thesis by simp
    qed
  qed
qed

section \<open>A thread to try the properties on\<close>

definition fix_os_32 :: "ReadAnswer list \<Rightarrow> int64 list \<Rightarrow> Os" where
  "fix_os_32 reads writes = \<lparr>o_polls = [], o_reads = reads, o_writes = writes,
     o_connects = [\<lparr>a_resolved = True, a_sock = 5, a_connect = 0\<rparr>], o_waits = [], o_wire = [], o_dialed = [],
     o_closed = []\<rparr>"

definition fix_thread :: "ReadAnswer list \<Rightarrow> int64 list \<Rightarrow> ThreadState" where
  "fix_thread reads writes = \<lparr>ts_this = \<lparr>t_tid = 1, t_isWorking = True, t_socketFD = 4\<rparr>,
     ts_cash = \<lparr>requestResponse = Map.empty, attrAlive = True, mutexAlive = True\<rparr>,
     ts_os = fix_os_32 reads writes\<rparr>"

definition fix_tenv :: ThreadEnv where
  "fix_tenv = \<lparr>t_findLock = 0, t_addLock = 0, t_others = (\<lambda>c. c)\<rparr>"

definition fix_heading :: string where
  "fix_heading = ''GET Host: a''"

lemma fix_parsed_eq: "parsingHeading_32 fix_heading = Inr \<lparr>hostName = ''a'', contentLength = 0,
    rtype = GET_REQUEST, responseWithError = False, port = 80, haveContentLength = False\<rparr>"
  unfolding fix_heading_def headings_32 by code_simp

lemma fix_parsed: "\<exists>res. parsingHeading_32 fix_heading = Inr res \<and> hostName res = ''a'' \<and> port res = 80"
  unfolding fix_parsed_eq by simp

lemma fix_served:
  assumes "gathered [] reads = Some (response, rs)" and "length response < 2 ^ 31"
  shows "served fix_heading response \<lparr>a_resolved = True, a_sock = 5, a_connect = 0\<rparr> rs
    (fix_os_32 reads [11, of_nat (length response)])"
  using assms by (simp add: served_def fix_os_32_def fix_heading_def ERROR_CODE_32_def)

lemma fix_missed [simp]: "findInCash (t_findLock fix_tenv) r (ts_cash (fix_thread reads writes)) = []"
  by (simp add: findInCash_def fix_thread_def)

section \<open>Properties\<close>

text \<open>
  The response other threads and this one leave under a request: the first that was stored,
  which is another thread's when that thread stored one between this thread's look-up and its
  insertion.
\<close>

definition first_stored :: "ThreadEnv \<Rightarrow> string \<Rightarrow> string \<Rightarrow> ThreadState \<Rightarrow> string" where
  "first_stored env request response t = (case requestResponse (t_others env (ts_cash t)) request of
     None \<Rightarrow> response | Some r \<Rightarrow> r)"

lemma addToCash_first_stored:
  "requestResponse (addToCash CORRECT_CODE_32 request response (t_others env (ts_cash t))) request
     = Some (first_stored env request response t)"
  by (simp add: addToCash_def first_stored_def split: option.split)

text \<open>
  C9: the first response stored for a request is what every later user gets for it. When a thread
  misses the cache, its user gets the bytes of the server it dials; every later user of the same
  request, whatever other threads add to the cache before and after that, gets the response that
  was stored first: these same bytes, or, when another thread stored a response between this
  thread's look-up and its insertion, that one. A later thread dials nobody and leaves the cache
  as it is. The cache's mutex can be taken each time, and each \<open>write\<close> takes all it is given.
\<close>

theorem first_stored_served_to_all:
  assumes "findInCash (t_findLock env) request (ts_cash t) = []"
    and "parsingHeading_32 request = Inr res"
    and "served request response answer rs (ts_os t)"
    and "t_addLock env = CORRECT_CODE_32" and "handleRequest env request t = Done code t'"
    and "cash_step\<^sup>*\<^sup>* (ts_cash t') (ts_cash u)"
    and "first_stored env request response t = kept" and "kept \<noteq> []" and "length kept < 2 ^ 31"
    and "t_findLock env' = CORRECT_CODE_32" and "o_writes (ts_os u) = of_nat (length kept) # ns"
  shows "o_wire (ts_os t') = o_wire (ts_os t) @ [(a_sock answer, request), (t_socketFD (ts_this t), response)]
    \<and> (\<exists>u'. handleRequest env' request u = Done CORRECT_CODE_32 u' \<and> ts_cash u' = ts_cash u
         \<and> o_wire (ts_os u') = o_wire (ts_os u) @ [(t_socketFD (ts_this u), kept)]
         \<and> o_dialed (ts_os u') = o_dialed (ts_os u))"
proof -
  from handleRequest_miss [OF assms(1-3)] assms(4,5) have
    t': "ts_cash t' = addToCash CORRECT_CODE_32 request response (t_others env (ts_cash t))"
    "o_wire (ts_os t') = o_wire (ts_os t) @ [(a_sock answer, request), (t_socketFD (ts_this t), response)]"
    by auto
  have "requestResponse (ts_cash t') request = Some kept"
    by (simp add: t'(1) addToCash_first_stored assms(7))
  from stored.steps_inv [OF assms(6), OF this] have "findInCash (t_findLock env') request (ts_cash u) = kept"
    using assms(10) by (simp add: findInCash_stored)
  with handleRequest_hit [of env' request u kept _ ns, OF _ assms(8,11) refl assms(9)] t'(2) show ?thesis
    by simp
qed

text \<open>The witness runs the race: another thread stores \<open>no\<close> while this one fetches \<open>ok\<close>.\<close>

definition fix_racing :: ThreadEnv where
  "fix_racing = fix_tenv\<lparr>t_others := (\<lambda>c. c\<lparr>requestResponse := (requestResponse c)(fix_heading \<mapsto> ''no'')\<rparr>)\<rparr>"

theorem first_stored_served_to_all_witness:
  "\<exists>t' u'. handleRequest fix_racing fix_heading (fix_thread [Bytes ''ok'', Bytes []] [11, 2]) = Done CORRECT_CODE_32 t'
     \<and> handleRequest fix_tenv fix_heading (t'\<lparr>ts_os := fix_os_32 [] [2]\<rparr>) = Done CORRECT_CODE_32 u'
     \<and> o_wire (ts_os t') = [(5, fix_heading), (4, ''ok'')]
     \<and> o_wire (ts_os u') = [(4, ''no'')] \<and> o_dialed (ts_os u') = []"
proof -
  let ?t = "fix_thread [Bytes ''ok'', Bytes []] [11, 2]"
  have g: "gathered [] [Bytes ''ok'', Bytes []] = Some (''ok'', [])"
    by (simp add: Let_def no_blank_line)
  have sv: "served fix_heading ''ok'' \<lparr>a_resolved = True, a_sock = 5, a_connect = 0\<rparr> [] (ts_os ?t)"
    using fix_served [OF g] by (simp add: fix_thread_def)
  obtain res where res: "parsingHeading_32 fix_heading = Inr res" using fix_parsed by blast
  have first: "first_stored fix_racing fix_heading ''ok'' ?t = ''no''"
    by (simp add: first_stored_def fix_racing_def fix_thread_def)
  have lock: "t_addLock fix_racing = CORRECT_CODE_32" "t_findLock fix_tenv = CORRECT_CODE_32"
    by (simp_all add: fix_racing_def fix_tenv_def CORRECT_CODE_32_def)
  have miss: "findInCash (t_findLock fix_racing) fix_heading (ts_cash ?t) = []"
    using fix_missed by (simp add: fix_racing_def)
  from handleRequest_miss [OF miss res sv] obtain t' where
    t': "handleRequest fix_racing fix_heading ?t = Done CORRECT_CODE_32 t'" "ts_this t' = ts_this ?t" by blast
  let ?u = "t'\<lparr>ts_os := fix_os_32 [] [2]\<rparr>"
  have "o_wire (ts_os t') = o_wire (ts_os ?t) @ [(5, fix_heading), (t_socketFD (ts_this ?t), ''ok'')]
    \<and> (\<exists>u'. handleRequest fix_tenv fix_heading ?u = Done CORRECT_CODE_32 u' \<and> ts_cash u' = ts_cash ?u
         \<and> o_wire (ts_os u') = o_wire (ts_os ?u) @ [(t_socketFD (ts_this ?u), ''no'')]
         \<and> o_dialed (ts_os u') = o_dialed (ts_os ?u))"
    using first_stored_served_to_all [OF miss res sv lock(1) t'(1) _ first _ _ lock(2), of ?u]
    by (simp add: fix_os_32_def)
  with t' show ?thesis by (auto simp: fix_os_32_def fix_thread_def)
qed

text \<open>
  C13: a request no response is stored for goes to the host and port its heading names, and the
  user gets exactly the bytes gathered from that server; they are given to \<open>addToCash\<close> under the whole request,
  the server's descriptor is closed and the user's is kept open.
\<close>

theorem request_relayed_and_stored:
  assumes "findInCash (t_findLock env) request (ts_cash t) = []"
    and "parsingHeading_32 request = Inr res"
    and "served request response answer rs (ts_os t)"
  shows "\<exists>t'. handleRequest env request t = Done CORRECT_CODE_32 t'
     \<and> ts_this t' = ts_this t
     \<and> ts_cash t' = addToCash (t_addLock env) request response (t_others env (ts_cash t))
     \<and> o_dialed (ts_os t') = o_dialed (ts_os t) @ [(hostName res, ucast (port res))]
     \<and> o_wire (ts_os t') = o_wire (ts_os t) @ [(a_sock answer, request), (t_socketFD (ts_this t), response)]
     \<and> o_closed (ts_os t') = o_closed (ts_os t) @ [a_sock answer]
     \<and> o_reads (ts_os t') = rs"
  using assms by (rule handleRequest_miss)

theorem request_relayed_and_stored_witness:
  "\<exists>t'. handleRequest fix_tenv fix_heading (fix_thread [Bytes ''ok'', Bytes []] [11, 2]) = Done CORRECT_CODE_32 t'
     \<and> o_wire (ts_os t') = [(5, fix_heading), (4, ''ok'')] \<and> o_dialed (ts_os t') = [(''a'', 80)]"
proof -
  let ?t = "fix_thread [Bytes ''ok'', Bytes []] [11, 2]"
  have g: "gathered [] [Bytes ''ok'', Bytes []] = Some (''ok'', [])"
    by (simp add: Let_def no_blank_line)
  have sv: "served fix_heading ''ok'' \<lparr>a_resolved = True, a_sock = 5, a_connect = 0\<rparr> [] (ts_os ?t)"
    using fix_served [OF g] by (simp add: fix_thread_def)
  obtain res where res: "parsingHeading_32 fix_heading = Inr res" "hostName res = ''a''" "port res = 80"
    using fix_parsed by blast
  from request_relayed_and_stored [OF fix_missed res(1) sv] res(2,3) show ?thesis
    by (auto simp: fix_thread_def fix_os_32_def)
qed

text \<open>
  One malformed request ends the whole proxy. When the first bytes a thread reads are a
  request that is not in the cache and has at most three characters or no \<open>Host: \<close>, the parser's
  exception leaves the thread's function, and \<open>std::terminate\<close> takes every other user down.
\<close>

theorem malformed_request_ends_process:
  assumes "t_isWorking (ts_this t)" and "o_reads (ts_os t) = Bytes s # rs"
    and "s \<noteq> []" and "length s < 1048576"
    and "findInCash (t_findLock env) s (ts_cash t) = []"
    and "length s \<le> 3 \<or> \<not> sublist ''Host: '' s"
  shows "run_thread env t = Fault Terminate"
proof -
  define t1 where "t1 = t\<lparr>ts_os := (ts_os t)\<lparr>o_reads := rs\<rparr>\<rparr>"
  have rd: "ts_call read_32 t = Done (of_nat (length s), s) t1"
    using read_32_Bytes [OF assms(2)] assms(4) by (simp add: ts_call_def t1_def)
  have pos: "\<not> sint (of_nat (length s) :: int32) \<le> 0"
    using assms(3,4) by (simp add: sint32_of_nat_small)
  have "parsingHeading_32 s = Inl (ParseException ''incorrect heading'')"
    unfolding headings_32 parsingHeading_errors [of s, THEN conjunct1] by (rule assms(6))
  moreover have "findInCash (t_findLock env) s (ts_cash t1) = []"
    using assms(5) by (simp add: t1_def)
  ultimately have "handleRequest env s t1 = Throws (ParseException ''incorrect heading'') t1"
    by (simp add: handleRequest_def)
  with rd pos assms(1) have "startRoutine env t = Throws (ParseException ''incorrect heading'') t1"
    by (subst startRoutine.simps) (simp add: Let_def)
  then show ?thesis by (simp add: run_thread_def)
qed

theorem malformed_request_ends_process_witness:
  "run_thread fix_tenv (fix_thread [Bytes ''abc''] []) = Fault Terminate"
  by (rule malformed_request_ends_process [where s = "''abc''"])
     (simp_all add: fix_thread_def fix_os_32_def findInCash_def)

text \<open>
  A failing \<open>read\<close> counts as the end of the response: the loop leaves by its condition, so its
  test for an error is never reached. The part received so far is sent to the user and stored as
  the response to the request.
\<close>

theorem failed_read_stores_partial_response:
  assumes "findInCash (t_findLock env) request (ts_cash t) = []"
    and "parsingHeading_32 request = Inr res"
    and "o_reads (ts_os t) = Bytes part # ReadFails # rs"
    and "part \<noteq> []" and "length part < 1048576" and "\<not> suffix blank_line part"
    and "o_connects (ts_os t) = answer # as" and "a_resolved answer" and "a_sock answer \<noteq> ERROR_CODE_32"
    and "a_connect answer \<noteq> ERROR_CODE_32"
    and "o_writes (ts_os t) = of_nat (length request) # of_nat (length part) # ns" and "length request < 2 ^ 31"
    and "t_addLock env = CORRECT_CODE_32" and "requestResponse (t_others env (ts_cash t)) request = None"
  shows "\<exists>t'. handleRequest env request t = Done CORRECT_CODE_32 t'
     \<and> requestResponse (ts_cash t') request = Some part
     \<and> (t_socketFD (ts_this t), part) \<in> set (o_wire (ts_os t'))"
proof -
  have "gathered [] (o_reads (ts_os t)) = Some (part, rs)"
    using assms(3-6) by (simp add: Let_def)
  then have "served request part answer rs (ts_os t)"
    using assms(5,7-12) by (auto simp: served_def)
  from handleRequest_miss [OF assms(1,2) this] show ?thesis
    using assms(13,14) by (auto simp: addToCash_def)
qed

theorem failed_read_stores_partial_response_witness:
  "\<exists>t'. handleRequest fix_tenv fix_heading (fix_thread [Bytes ''cut'', ReadFails] [11, 3]) = Done CORRECT_CODE_32 t'
     \<and> requestResponse (ts_cash t') fix_heading = Some ''cut''"
proof -
  let ?t = "fix_thread [Bytes ''cut'', ReadFails] [11, 3]"
  obtain res where res: "parsingHeading_32 fix_heading = Inr res" using fix_parsed by blast
  have "\<exists>t'. handleRequest fix_tenv fix_heading ?t = Done CORRECT_CODE_32 t'
     \<and> requestResponse (ts_cash t') fix_heading = Some ''cut''
     \<and> (t_socketFD (ts_this ?t), ''cut'') \<in> set (o_wire (ts_os t'))"
    by (rule failed_read_stores_partial_response
          [where answer = "\<lparr>a_resolved = True, a_sock = 5, a_connect = 0\<rparr>" and rs = "[]" and as = "[]" and ns = "[]",
           OF fix_missed res])
       (simp_all add: fix_thread_def fix_os_32_def fix_tenv_def CORRECT_CODE_32_def ERROR_CODE_32_def
         no_blank_line fix_heading_def)
  then show ?thesis by blast
qed

text \<open>
  A response that comes in with a read that ends at a blank line is cut there. When the first
  chunk from the server is its heading, the body is never read: the user gets the heading alone,
  and so does everybody after him, since that is what is stored.
\<close>

theorem heading_alone_is_stored:
  assumes "findInCash (t_findLock env) request (ts_cash t) = []"
    and "parsingHeading_32 request = Inr res"
    and "o_reads (ts_os t) = Bytes (head @ blank_line) # rs" and "length head < 1048000"
    and "o_connects (ts_os t) = answer # as" and "a_resolved answer" and "a_sock answer \<noteq> ERROR_CODE_32"
    and "a_connect answer \<noteq> ERROR_CODE_32"
    and "o_writes (ts_os t) = of_nat (length request) # of_nat (length head + 4) # ns" and "length request < 2 ^ 31"
    and "t_addLock env = CORRECT_CODE_32" and "requestResponse (t_others env (ts_cash t)) request = None"
  shows "\<exists>t'. handleRequest env request t = Done CORRECT_CODE_32 t' \<and> o_reads (ts_os t') = rs
     \<and> requestResponse (ts_cash t') request = Some (head @ blank_line)
     \<and> o_wire (ts_os t') = o_wire (ts_os t)
         @ [(a_sock answer, request), (t_socketFD (ts_this t), head @ blank_line)]"
proof -
  have len: "length (head @ blank_line) = length head + 4" by (simp add: blank_line_def)
  have "take 1048575 (head @ blank_line) = head @ blank_line" "head @ blank_line \<noteq> []"
    using assms(4) len by (simp_all add: blank_line_def)
  then have "gathered [] (o_reads (ts_os t)) = Some (head @ blank_line, rs)"
    using assms(3) suffixI [of "head @ blank_line" head blank_line] by (simp add: Let_def)
  then have "served request (head @ blank_line) answer rs (ts_os t)"
    using assms(4-10) len by (auto simp: served_def)
  from handleRequest_miss [OF assms(1,2) this] show ?thesis
    using assms(11,12) by (auto simp: addToCash_def)
qed

theorem heading_alone_is_stored_witness:
  "\<exists>t'. handleRequest fix_tenv fix_heading (fix_thread [Bytes (''200'' @ blank_line), Bytes ''body''] [11, 7])
        = Done CORRECT_CODE_32 t'
     \<and> requestResponse (ts_cash t') fix_heading = Some (''200'' @ blank_line)"
proof -
  let ?t = "fix_thread [Bytes (''200'' @ blank_line), Bytes ''body''] [11, 7]"
  obtain res where res: "parsingHeading_32 fix_heading = Inr res" using fix_parsed by blast
  have "\<exists>t'. handleRequest fix_tenv fix_heading ?t = Done CORRECT_CODE_32 t' \<and> o_reads (ts_os t') = [Bytes ''body'']
     \<and> requestResponse (ts_cash t') fix_heading = Some (''200'' @ blank_line)
     \<and> o_wire (ts_os t') = o_wire (ts_os ?t)
         @ [(a_sock \<lparr>a_resolved = True, a_sock = 5, a_connect = 0\<rparr>, fix_heading),
            (t_socketFD (ts_this ?t), ''200'' @ blank_line)]"
    by (rule heading_alone_is_stored [where as = "[]" and ns = "[]", OF fix_missed res])
       (simp_all add: fix_thread_def fix_os_32_def fix_tenv_def CORRECT_CODE_32_def ERROR_CODE_32_def
         fix_heading_def)
  then show ?thesis by blast
qed

text \<open>
  A client thread always comes to an end when its peers do (the function is total: every
  round uses up an answer of \<open>read\<close>), and one that returns has closed its user's descriptor last
  and marked itself dead, which is what the cleaner looks for.
\<close>

theorem returned_thread_is_dead:
  assumes "t_isWorking (ts_this t)" and "run_thread env t = Done u t'"
  shows "\<not> isWorking (ts_this t') \<and> getTid (ts_this t') = getTid (ts_this t)
     \<and> (\<exists>closed. o_closed (ts_os t') = closed @ [t_socketFD (ts_this t)])"
  using assms startRoutine_end [of env t u t']
  by (simp add: run_thread_def isWorking_def getTid_def split: outcome.splits)

theorem returned_thread_is_dead_witness:
  "\<exists>t'. run_thread fix_tenv (fix_thread [Bytes []] []) = Done () t' \<and> \<not> isWorking (ts_this t')"
proof -
  have w: "t_isWorking (ts_this (fix_thread [Bytes []] []))" by (simp add: fix_thread_def)
  let ?t = "fix_thread [Bytes []] []"
  have rd: "ts_call read_32 ?t = Done (0, []) (?t\<lparr>ts_os := (ts_os ?t)\<lparr>o_reads := []\<rparr>\<rparr>)"
    using read_32_Bytes [of "ts_os ?t" "[]" "[]"] by (simp add: ts_call_def fix_thread_def fix_os_32_def)
  have "\<exists>t'. startRoutine fix_tenv ?t = Done () t'"
    using w by (subst startRoutine.simps) (simp add: rd Let_def)
  then obtain t' where t': "run_thread fix_tenv ?t = Done () t'"
    by (auto simp: run_thread_def)
  from returned_thread_is_dead [OF w t'] t' show ?thesis by blast
qed

end
