(* ===== verification/Lab32_Server.thy ===== *)
theory Lab32_Server
  imports Lab32_Thread Handler
begin

text \<open>
  \<open>lab32/context/Context\<close>, \<open>cleaner\<close>, \<open>server\<close>, \<open>socket\<close> and \<open>main.cpp\<close>: the table of threads,
  the cleaner thread that joins those that have ended, and the loop that accepts users. The table
  is a \<open>std::map\<close> from thread identifiers to contexts: here a list of pairs ordered by key, whose
  values are addresses in a heap of contexts. The joins made are kept in order. What the other
  threads do between two steps of the cleaner is an input.
\<close>

section \<open>The table of threads\<close>

record Context =
  cashContext :: CashContext
  threadMap :: "(int64 \<times> nat) list"
  threads :: "nat \<Rightarrow> ThreadContext option"
  nextThread :: nat
  joined :: "int64 list"
  x_os :: Os

definition new_Context ::
    "(int32 \<Rightarrow> string) \<Rightarrow> int32 \<Rightarrow> int32 \<Rightarrow> int32 \<Rightarrow> Os \<Rightarrow> (unit, Context) outcome" where
  "new_Context strerror attrInitCode setTypeCode mutexInitCode os =
     map_state (\<lambda>c. \<lparr>cashContext = c, threadMap = [], threads = Map.empty, nextThread = 0, joined = [],
         x_os = os\<rparr>)
       (new_CashContext strerror attrInitCode setTypeCode mutexInitCode)"

text \<open>\<open>std::map::insert\<close> keeps the entry that is already there.\<close>

fun map_insert :: "int64 \<Rightarrow> nat \<Rightarrow> (int64 \<times> nat) list \<Rightarrow> (int64 \<times> nat) list" where
  "map_insert k v [] = [(k, v)]"
| "map_insert k v ((k', v') # m) =
     (if k < k' then (k, v) # (k', v') # m
      else if k = k' then (k', v') # m
      else (k', v') # map_insert k v m)"

definition addClient :: "int32 \<Rightarrow> int64 \<Rightarrow> int32 \<Rightarrow> Context \<Rightarrow> Context" where
  "addClient createCode tid clientFD c =
     (let (threadContext, closed) = new_ThreadContext createCode tid clientFD;
          a = nextThread c
      in c\<lparr>threads := (threads c)(a \<mapsto> threadContext), nextThread := Suc a,
           threadMap := map_insert (getTid threadContext) a (threadMap c),
           x_os := (if closed then sys_close clientFD (x_os c) else x_os c)\<rparr>)"

text \<open>The first loop of \<open>joinDeadClients\<close> joins, deletes and collects; the second erases.\<close>

fun join_loop :: "(int64 \<times> nat) list \<Rightarrow> int64 list \<Rightarrow> Context \<Rightarrow> (int64 list, Context) outcome" where
  "join_loop [] keysToDelete c = Done keysToDelete c"
| "join_loop ((tid, a) # itr) keysToDelete c = (case threads c a of
     None \<Rightarrow> Fault UseAfterFree
   | Some threadContext \<Rightarrow>
       if \<not> isWorking threadContext then
         join_loop itr (keysToDelete @ [tid])
           (c\<lparr>joined := joined c @ [tid], threads := (threads c)(a := None)\<rparr>)
       else join_loop itr keysToDelete c)"

definition map_erase :: "int64 \<Rightarrow> (int64 \<times> nat) list \<Rightarrow> (int64 \<times> nat) list" where
  "map_erase k m = filter (\<lambda>(k', v). k' \<noteq> k) m"

definition joinDeadClients :: "Context \<Rightarrow> (int32, Context) outcome" where
  "joinDeadClients c =
     bind (join_loop (threadMap c) [] c) (\<lambda>keysToDelete c.
     let c = c\<lparr>threadMap := fold map_erase keysToDelete (threadMap c)\<rparr>
     in Done (of_nat (length (threadMap c))) c)"

section \<open>The cleaner\<close>

record Cleaner =
  k_context :: Context
  k_isWorking :: bool

definition new_Cleaner :: "int32 \<Rightarrow> Context \<Rightarrow> Cleaner" where
  "new_Cleaner createCode context =
     \<lparr>k_context = context, k_isWorking = (createCode = CORRECT_CODE_32)\<rparr>"

text \<open>
  \<open>startRoutine\<close>: each \<open>sleep\<close> lets the other threads act; the list gives what they do during
  the sleeps, and the loop that has used it up is still running.
\<close>

fun cleaner_loop :: "(Cleaner \<Rightarrow> Cleaner) list \<Rightarrow> int32 \<Rightarrow> Cleaner \<Rightarrow> (unit, Cleaner) outcome" where
  "cleaner_loop sleeps aliveTreadCount k =
     (if k_isWorking k \<or> aliveTreadCount \<noteq> 0 then
        case joinDeadClients (k_context k) of
          Fault x \<Rightarrow> Fault x
        | Throws ex c \<Rightarrow> Throws ex (k\<lparr>k_context := c\<rparr>)
        | Done aliveTreadCount c \<Rightarrow> (case sleeps of
              [] \<Rightarrow> Fault OutOfFuel
            | meanwhile # sleeps \<Rightarrow> cleaner_loop sleeps aliveTreadCount (meanwhile (k\<lparr>k_context := c\<rparr>)))
      else Done () k)"

declare cleaner_loop.simps [simp del]

definition startRoutine_cleaner :: "(Cleaner \<Rightarrow> Cleaner) list \<Rightarrow> Cleaner \<Rightarrow> (unit, Cleaner) outcome" where
  "startRoutine_cleaner sleeps k = cleaner_loop sleeps 0 k"

definition stopRoutine :: "Cleaner \<Rightarrow> Cleaner" where
  "stopRoutine k = k\<lparr>k_isWorking := False\<rparr>"

section \<open>The listening socket\<close>

definition PORT_SERVER_SOCKET_32 :: int32 where
  "PORT_SERVER_SOCKET_32 = 8099"

record ServerSocketImpl_32 =
  serverSocketFD :: int32
  listenPort_32 :: "16 word option"
  socketClosed_32 :: bool

definition connectSocket_32 :: "ListenAnswers \<Rightarrow> ServerSocketImpl_32 \<Rightarrow> (int32, ServerSocketImpl_32) outcome" where
  "connectSocket_32 ans s =
     (if sint (l_socket ans) < 0 then Throws (ConnectException ''bind socket'') s
      else if sint (l_reuseaddr ans) < 0
        then Throws (ConnectException ''setsockopt(SO_REUSEADDR) failed'') s
      else if sint (l_reuseport ans) < 0
        then Throws (ConnectException ''setsockopt(SO_REUSEADDR) failed'') s
      else if sint (l_bind ans) < 0 then Throws (ConnectException ''bind socket'') s
      else let s = s\<lparr>listenPort_32 := Some (ucast PORT_SERVER_SOCKET_32)\<rparr>
           in if sint (l_listen ans) < 0 then Throws (ConnectException ''listen socket'') s
              else Done 0 (s\<lparr>serverSocketFD := l_socket ans\<rparr>))"

definition getFdSocket_32 :: "ServerSocketImpl_32 \<Rightarrow> int32" where
  "getFdSocket_32 s = serverSocketFD s"

text \<open>The descriptor \<open>accept\<close> gives, then the code and the identifier \<open>pthread_create\<close> gives.\<close>

record AcceptAnswer =
  ac_sock :: int32
  ac_create :: int32
  ac_tid :: int64

definition acceptNewClient_32 :: "AcceptAnswer \<Rightarrow> Context \<Rightarrow> (unit, Context) outcome" where
  "acceptNewClient_32 ans context =
     (if sint (ac_sock ans) < 0 then Throws (ConnectException ''accept new client'') context
      else Done () (addClient (ac_create ans) (ac_tid ans) (ac_sock ans) context))"

definition closeSocket_32 :: "ServerSocketImpl_32 \<Rightarrow> ServerSocketImpl_32" where
  "closeSocket_32 s = s\<lparr>socketClosed_32 := True\<rparr>"

section \<open>The server\<close>

record ServerImpl_32 =
  w_isWorking :: bool
  w_serverSocket :: ServerSocketImpl_32
  w_socketPoll :: PollFd
  w_stdinPoll :: PollFd
  w_cleaner :: Cleaner

text \<open>One round of the loop: the answers of the two \<open>poll\<close> calls, of \<open>accept\<close>, and the word read.\<close>

record Round =
  rd_code :: int32
  rd_revents :: "16 word"
  rd_accept :: AcceptAnswer
  rd_stdinCode :: int32
  rd_stdinRevents :: "16 word"
  rd_word :: string

definition zero_pollfd_32 :: PollFd where
  "zero_pollfd_32 = \<lparr>p_fd = 0, p_events = 0, p_revents = 0\<rparr>"

definition setPolls :: "ServerImpl_32 \<Rightarrow> ServerImpl_32" where
  "setPolls w = w\<lparr>w_socketPoll := zero_pollfd_32\<lparr>p_fd := getFdSocket_32 (w_serverSocket w), p_events := POLLIN\<rparr>,
     w_stdinPoll := zero_pollfd_32\<lparr>p_fd := 0, p_events := POLLIN\<rparr>\<rparr>"

definition stopServer :: "ServerImpl_32 \<Rightarrow> ServerImpl_32" where
  "stopServer w = w\<lparr>w_isWorking := False\<rparr>"

text \<open>
  The two halves of the loop's body. The result tells whether the method returns there. The
  \<open>catch\<close> names a pointer, so what \<open>acceptNewClient\<close> throws leaves the method.
\<close>

definition pollSocket :: "Round \<Rightarrow> ServerImpl_32 \<Rightarrow> (bool, ServerImpl_32) outcome" where
  "pollSocket r w =
     (if rd_code r = -1 then Done True w
      else if rd_code r = 0 then Done False w
      else
        let w = w\<lparr>w_socketPoll := (w_socketPoll w)\<lparr>p_revents := rd_revents r\<rparr>\<rparr>
        in if and (p_revents (w_socketPoll w)) POLLIN \<noteq> 0 then
             let w = w\<lparr>w_socketPoll := (w_socketPoll w)\<lparr>p_revents := 0\<rparr>\<rparr>
             in bind (map_state (\<lambda>c. w\<lparr>w_cleaner := (w_cleaner w)\<lparr>k_context := c\<rparr>\<rparr>)
                  (acceptNewClient_32 (rd_accept r) (k_context (w_cleaner w)))) (\<lambda>_ w. Done False w)
           else Done False w)"

definition pollStdin :: "Round \<Rightarrow> ServerImpl_32 \<Rightarrow> (bool, ServerImpl_32) outcome" where
  "pollStdin r w =
     (if rd_stdinCode r = -1 then Done True w
      else if rd_stdinCode r \<noteq> 0 then
        let w = w\<lparr>w_stdinPoll := (w_stdinPoll w)\<lparr>p_revents := rd_stdinRevents r\<rparr>\<rparr>
        in if and (p_revents (w_stdinPoll w)) POLLIN \<noteq> 0 then
             let w = w\<lparr>w_stdinPoll := (w_stdinPoll w)\<lparr>p_revents := 0\<rparr>\<rparr>
             in if rd_word r = ''q'' then Done False (w\<lparr>w_isWorking := False\<rparr>) else Done False w
           else Done False w
      else Done False w)"

text \<open>The result tells whether the cleaner was stopped and joined before the return.\<close>

fun server_loop :: "Round list \<Rightarrow> ServerImpl_32 \<Rightarrow> (bool, ServerImpl_32) outcome" where
  "server_loop rounds w =
     (if \<not> w_isWorking w then Done True (w\<lparr>w_cleaner := stopRoutine (w_cleaner w)\<rparr>)
      else case rounds of
        [] \<Rightarrow> Fault OutOfFuel
      | r # rounds \<Rightarrow>
          bind (pollSocket r w) (\<lambda>return w.
          if return then Done False w
          else bind (pollStdin r w) (\<lambda>return w.
               if return then Done False w else server_loop rounds w)))"

declare server_loop.simps [simp del]

definition startServer_32 :: "int32 \<Rightarrow> Round list \<Rightarrow> ServerImpl_32 \<Rightarrow> (bool, ServerImpl_32) outcome" where
  "startServer_32 createCode rounds w =
     server_loop rounds (setPolls (w\<lparr>w_cleaner := new_Cleaner createCode (k_context (w_cleaner w))\<rparr>))"

definition new_ServerImpl_32 ::
    "(int32 \<Rightarrow> string) \<Rightarrow> ListenAnswers \<Rightarrow> int32 \<Rightarrow> int32 \<Rightarrow> int32 \<Rightarrow> Os \<Rightarrow> (unit, ServerImpl_32) outcome" where
  "new_ServerImpl_32 strerror ans attrInitCode setTypeCode mutexInitCode os =
     (let sock = \<lparr>serverSocketFD = 0, listenPort_32 = None, socketClosed_32 = False\<rparr>;
          none = \<lparr>cashContext = \<lparr>requestResponse = Map.empty, attrAlive = False, mutexAlive = False\<rparr>,
            threadMap = [], threads = Map.empty, nextThread = 0, joined = [], x_os = os\<rparr>;
          w = (\<lambda>sock c. \<lparr>w_isWorking = True, w_serverSocket = sock, w_socketPoll = zero_pollfd_32,
            w_stdinPoll = zero_pollfd_32, w_cleaner = \<lparr>k_context = c, k_isWorking = False\<rparr>\<rparr>)
      in case connectSocket_32 ans sock of
           Fault x \<Rightarrow> Fault x
         | Throws ex sock \<Rightarrow> Throws ex (w sock none)
         | Done code sock \<Rightarrow>
             map_state (w sock) (new_Context strerror attrInitCode setTypeCode mutexInitCode os))"

text \<open>\<open>main\<close> catches every exception and ends its own thread; the code of the process is 0.\<close>

definition main_32 ::
    "(int32 \<Rightarrow> string) \<Rightarrow> ListenAnswers \<Rightarrow> int32 \<Rightarrow> int32 \<Rightarrow> int32 \<Rightarrow> Os \<Rightarrow> int32 \<Rightarrow> Round list
     \<Rightarrow> (unit, ServerImpl_32) outcome" where
  "main_32 strerror ans attrInitCode setTypeCode mutexInitCode os createCode rounds =
     (case bind (new_ServerImpl_32 strerror ans attrInitCode setTypeCode mutexInitCode os)
             (\<lambda>_ server. startServer_32 createCode rounds server) of
        Throws ex server \<Rightarrow> Done () server
      | Done stopped server \<Rightarrow> Done () server
      | Fault x \<Rightarrow> Fault x)"

end
