(* ===== verification/Lab32_Server_Correct.thy ===== *)
theory Lab32_Server_Correct
  imports Lab32_Server
begin

text \<open>
  The table of threads of \<open>lab32\<close>, the cleaner that empties it and the accept loop: the invariant
  of the table and what every operation keeps of it, what a round of the cleaner joins and leaves,
  when the cleaner ends, and what happens when a thread or a connection cannot be made.
\<close>

section \<open>The table\<close>

definition working :: "Context \<Rightarrow> int64 \<times> nat \<Rightarrow> bool" where
  "working c e = (case threads c (snd e) of None \<Rightarrow> False | Some t \<Rightarrow> isWorking t)"

definition wf_context :: "Context \<Rightarrow> bool" where
  "wf_context c \<longleftrightarrow> sorted_wrt (<) (map fst (threadMap c)) \<and> distinct (map snd (threadMap c))
     \<and> (\<forall>e \<in> set (threadMap c). threads c (snd e) \<noteq> None \<and> snd e < nextThread c)"

lemma map_insert_set:
  "sorted_wrt (<) (map fst m) \<Longrightarrow>
     set (map_insert k v m) = (if k \<in> fst ` set m then set m else insert (k, v) (set m))"
proof (induction m)
  case (Cons e m)
  obtain k' v' where e: "e = (k', v')" by (cases e)
  have above: "k' < fst x" if "x \<in> set m" for x using Cons.prems that by (auto simp: e)
  consider "k < k'" | "k = k'" | "k > k'" by (metis linorder_less_linear)
  then show ?case
  proof cases
    case 1
    then have "k \<notin> fst ` set (e # m)" using above by (fastforce simp: e)
    with 1 show ?thesis by (simp add: e)
  next
    case 2
    then show ?thesis by (simp add: e)
  next
    case 3
    then have "\<not> k < k'" "k \<noteq> k'" by auto
    with Cons show ?thesis by (auto simp: e)
  qed
qed simp

lemma map_insert_sorted:
  "sorted_wrt (<) (map fst m) \<Longrightarrow> sorted_wrt (<) (map fst (map_insert k v m))"
proof (induction m)
  case (Cons e m)
  obtain k' v' where e: "e = (k', v')" by (cases e)
  from Cons have "sorted_wrt (<) (map fst m)" by simp
  from map_insert_set [OF this, of k v] Cons e show ?case
    by (auto split: if_splits)
qed simp

lemma map_insert_snd:
  "v \<notin> snd ` set m \<Longrightarrow> distinct (map snd m) \<Longrightarrow> distinct (map snd (map_insert k v m))
     \<and> snd ` set (map_insert k v m) \<subseteq> insert v (snd ` set m)"
proof (induction m)
  case (Cons e m)
  then have IH: "distinct (map snd (map_insert k v m))"
    "\<And>x. x \<in> set (map_insert k v m) \<Longrightarrow> snd x \<in> insert v (snd ` set m)" by auto
  obtain k' v' where e: "e = (k', v')" by (cases e)
  have "v' \<notin> snd ` set (map_insert k v m)"
    using IH(2) Cons.prems by (auto simp: e)
  with IH Cons.prems show ?case by (auto simp: e)
qed simp

lemma addClient_wf:
  assumes "wf_context c" shows "wf_context (addClient createCode tid fd c)"
proof -
  let ?t = "fst (new_ThreadContext createCode tid fd)"
  have s: "sorted_wrt (<) (map fst (threadMap c))" using assms by (simp add: wf_context_def)
  have fresh: "nextThread c \<notin> snd ` set (threadMap c)" using assms by (auto simp: wf_context_def)
  have "distinct (map snd (map_insert (getTid ?t) (nextThread c) (threadMap c)))"
    using map_insert_snd [OF fresh] assms by (simp add: wf_context_def)
  moreover have "threads c (snd e) \<noteq> None \<and> snd e < nextThread c"
    if "e \<in> set (threadMap c)" for e using assms that by (auto simp: wf_context_def)
  ultimately show ?thesis
    using map_insert_sorted [OF s, of "getTid ?t" "nextThread c"] map_insert_set [OF s, of "getTid ?t" "nextThread c"]
    by (auto simp: wf_context_def addClient_def Let_def less_Suc_eq split: prod.splits if_splits)
qed

section \<open>One round of the cleaner\<close>

lemma join_loop_eq:
  assumes "distinct (map snd itr)" and "\<forall>e \<in> set itr. threads c (snd e) \<noteq> None"
  shows "join_loop itr ks c = Done (ks @ map fst (filter (\<lambda>e. \<not> working c e) itr))
    (c\<lparr>joined := joined c @ map fst (filter (\<lambda>e. \<not> working c e) itr),
       threads := (\<lambda>a. if a \<in> snd ` set (filter (\<lambda>e. \<not> working c e) itr) then None else threads c a)\<rparr>)"
  using assms
proof (induction itr arbitrary: ks c)
  case (Cons e itr)
  obtain tid a where e: "e = (tid, a)" by (cases e)
  from Cons.prems e obtain t where t: "threads c a = Some t" by auto
  show ?case
  proof (cases "isWorking t")
    case True
    then have "working c e" by (simp add: working_def e t)
    with True Cons show ?thesis by (simp add: e t)
  next
    case False
    let ?c = "c\<lparr>joined := joined c @ [tid], threads := (threads c)(a := None)\<rparr>"
    have same: "working ?c x = working c x" "threads ?c (snd x) \<noteq> None" if "x \<in> set itr" for x
      using Cons.prems that by (auto simp: working_def e image_iff)
    then have f: "filter (\<lambda>x. \<not> working ?c x) itr = filter (\<lambda>x. \<not> working c x) itr"
      by (auto intro: filter_cong)
    have "\<not> working c e" using False by (simp add: working_def e t)
    moreover have "join_loop itr (ks @ [tid]) ?c = Done ((ks @ [tid]) @ map fst (filter (\<lambda>x. \<not> working c x) itr))
      (?c\<lparr>joined := joined ?c @ map fst (filter (\<lambda>x. \<not> working c x) itr), threads := (\<lambda>b.
        if b \<in> snd ` set (filter (\<lambda>x. \<not> working c x) itr) then None else threads ?c b)\<rparr>)"
      using Cons.IH [of ?c "ks @ [tid]"] Cons.prems same(2) unfolding f by simp
    moreover have "(\<lambda>b. if b \<in> snd ` set (filter (\<lambda>x. \<not> working c x) itr) then None else threads ?c b)
      = (\<lambda>b. if b \<in> snd ` set (filter (\<lambda>x. \<not> working c x) (e # itr)) then None else threads c b)"
      using \<open>\<not> working c e\<close> by (auto simp: fun_eq_iff e)
    ultimately show ?thesis using False by (simp add: e t del: set_filter)
  qed
qed simp

lemma fold_map_erase: "fold map_erase ks m = filter (\<lambda>e. fst e \<notin> set ks) m"
  by (induction ks arbitrary: m) (auto simp: map_erase_def case_prod_beta conj_commute intro: filter_cong)

lemma joinDeadClients_eq:
  assumes "wf_context c"
  shows "\<exists>c'. joinDeadClients c = Done (of_nat (length (threadMap c'))) c' \<and> wf_context c'
    \<and> threadMap c' = filter (working c) (threadMap c)
    \<and> joined c' = joined c @ map fst (filter (\<lambda>e. \<not> working c e) (threadMap c))
    \<and> threads c' = (\<lambda>a. if a \<in> snd ` set (filter (\<lambda>e. \<not> working c e) (threadMap c)) then None
        else threads c a)
    \<and> nextThread c' = nextThread c"
proof -
  from assms have d: "distinct (map snd (threadMap c))" "\<forall>e \<in> set (threadMap c). threads c (snd e) \<noteq> None"
    and s: "sorted_wrt (<) (map fst (threadMap c))" by (simp_all add: wf_context_def)
  define dead where "dead = filter (\<lambda>e. \<not> working c e) (threadMap c)"
  from s have dk: "distinct (map fst (threadMap c))"
    by (simp add: strict_sorted_iff)
  have keys: "filter (\<lambda>e. fst e \<notin> set (map fst dead)) (threadMap c) = filter (working c) (threadMap c)"
  proof (rule filter_cong [OF refl])
    fix e assume e: "e \<in> set (threadMap c)"
    show "(fst e \<notin> set (map fst dead)) = working c e"
      using dk e by (auto simp: dead_def distinct_map inj_on_def)
  qed
  let ?c = "c\<lparr>joined := joined c @ map fst dead,
       threads := (\<lambda>a. if a \<in> snd ` set dead then None else threads c a),
       threadMap := filter (working c) (threadMap c)\<rparr>"
  have "joinDeadClients c = Done (of_nat (length (threadMap ?c))) ?c"
    using join_loop_eq [OF d, of "[]"] keys
    by (simp add: joinDeadClients_def Let_def fold_map_erase dead_def)
  moreover have "wf_context ?c"
  proof -
    have "sorted_wrt (<) (map fst (filter (working c) (threadMap c)))"
      using s by (simp add: sorted_wrt_map sorted_wrt_filter)
    moreover have "distinct (map snd (filter (working c) (threadMap c)))"
      using d(1) by (simp add: distinct_map_filter)
    moreover have "snd e \<notin> snd ` set dead" if "e \<in> set (threadMap c)" "working c e" for e
      using d(1) that by (auto simp: dead_def distinct_map inj_on_def)
    ultimately show ?thesis using assms by (auto simp: wf_context_def)
  qed
  ultimately show ?thesis by (intro exI [of _ ?c]) (simp add: dead_def)
qed

section \<open>The cleaner's loop\<close>

text \<open>The identifiers of the threads that have ended, and those of all threads in the table.\<close>

definition ended :: "Context \<Rightarrow> int64 list" where
  "ended c = map fst (filter (\<lambda>e. \<not> working c e) (threadMap c))"

lemma cleaner_round:
  assumes "wf_context (k_context k)" and "k_isWorking k \<or> alive \<noteq> 0"
  shows "\<exists>c. wf_context c \<and> threadMap c = filter (working (k_context k)) (threadMap (k_context k))
    \<and> joined c = joined (k_context k) @ ended (k_context k)
    \<and> joinDeadClients (k_context k) = Done (of_nat (length (threadMap c))) c
    \<and> cleaner_loop (m # ms) alive k
        = cleaner_loop ms (of_nat (length (threadMap c))) (m (k\<lparr>k_context := c\<rparr>))"
proof -
  from joinDeadClients_eq [OF assms(1)] obtain c where
    "joinDeadClients (k_context k) = Done (of_nat (length (threadMap c))) c" "wf_context c"
    "threadMap c = filter (working (k_context k)) (threadMap (k_context k))"
    "joined c = joined (k_context k) @ ended (k_context k)" unfolding ended_def by blast
  with assms(2) show ?thesis by (intro exI [of _ c]) (simp add: cleaner_loop.simps [of "m # ms"])
qed

lemma cleaner_loop_done: "\<not> k_isWorking k \<Longrightarrow> cleaner_loop ms 0 k = Done () k"
  by (simp add: cleaner_loop.simps)

lemma cleaner_loop_stuck:
  "wf_context (k_context k) \<Longrightarrow> k_isWorking k \<or> alive \<noteq> 0 \<Longrightarrow> cleaner_loop [] alive k = Fault OutOfFuel"
  using joinDeadClients_eq [of "k_context k"] by (subst cleaner_loop.simps) auto

text \<open>
  What the threads may do while the cleaner sleeps: keep the table well formed and what is in it,
  join nobody, start not so many clients that their number wraps in an \<open>int\<close>, and add no client
  in a sleep after which the cleaner is stopped.
\<close>

definition fair_sleep :: "(Cleaner \<Rightarrow> Cleaner) \<Rightarrow> bool" where
  "fair_sleep m \<longleftrightarrow> (\<forall>k. wf_context (k_context k) \<longrightarrow> wf_context (k_context (m k))
     \<and> set (threadMap (k_context k)) \<subseteq> set (threadMap (k_context (m k)))
     \<and> joined (k_context (m k)) = joined (k_context k)
     \<and> (length (threadMap (k_context k)) < 2 ^ 31 \<longrightarrow> length (threadMap (k_context (m k))) < 2 ^ 31)
     \<and> (\<not> k_isWorking (m k) \<longrightarrow> threadMap (k_context (m k)) = threadMap (k_context k)))"

text \<open>The tables the rounds of a run find, from the first to the last.\<close>

fun tables :: "(Cleaner \<Rightarrow> Cleaner) list \<Rightarrow> int32 \<Rightarrow> Cleaner \<Rightarrow> Context list" where
  "tables sleeps alive k =
     (if k_isWorking k \<or> alive \<noteq> 0 then k_context k # (case (sleeps, joinDeadClients (k_context k)) of
         (meanwhile # sleeps, Done alive c) \<Rightarrow> tables sleeps alive (meanwhile (k\<lparr>k_context := c\<rparr>))
       | _ \<Rightarrow> [])
      else [])"

declare tables.simps [simp del]

lemma alive_zero: "n < 2 ^ 31 \<Longrightarrow> (of_nat n :: int32) = 0 \<longleftrightarrow> n = 0"
  using sint32_of_nat_small [of n] by (cases "n = 0") auto

lemma cleaner_loop_empty:
  assumes "\<forall>m \<in> set ms. fair_sleep m" and "cleaner_loop ms alive k = Done () k'"
    and "wf_context (k_context k)" and "length (threadMap (k_context k)) < 2 ^ 31"
    and "k_isWorking k \<or> alive = of_nat (length (threadMap (k_context k)))"
  shows "threadMap (k_context k') = [] \<and> \<not> k_isWorking k'
    \<and> joined (k_context k') = joined (k_context k) @ concat (map ended (tables ms alive k))
    \<and> (\<forall>c \<in> set (tables ms alive k). fst ` set (threadMap c) \<subseteq> set (concat (map ended (tables ms alive k))))
    \<and> fst ` set (threadMap (k_context k)) \<subseteq> set (concat (map ended (tables ms alive k)))"
  using assms
proof (induction ms arbitrary: alive k)
  case Nil
  show ?case
  proof (cases "k_isWorking k \<or> alive \<noteq> 0")
    case True
    with cleaner_loop_stuck [OF Nil(3) True] Nil(2) show ?thesis by simp
  next
    case False
    with Nil(2,4,5) show ?thesis by (auto simp: cleaner_loop.simps [of "[]"] tables.simps [of "[]"] alive_zero)
  qed
next
  case (Cons m ms)
  show ?case
  proof (cases "k_isWorking k \<or> alive \<noteq> 0")
    case True
    from cleaner_round [OF Cons.prems(3) True, of m ms] obtain c where
      c: "wf_context c" "threadMap c = filter (working (k_context k)) (threadMap (k_context k))"
      "joined c = joined (k_context k) @ ended (k_context k)"
      "joinDeadClients (k_context k) = Done (of_nat (length (threadMap c))) c"
      "cleaner_loop (m # ms) alive k
        = cleaner_loop ms (of_nat (length (threadMap c))) (m (k\<lparr>k_context := c\<rparr>))" by blast
    let ?k = "m (k\<lparr>k_context := c\<rparr>)" and ?n = "of_nat (length (threadMap c)) :: int32"
    have small: "length (threadMap c) < 2 ^ 31"
      using Cons.prems(4) unfolding c(2) by (meson length_filter_le order_le_less_trans)
    have fair: "fair_sleep m" "\<forall>m \<in> set ms. fair_sleep m" using Cons.prems(1) by auto
    from fair(1) [unfolded fair_sleep_def, rule_format, of "k\<lparr>k_context := c\<rparr>"] c(1) small
    have k: "wf_context (k_context ?k)" "length (threadMap (k_context ?k)) < 2 ^ 31"
      "set (threadMap c) \<subseteq> set (threadMap (k_context ?k))" "joined (k_context ?k) = joined c"
      "\<not> k_isWorking ?k \<Longrightarrow> threadMap (k_context ?k) = threadMap c"
      by simp_all
    have "cleaner_loop ms ?n ?k = Done () k'" using Cons.prems(2) c(5) by simp
    from Cons.IH [OF fair(2) this k(1,2)] k(5) have
      IH: "threadMap (k_context k') = []" "\<not> k_isWorking k'"
      "joined (k_context k') = joined c @ concat (map ended (tables ms ?n ?k))"
      "\<forall>c \<in> set (tables ms ?n ?k). fst ` set (threadMap c) \<subseteq> set (concat (map ended (tables ms ?n ?k)))"
      "fst ` set (threadMap (k_context ?k)) \<subseteq> set (concat (map ended (tables ms ?n ?k)))"
      unfolding k(4) by metis+
    have t: "tables (m # ms) alive k = k_context k # tables ms ?n ?k"
      using True c(4) by (simp add: tables.simps [of "m # ms"])
    have "fst ` set (threadMap (k_context k)) \<subseteq> set (ended (k_context k)) \<union> fst ` set (threadMap c)"
      unfolding c(2) ended_def by auto
    also have "\<dots> \<subseteq> set (concat (map ended (tables (m # ms) alive k)))"
      using k(3) IH(5) unfolding t by fastforce
    finally have all: "fst ` set (threadMap (k_context k)) \<subseteq> set (concat (map ended (tables (m # ms) alive k)))" .
    moreover have "fst ` set (threadMap c') \<subseteq> set (concat (map ended (tables (m # ms) alive k)))"
      if "c' \<in> set (tables ms ?n ?k)" for c'
      using bspec [OF IH(4) that] unfolding t by auto
    ultimately show ?thesis using IH(1-3) c(3) unfolding t by auto
  next
    case False
    with Cons.prems(2,4,5) show ?thesis
      by (auto simp: cleaner_loop.simps [of "m # ms"] tables.simps [of "m # ms"] alive_zero)
  qed
qed

section \<open>A table to try the properties on\<close>

definition fix_context :: "(int64 \<times> bool) list \<Rightarrow> Context" where
  "fix_context ts = \<lparr>cashContext = \<lparr>requestResponse = Map.empty, attrAlive = True, mutexAlive = True\<rparr>,
     threadMap = map (\<lambda>(i, (tid, w)). (tid, i)) (enumerate 0 ts),
     threads = (\<lambda>a. if a < length ts
       then Some \<lparr>t_tid = fst (ts ! a), t_isWorking = snd (ts ! a), t_socketFD = 4\<rparr> else None),
     nextThread = length ts, joined = [],
     x_os = \<lparr>o_polls = [], o_reads = [], o_writes = [], o_connects = [], o_waits = [], o_wire = [],
       o_dialed = [], o_closed = []\<rparr>\<rparr>"

lemma fix_context_wf: "wf_context (fix_context [])" "wf_context (fix_context [(1, w)])"
  "wf_context (fix_context [(1, w), (2, w')])"
  by (simp_all add: wf_context_def fix_context_def)

section \<open>Properties\<close>

text \<open>
  C30: a round of the cleaner joins exactly the threads that have ended, each once and in the order
  of their identifiers, frees their contexts, keeps all the others, and returns how many those are.
\<close>

theorem join_dead_clients:
  assumes "wf_context c"
  shows "\<exists>c'. joinDeadClients c = Done (of_nat (length (threadMap c'))) c' \<and> wf_context c'
    \<and> threadMap c' = filter (working c) (threadMap c)
    \<and> joined c' = joined c @ map fst (filter (\<lambda>e. \<not> working c e) (threadMap c))
    \<and> (\<forall>e \<in> set (threadMap c). threads c' (snd e) = (if working c e then threads c (snd e) else None))"
proof -
  from joinDeadClients_eq [OF assms] obtain c' where c':
    "joinDeadClients c = Done (of_nat (length (threadMap c'))) c'" "wf_context c'"
    "threadMap c' = filter (working c) (threadMap c)"
    "joined c' = joined c @ map fst (filter (\<lambda>e. \<not> working c e) (threadMap c))"
    "threads c' = (\<lambda>a. if a \<in> snd ` set (filter (\<lambda>e. \<not> working c e) (threadMap c)) then None
        else threads c a)" by blast
  have "snd e \<in> snd ` set (filter (\<lambda>e. \<not> working c e) (threadMap c)) \<longleftrightarrow> \<not> working c e"
    if "e \<in> set (threadMap c)" for e
    using assms that by (auto simp: wf_context_def distinct_map inj_on_def)
  with c' show ?thesis by (intro exI [of _ c']) simp
qed

theorem join_dead_clients_witness:
  "\<exists>c'. joinDeadClients (fix_context [(1, False), (2, True)]) = Done 1 c' \<and> joined c' = [1]
    \<and> threadMap c' = [(2, 1)]"
  using join_dead_clients [OF fix_context_wf(3) [of False True]]
  by (auto simp: working_def fix_context_def isWorking_def)

text \<open>
  C31: the cleaner returns only once every thread has ended and was joined. For any number of
  sleeps in which the other threads leave the table's entries in place and join nobody, and when
  no client is accepted in the sleep in which the cleaner is stopped: if it returns, the table is
  empty, what it has joined is, round after round, the threads whose contexts in that round's table
  said that they had ended and nobody else, and every thread that was in the table of any round is among them.
\<close>

theorem cleaner_joins_everybody:
  assumes "\<forall>m \<in> set sleeps. fair_sleep m" and "startRoutine_cleaner sleeps k = Done () k'"
    and "wf_context (k_context k)" and "length (threadMap (k_context k)) < 2 ^ 31" and "k_isWorking k"
  shows "threadMap (k_context k') = [] \<and> \<not> k_isWorking k'
    \<and> joined (k_context k') = joined (k_context k) @ concat (map ended (tables sleeps 0 k))
    \<and> (\<forall>c \<in> set (tables sleeps 0 k). \<forall>e \<in> set (threadMap c). fst e \<in> set (joined (k_context k')))
    \<and> (\<forall>e \<in> set (threadMap (k_context k)). fst e \<in> set (joined (k_context k')))"
proof -
  from assms(2) have "cleaner_loop sleeps 0 k = Done () k'" by (simp add: startRoutine_cleaner_def)
  note r = cleaner_loop_empty [OF assms(1) this assms(3,4) disjI1 [OF assms(5)]]
  from r have j: "joined (k_context k') = joined (k_context k) @ concat (map ended (tables sleeps 0 k))" by blast
  have "fst e \<in> set (joined (k_context k'))" if "c \<in> set (tables sleeps 0 k) \<or> c = k_context k" "e \<in> set (threadMap c)" for c e
  proof -
    have "fst ` set (threadMap c) \<subseteq> set (concat (map ended (tables sleeps 0 k)))" using r that(1) by blast
    with that(2) show ?thesis unfolding j by auto
  qed
  with r show ?thesis by blast
qed

lemma fair_stop: "fair_sleep stopRoutine"
  by (simp add: fair_sleep_def stopRoutine_def)

text \<open>Accepting a client while the cleaner sleeps is such an action.\<close>

lemma fair_accept:
  "fair_sleep (\<lambda>k. if k_isWorking k \<and> length (threadMap (k_context k)) < 2 ^ 31 - 1
     then k\<lparr>k_context := addClient createCode tid fd (k_context k)\<rparr> else k)"
proof -
  have len: "length (map_insert a v m) \<le> Suc (length m)" for a v and m :: "(int64 \<times> nat) list"
    by (induction m) auto
  have *: "set (threadMap c) \<subseteq> set (threadMap (addClient createCode tid fd c))"
    "joined (addClient createCode tid fd c) = joined c"
    "length (threadMap (addClient createCode tid fd c)) \<le> Suc (length (threadMap c))" if "wf_context c" for c
    using that len map_insert_set [of "threadMap c"]
    by (auto simp: addClient_def Let_def wf_context_def split: prod.splits)
  have "length (threadMap (addClient createCode tid fd c)) < 2 ^ 31"
    if "wf_context c" "length (threadMap c) < 2 ^ 31 - 1" for c
    using *(3) [OF that(1)] that(2) by simp
  with *(1,2) addClient_wf show ?thesis by (auto simp: fair_sleep_def)
qed

lemma stopped_round:
  assumes "wf_context (k_context k)" and "\<forall>e \<in> set (threadMap (k_context k)). \<not> working (k_context k) e"
    and "k_isWorking k \<or> alive \<noteq> 0" and "\<And>c. \<not> k_isWorking (m (k\<lparr>k_context := c\<rparr>))"
  shows "\<exists>c. threadMap c = [] \<and> cleaner_loop (m # ms) alive k = Done () (m (k\<lparr>k_context := c\<rparr>))"
proof -
  from cleaner_round [OF assms(1,3), of m ms] obtain c where
    c: "threadMap c = filter (working (k_context k)) (threadMap (k_context k))"
    "cleaner_loop (m # ms) alive k = cleaner_loop ms (of_nat (length (threadMap c))) (m (k\<lparr>k_context := c\<rparr>))"
    by blast
  from assms(2) c(1) have "threadMap c = []" by (simp add: filter_empty_conv)
  with c(2) assms(4) [of c] show ?thesis by (intro exI [of _ c]) (simp add: cleaner_loop_done)
qed

theorem cleaner_joins_everybody_witness:
  "\<exists>k'. startRoutine_cleaner [stopRoutine] (new_Cleaner 0 (fix_context [(1, False)])) = Done () k'
    \<and> threadMap (k_context k') = [] \<and> 1 \<in> set (joined (k_context k'))"
proof -
  let ?k = "new_Cleaner 0 (fix_context [(1, False)])"
  have wf: "wf_context (k_context ?k)" "k_isWorking ?k" "length (threadMap (k_context ?k)) < 2 ^ 31"
    "\<forall>e \<in> set (threadMap (k_context ?k)). \<not> working (k_context ?k) e" "(1, 0) \<in> set (threadMap (k_context ?k))"
    using fix_context_wf(2) [of False]
    by (simp_all add: new_Cleaner_def CORRECT_CODE_32_def) (simp_all add: fix_context_def working_def isWorking_def)
  obtain c where "cleaner_loop [stopRoutine] 0 ?k = Done () (stopRoutine (?k\<lparr>k_context := c\<rparr>))"
    using stopped_round [OF wf(1,4), of 0 stopRoutine "[]"] wf(2) by (auto simp: stopRoutine_def)
  then have r: "startRoutine_cleaner [stopRoutine] ?k = Done () (stopRoutine (?k\<lparr>k_context := c\<rparr>))"
    by (simp add: startRoutine_cleaner_def)
  have "\<forall>m \<in> set [stopRoutine]. fair_sleep m" by (simp add: fair_stop)
  from cleaner_joins_everybody [OF this r wf(1,3,2)] r wf(5) show ?thesis by fastforce
qed

text \<open>
  A client accepted while the cleaner sleeps before it is stopped is left behind. The count of
  live threads is taken before the sleep and tested after it, so with an empty table the loop ends
  and the new thread stays in the table, neither joined nor freed.
\<close>

theorem late_client_is_left_behind:
  assumes "wf_context c" and "\<forall>e \<in> set (threadMap c). \<not> working c e"
  shows "\<exists>k'. startRoutine_cleaner
      [\<lambda>k. stopRoutine (k\<lparr>k_context := addClient CORRECT_CODE_32 tid fd (k_context k)\<rparr>)]
      (new_Cleaner CORRECT_CODE_32 c) = Done () k'
    \<and> (\<exists>a t. (tid, a) \<in> set (threadMap (k_context k')) \<and> threads (k_context k') a = Some t \<and> isWorking t)"
proof -
  let ?k = "new_Cleaner CORRECT_CODE_32 c"
  let ?m = "\<lambda>k. stopRoutine (k\<lparr>k_context := addClient CORRECT_CODE_32 tid fd (k_context k)\<rparr>)"
  have k: "wf_context (k_context ?k)" "\<forall>e \<in> set (threadMap (k_context ?k)). \<not> working (k_context ?k) e"
    "k_isWorking ?k \<or> (0 :: int32) \<noteq> 0"
    using assms by (simp_all add: new_Cleaner_def)
  have off: "\<not> k_isWorking (?m (?k\<lparr>k_context := d\<rparr>))" for d by (simp add: stopRoutine_def)
  from stopped_round [of ?k 0 ?m "[]", OF k off] obtain d where d: "threadMap d = []"
    "cleaner_loop [?m] 0 ?k = Done () (?m (?k\<lparr>k_context := d\<rparr>))" by blast
  then show ?thesis
    by (simp add: startRoutine_cleaner_def stopRoutine_def addClient_def new_ThreadContext_def getTid_def isWorking_def Let_def)
qed

theorem late_client_is_left_behind_witness:
  "\<exists>k'. startRoutine_cleaner
      [\<lambda>k. stopRoutine (k\<lparr>k_context := addClient CORRECT_CODE_32 9 5 (k_context k)\<rparr>)]
      (new_Cleaner CORRECT_CODE_32 (fix_context [])) = Done () k'
    \<and> (\<exists>a t. (9, a) \<in> set (threadMap (k_context k')) \<and> threads (k_context k') a = Some t \<and> isWorking t)"
  by (rule late_client_is_left_behind [OF fix_context_wf(1)]) (simp add: fix_context_def)

text \<open>
  A thread that could not be created is joined all the same. The context whose
  \<open>pthread_create\<close> failed enters the table as a dead one, and the next round calls
  \<open>pthread_join\<close> on the identifier left in it, which names no thread.
\<close>

theorem failed_create_is_joined:
  assumes "wf_context c" and "createCode \<noteq> CORRECT_CODE_32" and "tid \<notin> fst ` set (threadMap c)"
  shows "\<exists>n c'. joinDeadClients (addClient createCode tid fd c) = Done n c' \<and> tid \<in> set (joined c')
    \<and> tid \<notin> fst ` set (threadMap c')"
proof -
  let ?c = "addClient createCode tid fd c"
  from assms(1) have s: "sorted_wrt (<) (map fst (threadMap c))" by (simp add: wf_context_def)
  have t: "threads ?c (nextThread c) = Some \<lparr>t_tid = tid, t_isWorking = False, t_socketFD = fd\<rparr>"
    "threadMap ?c = map_insert tid (nextThread c) (threadMap c)"
    using assms(2) by (simp_all add: addClient_def new_ThreadContext_def getTid_def Let_def)
  have e: "(tid, nextThread c) \<in> set (threadMap ?c)" "\<not> working ?c (tid, nextThread c)"
    using map_insert_set [OF s, of tid "nextThread c"] assms(3) t by (auto simp: working_def isWorking_def)
  have only: "x = (tid, nextThread c)" if "x \<in> set (threadMap ?c)" "fst x = tid" for x
    using map_insert_set [OF s, of tid "nextThread c"] assms(3) t(2) that by (auto simp: image_iff)
  from joinDeadClients_eq [OF addClient_wf [OF assms(1)], of createCode tid fd] obtain c' where
    c': "joinDeadClients ?c = Done (of_nat (length (threadMap c'))) c'"
    "threadMap c' = filter (working ?c) (threadMap ?c)"
    "joined c' = joined ?c @ map fst (filter (\<lambda>e. \<not> working ?c e) (threadMap ?c))" by blast
  have "tid \<in> set (joined c')" using c'(3) e by force
  moreover have "tid \<notin> fst ` set (threadMap c')" using c'(2) e(2) only by auto
  ultimately show ?thesis using c'(1) by blast
qed

theorem failed_create_is_joined_witness:
  "\<exists>n c'. joinDeadClients (addClient 11 0 5 (fix_context [])) = Done n c' \<and> 0 \<in> set (joined c')
    \<and> 0 \<notin> fst ` set (threadMap c')"
  by (rule failed_create_is_joined [OF fix_context_wf(1)]) (simp_all add: CORRECT_CODE_32_def fix_context_def)

text \<open>
  A failing \<open>accept\<close> ends the accept loop past the \<open>catch\<close> that names a pointer: \<open>main\<close>
  returns normally while the cleaner was never stopped, so its thread goes on with the \<open>Cleaner\<close>
  object that the unwinding destroyed. Quitting by \<open>q\<close>, in contrast, stops the cleaner.
\<close>

theorem accept_failure_leaves_cleaner_running:
  assumes "w_isWorking w" and "rd_code r \<noteq> -1" and "rd_code r \<noteq> 0" and "and (rd_revents r) POLLIN \<noteq> 0"
  shows "if sint (ac_sock (rd_accept r)) < 0
    then \<exists>w'. server_loop (r # rs) w = Throws (ConnectException ''accept new client'') w'
      \<and> w_cleaner w' = w_cleaner w
    else rd_stdinCode r = 1 \<and> and (rd_stdinRevents r) POLLIN \<noteq> 0 \<and> rd_word r = ''q'' \<longrightarrow>
      (\<exists>w'. server_loop (r # rs) w = Done True w' \<and> \<not> k_isWorking (w_cleaner w'))"
proof -
  have 1: "\<exists>w'. server_loop (r # rs) w = Throws (ConnectException ''accept new client'') w'
        \<and> w_cleaner w' = w_cleaner w" if "sint (ac_sock (rd_accept r)) < 0"
    using assms that
    by (simp add: server_loop.simps [of "r # rs"] pollSocket_def Let_def acceptNewClient_32_def)
  have 2: "\<exists>w'. server_loop (r # rs) w = Done True w' \<and> \<not> k_isWorking (w_cleaner w')"
    if ok: "\<not> sint (ac_sock (rd_accept r)) < 0" and q: "rd_stdinCode r = 1"
    "and (rd_stdinRevents r) POLLIN \<noteq> 0" "rd_word r = ''q''"
  proof -
  obtain w1 where w1: "pollSocket r w = Done False w1"
    using assms ok by (simp add: pollSocket_def Let_def acceptNewClient_32_def)
  obtain w2 where w2: "pollStdin r w1 = Done False w2" "\<not> w_isWorking w2"
    using q by (simp add: pollStdin_def Let_def)
  have "server_loop rs w2 = Done True (w2\<lparr>w_cleaner := stopRoutine (w_cleaner w2)\<rparr>)"
    using w2(2) by (simp add: server_loop.simps)
  with assms(1) w1 w2(1) show "\<exists>w'. server_loop (r # rs) w = Done True w' \<and> \<not> k_isWorking (w_cleaner w')"
    by (simp add: server_loop.simps [of "r # rs"] stopRoutine_def)
  qed
  from 1 2 show ?thesis by auto
qed

theorem accept_failure_leaves_cleaner_running_witness:
  "\<exists>w'. server_loop [\<lparr>rd_code = 1, rd_revents = POLLIN, rd_accept = \<lparr>ac_sock = -1, ac_create = 0, ac_tid = 0\<rparr>,
        rd_stdinCode = 0, rd_stdinRevents = 0, rd_word = []\<rparr>]
      \<lparr>w_isWorking = True, w_serverSocket = \<lparr>serverSocketFD = 3, listenPort_32 = Some 8099, socketClosed_32 = False\<rparr>,
       w_socketPoll = zero_pollfd_32, w_stdinPoll = zero_pollfd_32,
       w_cleaner = new_Cleaner 0 (fix_context [])\<rparr>
      = Throws (ConnectException ''accept new client'') w' \<and> k_isWorking (w_cleaner w')"
  using accept_failure_leaves_cleaner_running [where rs = "[]" and
      r = "\<lparr>rd_code = 1, rd_revents = POLLIN, rd_accept = \<lparr>ac_sock = -1, ac_create = 0, ac_tid = 0\<rparr>,
        rd_stdinCode = 0, rd_stdinRevents = 0, rd_word = []\<rparr>" and
      w = "\<lparr>w_isWorking = True,
        w_serverSocket = \<lparr>serverSocketFD = 3, listenPort_32 = Some 8099, socketClosed_32 = False\<rparr>,
        w_socketPoll = zero_pollfd_32, w_stdinPoll = zero_pollfd_32,
        w_cleaner = new_Cleaner 0 (fix_context [])\<rparr>"]
  by (auto simp: POLLIN_def new_Cleaner_def CORRECT_CODE_32_def)

end
