(* ===== verification/Lab31_V1.thy ===== *)
theory Lab31_V1
  imports Parser Client
begin

text \<open>
  \<open>lab31/v1/proxy.c\<close>: the first proxy, in C: one thread, arrays of ten clients and ten cached pages,
  and requests that are a bare URL. Strings are the bytes before the terminating zero; a page is the
  block allocated for it, in which bytes never written are \<open>None\<close>. Indices outside an array, pointers in front of one and
  null pointers handed to the library are faults, with one exception: the title of a page is
  allocated one byte short, always, and \<open>v_overruns\<close> counts these overruns while the program goes on. The answers of the
  system are inputs; allocation does not fail. Output to the console is left out.
\<close>

section \<open>State\<close>

definition MAX_CLIENTS_AMOUNT :: nat where
  "MAX_CLIENTS_AMOUNT = 10"

definition ADDRESS_BUF_SIZE :: nat where
  "ADDRESS_BUF_SIZE = 512"

definition CACHE_SIZE :: nat where
  "CACHE_SIZE = 10"

definition BUFFER_SIZE :: nat where
  "BUFFER_SIZE = 1024"

definition PORT_LEN :: nat where
  "PORT_LEN = 5"

definition EMPTY :: int32 where
  "EMPTY = -1"

record cache_t =
  p_title :: string
  p_page_size :: int
  p_page :: "char option list"

record url_t =
  u_host :: "string option"
  u_path :: "string option"
  u_port :: int32

record ConnectAnswer_v1 = ConnectAnswer +
  a_setsockopt :: int32

record Os_v1 =
  v_selects :: "int32 list"
  v_accepts :: "int32 list"
  v_reads :: "ReadAnswer list"
  v_writes :: "int32 list"
  v_connects :: "ConnectAnswer_v1 list"
  v_wire :: "(int32 \<times> char option list) list"
  v_dialed :: "(string \<times> 16 word) list"
  v_closed :: "int32 list"

record Proxy_v1 =
  v_clients :: "int32 list"
  v_http_sockets :: "int32 list"
  v_cache_to_client :: "int32 list"
  v_sent_bytes :: "int list"
  v_cache :: "cache_t list"
  v_connected :: int
  v_overruns :: nat
  v_os :: Os_v1

definition new_Proxy_v1 :: "Os_v1 \<Rightarrow> Proxy_v1" where
  "new_Proxy_v1 os = \<lparr>v_clients = replicate MAX_CLIENTS_AMOUNT EMPTY,
     v_http_sockets = replicate MAX_CLIENTS_AMOUNT EMPTY, v_cache_to_client = replicate MAX_CLIENTS_AMOUNT EMPTY,
     v_sent_bytes = replicate MAX_CLIENTS_AMOUNT (-1), v_cache = [], v_connected = 0, v_overruns = 0, v_os = os\<rparr>"

section \<open>The system\<close>

definition select_v1 :: "Proxy_v1 \<Rightarrow> (int32, Proxy_v1) outcome" where
  "select_v1 s = (case v_selects (v_os s) of
     [] \<Rightarrow> Fault OutOfFuel
   | r # rs \<Rightarrow> Done r (s\<lparr>v_os := (v_os s)\<lparr>v_selects := rs\<rparr>\<rparr>))"

definition read_v1 :: "nat \<Rightarrow> Proxy_v1 \<Rightarrow> (string option, Proxy_v1) outcome" where
  "read_v1 n s = (case v_reads (v_os s) of
     [] \<Rightarrow> Fault OutOfFuel
   | r # rs \<Rightarrow> Done (case r of ReadFails \<Rightarrow> None | Bytes bs \<Rightarrow> Some (take n bs))
       (s\<lparr>v_os := (v_os s)\<lparr>v_reads := rs\<rparr>\<rparr>))"

definition write_v1 :: "int32 \<Rightarrow> char option list \<Rightarrow> Proxy_v1 \<Rightarrow> (int32, Proxy_v1) outcome" where
  "write_v1 fd bs s = (case v_writes (v_os s) of
     [] \<Rightarrow> Fault OutOfFuel
   | n # ns \<Rightarrow> Done n (s\<lparr>v_os := (v_os s)\<lparr>v_writes := ns,
       v_wire := (if sint n < 0 then v_wire (v_os s) else v_wire (v_os s) @ [(fd, take (unat n) bs)])\<rparr>\<rparr>))"

definition close_v1 :: "int32 \<Rightarrow> Proxy_v1 \<Rightarrow> Proxy_v1" where
  "close_v1 fd s = s\<lparr>v_os := (v_os s)\<lparr>v_closed := v_closed (v_os s) @ [fd]\<rparr>\<rparr>"

definition socket_connect :: "string option \<Rightarrow> 16 word \<Rightarrow> Proxy_v1 \<Rightarrow> (int32, Proxy_v1) outcome" where
  "socket_connect host portNr s = (case host of
     None \<Rightarrow> Fault NullDereference
   | Some h \<Rightarrow> (case v_connects (v_os s) of
         [] \<Rightarrow> Fault OutOfFuel
       | a # as \<Rightarrow>
           let s = s\<lparr>v_os := (v_os s)\<lparr>v_connects := as\<rparr>\<rparr>
           in if \<not> a_resolved a then Done (-1) s
              else if a_sock a = -1 then Done (-1) s
              else if a_setsockopt a = -1 then Done (-1) s
              else let s = s\<lparr>v_os := (v_os s)\<lparr>v_dialed := v_dialed (v_os s) @ [(h, portNr)]\<rparr>\<rparr>
                   in if a_connect a = -1 then Done (-1) s else Done (a_sock a) s))"

section \<open>Clients\<close>

fun find_free_from :: "int32 list \<Rightarrow> nat" where
  "find_free_from [] = 0"
| "find_free_from (c # cs) = (if sint c \<ge> 0 then Suc (find_free_from cs) else 0)"

definition find_free_client_index :: "int32 list \<Rightarrow> nat" where
  "find_free_client_index clients = find_free_from (take MAX_CLIENTS_AMOUNT clients)"

text \<open>\<open>ticks\<close> is the text of \<open>ctime\<close>.\<close>

definition accept_new_client :: "string \<Rightarrow> Proxy_v1 \<Rightarrow> (unit, Proxy_v1) outcome" where
  "accept_new_client ticks s =
     (let free_client_i = find_free_client_index (v_clients s)
      in case v_accepts (v_os s) of
           [] \<Rightarrow> Fault OutOfFuel
         | fd # fds \<Rightarrow>
             if free_client_i < MAX_CLIENTS_AMOUNT then
               let s = s\<lparr>v_os := (v_os s)\<lparr>v_accepts := fds\<rparr>, v_clients := (v_clients s)[free_client_i := fd]\<rparr>
               in bind (write_v1 fd (map Some (take 24 ticks @ [CHR 0x0D, CHR 0x0A])) s) (\<lambda>_ s. Done () s)
             else Fault OutOfBounds)"

definition try_accept_new_client :: "string \<Rightarrow> Proxy_v1 \<Rightarrow> (unit, Proxy_v1) outcome" where
  "try_accept_new_client ticks s =
     (if v_connected s < int MAX_CLIENTS_AMOUNT then
        bind (select_v1 s) (\<lambda>r s.
        if r \<noteq> 0 then
          bind (accept_new_client ticks s) (\<lambda>_ s. Done () (s\<lparr>v_connected := v_connected s + 1\<rparr>))
        else Done () s)
      else Done () s)"

definition handle_client_disconnecting :: "nat \<Rightarrow> Proxy_v1 \<Rightarrow> Proxy_v1" where
  "handle_client_disconnecting client_i s =
     (let s = close_v1 (v_http_sockets s ! client_i) (close_v1 (v_clients s ! client_i) s)
      in s\<lparr>v_clients := (v_clients s)[client_i := EMPTY], v_http_sockets := (v_http_sockets s)[client_i := EMPTY],
           v_cache_to_client := (v_cache_to_client s)[client_i := EMPTY],
           v_sent_bytes := (v_sent_bytes s)[client_i := 0]\<rparr>)"

section \<open>URLs\<close>

text \<open>\<open>strncpy\<close> of \<open>n\<close> bytes: the string, cut or filled up with zeros.\<close>

definition strncpy :: "nat \<Rightarrow> string \<Rightarrow> string" where
  "strncpy n s = take n (c_string s @ replicate n CHR 0x00)"

text \<open>
  The host and the path at a slash: blocks of the sizes allocated, ended by a zero in the places the
  code puts it. The second result is the caller's buffer, which loses a slash at its end.
\<close>

definition split_at_slash :: "string \<Rightarrow> nat \<Rightarrow> nat \<Rightarrow> int32 \<Rightarrow> url_t \<times> string" where
  "split_at_slash url_buffer str_i start_port_i portNr =
     (let size = length url_buffer;
          buffer = (if str_i + 1 = size then url_buffer[str_i := CHR 0x00] else url_buffer);
          n = (if start_port_i = 0 then str_i + 1 else start_port_i);
          host = (strncpy n buffer)[(if start_port_i = 0 then str_i else start_port_i - 1) := CHR 0x00];
          m = size - str_i;
          path = (strncpy m (drop (str_i + 1) buffer))[m - 1 := CHR 0x00]
      in (\<lparr>u_host = Some (c_string host), u_path = Some (c_string path), u_port = portNr\<rparr>, c_string buffer))"

function parse_from :: "string \<Rightarrow> nat \<Rightarrow> nat \<Rightarrow> int32 \<Rightarrow> url_t option \<times> string" where
  "parse_from url_buffer str_i start_port_i portNr =
     (if length url_buffer \<le> str_i
      then (Some \<lparr>u_host = None, u_path = None, u_port = portNr\<rparr>, url_buffer)
      else if url_buffer ! str_i = CHR '':'' then
        if start_port_i \<noteq> 0 then (None, url_buffer)
        else
          let digits = takeWhile is_digit (take PORT_LEN (drop (str_i + 1) url_buffer));
              start = str_i; str_i = str_i + length digits; portNr = atoi digits
          in if url_buffer ! str_i = CHR ''/''
             then (let (url, buffer) = split_at_slash url_buffer str_i start portNr in (Some url, buffer))
             else parse_from url_buffer (str_i + 1) start portNr
      else if url_buffer ! str_i = CHR ''/''
      then (let (url, buffer) = split_at_slash url_buffer str_i start_port_i portNr in (Some url, buffer))
      else parse_from url_buffer (str_i + 1) start_port_i portNr)"
  by pat_completeness auto
termination
  by (relation "measure (\<lambda>(url, i, start, portNr). length url - i)") auto

definition parse_URL :: "string \<Rightarrow> url_t option \<times> string" where
  "parse_URL url_buffer = parse_from url_buffer 0 0 80"

section \<open>Pages\<close>

text \<open>\<open>realloc\<close>; the result of the loop is the page size and the block.\<close>

definition resized :: "nat \<Rightarrow> char option list \<Rightarrow> char option list" where
  "resized n page = take n page @ replicate (n - length page) None"

fun read_loop :: "ReadAnswer list \<Rightarrow> int \<Rightarrow> int \<Rightarrow> char option list
    \<Rightarrow> (int \<times> char option list, ReadAnswer list) outcome" where
  "read_loop [] offset page_size page = Fault OutOfFuel"
| "read_loop (r # rs) offset page_size page =
     (if offset < 0 then Fault OutOfBounds
      else case r of
        ReadFails \<Rightarrow> read_loop rs (offset - 1) (offset - 1) (resized (nat (offset + int BUFFER_SIZE)) page)
      | Bytes bs \<Rightarrow>
          let chunk = take BUFFER_SIZE bs; i = nat offset; offset = offset + int (length chunk)
          in if chunk = [] then Done (page_size, page) rs
             else if i + length chunk > length page then Fault OutOfBounds
             else read_loop rs offset offset
                    (resized (nat offset + BUFFER_SIZE + 1)
                      (take i page @ map Some chunk @ drop (i + length chunk) page)))"

definition read_to_cache :: "Proxy_v1 \<Rightarrow> (int \<times> char option list, Proxy_v1) outcome" where
  "read_to_cache s =
     (case read_loop (v_reads (v_os s)) 0 (int BUFFER_SIZE) (replicate (BUFFER_SIZE + 1) None) of
        Fault x \<Rightarrow> Fault x
      | Throws e rs \<Rightarrow> Throws e s
      | Done r rs \<Rightarrow> Done r (s\<lparr>v_os := (v_os s)\<lparr>v_reads := rs\<rparr>\<rparr>))"

fun find_title :: "string \<Rightarrow> cache_t list \<Rightarrow> nat \<Rightarrow> nat option" where
  "find_title url_buffer [] i = None"
| "find_title url_buffer (c # cs) i = (if p_title c = url_buffer then Some i else find_title url_buffer cs (Suc i))"

definition try_find_at_cache :: "nat \<Rightarrow> string \<Rightarrow> Proxy_v1 \<Rightarrow> bool \<times> Proxy_v1" where
  "try_find_at_cache client_i url_buffer s = (case find_title url_buffer (v_cache s) 0 of
     Some i \<Rightarrow> (True, s\<lparr>v_cache_to_client := (v_cache_to_client s)[client_i := of_nat i],
                       v_sent_bytes := (v_sent_bytes s)[client_i := 0]\<rparr>)
   | None \<Rightarrow> (False, s))"

text \<open>The block has \<open>ADDRESS_BUF_SIZE + 16\<close> bytes; a longer text would be written past its end.\<close>

definition create_request :: "string \<Rightarrow> string option" where
  "create_request path =
     (let request = ''GET /'' @ path @ [CHR 0x0D, CHR 0x0A]
      in if length request + 1 \<le> ADDRESS_BUF_SIZE + 16 then Some request else None)"

definition send_request :: "nat \<Rightarrow> url_t \<Rightarrow> Proxy_v1 \<Rightarrow> (unit, Proxy_v1) outcome" where
  "send_request client_i url s =
     (let fd = v_http_sockets s ! client_i
      in case u_path url of
           None \<Rightarrow> bind (write_v1 fd (map Some (''GET /'' @ [CHR 0x0D, CHR 0x0A])) s) (\<lambda>_ s. Done () s)
         | Some path \<Rightarrow> (case create_request path of
               None \<Rightarrow> Fault OutOfBounds
             | Some request \<Rightarrow> bind (write_v1 fd (map Some request) s) (\<lambda>_ s. Done () s)))"

text \<open>The branch for a failed \<open>write\<close> is that of a result of zero, so it is never taken.\<close>

definition resend_from_cache :: "nat \<Rightarrow> Proxy_v1 \<Rightarrow> (unit, Proxy_v1) outcome" where
  "resend_from_cache client_i s =
     (let c = v_cache_to_client s ! client_i; sent = v_sent_bytes s ! client_i
      in if c = EMPTY then Done () s
         else
           let entry = v_cache s ! unat c
           in if sent < p_page_size entry then
                let bytes_left = p_page_size entry - sent;
                    n = (if int BUFFER_SIZE < bytes_left then int BUFFER_SIZE else bytes_left)
                in if sent < 0 then Fault OutOfBounds
                   else bind (write_v1 (v_clients s ! client_i) (take (nat n) (drop (nat sent) (p_page entry))) s) (\<lambda>written s.
                     if written \<noteq> 0
                     then Done () (s\<lparr>v_sent_bytes := (v_sent_bytes s)[client_i := sent + sint written]\<rparr>)
                     else if written = EMPTY
                     then Done () (s\<lparr>v_cache_to_client := (v_cache_to_client s)[client_i := EMPTY],
                            v_clients := (v_clients s)[client_i := EMPTY], v_connected := v_connected s - 1\<rparr>)
                     else Done () s)
              else Done () s)"

section \<open>The main loop\<close>

text \<open>
  A page that is not in the cache: connect, ask for it and read it. The result says whether the
  round goes on to \<open>resend_from_cache\<close>; \<open>continue\<close> skips that.
\<close>

definition fetch_page :: "nat \<Rightarrow> url_t \<Rightarrow> string \<Rightarrow> Proxy_v1 \<Rightarrow> (bool, Proxy_v1) outcome" where
  "fetch_page client_i url url_buffer s =
     bind (socket_connect (u_host url) (ucast (u_port url)) s) (\<lambda>fd s.
     let s = s\<lparr>v_http_sockets := (v_http_sockets s)[client_i := fd]\<rparr>
     in if fd = EMPTY then
          bind (write_v1 (v_clients s ! client_i) (map Some (''Failed connect!'' @ [CHR 0x0A])) s) (\<lambda>_ s. Done False s)
        else
          bind (send_request client_i url s) (\<lambda>_ s.
          if length (v_cache s) \<ge> CACHE_SIZE then Fault OutOfBounds
          else
            let s = s\<lparr>v_overruns := Suc (v_overruns s),
                  v_cache_to_client := (v_cache_to_client s)[client_i := of_nat (length (v_cache s))],
                  v_sent_bytes := (v_sent_bytes s)[client_i := 0]\<rparr>
            in bind (read_to_cache s) (\<lambda>(page_size, page) s.
               let s = close_v1 (v_http_sockets s ! client_i) s
               in if page_size + 1 < 0 \<or> length page \<le> nat (page_size + 1) then Fault OutOfBounds
                  else Done True (s\<lparr>v_cache := v_cache s @ [\<lparr>p_title = url_buffer, p_page_size = page_size,
                         p_page = page[nat (page_size + 1) := Some CHR 0x00]\<rparr>]\<rparr>))))"

text \<open>Bytes from a client: \<open>read\<close> of 512 bytes, or a failing one, put the zero outside the buffer.\<close>

definition read_url :: "nat \<Rightarrow> Proxy_v1 \<Rightarrow> (bool, Proxy_v1) outcome" where
  "read_url client_i s =
     bind (read_v1 ADDRESS_BUF_SIZE s) (\<lambda>r s. case r of
       None \<Rightarrow> Fault OutOfBounds
     | Some bs \<Rightarrow>
         if bs = [] then Done True s
         else if length bs \<ge> ADDRESS_BUF_SIZE then Fault OutOfBounds
         else
           let url_buffer = c_string bs
           in if url_buffer = ''/exit''
              then Done False (handle_client_disconnecting client_i (s\<lparr>v_connected := v_connected s - 1\<rparr>))
              else case parse_URL url_buffer of
                (None, _) \<Rightarrow> Done False s
              | (Some url, url_buffer) \<Rightarrow>
                  let (found, s) = try_find_at_cache client_i url_buffer s
                  in if found then Done True s else fetch_page client_i url url_buffer s)"

definition serve_client :: "nat \<Rightarrow> Proxy_v1 \<Rightarrow> (unit, Proxy_v1) outcome" where
  "serve_client client_i s =
     (if sint (v_clients s ! client_i) < 2 then Done () s
      else
        bind (select_v1 s) (\<lambda>r s.
        bind (if r \<noteq> 0 then read_url client_i s else Done True s) (\<lambda>resend s.
        if resend then resend_from_cache client_i s else Done () s)))"

definition serve_clients :: "Proxy_v1 \<Rightarrow> (unit, Proxy_v1) outcome" where
  "serve_clients s =
     foldl (\<lambda>m client_i. bind m (\<lambda>_ s. serve_client client_i s)) (Done () s) [0..<MAX_CLIENTS_AMOUNT]"

fun main_loop_v1 :: "nat \<Rightarrow> string \<Rightarrow> Proxy_v1 \<Rightarrow> (unit, Proxy_v1) outcome" where
  "main_loop_v1 0 ticks s = Fault OutOfFuel"
| "main_loop_v1 (Suc k) ticks s =
     bind (select_v1 s) (\<lambda>r s.
     if r \<noteq> 0 then Done () s
     else
       bind (try_accept_new_client ticks s) (\<lambda>_ s.
       bind (serve_clients s) (\<lambda>_ s. main_loop_v1 k ticks s)))"

end
