(* ===== verification/Lab31_V1_Correct.thy ===== *)
theory Lab31_V1_Correct
  imports Lab31_V1 Parser_Correct
begin

text \<open>
  The first proxy: which host, path and port a URL is parsed to, that a page is stored and sent as
  it came, that the arrays of clients stay in bounds, and the inputs that break the program.
\<close>

section \<open>URLs\<close>

definition plain :: "string \<Rightarrow> bool" where
  "plain s \<longleftrightarrow> list_all (\<lambda>c. c \<noteq> CHR '':'' \<and> c \<noteq> CHR ''/'' \<and> c \<noteq> CHR 0x00) s"

definition no_zero :: "string \<Rightarrow> bool" where
  "no_zero s \<longleftrightarrow> list_all (\<lambda>c. c \<noteq> CHR 0x00) s"

declare parse_from.simps [simp del]

lemma c_string_no_zero: "no_zero s \<Longrightarrow> c_string s = s"
  by (simp add: c_string_def no_zero_def list_all_iff)

lemma c_string_stop: "no_zero s \<Longrightarrow> c_string (s @ CHR 0x00 # t) = s"
  by (induction s) (auto simp: c_string_def no_zero_def)

lemma no_zero_Nil [simp]: "no_zero []"
  by (simp add: no_zero_def)

lemma no_zero_append [simp]: "no_zero (s @ t) \<longleftrightarrow> no_zero s \<and> no_zero t"
  by (simp add: no_zero_def)

lemma no_zero_Cons [simp]: "no_zero (c # t) \<longleftrightarrow> c \<noteq> CHR 0x00 \<and> no_zero t"
  by (simp add: no_zero_def)

lemma plain_no_zero: "plain s \<Longrightarrow> no_zero s"
  by (simp add: plain_def no_zero_def list_all_iff)

lemma scan_plain:
  "i + n \<le> length u \<Longrightarrow> (\<And>k. i \<le> k \<Longrightarrow> k < i + n \<Longrightarrow> u ! k \<noteq> CHR '':'' \<and> u ! k \<noteq> CHR ''/'')
   \<Longrightarrow> parse_from u i sp p = parse_from u (i + n) sp p"
proof (induction n arbitrary: i)
  case (Suc n)
  have "parse_from u i sp p = parse_from u (Suc i) sp p"
    using Suc.prems(1) Suc.prems(2) [of i] by (subst parse_from.simps) simp
  also have "\<dots> = parse_from u (Suc i + n) sp p"
    by (rule Suc.IH) (use Suc.prems in auto)
  finally show ?case by simp
qed simp

lemma scan_head:
  assumes "plain h"
  shows "parse_from (h @ t) 0 sp p = parse_from (h @ t) (length h) sp p"
  using scan_plain [of 0 "length h" "h @ t" sp p] assms by (auto simp: plain_def list_all_iff nth_append)

lemma strncpy_no_zero: "no_zero s \<Longrightarrow> length s \<le> n \<Longrightarrow> strncpy n s = s @ replicate (n - length s) CHR 0x00"
  by (simp add: strncpy_def c_string_no_zero)

lemma strncpy_cut: "no_zero s \<Longrightarrow> n \<le> length s \<Longrightarrow> strncpy n s = take n s"
  by (simp add: strncpy_def c_string_no_zero)

text \<open>A path of \<open>m - 1\<close> bytes, behind which \<open>strncpy\<close> puts a zero.\<close>

lemma path_copied:
  assumes "no_zero path"
  shows "c_string ((strncpy (Suc (length path)) path)[length path := CHR 0x00]) = path"
proof -
  have "(strncpy (Suc (length path)) path)[length path := CHR 0x00] = path @ [CHR 0x00]"
    using assms by (simp add: strncpy_no_zero)
  then show ?thesis using c_string_stop [OF assms, of "[]"] by simp
qed

lemma at_slash_plain:
  assumes "no_zero h" "no_zero path"
  shows "split_at_slash (h @ ''/'' @ path) (length h) 0 p
    = (\<lparr>u_host = Some h, u_path = Some path, u_port = p\<rparr>, if path = [] then h else h @ ''/'' @ path)"
proof (cases "path = []")
  case True
  have "strncpy (Suc (length h)) (h @ [CHR 0x00]) = h @ [CHR 0x00]"
    using c_string_stop [OF assms(1), of "[]"] by (simp add: strncpy_def)
  then show ?thesis
    using True c_string_stop [OF assms(1), of "[]"] path_copied [of "[]"]
    by (simp add: split_at_slash_def Let_def)
next
  case False
  have "strncpy (Suc (length h)) (h @ CHR ''/'' # path) = h @ [CHR ''/'']"
    using assms by (subst strncpy_cut) simp_all
  then show ?thesis
    using False assms c_string_stop [OF assms(1), of "[]"] path_copied [OF assms(2)] c_string_no_zero [of "h @ ''/'' @ path"]
    by (simp add: split_at_slash_def Let_def)
qed

lemma at_slash_port:
  assumes "no_zero h" "no_zero mid" "no_zero path" "h \<noteq> []"
  shows "split_at_slash (h @ mid @ ''/'' @ path) (length (h @ mid)) (length h) p
    = (\<lparr>u_host = Some (butlast h), u_path = Some path, u_port = p\<rparr>,
       if path = [] then h @ mid else h @ mid @ ''/'' @ path)"
proof -
  have nb: "no_zero (butlast h)"
    using assms(1) by (auto simp: no_zero_def list_all_iff dest: in_set_butlastD)
  have cut: "c_string (h[length h - 1 := CHR 0x00]) = butlast h"
  proof -
    have "h[length h - 1 := CHR 0x00] = butlast h @ [CHR 0x00]"
      using assms(4) by (metis append_butlast_last_id length_butlast list_update_length)
    then show ?thesis using c_string_stop [OF nb, of "[]"] by simp
  qed
  show ?thesis
  proof (cases "path = []")
    case True
    have "strncpy (length h) (h @ mid @ [CHR 0x00]) = h"
      using c_string_stop [of "h @ mid" "[]"] assms(1,2) by (simp add: strncpy_def)
    moreover have "c_string (h @ mid @ [CHR 0x00]) = h @ mid" using c_string_stop [of "h @ mid" "[]"] assms(1,2) by simp
    moreover have "(h @ mid @ ''/'')[length h + length mid := CHR 0x00] = h @ mid @ [CHR 0x00]"
      by (metis append_assoc length_append list_update_length)
    ultimately show ?thesis
      using True cut assms(4) path_copied [of "[]"] by (simp add: split_at_slash_def Let_def)
  next
    case False
    have "strncpy (length h) (h @ mid @ CHR ''/'' # path) = h"
      using assms by (subst strncpy_cut) simp_all
    then show ?thesis
      using False assms cut path_copied [OF assms(3)] c_string_no_zero [of "h @ mid @ ''/'' @ path"]
      by (simp add: split_at_slash_def Let_def)
  qed
qed

lemma length_dec: "0 < k \<Longrightarrow> n < 10 ^ k \<Longrightarrow> length (dec n) \<le> k"
proof (induction k arbitrary: n)
  case (Suc k)
  show ?case
  proof (cases "n < 10")
    case True
    then show ?thesis by (subst dec.simps) simp
  next
    case False
    with Suc.prems have "0 < k" by (cases k) auto
    moreover have "n div 10 < 10 ^ k" using Suc.prems(2) by (simp add: less_mult_imp_div_less)
    ultimately have "length (dec (n div 10)) \<le> k" by (rule Suc.IH)
    with False show ?thesis by (subst dec.simps) simp
  qed
qed simp

lemma no_zero_dec: "no_zero (dec n)"
  using dec_digits [of n] by (auto simp: no_zero_def list_all_iff is_digit_def Let_def)

lemma parse_plain:
  assumes "plain host" "no_zero path"
  shows "parse_URL (host @ ''/'' @ path)
      = (Some \<lparr>u_host = Some host, u_path = Some path, u_port = 80\<rparr>, if path = [] then host else host @ ''/'' @ path)"
proof -
  note h = plain_no_zero [OF assms(1)]
  let ?u = "host @ ''/'' @ path"
  have "parse_URL ?u = parse_from ?u (length host) 0 80"
    unfolding parse_URL_def by (rule scan_head [OF assms(1)])
  also have "\<dots> = (let (url, buffer) = split_at_slash ?u (length host) 0 80 in (Some url, buffer))"
    by (subst parse_from.simps) (simp add: nth_append)
  finally show ?thesis unfolding at_slash_plain [OF h assms(2)] by simp
qed

lemma digits_read:
  assumes "length (dec n) \<le> 5"
  shows "takeWhile is_digit (take PORT_LEN (drop (length host + 1) (host @ CHR '':'' # dec n @ CHR ''/'' # path))) = dec n"
proof -
  have "take 5 (dec n @ CHR ''/'' # path) = dec n @ take (5 - length (dec n)) (CHR ''/'' # path)" using assms by simp
  moreover have "takeWhile is_digit (take k (CHR ''/'' # path)) = []" for k
    by (cases k) (auto simp: is_digit_def Let_def)
  ultimately show ?thesis
    using dec_digits [of n] by (simp add: PORT_LEN_def takeWhile_append2 list_all_iff)
qed

lemma before_slash: "(host @ CHR '':'' # dec n @ CHR ''/'' # path) ! (length host + length (dec n)) \<noteq> CHR ''/''"
proof (cases "length (dec n)")
  case (Suc k)
  then have "(host @ CHR '':'' # dec n @ CHR ''/'' # path) ! (length host + length (dec n)) = dec n ! k" by (simp add: nth_append)
  moreover have "is_digit (dec n ! k)" using Suc dec_digits [of n] by (simp add: list_all_iff)
  ultimately show ?thesis by (auto simp: is_digit_def Let_def)
qed (simp add: nth_append)

lemma parse_port:
  assumes "plain host" "no_zero path" "host \<noteq> []" "n < 100000"
  shows "fst (parse_URL (host @ '':'' @ dec n @ ''/'' @ path))
          = Some \<lparr>u_host = Some (butlast host), u_path = Some path, u_port = of_nat n\<rparr>"
proof -
  note h = plain_no_zero [OF assms(1)]
  let ?u = "host @ CHR '':'' # dec n @ CHR ''/'' # path" and ?d = "length (dec n)"
  have len: "?d \<le> 5" using assms(4) length_dec [of 5 n] by simp
  have "parse_URL ?u = parse_from ?u (length host) 0 80"
    unfolding parse_URL_def by (rule scan_head [OF assms(1)])
  also have "\<dots> = parse_from ?u (length host + ?d + 1) (length host) (atoi (dec n))"
    using digits_read [OF len] before_slash by (subst parse_from.simps) (simp add: Let_def)
  also have "\<dots> = (let (url, buffer) = split_at_slash ?u (length host + ?d + 1) (length host) (atoi (dec n)) in (Some url, buffer))"
    using assms(3) by (subst parse_from.simps) (simp add: nth_append)
  finally have eq: "parse_URL ?u = (let (url, buffer) = split_at_slash ?u (length host + ?d + 1) (length host) (atoi (dec n))
      in (Some url, buffer))" .
  have "split_at_slash ?u (length host + ?d + 1) (length host) (atoi (dec n))
    = (\<lparr>u_host = Some (butlast host), u_path = Some path, u_port = atoi (dec n)\<rparr>,
       if path = [] then host @ CHR '':'' # dec n else ?u)"
    using at_slash_port [OF h _ assms(2), of "CHR '':'' # dec n" "atoi (dec n)"] assms(3) no_zero_dec by simp
  then show ?thesis using eq assms(4) by (simp add: atoi_dec)
qed

text \<open>
  C32: a URL of a host and a path is taken apart into them, with port 80; the slash at its end, if
  the path is empty, disappears from the caller's text. With a port of at most five digits between
  them, port and path are right but the host loses its last character: the block for it is
  as long as the host, and the zero that ends it is put over the last byte.
\<close>

theorem url_parsed:
  assumes "plain host" "no_zero path"
  shows "parse_URL (host @ ''/'' @ path)
      = (Some \<lparr>u_host = Some host, u_path = Some path, u_port = 80\<rparr>, if path = [] then host else host @ ''/'' @ path)
    \<and> (host \<noteq> [] \<and> n < 100000 \<longrightarrow>
        fst (parse_URL (host @ '':'' @ dec n @ ''/'' @ path))
          = Some \<lparr>u_host = Some (butlast host), u_path = Some path, u_port = of_nat n\<rparr>)"
  using parse_plain [OF assms] parse_port [OF assms] by blast

theorem url_parsed_witness:
  "fst (parse_URL (''abc'' @ '':'' @ dec 8080 @ ''/'' @ ''x'')) = Some \<lparr>u_host = Some ''ab'', u_path = Some ''x'', u_port = 8080\<rparr>"
  using url_parsed [of "''abc''" "''x''" 8080] by (simp add: plain_def no_zero_def)

section \<open>A page is stored as it came\<close>

lemma length_resized [simp]: "length (resized n page) = n"
  by (simp add: resized_def min_def)

lemma take_resized: "k \<le> n \<Longrightarrow> k \<le> length page \<Longrightarrow> take k (resized n page) = take k page"
  by (simp add: resized_def min_def)

lemma read_loop_chunks:
  assumes "\<forall>c \<in> set chunks. c \<noteq> [] \<and> length c \<le> 1024" "length page = off + 1025"
    and "take off page = map Some body" "length body = off"
    and "chunks = [] \<Longrightarrow> pageSize = int off"
  shows "\<exists>page'. read_loop (map Bytes chunks @ Bytes [] # rs) (int off) pageSize page
      = Done (int (off + length (concat chunks)), page') rs
    \<and> length page' = off + length (concat chunks) + 1025
    \<and> take (off + length (concat chunks)) page' = map Some (body @ concat chunks)"
  using assms
proof (induction chunks arbitrary: off page body pageSize)
  case Nil
  then show ?case by simp
next
  case (Cons c cs)
  let ?off = "off + length c"
  let ?page = "resized (?off + 1025) (take off page @ map Some c @ drop ?off page)"
  have c: "c \<noteq> []" "length c \<le> 1024" using Cons.prems(1) by auto
  have n: "nat (int off + int (length c)) = ?off" by simp
  have step: "read_loop (map Bytes (c # cs) @ Bytes [] # rs) (int off) pageSize page
      = read_loop (map Bytes cs @ Bytes [] # rs) (int ?off) (int ?off) ?page"
    using c Cons.prems(2) by (simp add: BUFFER_SIZE_def Let_def n ac_simps)
  have body: "take ?off ?page = map Some (body @ c)"
    using Cons.prems(2-4) by (subst take_resized) auto
  have "\<exists>page'. read_loop (map Bytes cs @ Bytes [] # rs) (int ?off) (int ?off) ?page
      = Done (int (?off + length (concat cs)), page') rs
    \<and> length page' = ?off + length (concat cs) + 1025
    \<and> take (?off + length (concat cs)) page' = map Some ((body @ c) @ concat cs)"
    by (rule Cons.IH) (use Cons.prems(1,4) body c in auto)
  then show ?case unfolding step by (simp add: add.assoc)
qed

definition connects_to :: "ConnectAnswer_v1 \<Rightarrow> bool" where
  "connects_to a \<longleftrightarrow> a_resolved a \<and> a_sock a \<noteq> -1 \<and> a_setsockopt a \<noteq> -1 \<and> a_connect a \<noteq> -1"

lemma socket_connect_ok:
  "v_connects (v_os s) = a # as \<Longrightarrow> connects_to a \<Longrightarrow>
   socket_connect (Some h) p s = Done (a_sock a) (s\<lparr>v_os := (v_os s)\<lparr>v_connects := as, v_dialed := v_dialed (v_os s) @ [(h, p)]\<rparr>\<rparr>)"
  by (simp add: socket_connect_def connects_to_def Let_def)

lemma send_request_ok:
  assumes "u_path url = Some path" "length path \<le> 511" "v_writes (v_os s) = w # ws"
  shows "\<exists>wire. list_all (\<lambda>p. fst p = v_http_sockets s ! i) wire
    \<and> send_request i url s = Done () (s\<lparr>v_os := (v_os s)\<lparr>v_writes := ws, v_wire := v_wire (v_os s) @ wire\<rparr>\<rparr>)"
proof -
  let ?request = "''GET /'' @ path @ [CHR 0x0D, CHR 0x0A]"
  let ?wire = "if sint w < 0 then [] else [(v_http_sockets s ! i, take (unat w) (map Some ?request))]"
  have "send_request i url s = Done () (s\<lparr>v_os := (v_os s)\<lparr>v_writes := ws, v_wire := v_wire (v_os s) @ ?wire\<rparr>\<rparr>)"
    using assms by (simp add: send_request_def create_request_def write_v1_def ADDRESS_BUF_SIZE_def Let_def)
  then show ?thesis by (intro exI [of _ ?wire]) simp
qed

text \<open>What a fetch leaves behind: the new page and the client's place in it, and the request on the wire.\<close>

definition fetched :: "nat \<Rightarrow> string \<Rightarrow> string \<Rightarrow> int32 \<Rightarrow> Proxy_v1 \<Rightarrow> Proxy_v1 \<Rightarrow> bool" where
  "fetched i title body fd s t \<longleftrightarrow> (\<exists>e wire. v_cache t = v_cache s @ [e] \<and> p_title e = title \<and> p_page_size e = int (length body)
     \<and> take (length body) (p_page e) = map Some body
     \<and> v_cache_to_client t = (v_cache_to_client s)[i := of_nat (length (v_cache s))] \<and> v_sent_bytes t = (v_sent_bytes s)[i := 0]
     \<and> v_clients t = v_clients s \<and> v_selects (v_os t) = v_selects (v_os s)
     \<and> v_wire (v_os t) = v_wire (v_os s) @ wire \<and> list_all (\<lambda>p. fst p = fd) wire)"

lemma fetch_stores:
  assumes "u_host url = Some host" "u_path url = Some path" "length path \<le> 511"
    and "length (v_cache s) < 10" "i < length (v_http_sockets s)"
    and "v_connects (v_os s) = a # as" "connects_to a" "v_writes (v_os s) = w # ws"
    and "v_reads (v_os s) = map Bytes chunks @ Bytes [] # rs" "chunks \<noteq> []"
    and "\<forall>c \<in> set chunks. c \<noteq> [] \<and> length c \<le> 1024"
  shows "\<exists>t. fetch_page i url title s = Done True t \<and> fetched i title (concat chunks) (a_sock a) s t \<and> v_writes (v_os t) = ws
    \<and> v_dialed (v_os t) = v_dialed (v_os s) @ [(host, ucast (u_port url))]"
proof -
  define s1 where "s1 = s\<lparr>v_os := (v_os s)\<lparr>v_connects := as, v_dialed := v_dialed (v_os s) @ [(host, ucast (u_port url))]\<rparr>,
    v_http_sockets := (v_http_sockets s)[i := a_sock a]\<rparr>"
  have conn: "socket_connect (u_host url) (ucast (u_port url)) s
    = Done (a_sock a) (s\<lparr>v_os := (v_os s)\<lparr>v_connects := as, v_dialed := v_dialed (v_os s) @ [(host, ucast (u_port url))]\<rparr>\<rparr>)"
    using socket_connect_ok [OF assms(6,7)] assms(1) by simp
  obtain wire where wire: "list_all (\<lambda>p. fst p = a_sock a) wire" "send_request i url s1 = Done () (s1\<lparr>v_os := (v_os s1)\<lparr>v_writes := ws, v_wire := v_wire (v_os s1) @ wire\<rparr>\<rparr>)"
    using send_request_ok [OF assms(2,3), of s1 w ws i] assms(5,8) by (auto simp: s1_def)
  define s2 where "s2 = s1\<lparr>v_os := (v_os s1)\<lparr>v_writes := ws, v_wire := v_wire (v_os s1) @ wire\<rparr>,
    v_overruns := Suc (v_overruns s1), v_cache_to_client := (v_cache_to_client s)[i := of_nat (length (v_cache s))],
    v_sent_bytes := (v_sent_bytes s)[i := 0]\<rparr>"
  have s2: "v_reads (v_os s2) = map Bytes chunks @ Bytes [] # rs" "v_cache s2 = v_cache s"
    "v_cache_to_client s2 = (v_cache_to_client s)[i := of_nat (length (v_cache s))]" "v_sent_bytes s2 = (v_sent_bytes s)[i := 0]"
    "v_dialed (v_os s2) = v_dialed (v_os s) @ [(host, ucast (u_port url))]" "v_clients s2 = v_clients s"
    "v_selects (v_os s2) = v_selects (v_os s)" "v_wire (v_os s2) = v_wire (v_os s) @ wire" "v_writes (v_os s2) = ws"
    using assms(9) by (simp_all add: s2_def s1_def)
  let ?n = "length (concat chunks)"
  obtain page where page: "read_loop (map Bytes chunks @ Bytes [] # rs) 0 1024 (replicate 1025 None) = Done (int ?n, page) rs"
    "length page = ?n + 1025" "take ?n page = map Some (concat chunks)"
    using read_loop_chunks [OF assms(11), of "replicate 1025 None" 0 "[]" 1024 rs] assms(10) by auto
  define s3 where "s3 = s2\<lparr>v_os := (v_os s2)\<lparr>v_reads := rs\<rparr>\<rparr>"
  have read: "read_to_cache s2 = Done (int ?n, page) s3"
    using page(1) by (simp add: read_to_cache_def s2(1) BUFFER_SIZE_def s3_def)
  let ?e = "\<lparr>p_title = title, p_page_size = int ?n, p_page = page[nat (int ?n + 1) := Some CHR 0x00]\<rparr>"
  have "fetch_page i url title s = Done True ((close_v1 (v_http_sockets s3 ! i) s3)\<lparr>v_cache := v_cache s @ [?e]\<rparr>)"
  proof -
    have "a_sock a \<noteq> EMPTY" using assms(7) by (simp add: connects_to_def EMPTY_def)
    moreover have "\<not> CACHE_SIZE \<le> length (v_cache s)" using assms(4) by (simp add: CACHE_SIZE_def)
    moreover have "s2 = s1\<lparr>v_os := (v_os s1)\<lparr>v_writes := ws, v_wire := v_wire (v_os s1) @ wire\<rparr>,
      v_overruns := Suc (v_overruns s), v_cache_to_client := (v_cache_to_client s)[i := word_of_nat (length (v_cache s))],
      v_sent_bytes := (v_sent_bytes s)[i := 0]\<rparr>" by (simp add: s2_def s1_def)
    ultimately show ?thesis
      using read page(2) s2(2)
      by (simp add: fetch_page_def conn Let_def s1_def [symmetric] wire s3_def close_v1_def) (simp add: s1_def)
  qed
  moreover have "take ?n (p_page ?e) = map Some (concat chunks)" using page(3) by (simp add: nat_add_distrib)
  then have "fetched i title (concat chunks) (a_sock a) s ((close_v1 (v_http_sockets s3 ! i) s3)\<lparr>v_cache := v_cache s @ [?e]\<rparr>)"
    unfolding fetched_def using s2 wire(1)
    by (intro exI [of _ ?e] exI [of _ wire]) (simp add: s3_def close_v1_def)
  ultimately show ?thesis
    using s2 by (intro exI [of _ "(close_v1 (v_http_sockets s3 ! i) s3)\<lparr>v_cache := v_cache s @ [?e]\<rparr>"]) (simp add: s3_def close_v1_def)
qed

text \<open>
  A page that is not in the cache is fetched from the host and port of its URL and stored, under
  the text of the request, as exactly the bytes that came until the server closed, however they
  were split up; the client is then served from its beginning. Any path that fits in the
  buffer for a request line fits in the one for the request.
\<close>

theorem page_fetched:
  assumes "u_host url = Some host" "u_path url = Some path" "length path \<le> 511"
    and "length (v_cache s) < 10" "i < length (v_http_sockets s)" "i < length (v_cache_to_client s)" "i < length (v_sent_bytes s)"
    and "v_connects (v_os s) = a # as" "connects_to a" "v_writes (v_os s) = w # ws"
    and "v_reads (v_os s) = map Bytes chunks @ Bytes [] # rs" "chunks \<noteq> []"
    and "\<forall>c \<in> set chunks. c \<noteq> [] \<and> length c \<le> 1024"
  shows "\<exists>s' e. fetch_page i url title s = Done True s' \<and> v_cache s' = v_cache s @ [e] \<and> p_title e = title
    \<and> p_page_size e = int (length (concat chunks)) \<and> take (length (concat chunks)) (p_page e) = map Some (concat chunks)
    \<and> v_cache_to_client s' ! i = of_nat (length (v_cache s)) \<and> v_sent_bytes s' ! i = 0
    \<and> v_dialed (v_os s') = v_dialed (v_os s) @ [(host, ucast (u_port url))]"
proof -
  from fetch_stores [OF assms(1-5) assms(8-13), of title] obtain t where "fetch_page i url title s = Done True t"
    "fetched i title (concat chunks) (a_sock a) s t" "v_dialed (v_os t) = v_dialed (v_os s) @ [(host, ucast (u_port url))]" by blast
  then show ?thesis using assms(6,7) by (auto simp: fetched_def)
qed

theorem page_fetched_witness:
  "\<exists>s s' e. fetch_page 0 \<lparr>u_host = Some ''h'', u_path = Some ''p'', u_port = 80\<rparr> ''h/p'' s = Done True s'
    \<and> v_cache s' = v_cache s @ [e] \<and> p_title e = ''h/p'' \<and> p_page_size e = 3 \<and> take 3 (p_page e) = map Some ''abc''"
proof -
  let ?url = "\<lparr>u_host = Some ''h'', u_path = Some ''p'', u_port = 80\<rparr>" and ?chunks = "[''ab'', ''c'']"
  define s :: Proxy_v1 where "s = \<lparr>v_clients = [5], v_http_sockets = [-1], v_cache_to_client = [-1], v_sent_bytes = [0],
    v_cache = [], v_connected = 1, v_overruns = 0,
    v_os = \<lparr>v_selects = [], v_accepts = [], v_reads = [Bytes ''ab'', Bytes ''c'', Bytes []], v_writes = [8],
      v_connects = [\<lparr>a_resolved = True, a_sock = 7, a_connect = 0, a_setsockopt = 0\<rparr>], v_wire = [], v_dialed = [],
      v_closed = []\<rparr>\<rparr>"
  have "\<exists>s' e. fetch_page 0 ?url ''h/p'' s = Done True s' \<and> v_cache s' = v_cache s @ [e] \<and> p_title e = ''h/p''
    \<and> p_page_size e = int (length (concat ?chunks)) \<and> take (length (concat ?chunks)) (p_page e) = map Some (concat ?chunks)
    \<and> v_cache_to_client s' ! 0 = of_nat (length (v_cache s)) \<and> v_sent_bytes s' ! 0 = 0
    \<and> v_dialed (v_os s') = v_dialed (v_os s) @ [(''h'', ucast (u_port ?url))]"
    by (rule page_fetched [where path = "''p''" and rs = "[]" and as = "[]" and w = 8 and ws = "[]"
          and a = "\<lparr>a_resolved = True, a_sock = 7, a_connect = 0, a_setsockopt = 0\<rparr>"]) (simp_all add: s_def connects_to_def)
  moreover have "length (concat ?chunks) = 3" "concat ?chunks = ''abc''" "int 3 = 3" by simp_all
  ultimately show ?thesis by metis
qed

end
