(* ===== verification/Lab31_V1_Service.thy ===== *)
theory Lab31_V1_Service
  imports Lab31_V1_Correct
begin

text \<open>
  The main loop of the first proxy: the invariant of its arrays, which every call that returns keeps, a page that is
  sent to its client in full, and the inputs that nothing guards against.
\<close>

section \<open>The arrays\<close>

text \<open>
  What a call leaves behind if it does not end in a fault; which faults a call can end in is the
  subject of \<open>Lab31_V1_Bounds\<close>.
\<close>

fun keeps :: "('s \<Rightarrow> bool) \<Rightarrow> ('v, 's) outcome \<Rightarrow> bool" where
  "keeps P (Done v s) = P s"
| "keeps P (Throws e s) = P s"
| "keeps P (Fault x) = True"

lemma keeps_bind: "keeps P m \<Longrightarrow> (\<And>v s. m = Done v s \<Longrightarrow> P s \<Longrightarrow> keeps P (f v s)) \<Longrightarrow> keeps P (bind m f)"
  by (cases m) auto

definition occupied :: "int32 list \<Rightarrow> nat" where
  "occupied clients = length (filter (\<lambda>c. sint c \<ge> 0) clients)"

definition inv_v1 :: "Proxy_v1 \<Rightarrow> bool" where
  "inv_v1 s \<longleftrightarrow> length (v_clients s) = MAX_CLIENTS_AMOUNT \<and> length (v_http_sockets s) = MAX_CLIENTS_AMOUNT
     \<and> length (v_cache_to_client s) = MAX_CLIENTS_AMOUNT \<and> length (v_sent_bytes s) = MAX_CLIENTS_AMOUNT
     \<and> length (v_cache s) \<le> CACHE_SIZE
     \<and> int (occupied (v_clients s)) \<le> v_connected s \<and> v_connected s \<le> int MAX_CLIENTS_AMOUNT
     \<and> (\<forall>c \<in> set (v_cache_to_client s). c = EMPTY \<or> unat c < length (v_cache s))"

lemma inv_v1_os [simp]: "inv_v1 (s\<lparr>v_os := x\<rparr>) = inv_v1 s"
  by (simp add: inv_v1_def)

lemma inv_v1_sockets: "inv_v1 s \<Longrightarrow> inv_v1 (s\<lparr>v_http_sockets := (v_http_sockets s)[i := fd]\<rparr>)"
  by (simp add: inv_v1_def)

lemma inv_v1_sent: "inv_v1 s \<Longrightarrow> inv_v1 (s\<lparr>v_sent_bytes := (v_sent_bytes s)[i := n]\<rparr>)"
  by (simp add: inv_v1_def)

lemma inv_v1_page:
  "inv_v1 s \<Longrightarrow> c = EMPTY \<or> unat c < length (v_cache s) \<Longrightarrow>
   inv_v1 (s\<lparr>v_cache_to_client := (v_cache_to_client s)[i := c], v_sent_bytes := (v_sent_bytes s)[i := n]\<rparr>)"
  by (auto simp: inv_v1_def dest: set_update_subset_insert [THEN subsetD])

lemma occupied_update:
  "i < length cs \<Longrightarrow> occupied (cs[i := c]) + (if sint (cs ! i) \<ge> 0 then 1 else 0) = occupied cs + (if sint c \<ge> 0 then 1 else 0)"
proof (induction cs arbitrary: i)
  case (Cons a cs)
  then show ?case by (cases i) (auto simp: occupied_def)
qed simp

lemma find_free_less: "occupied cs < length cs \<Longrightarrow> find_free_from cs < length cs"
  by (induction cs) (auto simp: occupied_def split: if_splits)

lemma find_free_at: "find_free_from cs < length cs \<Longrightarrow> sint (cs ! find_free_from cs) < 0"
  by (induction cs) auto

lemma new_inv_v1: "inv_v1 (new_Proxy_v1 os)"
  by (simp add: inv_v1_def new_Proxy_v1_def occupied_def EMPTY_def)

lemmas v1_calls = select_v1_def read_v1_def write_v1_def close_v1_def

lemma select_keeps: "inv_v1 s \<Longrightarrow> keeps inv_v1 (select_v1 s)"
  by (simp add: v1_calls split: list.split)

lemma read_keeps: "inv_v1 s \<Longrightarrow> keeps inv_v1 (read_v1 n s)"
  by (simp add: v1_calls split: list.split)

lemma write_keeps: "inv_v1 s \<Longrightarrow> keeps inv_v1 (write_v1 fd bs s)"
  by (simp add: v1_calls split: list.split)

lemma close_keeps [simp]: "inv_v1 (close_v1 fd s) = inv_v1 s"
  by (simp add: close_v1_def)

lemma connect_keeps: "inv_v1 s \<Longrightarrow> keeps inv_v1 (socket_connect h p s)"
  by (simp add: socket_connect_def Let_def split: option.split list.split)

lemma free_index:
  assumes "inv_v1 s" "v_connected s < int MAX_CLIENTS_AMOUNT"
  shows "find_free_client_index (v_clients s) < MAX_CLIENTS_AMOUNT"
    and "sint (v_clients s ! find_free_client_index (v_clients s)) < 0"
  using assms find_free_less [of "v_clients s"] find_free_at [of "v_clients s"]
  by (auto simp: inv_v1_def find_free_client_index_def)

lemma accept_in_bounds:
  assumes "inv_v1 s" "v_connected s < int MAX_CLIENTS_AMOUNT"
  shows "accept_new_client ticks s \<noteq> Fault OutOfBounds"
    and "keeps (\<lambda>t. inv_v1 (t\<lparr>v_connected := v_connected t + 1\<rparr>)) (accept_new_client ticks s)"
proof -
  let ?i = "find_free_client_index (v_clients s)"
  note i = free_index [OF assms]
  have occ: "occupied ((v_clients s)[?i := fd]) \<le> occupied (v_clients s) + 1" for fd
    using occupied_update [of ?i "v_clients s" fd] i assms(1) by (simp add: inv_v1_def split: if_splits)
  have "inv_v1 (s\<lparr>v_clients := (v_clients s)[?i := fd], v_connected := v_connected s + 1\<rparr>)" for fd
    using assms occ [of fd] by (simp add: inv_v1_def)
  then show "accept_new_client ticks s \<noteq> Fault OutOfBounds"
    "keeps (\<lambda>t. inv_v1 (t\<lparr>v_connected := v_connected t + 1\<rparr>)) (accept_new_client ticks s)"
    using i by (auto simp: accept_new_client_def write_v1_def Let_def inv_v1_def split: list.split)
qed

lemma accept_throws_not: "accept_new_client ticks s \<noteq> Throws e t"
  by (auto simp: accept_new_client_def write_v1_def Let_def split: list.split)

lemma try_accept_keeps:
  assumes "inv_v1 s"
  shows "keeps inv_v1 (try_accept_new_client ticks s)" "try_accept_new_client ticks s \<noteq> Fault OutOfBounds"
proof -
  have sel: "v_connected t = v_connected s \<and> inv_v1 t" if "select_v1 s = Done r t" for r t
    using that assms by (auto simp: select_v1_def split: list.splits)
  show "keeps inv_v1 (try_accept_new_client ticks s)"
  proof (cases "v_connected s < int MAX_CLIENTS_AMOUNT")
    case True
    have "keeps inv_v1 (bind (accept_new_client ticks t) (\<lambda>_ t. Done () (t\<lparr>v_connected := v_connected t + 1\<rparr>)))"
      if "select_v1 s = Done r t" for r t
      using accept_in_bounds(2) [of t ticks] sel [OF that] True
      by (cases "accept_new_client ticks t") (auto simp: accept_throws_not)
    then show ?thesis
      using True assms sel unfolding try_accept_new_client_def
      by (auto intro!: keeps_bind [OF select_keeps])
  qed (use assms in \<open>simp add: try_accept_new_client_def\<close>)
  show "try_accept_new_client ticks s \<noteq> Fault OutOfBounds"
  proof (cases "select_v1 s")
    case (Done r t)
    then show ?thesis
      using accept_in_bounds(1) [of t ticks] sel [OF Done] by (simp add: try_accept_new_client_def bind_eq_Fault)
  qed (auto simp: try_accept_new_client_def select_v1_def split: list.splits)
qed

text \<open>Leaving a place empties it.\<close>

lemma disconnecting_keeps:
  assumes "inv_v1 s" "i < MAX_CLIENTS_AMOUNT" "sint (v_clients s ! i) \<ge> 0"
  shows "inv_v1 (handle_client_disconnecting i (s\<lparr>v_connected := v_connected s - 1\<rparr>))"
proof -
  have "occupied ((v_clients s)[i := EMPTY]) + 1 = occupied (v_clients s)"
    using occupied_update [of i "v_clients s" EMPTY] assms by (simp add: inv_v1_def EMPTY_def)
  moreover have "c = EMPTY \<or> unat c < length (v_cache s)" if "c \<in> set ((v_cache_to_client s)[i := EMPTY])" for c
    using set_update_subset_insert [of "v_cache_to_client s" i EMPTY] that assms(1) by (auto simp: inv_v1_def)
  ultimately show ?thesis
    using assms(1) by (simp add: inv_v1_def handle_client_disconnecting_def close_v1_def Let_def)
qed

lemma found_keeps:
  assumes "inv_v1 s"
  shows "inv_v1 (snd (try_find_at_cache i url s))"
proof -
  have *: "find_title url cs k = Some j \<Longrightarrow> k \<le> j \<and> j < k + length cs" for cs k j
    by (induction cs arbitrary: k) (fastforce split: if_splits)+
  have "unat (of_nat j :: int32) < length (v_cache s)" if "find_title url (v_cache s) 0 = Some j" for j
  proof -
    have "j < length (v_cache s)" using * [OF that] by simp
    then show ?thesis unfolding unat_of_nat by (rule le_less_trans [OF mod_less_eq_dividend])
  qed
  then show ?thesis using assms by (auto simp: try_find_at_cache_def intro: inv_v1_page split: option.split)
qed

lemma resend_keeps:
  assumes "inv_v1 s"
  shows "keeps inv_v1 (resend_from_cache i s)"
  using assms
  by (auto simp: resend_from_cache_def write_v1_def Let_def EMPTY_def inv_v1_sent [of "_\<lparr>v_os := _\<rparr>", simplified]
      split: list.split)

lemma stored_keeps:
  assumes "inv_v1 s" "length (v_cache s) < CACHE_SIZE"
  shows "inv_v1 (s\<lparr>v_overruns := k, v_cache_to_client := (v_cache_to_client s)[i := of_nat (length (v_cache s))],
    v_sent_bytes := (v_sent_bytes s)[i := n], v_os := x, v_cache := v_cache s @ [e]\<rparr>)"
proof -
  have "unat (of_nat (length (v_cache s)) :: int32) \<le> length (v_cache s)"
    unfolding unat_of_nat by (rule mod_less_eq_dividend)
  then have "c = EMPTY \<or> unat c < Suc (length (v_cache s))"
    if "c \<in> set ((v_cache_to_client s)[i := of_nat (length (v_cache s))])" for c
    using set_update_subset_insert [of "v_cache_to_client s" i "of_nat (length (v_cache s))"] that assms(1)
    by (fastforce simp: inv_v1_def)
  then show ?thesis using assms by (simp add: inv_v1_def)
qed

lemma send_request_keeps: "inv_v1 s \<Longrightarrow> keeps inv_v1 (send_request i url s)"
  by (auto simp: send_request_def Let_def intro!: keeps_bind [OF write_keeps] split: option.split)

lemma read_loop_throws_not: "read_loop rs offset pageSize page \<noteq> Throws e rs'"
  by (induction rs offset pageSize page rule: read_loop.induct) (auto simp: Let_def split: ReadAnswer.split)

lemma fetch_keeps:
  assumes "inv_v1 s"
  shows "keeps inv_v1 (fetch_page i url text s)"
  unfolding fetch_page_def Let_def
proof (rule keeps_bind [OF connect_keeps [OF assms]], split if_split, intro conjI impI, goal_cases)
  case (1 fd t)
  then show ?case by (auto intro!: keeps_bind [OF write_keeps] inv_v1_sockets)
next
  case (2 fd t)
  show ?case
  proof (rule keeps_bind [OF send_request_keeps [OF inv_v1_sockets [OF 2(2)]]], split if_split, intro conjI impI, goal_cases)
    case (2 u t')
    then have room: "length (v_cache t') < CACHE_SIZE" by simp
    show ?case
      using stored_keeps [OF 2(2) room]
      by (auto simp: read_to_cache_def close_v1_def read_loop_throws_not split: outcome.split)
  qed simp
qed

lemma read_url_keeps:
  assumes "inv_v1 s" "i < MAX_CLIENTS_AMOUNT" "sint (v_clients s ! i) \<ge> 0"
  shows "keeps inv_v1 (read_url i s)"
  unfolding read_url_def
proof (rule keeps_bind [OF read_keeps [OF assms(1)]], goal_cases)
  case (1 r t)
  then have t: "v_clients t = v_clients s" by (auto simp: read_v1_def split: list.splits)
  have found: "inv_v1 t'" if "try_find_at_cache i url t = (b, t')" for url b t'
    using found_keeps [OF 1(2), of i url] that by simp
  show ?case
    using disconnecting_keeps [of t i] assms 1(2) t
    by (auto simp: Let_def intro: fetch_keeps found split: option.split prod.split)
qed

lemma serve_client_keeps:
  assumes "inv_v1 s" "i < MAX_CLIENTS_AMOUNT"
  shows "keeps inv_v1 (serve_client i s)"
proof (cases "sint (v_clients s ! i) < 2")
  case False
  have "keeps inv_v1 (if r \<noteq> 0 then read_url i t else Done True t)" if "select_v1 s = Done r t" "inv_v1 t" for r t
    using that False assms(2) read_url_keeps [of t i] by (auto simp: select_v1_def split: list.splits)
  then have "keeps inv_v1 (bind (if r \<noteq> 0 then read_url i t else Done True t)
      (\<lambda>resend s. if resend then resend_from_cache i s else Done () s))" if "select_v1 s = Done r t" "inv_v1 t" for r t
    using that by (intro keeps_bind) (auto intro: resend_keeps)
  then show ?thesis
    using False unfolding serve_client_def by (simp only: if_False) (rule keeps_bind [OF select_keeps [OF assms(1)]])
qed (use assms in \<open>simp add: serve_client_def\<close>)

section \<open>A page is sent in full\<close>

text \<open>Rounds of the main loop for one client, and answers of \<open>write\<close> that take a part of what is offered.\<close>

fun serve_rounds :: "nat \<Rightarrow> nat \<Rightarrow> Proxy_v1 \<Rightarrow> (unit, Proxy_v1) outcome" where
  "serve_rounds 0 i s = Done () s"
| "serve_rounds (Suc n) i s = bind (serve_client i s) (\<lambda>_ s. serve_rounds n i s)"

fun accepted :: "int32 list \<Rightarrow> nat \<Rightarrow> bool" where
  "accepted [] left \<longleftrightarrow> left = 0"
| "accepted (w # ws) left \<longleftrightarrow> 0 < unat w \<and> unat w \<le> 1024 \<and> unat w \<le> left \<and> accepted ws (left - unat w)"

definition sends_page :: "nat \<Rightarrow> string \<Rightarrow> Proxy_v1 \<Rightarrow> bool" where
  "sends_page i body s \<longleftrightarrow> i < length (v_sent_bytes s) \<and> v_cache_to_client s ! i \<noteq> EMPTY
     \<and> p_page_size (v_cache s ! unat (v_cache_to_client s ! i)) = int (length body)
     \<and> take (length body) (p_page (v_cache s ! unat (v_cache_to_client s ! i))) = map Some body"

lemma sint_small:
  assumes "unat (w :: int32) \<le> 1024"
  shows "sint w = int (unat w)"
proof -
  have "uint w \<le> 1024" "- 2147483648 \<le> uint w" using assms uint_nat [of w] by linarith+
  then show ?thesis
    using signed_take_bit_int_eq_self [of 31 "uint w"] by (simp add: sint_uint del: uint_nat)
qed

lemma resend_step:
  assumes "sends_page i body s" "v_sent_bytes s ! i = int k" "v_writes (v_os s) = w # ws"
    and w: "0 < unat w" "unat w \<le> 1024" "unat w \<le> length body - k"
  shows "\<exists>t. resend_from_cache i s = Done () t \<and> sends_page i body t \<and> v_sent_bytes t ! i = int (k + unat w)
    \<and> v_writes (v_os t) = ws \<and> v_clients t = v_clients s \<and> v_selects (v_os t) = v_selects (v_os s) \<and> v_cache t = v_cache s
    \<and> v_dialed (v_os t) = v_dialed (v_os s)
    \<and> v_wire (v_os t) = v_wire (v_os s) @ [(v_clients s ! i, map Some (take (unat w) (drop k body)))]"
proof -
  let ?page = "p_page (v_cache s ! unat (v_cache_to_client s ! i))" and ?left = "length body - k"
  have k: "k < length body" and le: "k + unat w \<le> length body" using w by simp_all
  have "take (k + unat w) (take (length body) ?page) = map Some (take (k + unat w) body)"
    using assms(1) by (simp add: sends_page_def take_map)
  then have "take (k + unat w) ?page = map Some (take (k + unat w) body)"
    using le by (simp add: min_def)
  then have "drop k (take (k + unat w) ?page) = map Some (drop k (take (k + unat w) body))" by (simp add: drop_map)
  then have piece: "take (unat w) (drop k ?page) = map Some (take (unat w) (drop k body))" by (simp add: drop_take)
  have "min (unat w) BUFFER_SIZE = unat w" "min (unat w) (nat (int (length body) - int k)) = unat w"
    using w by (auto simp: BUFFER_SIZE_def min_def)
  moreover have "w \<noteq> 0" using w by auto
  ultimately have "resend_from_cache i s = Done () (s\<lparr>v_os := (v_os s)\<lparr>v_writes := ws,
      v_wire := v_wire (v_os s) @ [(v_clients s ! i, map Some (take (unat w) (drop k body)))]\<rparr>,
      v_sent_bytes := (v_sent_bytes s)[i := int (k + unat w)]\<rparr>)"
    using assms(1-3) k sint_small [OF w(2)] piece
    by (simp add: resend_from_cache_def sends_page_def write_v1_def Let_def)
  then show ?thesis using assms(1) by (simp add: sends_page_def)
qed

text \<open>A round in which the client has sent nothing.\<close>

lemma idle_round:
  assumes "v_selects (v_os s) = 0 # sels" "2 \<le> sint (v_clients s ! i)"
  shows "serve_client i s = resend_from_cache i (s\<lparr>v_os := (v_os s)\<lparr>v_selects := sels\<rparr>\<rparr>)"
  using assms by (simp add: serve_client_def select_v1_def)

lemma rounds_all:
  "sends_page i body s \<Longrightarrow> v_sent_bytes s ! i = int k \<Longrightarrow> k \<le> length body \<Longrightarrow> v_writes (v_os s) = ws @ rest
   \<Longrightarrow> accepted ws (length body - k) \<Longrightarrow> v_selects (v_os s) = replicate (length ws) 0 @ sels \<Longrightarrow> 2 \<le> sint (v_clients s ! i) \<Longrightarrow>
   \<exists>t ps. serve_rounds (length ws) i s = Done () t \<and> sends_page i body t \<and> v_sent_bytes t ! i = int (length body)
     \<and> v_cache t = v_cache s \<and> v_dialed (v_os t) = v_dialed (v_os s)
     \<and> v_wire (v_os t) = v_wire (v_os s) @ map (Pair (v_clients s ! i)) ps \<and> concat ps = map Some (drop k body)"
proof (induction ws arbitrary: s k)
  case (Cons w ws)
  from Cons.prems have w: "0 < unat w" "unat w \<le> 1024" "unat w \<le> length body - k" by simp_all
  have le: "k + unat w \<le> length body" using w(3) Cons.prems(3) by simp
  define s0 where "s0 = s\<lparr>v_os := (v_os s)\<lparr>v_selects := replicate (length ws) 0 @ sels\<rparr>\<rparr>"
  have s0: "sends_page i body s0" "v_sent_bytes s0 ! i = int k" "v_writes (v_os s0) = w # ws @ rest"
    "v_selects (v_os s0) = replicate (length ws) 0 @ sels" "v_clients s0 = v_clients s" "v_wire (v_os s0) = v_wire (v_os s)"
    "v_cache s0 = v_cache s" "v_dialed (v_os s0) = v_dialed (v_os s)"
    using Cons.prems by (simp_all add: s0_def sends_page_def)
  obtain s' where s': "resend_from_cache i s0 = Done () s'" "sends_page i body s'" "v_sent_bytes s' ! i = int (k + unat w)"
    "v_writes (v_os s') = ws @ rest" "v_clients s' = v_clients s" "v_selects (v_os s') = replicate (length ws) 0 @ sels"
    "v_cache s' = v_cache s" "v_dialed (v_os s') = v_dialed (v_os s)"
    "v_wire (v_os s') = v_wire (v_os s) @ [(v_clients s ! i, map Some (take (unat w) (drop k body)))]"
    using resend_step [OF s0(1-3) w] s0(4-) by auto
  have round: "serve_client i s = Done () s'"
    using idle_round [of s "replicate (length ws) 0 @ sels" i] Cons.prems(6,7) s'(1) by (simp add: s0_def)
  obtain t ps where t: "serve_rounds (length ws) i s' = Done () t" "sends_page i body t" "v_sent_bytes t ! i = int (length body)"
    "v_cache t = v_cache s'" "v_dialed (v_os t) = v_dialed (v_os s')"
    "v_wire (v_os t) = v_wire (v_os s') @ map (Pair (v_clients s' ! i)) ps" "concat ps = map Some (drop (k + unat w) body)"
    using Cons.IH [OF s'(2,3) le s'(4) _ s'(6)] Cons.prems(5,7) s'(5) by auto
  have "map Some (take (unat w) (drop k body)) @ map Some (drop (k + unat w) body) = map Some (drop k body)"
    by (metis add.commute append_take_drop_id drop_drop map_append)
  then show ?case
    using round s' t by (intro exI [of _ t] exI [of _ "map Some (take (unat w) (drop k body)) # ps"]) simp
qed auto

lemma all_sent: "sends_page i body t \<Longrightarrow> v_sent_bytes t ! i = int (length body) \<Longrightarrow> resend_from_cache i t = Done () t"
  by (simp add: resend_from_cache_def sends_page_def Let_def)

text \<open>
  A client that is served from the cache is sent the rest of its page, byte for byte and over its
  own descriptor, however the system splits the writes up; after the last byte a
  round changes nothing.
\<close>

theorem page_resent:
  assumes "sends_page i body s" "v_sent_bytes s ! i = int k" "k \<le> length body" "2 \<le> sint (v_clients s ! i)"
    and "v_selects (v_os s) = replicate (length ws) 0 @ sels" "v_writes (v_os s) = ws @ rest" "accepted ws (length body - k)"
  shows "\<exists>t ps. serve_rounds (length ws) i s = Done () t
    \<and> v_wire (v_os t) = v_wire (v_os s) @ map (Pair (v_clients s ! i)) ps \<and> concat ps = map Some (drop k body)
    \<and> resend_from_cache i t = Done () t"
  using rounds_all [OF assms(1-3,6,7,5,4)] all_sent by blast

theorem page_resent_witness:
  "\<exists>s t ps. serve_rounds 2 0 s = Done () t \<and> v_wire (v_os t) = map (Pair 5) ps \<and> concat ps = map Some ''page''"
proof -
  define s :: Proxy_v1 where "s = \<lparr>v_clients = [5], v_http_sockets = [6], v_cache_to_client = [0], v_sent_bytes = [0],
    v_cache = [\<lparr>p_title = [], p_page_size = 4, p_page = map Some ''page'' @ [None]\<rparr>], v_connected = 1, v_overruns = 0,
    v_os = \<lparr>v_selects = [0, 0], v_accepts = [], v_reads = [], v_writes = [1, 3], v_connects = [], v_wire = [], v_dialed = [],
      v_closed = []\<rparr>\<rparr>"
  have "sends_page 0 ''page'' s" by (simp add: sends_page_def s_def EMPTY_def)
  then have "\<exists>t ps. serve_rounds (length [1, 3 :: int32]) 0 s = Done () t
    \<and> v_wire (v_os t) = v_wire (v_os s) @ map (Pair (v_clients s ! 0)) ps \<and> concat ps = map Some (drop 0 ''page'')
    \<and> resend_from_cache 0 t = Done () t"
    by (rule page_resent [where rest = "[]" and sels = "[]"]) (simp_all add: s_def)
  then show ?thesis by (auto simp: s_def numeral_2_eq_2)
qed

text \<open>
  A \<open>write\<close> that fails is taken for one that wrote minus one byte, because the branch that would
  drop the client is never reached: the client keeps its place, and the byte before is sent once
  more or, if there is none, the next round reads in front of the page.
\<close>

theorem failed_write_steps_back:
  assumes "sends_page i body s" "v_sent_bytes s ! i = int k" "k < length body" "v_writes (v_os s) = -1 # ws"
  shows "\<exists>t. resend_from_cache i s = Done () t \<and> v_clients t = v_clients s \<and> v_connected t = v_connected s
    \<and> v_sent_bytes t ! i = int k - 1 \<and> (k = 0 \<longrightarrow> resend_from_cache i t = Fault OutOfBounds)"
proof -
  have "\<not> int (length body) \<le> - 1" by simp
  then show ?thesis
    using assms
    by (auto simp: resend_from_cache_def sends_page_def write_v1_def Let_def)
qed

theorem failed_write_steps_back_witness:
  "\<exists>s t u. resend_from_cache 0 s = Done () t \<and> v_sent_bytes t ! 0 = -1 \<and> resend_from_cache 0 t = u \<and> u = Fault OutOfBounds"
proof -
  define s :: Proxy_v1 where "s = \<lparr>v_clients = [5], v_http_sockets = [6], v_cache_to_client = [0], v_sent_bytes = [0],
    v_cache = [\<lparr>p_title = [], p_page_size = 4, p_page = map Some ''page'' @ [None]\<rparr>], v_connected = 1, v_overruns = 0,
    v_os = \<lparr>v_selects = [], v_accepts = [], v_reads = [], v_writes = [-1], v_connects = [], v_wire = [], v_dialed = [],
      v_closed = []\<rparr>\<rparr>"
  have "sends_page 0 ''page'' s" by (simp add: sends_page_def s_def EMPTY_def)
  then have "\<exists>t. resend_from_cache 0 s = Done () t \<and> v_clients t = v_clients s \<and> v_connected t = v_connected s
    \<and> v_sent_bytes t ! 0 = int 0 - 1 \<and> (0 = (0 :: nat) \<longrightarrow> resend_from_cache 0 t = Fault OutOfBounds)"
    by (rule failed_write_steps_back) (simp_all add: s_def)
  then show ?thesis by auto
qed

section \<open>What nothing guards against\<close>

lemma no_slash_parsed:
  assumes "plain u"
  shows "parse_URL u = (Some \<lparr>u_host = None, u_path = None, u_port = 80\<rparr>, u)"
proof -
  have "parse_URL u = parse_from u (length u) 0 80"
    using scan_head [OF assms, of "[]" 0 80] by (simp add: parse_URL_def)
  then show ?thesis by (subst (asm) parse_from.simps) simp
qed

lemma read_v1_bytes:
  "v_reads (v_os s) = Bytes bs # rs \<Longrightarrow> read_v1 n s = Done (Some (take n bs)) (s\<lparr>v_os := (v_os s)\<lparr>v_reads := rs\<rparr>\<rparr>)"
  by (simp add: read_v1_def)

text \<open>
  C39: four requests that end in a fault. One of 512 bytes or more (or a failing \<open>read\<close>) puts the
  zero that ends the text outside the buffer; one without a slash, if it is not a title in the cache, has
  no host and the null pointer goes to \<open>gethostbyname\<close>; the eleventh page is stored behind the
  array of pages; and a server that closes without a byte leaves a page size of 1024 in a block of 1025
  bytes, one less than the place of the zero.
\<close>

theorem unguarded_requests:
  "(v_reads (v_os s) = ReadFails # rs \<or> v_reads (v_os s) = Bytes bs # rs \<and> length bs \<ge> 512 \<longrightarrow>
      read_url i s = Fault OutOfBounds)
   \<and> (v_reads (v_os s) = Bytes u # rs \<and> plain u \<and> u \<noteq> [] \<and> length u < 512 \<and> find_title u (v_cache s) 0 = None \<longrightarrow>
      read_url i s = Fault NullDereference)
   \<and> (u_host url = Some host \<and> u_path url = Some path \<and> length path \<le> 511 \<and> v_connects (v_os s) = a # as \<and> connects_to a
      \<and> v_writes (v_os s) = w # ws \<and> (length (v_cache s) = 10 \<or> v_reads (v_os s) = Bytes [] # rs) \<longrightarrow>
      fetch_page i url text s = Fault OutOfBounds)"
proof (intro conjI impI)
  assume "v_reads (v_os s) = ReadFails # rs \<or> v_reads (v_os s) = Bytes bs # rs \<and> length bs \<ge> 512"
  then show "read_url i s = Fault OutOfBounds"
  proof
    assume *: "v_reads (v_os s) = Bytes bs # rs \<and> length bs \<ge> 512"
    then have "take 512 bs \<noteq> []" by auto
    with * show ?thesis by (simp add: read_url_def read_v1_bytes ADDRESS_BUF_SIZE_def)
  qed (simp add: read_url_def read_v1_def)
next
  assume *: "v_reads (v_os s) = Bytes u # rs \<and> plain u \<and> u \<noteq> [] \<and> length u < 512 \<and> find_title u (v_cache s) 0 = None"
  then have "c_string u = u" by (simp add: c_string_no_zero plain_no_zero)
  moreover have "u \<noteq> ''/exit''" using * by (auto simp: plain_def)
  ultimately show "read_url i s = Fault NullDereference"
    using * by (simp add: read_url_def read_v1_bytes ADDRESS_BUF_SIZE_def no_slash_parsed try_find_at_cache_def
        fetch_page_def socket_connect_def)
next
  assume *: "u_host url = Some host \<and> u_path url = Some path \<and> length path \<le> 511 \<and> v_connects (v_os s) = a # as \<and> connects_to a
      \<and> v_writes (v_os s) = w # ws \<and> (length (v_cache s) = 10 \<or> v_reads (v_os s) = Bytes [] # rs)"
  define s1 where "s1 = s\<lparr>v_os := (v_os s)\<lparr>v_connects := as, v_dialed := v_dialed (v_os s) @ [(host, ucast (u_port url))]\<rparr>,
    v_http_sockets := (v_http_sockets s)[i := a_sock a]\<rparr>"
  obtain wire where wire: "send_request i url s1 = Done () (s1\<lparr>v_os := (v_os s1)\<lparr>v_writes := ws, v_wire := v_wire (v_os s1) @ wire\<rparr>\<rparr>)"
    using send_request_ok [of url path s1 w ws i] * by (auto simp: s1_def)
  have conn: "socket_connect (u_host url) (ucast (u_port url)) s
    = Done (a_sock a) (s\<lparr>v_os := (v_os s)\<lparr>v_connects := as, v_dialed := v_dialed (v_os s) @ [(host, ucast (u_port url))]\<rparr>\<rparr>)"
    using socket_connect_ok [of s a as host] * by simp
  have "a_sock a \<noteq> EMPTY" using * by (simp add: connects_to_def EMPTY_def)
  then have "fetch_page i url text s = (if length (v_cache s) \<ge> CACHE_SIZE then Fault OutOfBounds else fetch_page i url text s)"
    by (simp add: fetch_page_def conn Let_def s1_def [symmetric] wire) (simp add: s1_def)
  moreover have "fetch_page i url text s = Fault OutOfBounds" if "v_reads (v_os s) = Bytes [] # rs"
    using that \<open>a_sock a \<noteq> EMPTY\<close>
    by (simp add: fetch_page_def conn Let_def s1_def [symmetric] wire)
       (simp add: s1_def read_to_cache_def close_v1_def BUFFER_SIZE_def)
  ultimately show "fetch_page i url text s = Fault OutOfBounds" using * by (auto simp: CACHE_SIZE_def)
qed

theorem unguarded_requests_witness:
  "read_url 0 (new_Proxy_v1 \<lparr>v_selects = [], v_accepts = [], v_reads = [Bytes ''index.html''], v_writes = [],
     v_connects = [], v_wire = [], v_dialed = [], v_closed = []\<rparr>) = Fault NullDereference"
proof -
  let ?s = "new_Proxy_v1 \<lparr>v_selects = [], v_accepts = [], v_reads = [Bytes ''index.html''], v_writes = [],
     v_connects = [], v_wire = [], v_dialed = [], v_closed = []\<rparr>"
  have "v_reads (v_os ?s) = Bytes ''index.html'' # [] \<and> plain ''index.html'' \<and> ''index.html'' \<noteq> [] \<and> length ''index.html'' < 512
    \<and> find_title ''index.html'' (v_cache ?s) 0 = None" by (simp add: new_Proxy_v1_def plain_def)
  then show ?thesis
    using unguarded_requests [where s = ?s and u = "''index.html''" and rs = "[]" and i = 0] by blast
qed

end
