(* ===== verification/Lab31_V1_Exchange.thy ===== *)
theory Lab31_V1_Exchange
  imports Lab31_V1_Service
begin

text \<open>
  A whole exchange with the first proxy, from the request of a client to the last byte of its page, and the
  same request again from another client, which the cache answers.
\<close>

lemma requesting_round:
  assumes "v_selects (v_os s) = r # sels" "r \<noteq> 0" "2 \<le> sint (v_clients s ! i)"
    and "read_url i (s\<lparr>v_os := (v_os s)\<lparr>v_selects := sels\<rparr>\<rparr>) = Done True s'"
  shows "serve_client i s = resend_from_cache i s'"
  using assms by (simp add: serve_client_def select_v1_def)

text \<open>A round that begins with a page to send, and the rounds after it.\<close>

lemma rounds_from:
  assumes "serve_client i s = resend_from_cache i s'" "sends_page i body s'" "v_sent_bytes s' ! i = 0"
    and "v_writes (v_os s') = ws @ rest" "accepted ws (length body)" "body \<noteq> []"
    and "v_selects (v_os s') = replicate (length ws - 1) 0 @ sels" "2 \<le> sint (v_clients s' ! i)"
  shows "\<exists>t ps. serve_rounds (length ws) i s = Done () t \<and> v_cache t = v_cache s' \<and> v_dialed (v_os t) = v_dialed (v_os s')
    \<and> v_wire (v_os t) = v_wire (v_os s') @ map (Pair (v_clients s' ! i)) ps \<and> concat ps = map Some body"
proof -
  obtain w ws' where ws: "ws = w # ws'" using assms(5,6) by (cases ws) auto
  have w: "0 < unat w" "unat w \<le> 1024" "unat w \<le> length body - 0" "accepted ws' (length body - unat w)"
    using assms(5) ws by simp_all
  obtain s1 where s1: "resend_from_cache i s' = Done () s1" "sends_page i body s1" "v_sent_bytes s1 ! i = int (unat w)"
    "v_writes (v_os s1) = ws' @ rest" "v_clients s1 = v_clients s'" "v_selects (v_os s1) = replicate (length ws') 0 @ sels"
    "v_cache s1 = v_cache s'" "v_dialed (v_os s1) = v_dialed (v_os s')"
    "v_wire (v_os s1) = v_wire (v_os s') @ [(v_clients s' ! i, map Some (take (unat w) body))]"
    using resend_step [OF assms(2) _ _ w(1-3), of "ws' @ rest"] assms(3,4,7) ws by auto
  have le: "unat w \<le> length body" using w(3) by simp
  obtain t ps where t: "serve_rounds (length ws') i s1 = Done () t" "v_cache t = v_cache s1" "v_dialed (v_os t) = v_dialed (v_os s1)"
    "v_wire (v_os t) = v_wire (v_os s1) @ map (Pair (v_clients s1 ! i)) ps" "concat ps = map Some (drop (unat w) body)"
    using rounds_all [OF s1(2,3) le s1(4) w(4) s1(6)] s1(5) assms(8) by auto
  have "map Some (take (unat w) body) @ map Some (drop (unat w) body) = map Some body"
    by (metis append_take_drop_id map_append)
  then show ?thesis
    using assms(1) s1 t ws by (intro exI [of _ t] exI [of _ "map Some (take (unat w) body) # ps"]) simp
qed

lemma index_in_cache:
  assumes "k < 10"
  shows "unat (of_nat k :: int32) = k" "(of_nat k :: int32) \<noteq> EMPTY"
proof -
  show u: "unat (of_nat k :: int32) = k" using assms by (simp add: unat_of_nat)
  show "(of_nat k :: int32) \<noteq> EMPTY"
  proof
    assume "(of_nat k :: int32) = EMPTY"
    moreover have "sint (of_nat k :: int32) = int k" by (rule sint32_of_nat_small) (use assms in simp)
    ultimately show False by (simp add: EMPTY_def)
  qed
qed



definition fresh_v1 :: "Os_v1 \<Rightarrow> Proxy_v1" where
  "fresh_v1 os = (new_Proxy_v1 os)\<lparr>v_clients := 5 # 8 # replicate 8 EMPTY, v_connected := 2\<rparr>"

lemma fresh_v1_inv: "inv_v1 (fresh_v1 os)"
  by (simp add: fresh_v1_def inv_v1_def new_Proxy_v1_def occupied_def EMPTY_def MAX_CLIENTS_AMOUNT_def)


text \<open>
  C17: the same request from any client is answered from the cache: the page goes out byte for byte over the
  rounds that follow, nothing is dialed, and the cache stays as it is.
\<close>

theorem page_served_from_cache:
  assumes "inv_v1 s" "j < 10" "2 \<le> sint (v_clients s ! j)"
    and "no_zero u" "u \<noteq> []" "length u < 512" "u \<noteq> ''/exit''" "parse_URL u = (Some url, u)"
    and "find_title u (v_cache s) 0 = Some k" "k < length (v_cache s)"
    and "p_page_size (v_cache s ! k) = int (length body)" "take (length body) (p_page (v_cache s ! k)) = map Some body" "body \<noteq> []"
    and "v_reads (v_os s) = Bytes u # rs" "v_selects (v_os s) = 1 # replicate (length ws - 1) 0 @ sels"
    and "v_writes (v_os s) = ws @ rest" "accepted ws (length body)"
  shows "\<exists>t ps. serve_rounds (length ws) j s = Done () t
    \<and> v_wire (v_os t) = v_wire (v_os s) @ map (Pair (v_clients s ! j)) ps \<and> concat ps = map Some body
    \<and> v_dialed (v_os t) = v_dialed (v_os s) \<and> v_cache t = v_cache s"
proof -
  have k: "k < 10" using assms(1,10) by (simp add: inv_v1_def CACHE_SIZE_def)
  define s' where "s' = s\<lparr>v_os := (v_os s)\<lparr>v_selects := replicate (length ws - 1) 0 @ sels, v_reads := rs\<rparr>,
    v_cache_to_client := (v_cache_to_client s)[j := of_nat k], v_sent_bytes := (v_sent_bytes s)[j := 0]\<rparr>"
  have "c_string u = u" using assms(4) by (rule c_string_no_zero)
  then have read: "read_url j (s\<lparr>v_os := (v_os s)\<lparr>v_selects := replicate (length ws - 1) 0 @ sels\<rparr>\<rparr>) = Done True s'"
    using assms(5-9,14) by (simp add: read_url_def read_v1_def ADDRESS_BUF_SIZE_def try_find_at_cache_def s'_def)
  have first: "serve_client j s = resend_from_cache j s'"
    by (rule requesting_round [OF assms(15) _ assms(3) read]) simp
  have sends: "sends_page j body s'" "v_sent_bytes s' ! j = 0"
    using assms(1,2,11,12) index_in_cache [OF k] by (simp_all add: s'_def sends_page_def inv_v1_def MAX_CLIENTS_AMOUNT_def)
  have "v_writes (v_os s') = ws @ rest" "v_selects (v_os s') = replicate (length ws - 1) 0 @ sels" "2 \<le> sint (v_clients s' ! j)"
    using assms(3,16) by (simp_all add: s'_def)
  from rounds_from [OF first sends this(1) assms(17,13) this(2,3)]
  show ?thesis by (auto simp: s'_def)
qed

theorem page_served_from_cache_witness:
  "\<exists>s t ps. serve_rounds 1 1 s = Done () t \<and> v_wire (v_os t) = map (Pair 8) ps \<and> concat ps = map Some ''abc''"
proof -
  define s where "s = (fresh_v1 \<lparr>v_selects = [1], v_accepts = [], v_reads = [Bytes ''h/p''], v_writes = [3], v_connects = [],
      v_wire = [], v_dialed = [], v_closed = []\<rparr>)\<lparr>v_cache := [\<lparr>p_title = ''h/p'', p_page_size = 3, p_page = map Some ''abc''\<rparr>]\<rparr>"
  have inv: "inv_v1 s"
    using fresh_v1_inv by (auto simp: s_def inv_v1_def fresh_v1_def new_Proxy_v1_def CACHE_SIZE_def)
  have "parse_URL (''h'' @ ''/'' @ ''p'') = (Some \<lparr>u_host = Some ''h'', u_path = Some ''p'', u_port = 80\<rparr>, ''h/p'')"
    by (subst parse_plain) (simp_all add: plain_def)
  then have "\<exists>t ps. serve_rounds (length [3 :: int32]) 1 s = Done () t
    \<and> v_wire (v_os t) = v_wire (v_os s) @ map (Pair (v_clients s ! 1)) ps \<and> concat ps = map Some ''abc''
    \<and> v_dialed (v_os t) = v_dialed (v_os s) \<and> v_cache t = v_cache s"
    by (intro page_served_from_cache [OF inv, where u = "''h/p''" and k = 0 and rs = "[]" and sels = "[]" and rest = "[]"])
       (simp_all add: s_def fresh_v1_def new_Proxy_v1_def)
  then show ?thesis by (auto simp: s_def fresh_v1_def new_Proxy_v1_def)
qed

end
