(* ===== verification/Lab31_V1_Client.thy ===== *)
theory Lab31_V1_Client
  imports Lab31_V1_Exchange
begin

text \<open>
  \<open>lab31/v1/proxy_test.c\<close>, a copy of the first proxy that reads its requests by \<open>getline\<close>, and
  \<open>lab31/v1/client.c\<close>, the terminal client of both. What the copy shares with \<open>proxy.c\<close> is taken from
  \<open>Lab31_V1\<close>.
\<close>

section \<open>Requests as lines\<close>

text \<open>
  \<open>getline\<close> on a stream opened for this call: it reads chunks up to one with a newline. What comes behind
  the newline in that chunk stays in the stream's buffer, which nobody reads again. No bytes at all is the result -1.
\<close>

fun getline_from :: "ReadAnswer list \<Rightarrow> string \<Rightarrow> (string option, ReadAnswer list) outcome" where
  "getline_from [] acc = Fault OutOfFuel"
| "getline_from (ReadFails # rs) acc = Done (if acc = [] then None else Some acc) rs"
| "getline_from (Bytes bs # rs) acc =
     (if bs = [] then Done (if acc = [] then None else Some acc) rs
      else if CHR 0x0A \<in> set bs then Done (Some (acc @ takeWhile (\<lambda>c. c \<noteq> CHR 0x0A) bs @ [CHR 0x0A])) rs
      else getline_from rs (acc @ bs))"

definition getline_v1 :: "Proxy_v1 \<Rightarrow> (string option, Proxy_v1) outcome" where
  "getline_v1 s = (case getline_from (v_reads (v_os s)) [] of
     Fault x \<Rightarrow> Fault x
   | Throws e rs \<Rightarrow> Throws e s
   | Done r rs \<Rightarrow> Done r (s\<lparr>v_os := (v_os s)\<lparr>v_reads := rs\<rparr>\<rparr>))"

text \<open>
  The last byte of the line is cut off before the result of \<open>getline\<close> is looked at: without a line the buffer
  was never written, and with a zero at the front the index is -1.
\<close>

definition read_url_test :: "nat \<Rightarrow> Proxy_v1 \<Rightarrow> (bool, Proxy_v1) outcome" where
  "read_url_test client_i s =
     bind (getline_v1 s) (\<lambda>r s. case r of
       None \<Rightarrow> Fault Indeterminate
     | Some line \<Rightarrow>
         if c_string line = [] then Fault OutOfBounds
         else
           let url_buffer = butlast (c_string line)
           in if url_buffer = ''/exit''
              then Done False (handle_client_disconnecting client_i (s\<lparr>v_connected := v_connected s - 1\<rparr>))
              else case parse_URL url_buffer of
                (None, _) \<Rightarrow> Done False s
              | (Some url, url_buffer) \<Rightarrow>
                  let (found, s) = try_find_at_cache client_i url_buffer s
                  in if found then Done True s else fetch_page client_i url url_buffer s)"

definition serve_client_test :: "nat \<Rightarrow> Proxy_v1 \<Rightarrow> (unit, Proxy_v1) outcome" where
  "serve_client_test client_i s =
     (if sint (v_clients s ! client_i) < 2 then Done () s
      else
        bind (select_v1 s) (\<lambda>r s.
        bind (if r \<noteq> 0 then read_url_test client_i s else Done True s) (\<lambda>resend s.
        if resend then resend_from_cache client_i s else Done () s)))"

definition serve_clients_test :: "Proxy_v1 \<Rightarrow> (unit, Proxy_v1) outcome" where
  "serve_clients_test s =
     foldl (\<lambda>m client_i. bind m (\<lambda>_ s. serve_client_test client_i s)) (Done () s) [0..<MAX_CLIENTS_AMOUNT]"

fun main_loop_test :: "nat \<Rightarrow> string \<Rightarrow> Proxy_v1 \<Rightarrow> (unit, Proxy_v1) outcome" where
  "main_loop_test 0 ticks s = Fault OutOfFuel"
| "main_loop_test (Suc k) ticks s =
     bind (select_v1 s) (\<lambda>r s.
     if r \<noteq> 0 then Done () s
     else
       bind (try_accept_new_client ticks s) (\<lambda>_ s.
       bind (serve_clients_test s) (\<lambda>_ s. main_loop_test k ticks s)))"

section \<open>The client\<close>

text \<open>
  The answers of the calls, one list each; a \<open>select\<close> answers with its result and the value of \<open>errno\<close>
  after it, which the program looks at whether or not the call failed.
\<close>

record Client_v1 =
  t_select_socket :: "(int32 \<times> int32) list"
  t_read_socket :: "ReadAnswer list"
  t_select_stdin :: "int32 list"
  t_read_stdin :: "ReadAnswer list"
  t_screen :: "string list"
  t_sent :: "string list"
  t_readBytes :: int
  t_closed_v1 :: bool

definition CLIENT_BUFFER_SIZE :: nat where
  "CLIENT_BUFFER_SIZE = 1024"

definition from_socket :: "Client_v1 \<Rightarrow> (unit, Client_v1) outcome" where
  "from_socket s = (case t_read_socket s of
     [] \<Rightarrow> Fault OutOfFuel
   | ReadFails # rs \<Rightarrow> Done () (s\<lparr>t_read_socket := rs, t_readBytes := -1\<rparr>)
   | Bytes bs # rs \<Rightarrow>
       let recvBuff = take (CLIENT_BUFFER_SIZE - 1) bs;
           s = s\<lparr>t_read_socket := rs, t_readBytes := int (length recvBuff)\<rparr>
       in if recvBuff = [] then Done () s else Done () (s\<lparr>t_screen := t_screen s @ [c_string recvBuff]\<rparr>))"

text \<open>The result tells whether the loop is left.\<close>

definition from_stdin :: "Client_v1 \<Rightarrow> (bool, Client_v1) outcome" where
  "from_stdin s = (case t_read_stdin s of
     [] \<Rightarrow> Fault OutOfFuel
   | ReadFails # rs \<Rightarrow> Done False (s\<lparr>t_read_stdin := rs, t_readBytes := -1\<rparr>)
   | Bytes bs # rs \<Rightarrow>
       let recvBuff = take (CLIENT_BUFFER_SIZE - 1) bs;
           s = s\<lparr>t_read_stdin := rs, t_readBytes := int (length recvBuff)\<rparr>
       in if recvBuff = [] then Done False s
          else
            let line = c_string (butlast recvBuff); s = s\<lparr>t_sent := t_sent s @ [line]\<rparr>
            in if line = ''/exit'' then Done True (s\<lparr>t_closed_v1 := True\<rparr>) else Done False s)"

fun client_loop :: "nat \<Rightarrow> Client_v1 \<Rightarrow> (unit, Client_v1) outcome" where
  "client_loop 0 s = Fault OutOfFuel"
| "client_loop (Suc k) s = (case t_select_socket s of
     [] \<Rightarrow> Fault OutOfFuel
   | (select_socket, errno) # as \<Rightarrow>
       let s = s\<lparr>t_select_socket := as\<rparr>
       in if errno \<noteq> 0 then Done () (s\<lparr>t_closed_v1 := True\<rparr>)
          else
            bind (if select_socket \<noteq> 0 then from_socket s else Done () s) (\<lambda>_ s.
            case t_select_stdin s of
              [] \<Rightarrow> Fault OutOfFuel
            | r # rs \<Rightarrow>
                let s = s\<lparr>t_select_stdin := rs\<rparr>
                in bind (if r \<noteq> 0 then from_stdin s else Done False s) (\<lambda>stop s.
                   if stop then Done () s else client_loop k s)))"

text \<open>The codes of \<open>socket\<close>, \<open>inet_pton\<close> and \<open>connect\<close> are inputs.\<close>

definition main_client :: "int32 \<Rightarrow> int32 \<Rightarrow> int32 \<Rightarrow> int32 \<Rightarrow> nat \<Rightarrow> Client_v1 \<Rightarrow> (int32, Client_v1) outcome" where
  "main_client argc sockFd addressCode connectCode fuel s =
     (if argc \<noteq> 2 then Done 1 s
      else if sint sockFd < 0 then Done 1 s
      else if sint addressCode \<le> 0 then Done 2 s
      else if sint connectCode < 0 then Done 3 s
      else bind (client_loop fuel s) (\<lambda>_ s. Done 0 s))"

section \<open>The copy serves the same requests\<close>

text \<open>
  A request sent as a line of fewer than 512 bytes is served by the copy exactly as \<open>proxy.c\<close> serves the
  same bytes without their newline; whatever else came with the line is lost. Where they differ is the end:
  a client that closes its connection goes unnoticed in \<open>proxy.c\<close>, and makes the copy use a buffer that was never written.
\<close>

theorem lines_served_alike:
  assumes "no_zero u" "CHR 0x0A \<notin> set u" "u \<noteq> []" "length u < 512"
    and "v_reads (v_os s) = Bytes (u @ CHR 0x0A # behind) # rs"
  shows "read_url_test i s = read_url i (s\<lparr>v_os := (v_os s)\<lparr>v_reads := Bytes u # rs\<rparr>\<rparr>)
    \<and> read_url i (s\<lparr>v_os := (v_os s)\<lparr>v_reads := Bytes [] # rs\<rparr>\<rparr>) = Done True (s\<lparr>v_os := (v_os s)\<lparr>v_reads := rs\<rparr>\<rparr>)
    \<and> read_url_test i (s\<lparr>v_os := (v_os s)\<lparr>v_reads := Bytes [] # rs\<rparr>\<rparr>) = Fault Indeterminate"
proof (intro conjI)
  have "takeWhile (\<lambda>c. c \<noteq> CHR 0x0A) (u @ CHR 0x0A # behind) = u"
    using assms(2) by (subst takeWhile_append2) auto
  then have "getline_v1 s = Done (Some (u @ [CHR 0x0A])) (s\<lparr>v_os := (v_os s)\<lparr>v_reads := rs\<rparr>\<rparr>)"
    using assms(5) by (simp add: getline_v1_def)
  moreover have "c_string (u @ [CHR 0x0A]) = u @ [CHR 0x0A]" using assms(1) by (simp add: c_string_no_zero)
  moreover have "c_string u = u" using assms(1) by (rule c_string_no_zero)
  ultimately show "read_url_test i s = read_url i (s\<lparr>v_os := (v_os s)\<lparr>v_reads := Bytes u # rs\<rparr>\<rparr>)"
    using assms(3,4) by (simp add: read_url_test_def read_url_def read_v1_def ADDRESS_BUF_SIZE_def)
qed (simp_all add: read_url_def read_v1_def read_url_test_def getline_v1_def)

theorem lines_served_alike_witness:
  "\<exists>s. v_reads (v_os s) = [Bytes (''h/p'' @ CHR 0x0A # ''x'')]
     \<and> read_url_test 0 s = read_url 0 (s\<lparr>v_os := (v_os s)\<lparr>v_reads := [Bytes ''h/p'']\<rparr>\<rparr>)"
proof -
  define s where "s = new_Proxy_v1 \<lparr>v_selects = [], v_accepts = [], v_reads = [Bytes (''h/p'' @ CHR 0x0A # ''x'')], v_writes = [],
     v_connects = [], v_wire = [], v_dialed = [], v_closed = []\<rparr>"
  have s: "v_reads (v_os s) = [Bytes (''h/p'' @ CHR 0x0A # ''x'')]" by (simp add: s_def new_Proxy_v1_def)
  then have "read_url_test 0 s = read_url 0 (s\<lparr>v_os := (v_os s)\<lparr>v_reads := [Bytes ''h/p'']\<rparr>\<rparr>)"
    by (intro lines_served_alike [THEN conjunct1]) (simp_all add: no_zero_def)
  with s show ?thesis by blast
qed

section \<open>What the client does\<close>

text \<open>
  The input of a session: every round has a chunk from the proxy and a line from the user, and
  \<open>select\<close> reports both. The last line is \<open>/exit\<close>.
\<close>

definition session :: "string list \<Rightarrow> string list \<Rightarrow> Client_v1 \<Rightarrow> bool" where
  "session chunks lines s \<longleftrightarrow> length chunks = length lines
     \<and> list_all (\<lambda>c. c \<noteq> [] \<and> length c \<le> 1023) chunks
     \<and> list_all (\<lambda>l. no_zero l \<and> length l \<le> 1022) lines
     \<and> t_select_socket s = replicate (length lines) (1, 0) \<and> t_select_stdin s = replicate (length lines) 1
     \<and> t_read_socket s = map Bytes chunks \<and> t_read_stdin s = map (\<lambda>l. Bytes (l @ [CHR 0x0A])) lines"

lemma from_stdin_line:
  assumes "t_read_stdin s = Bytes (l @ [CHR 0x0A]) # rs" "no_zero l" "length l \<le> 1022"
  shows "from_stdin s = Done (l = ''/exit'') (s\<lparr>t_read_stdin := rs, t_readBytes := int (length l) + 1, t_sent := t_sent s @ [l],
    t_closed_v1 := (l = ''/exit'' \<or> t_closed_v1 s)\<rparr>)"
proof -
  have "c_string l = l" using assms(2) by (rule c_string_no_zero)
  then show ?thesis using assms by (simp add: from_stdin_def CLIENT_BUFFER_SIZE_def Let_def)
qed

lemma from_socket_chunk:
  assumes "t_read_socket s = Bytes c # rs" "c \<noteq> []" "length c \<le> 1023"
  shows "from_socket s = Done () (s\<lparr>t_read_socket := rs, t_readBytes := int (length c), t_screen := t_screen s @ [c_string c]\<rparr>)"
  using assms by (simp add: from_socket_def CLIENT_BUFFER_SIZE_def Let_def)

lemma client_round:
  assumes "session (c # cs) (l # ls) s"
  shows "\<exists>s'. session cs ls s' \<and> t_screen s' = t_screen s @ [c_string c] \<and> t_sent s' = t_sent s @ [l]
    \<and> t_closed_v1 s' = (l = ''/exit'' \<or> t_closed_v1 s)
    \<and> client_loop (Suc k) s = (if l = ''/exit'' then Done () s' else client_loop k s')"
proof -
  define s1 where "s1 = s\<lparr>t_select_socket := replicate (length ls) (1, 0)\<rparr>"
  define s2 where "s2 = s1\<lparr>t_read_socket := map Bytes cs, t_readBytes := int (length c), t_screen := t_screen s1 @ [c_string c]\<rparr>"
  define s3 where "s3 = s2\<lparr>t_select_stdin := replicate (length ls) 1\<rparr>"
  define s4 where "s4 = s3\<lparr>t_read_stdin := map (\<lambda>l. Bytes (l @ [CHR 0x0A])) ls, t_readBytes := int (length l) + 1,
    t_sent := t_sent s3 @ [l], t_closed_v1 := (l = ''/exit'' \<or> t_closed_v1 s3)\<rparr>"
  have 2: "from_socket s1 = Done () s2"
    unfolding s2_def by (rule from_socket_chunk) (use assms in \<open>simp_all add: session_def s1_def\<close>)
  have 4: "from_stdin s3 = Done (l = ''/exit'') s4"
    unfolding s4_def by (rule from_stdin_line) (use assms in \<open>simp_all add: session_def s3_def s2_def s1_def\<close>)
  have "t_select_stdin s2 = 1 # replicate (length ls) 1" using assms by (simp add: session_def s2_def s1_def)
  then have "client_loop (Suc k) s = (if l = ''/exit'' then Done () s4 else client_loop k s4)"
    using assms 2 4 by (simp add: session_def s1_def [symmetric] s3_def [symmetric])
  moreover have "session cs ls s4" "t_screen s4 = t_screen s @ [c_string c]" "t_sent s4 = t_sent s @ [l]"
    "t_closed_v1 s4 = (l = ''/exit'' \<or> t_closed_v1 s)"
    using assms by (auto simp: session_def s1_def s2_def s3_def s4_def)
  ultimately show ?thesis by blast
qed

declare client_loop.simps [simp del]

lemma client_session:
  "session (cs @ [c]) (ls @ [''/exit'']) s \<Longrightarrow> ''/exit'' \<notin> set ls \<Longrightarrow> length cs = length ls \<Longrightarrow>
   \<exists>s'. client_loop (Suc (length ls)) s = Done () s' \<and> t_screen s' = t_screen s @ map c_string (cs @ [c])
     \<and> t_sent s' = t_sent s @ ls @ [''/exit''] \<and> t_closed_v1 s'"
proof (induction ls arbitrary: cs s)
  case Nil
  then have "session (c # []) (''/exit'' # []) s" by simp
  from client_round [OF this, of 0] show ?case using Nil.prems(3) by auto
next
  case (Cons l ls)
  then obtain c' cs' where cs: "cs = c' # cs'" "length cs' = length ls" by (cases cs) auto
  have "session (c' # cs' @ [c]) (l # ls @ [''/exit'']) s" using Cons.prems(1) cs by simp
  from client_round [OF this, of "Suc (length ls)"] obtain s1 where s1: "session (cs' @ [c]) (ls @ [''/exit'']) s1"
    "t_screen s1 = t_screen s @ [c_string c']" "t_sent s1 = t_sent s @ [l]"
    "client_loop (Suc (Suc (length ls))) s = (if l = ''/exit'' then Done () s1 else client_loop (Suc (length ls)) s1)" by blast
  then have "client_loop (Suc (Suc (length ls))) s = client_loop (Suc (length ls)) s1" using Cons.prems(2) by auto
  with Cons.IH [OF s1(1)] Cons.prems(2) cs(2) s1(2,3) show ?case by (auto simp: cs(1))
qed

text \<open>
  In a session in which the proxy answers and the user types a line in every round, the client shows each
  chunk up to its first zero, sends each line of at most 1022 bytes without its newline, in order, and
  returns with code 0 after the line \<open>/exit\<close>, which it sends, too; as many rounds as lines are enough. A value left
  in \<open>errno\<close> by any earlier call ends the session although nothing failed.
\<close>

theorem client_forwards_lines:
  assumes "session (cs @ [c]) (ls @ [''/exit'']) s" "''/exit'' \<notin> set ls" "length cs = length ls" "sint sockFd \<ge> 0"
  shows "(\<exists>s'. main_client 2 sockFd 1 0 (Suc (length ls)) s = Done 0 s' \<and> t_screen s' = t_screen s @ map c_string (cs @ [c])
      \<and> t_sent s' = t_sent s @ ls @ [''/exit''] \<and> t_closed_v1 s')
    \<and> (errno \<noteq> 0 \<longrightarrow> main_client 2 sockFd 1 0 (Suc k) (s\<lparr>t_select_socket := [(1, errno)]\<rparr>)
        = Done 0 (s\<lparr>t_select_socket := [], t_closed_v1 := True\<rparr>))"
proof (intro conjI impI)
  obtain s' where "client_loop (Suc (length ls)) s = Done () s'" "t_screen s' = t_screen s @ map c_string (cs @ [c])"
    "t_sent s' = t_sent s @ ls @ [''/exit'']" "t_closed_v1 s'"
    using client_session [OF assms(1-3)] by blast
  then show "\<exists>s'. main_client 2 sockFd 1 0 (Suc (length ls)) s = Done 0 s' \<and> t_screen s' = t_screen s @ map c_string (cs @ [c])
      \<and> t_sent s' = t_sent s @ ls @ [''/exit''] \<and> t_closed_v1 s'"
    using assms(4) by (auto simp: main_client_def)
qed (use assms(4) in \<open>simp add: main_client_def client_loop.simps\<close>)

theorem client_forwards_lines_witness:
  "\<exists>s s'. main_client 2 3 1 0 2 s = Done 0 s' \<and> t_sent s' = [''h/p'', ''/exit''] \<and> t_screen s' = [''a'', ''b'']"
proof -
  define s where "s = \<lparr>t_select_socket = [(1, 0), (1, 0)], t_read_socket = [Bytes ''a'', Bytes ''b''], t_select_stdin = [1, 1],
    t_read_stdin = [Bytes (''h/p'' @ [CHR 0x0A]), Bytes (''/exit'' @ [CHR 0x0A])], t_screen = [], t_sent = [], t_readBytes = 0,
    t_closed_v1 = False\<rparr>"
  have "session ([''a''] @ [''b'']) ([''h/p''] @ [''/exit'']) s" by (simp add: session_def s_def no_zero_def numeral_2_eq_2)
  then have "\<exists>s'. main_client 2 3 1 0 (Suc (length [''h/p''])) s = Done 0 s'
      \<and> t_screen s' = t_screen s @ map c_string ([''a''] @ [''b'']) \<and> t_sent s' = t_sent s @ [''h/p''] @ [''/exit''] \<and> t_closed_v1 s'"
    by (rule client_forwards_lines [THEN conjunct1]) simp_all
  then obtain s' where "main_client 2 3 1 0 2 s = Done 0 s'" "t_screen s' = [''a'', ''b'']" "t_sent s' = [''h/p'', ''/exit'']"
    by (auto simp: s_def c_string_def numeral_2_eq_2)
  then show ?thesis by blast
qed

end
