(* ===== verification/Lab31_V1_Bounds.thy ===== *)
theory Lab31_V1_Bounds
  imports Lab31_V1_Service
begin

text \<open>
  Where the first proxy can leave its arrays and buffers: a client that sends a request of fewer than
  512 bytes with a host in it, while there is room for a page, and a server that sends at least a byte,
  never make it; every fault of the main loop comes from a client or a server that does otherwise,
  or from a failed \<open>write\<close>.
\<close>

section \<open>Faults and where they come from\<close>

text \<open>If the call ends in a fault, it is one of those named.\<close>

definition only_faults :: "(fault \<Rightarrow> bool) \<Rightarrow> ('v, 's) outcome \<Rightarrow> bool" where
  "only_faults Q m \<longleftrightarrow> (\<forall>x. m = Fault x \<longrightarrow> Q x)"

lemma only_faults_simps [simp]:
  "only_faults Q (Done v s)" "only_faults Q (Throws e s)" "only_faults Q (Fault x) = Q x"
  by (auto simp: only_faults_def)





section \<open>Pages\<close>

text \<open>A page and the zero behind it are inside the block the page was read into.\<close>

definition page_fits :: "int \<Rightarrow> char option list \<Rightarrow> bool" where
  "page_fits page_size page \<longleftrightarrow> 0 \<le> page_size + 1 \<and> page_size + 1 < int (length page)"

definition pages_fit :: "Proxy_v1 \<Rightarrow> bool" where
  "pages_fit s \<longleftrightarrow> (\<forall>e \<in> set (v_cache s). page_fits (p_page_size e) (p_page e))"

text \<open>The answers of a server that sends at least a byte, no read failing up to its close.\<close>

fun no_fail :: "ReadAnswer list \<Rightarrow> bool" where
  "no_fail [] = True"
| "no_fail (ReadFails # rs) = False"
| "no_fail (Bytes bs # rs) = (bs = [] \<or> no_fail rs)"

fun page_comes :: "ReadAnswer list \<Rightarrow> bool" where
  "page_comes [] = True"
| "page_comes (ReadFails # rs) = False"
| "page_comes (Bytes bs # rs) = (bs \<noteq> [] \<and> no_fail rs)"



section \<open>Paths\<close>



section \<open>Requests that are taken care of\<close>

text \<open>
  The bytes a client has sent, and the answers behind them: fewer than 512 bytes, and a page that
  is in the cache already, or a host to ask, a free place for the page, and a server that sends it.
\<close>

definition request_ok :: "Proxy_v1 \<Rightarrow> bool" where
  "request_ok s \<longleftrightarrow> (case v_reads (v_os s) of
     [] \<Rightarrow> True
   | ReadFails # rs \<Rightarrow> False
   | Bytes bs # rs \<Rightarrow> length bs < ADDRESS_BUF_SIZE \<and> (bs = [] \<or> c_string bs = ''/exit'' \<or>
       (case parse_URL (c_string bs) of
          (None, title) \<Rightarrow> True
        | (Some url, title) \<Rightarrow> find_title title (v_cache s) 0 \<noteq> None
            \<or> u_host url \<noteq> None \<and> length (v_cache s) < CACHE_SIZE \<and> page_comes rs)))"


lemma request_ok_selects [simp]: "request_ok (s\<lparr>v_os := (v_os s)\<lparr>v_selects := rs\<rparr>\<rparr>) = request_ok s"
  by (auto simp: request_ok_def split: list.split ReadAnswer.split option.splits)







lemma no_throws_v1 [simp]:
  "select_v1 s \<noteq> Throws e t" "read_v1 n s \<noteq> Throws e t" "write_v1 fd bs s \<noteq> Throws e t"
  "socket_connect h p s \<noteq> Throws e t" "read_to_cache s \<noteq> Throws e t"
  by (auto simp: v1_calls socket_connect_def Let_def read_to_cache_def read_loop_throws_not
      split: list.splits option.splits outcome.splits)


lemma pages_fit_simps [simp]:
  "pages_fit (s\<lparr>v_os := x\<rparr>) = pages_fit s" "pages_fit (close_v1 fd s) = pages_fit s"
  "pages_fit (s\<lparr>v_connected := n\<rparr>) = pages_fit s" "pages_fit (handle_client_disconnecting i s) = pages_fit s"
  "pages_fit (s\<lparr>v_sent_bytes := l\<rparr>) = pages_fit s" "pages_fit (s\<lparr>v_clients := l'\<rparr>) = pages_fit s"
  "pages_fit (s\<lparr>v_cache_to_client := l'\<rparr>) = pages_fit s"
  by (simp_all add: pages_fit_def close_v1_def handle_client_disconnecting_def Let_def)




section \<open>A round\<close>



















end
