(* ===== verification/Threads.thy ===== *)
theory Threads
  imports Prelude Invariants
begin

text \<open>
  What the exercises on two threads that print in turn share: the two threads, and the sequence of
  lines that two loops of numbered lines print when they alternate.
\<close>

datatype Tid = MainThread | NewThread

definition alternating :: "string \<Rightarrow> string \<Rightarrow> nat \<Rightarrow> (nat \<times> string) list" where
  "alternating first second n = map (\<lambda>k. (k div 2, if even k then first else second)) [0..<n]"

lemma alternating_0 [simp]: "alternating a b 0 = []"
  by (simp add: alternating_def)

lemma alternating_Suc:
  "alternating a b (Suc n) = alternating a b n @ [(n div 2, if even n then a else b)]"
  by (simp add: alternating_def)

lemma length_alternating [simp]: "length (alternating a b n) = n"
  by (simp add: alternating_def)

lemma fun_upd_eq_iff: "f(x := a) = f(x := b) \<longleftrightarrow> a = b"
  by (metis fun_upd_same)

end
