(* ===== verification/Lab1_3.thy ===== *)
theory Lab1_3
  imports Threads
begin

text \<open>
  \<open>lab1\<close>, \<open>lab2\<close> and \<open>lab3\<close>: programs that start threads which print, and wait for them or do not. \<open>main\<close> is the
  list of its statements that another thread can notice; what a thread has still to print is a list of
  lines. \<open>printf\<close> locks the console, so a line is printed in one step. The codes that
  \<open>pthread_create\<close> and \<open>pthread_join\<close> return are inputs; on an error \<open>main\<close> returns, which ends the
  process and its threads, whereas \<open>pthread_exit\<close> at the end of \<open>lab1\<close> and \<open>lab3\<close> leaves them running. Messages
  to \<open>stderr\<close> are left out.
\<close>

section \<open>Threads that print\<close>

definition CORRECT_CODE_1 :: int32 where
  "CORRECT_CODE_1 = 0"

definition CORRECT_EXIT_CODE_1 :: int32 where
  "CORRECT_EXIT_CODE_1 = 0"

definition EXCEPTION_EXIT_CODE_1 :: int32 where
  "EXCEPTION_EXIT_CODE_1 = 1"

datatype 'l statement = Create "'l list" int32 | Join nat int32 | Say 'l | Return int32

record 'l Printers =
  console :: "'l list"
  main_left :: "'l statement list"
  to_print :: "'l list list"
  exit_code :: "int32 option"

inductive step_1 :: "'l Printers \<Rightarrow> 'l Printers \<Rightarrow> bool" where
  create: "exit_code s = None \<Longrightarrow> main_left s = Create ls code # as \<Longrightarrow> code = CORRECT_CODE_1 \<Longrightarrow>
    step_1 s (s\<lparr>main_left := as, to_print := to_print s @ [ls]\<rparr>)"
| create_fails: "exit_code s = None \<Longrightarrow> main_left s = Create ls code # as \<Longrightarrow> code \<noteq> CORRECT_CODE_1 \<Longrightarrow>
    step_1 s (s\<lparr>main_left := [], exit_code := Some EXCEPTION_EXIT_CODE_1\<rparr>)"
| join: "exit_code s = None \<Longrightarrow> main_left s = Join k code # as \<Longrightarrow> code = CORRECT_CODE_1 \<Longrightarrow> k < length (to_print s) \<Longrightarrow>
    to_print s ! k = [] \<Longrightarrow> step_1 s (s\<lparr>main_left := as\<rparr>)"
| join_fails: "exit_code s = None \<Longrightarrow> main_left s = Join k code # as \<Longrightarrow> code \<noteq> CORRECT_CODE_1 \<Longrightarrow>
    step_1 s (s\<lparr>main_left := [], exit_code := Some EXCEPTION_EXIT_CODE_1\<rparr>)"
| say: "exit_code s = None \<Longrightarrow> main_left s = Say l # as \<Longrightarrow> step_1 s (s\<lparr>main_left := as, console := console s @ [l]\<rparr>)"
| return: "exit_code s = None \<Longrightarrow> main_left s = Return code # as \<Longrightarrow> step_1 s (s\<lparr>main_left := [], exit_code := Some code\<rparr>)"
| thread: "exit_code s = None \<Longrightarrow> k < length (to_print s) \<Longrightarrow> to_print s ! k = l # ls \<Longrightarrow>
    step_1 s (s\<lparr>console := console s @ [l], to_print := (to_print s)[k := ls]\<rparr>)"

inductive_cases step_1E: "step_1 s s'"

definition start_main :: "'l statement list \<Rightarrow> 'l Printers" where
  "start_main as = \<lparr>console = [], main_left = as, to_print = [], exit_code = None\<rparr>"

section \<open>lab1\<close>

definition LINES_TO_PRINT_COUNT :: nat where
  "LINES_TO_PRINT_COUNT = 10"

definition CHILD :: string where
  "CHILD = ''child''"

definition PARENT :: string where
  "PARENT = ''parent''"

definition printLines :: "string \<Rightarrow> (string \<times> nat) list" where
  "printLines str = map (\<lambda>i. (str, i)) [0..<LINES_TO_PRINT_COUNT]"

definition threadFunction_1 :: "(string \<times> nat) list" where
  "threadFunction_1 = printLines CHILD"

definition main_1 :: "int32 \<Rightarrow> (string \<times> nat) Printers" where
  "main_1 err = start_main (Create threadFunction_1 err # map Say (printLines PARENT))"

section \<open>lab2\<close>

definition printLines_2 :: "string \<Rightarrow> (string \<times> nat) list" where
  "printLines_2 str = map (\<lambda>i. (str, i)) [0..<LINES_TO_PRINT_COUNT]"

definition threadFunction_2 :: "(string \<times> nat) list" where
  "threadFunction_2 = printLines_2 CHILD"

definition main_2 :: "int32 \<Rightarrow> int32 \<Rightarrow> (string \<times> nat) Printers" where
  "main_2 create_err join_err = start_main
     ([Create threadFunction_2 create_err, Join 0 join_err] @ map Say (printLines_2 PARENT) @ [Return CORRECT_EXIT_CODE_1])"

section \<open>lab3\<close>

definition NUM_OF_THREADS_3 :: nat where
  "NUM_OF_THREADS_3 = 4"

text \<open>The rows of the table; a null pointer ends a row.\<close>

definition messages :: "string option list list" where
  "messages =
     [[Some ''Thread 1, line 1'', Some ''Thread 1, line 2'', Some ''Thread 1, line 3'', None],
      [Some ''Thread 2, line 1'', Some ''Thread 2, line 2'', Some ''Thread 2, line 3'', None],
      [Some ''Thread 3, line 1'', Some ''Thread 3, line 2'', Some ''Thread 3, line 3'', None],
      [Some ''Thread 4, line 1'', Some ''Thread 4, line 2'', Some ''Thread 4, line 3'', None]]"

fun print_message :: "string option list \<Rightarrow> string list" where
  "print_message (Some line # message) = line # print_message message"
| "print_message _ = []"

definition main_3 :: "int32 list \<Rightarrow> int32 list \<Rightarrow> string Printers" where
  "main_3 create_errs join_errs = start_main
     (map (\<lambda>thread_num. Create (print_message (messages ! thread_num)) (create_errs ! thread_num)) [0..<NUM_OF_THREADS_3]
      @ map (\<lambda>thread_num. Join thread_num (join_errs ! thread_num)) [0..<NUM_OF_THREADS_3])"

end
