(* ===== verification/Lab1_3_Correct.thy ===== *)
theory Lab1_3_Correct
  imports Lab1_3
begin

text \<open>
  What \<open>lab1\<close>, \<open>lab2\<close> and \<open>lab3\<close> can print: the interleavings of their threads' lines, all of them and nothing
  else, and with a join before the first line of \<open>main\<close> exactly one of them.
\<close>

section \<open>Interleavings\<close>

text \<open>\<open>mixes xss zs\<close>: \<open>zs\<close> takes all lists in \<open>xss\<close> apart from the front, in any order among them.\<close>

inductive mixes :: "'l list list \<Rightarrow> 'l list \<Rightarrow> bool" where
  mixes_Nil: "\<forall>xs \<in> set xss. xs = [] \<Longrightarrow> mixes xss []"
| mixes_Cons: "k < length xss \<Longrightarrow> xss ! k = z # xs \<Longrightarrow> mixes (xss[k := xs]) zs \<Longrightarrow> mixes xss (z # zs)"

inductive_cases mixes_NilE: "mixes xss []"
inductive_cases mixes_ConsE: "mixes xss (z # zs)"

lemma mixes_Nil_iff [simp]: "mixes xss [] \<longleftrightarrow> (\<forall>xs \<in> set xss. xs = [])"
  by (auto elim: mixes_NilE intro: mixes_Nil)

lemma mixes_shuffles: "mixes [xs, ys] zs \<longleftrightarrow> zs \<in> shuffles xs ys"
proof
  show "mixes [xs, ys] zs \<Longrightarrow> zs \<in> shuffles xs ys"
  proof (induction zs arbitrary: xs ys)
    case Nil
    then show ?case by (auto elim: mixes_NilE)
  next
    case (Cons z zs)
    from Cons.prems show ?case
    proof (rule mixes_ConsE)
      fix k rest assume k: "k < length [xs, ys]" "[xs, ys] ! k = z # rest" "mixes ([xs, ys][k := rest]) zs"
      then consider "k = 0" | "k = 1" by fastforce
      then show ?thesis using k Cons.IH by cases (auto intro: Cons_in_shuffles_leftI Cons_in_shuffles_rightI)
    qed
  qed
  show "zs \<in> shuffles xs ys \<Longrightarrow> mixes [xs, ys] zs"
  proof (induction zs arbitrary: xs ys)
    case Nil
    then show ?case by (auto intro: mixes_Nil)
  next
    case (Cons z zs)
    from Cons.prems consider xs' where "xs = z # xs'" "zs \<in> shuffles xs' ys"
      | ys' where "ys = z # ys'" "zs \<in> shuffles xs ys'"
      by (cases xs; cases ys) (auto simp: Cons_in_shuffles_iff)
    then show ?case
      using Cons.IH mixes_Cons [of 0 "[xs, ys]" z _ zs] mixes_Cons [of 1 "[xs, ys]" z _ zs] by cases simp_all
  qed
qed

lemma length_taken:
  "k < length xss \<Longrightarrow> xss ! k = x # xs \<Longrightarrow> sum_list (map length xss) = Suc (sum_list (map length (xss[k := xs])))"
proof (induction xss arbitrary: k)
  case (Cons ys xss)
  then show ?case by (cases k) auto
qed simp

lemma mixes_length: "mixes xss zs \<Longrightarrow> length zs = sum_list (map length xss)"
proof (induction rule: mixes.induct)
  case (mixes_Nil xss)
  then show ?case by (induction xss) auto
qed (simp add: length_taken)

section \<open>Every run\<close>

fun says :: "'l statement list \<Rightarrow> 'l list" where
  "says (Say l # as) = l # says as"
| "says (_ # as) = says as"
| "says [] = []"

fun creates :: "'l statement list \<Rightarrow> 'l list list" where
  "creates (Create ls code # as) = ls # creates as"
| "creates (_ # as) = creates as"
| "creates [] = []"

text \<open>What is still to be printed: by \<open>main\<close>, by the threads there are and by those still to be created.\<close>

definition rests :: "'l Printers \<Rightarrow> 'l list list" where
  "rests s = says (main_left s) # to_print s @ creates (main_left s)"

fun joins_ok :: "nat \<Rightarrow> 'l statement list \<Rightarrow> bool" where
  "joins_ok n [] \<longleftrightarrow> True"
| "joins_ok n (Create ls code # as) \<longleftrightarrow> joins_ok (Suc n) as"
| "joins_ok n (Join k code # as) \<longleftrightarrow> k < n \<and> joins_ok n as"
| "joins_ok n (_ # as) \<longleftrightarrow> joins_ok n as"

definition inv_1 :: "'l list list \<Rightarrow> 'l Printers \<Rightarrow> bool" where
  "inv_1 rows s \<longleftrightarrow> exit_code s = None \<longrightarrow>
     joins_ok (length (to_print s)) (main_left s) \<and> (\<forall>zs. mixes (rests s) zs \<longrightarrow> mixes rows (console s @ zs))"

lemma inv_1_step:
  assumes "inv_1 rows s" "step_1 s t"
  shows "inv_1 rows t"
  using assms(2)
proof cases
  case (say l as)
  have "mixes rows (console s @ l # zs)" if "mixes (says as # to_print s @ creates as) zs" for zs
    using assms(1) say that mixes_Cons [of 0 "rests s" l "says as" zs] by (simp add: inv_1_def rests_def)
  with say assms(1) show ?thesis by (simp add: inv_1_def rests_def)
next
  case (thread k l ls)
  have "mixes rows (console s @ l # zs)" if "mixes (says (main_left s) # (to_print s)[k := ls] @ creates (main_left s)) zs" for zs
    using assms(1) thread that mixes_Cons [of "Suc k" "rests s" l ls zs]
    by (simp add: inv_1_def rests_def nth_append list_update_append)
  with thread assms(1) show ?thesis by (simp add: inv_1_def rests_def)
qed (use assms(1) in \<open>auto simp: inv_1_def rests_def\<close>)

lemma inv_1_start: "joins_ok 0 as \<Longrightarrow> inv_1 (says as # creates as) (start_main as)"
  by (simp add: inv_1_def rests_def start_main_def)

interpretation printers: invariant_system "\<lambda>s. s = start_main as \<and> joins_ok 0 as" step_1 "inv_1 (says as # creates as)"
  for as :: "'l statement list"
  by unfold_locales (auto intro: inv_1_start inv_1_step)

fun cost :: "'l statement \<Rightarrow> nat" where
  "cost (Create ls code) = Suc (length ls)"
| "cost _ = 1"

definition work_1 :: "'l Printers \<Rightarrow> nat" where
  "work_1 s = sum_list (map cost (main_left s)) + sum_list (map length (to_print s))"

lemma work_1_step: "step_1 s t \<Longrightarrow> work_1 t < work_1 s"
  by (induction rule: step_1.induct) (auto simp: work_1_def length_taken)

interpretation ending_1: terminating_system "step_1 :: 'l Printers \<Rightarrow> 'l Printers \<Rightarrow> bool" work_1
  by unfold_locales (rule work_1_step)

lemma stuck_1:
  assumes "inv_1 rows s" "exit_code s = None" "\<And>t. \<not> step_1 s t"
  shows "main_left s = [] \<and> (\<forall>ls \<in> set (to_print s). ls = [])"
proof -
  have empty: "to_print s ! k = []" if "k < length (to_print s)" for k
    using thread [OF assms(2) that] assms(3) by (cases "to_print s ! k") auto
  have "main_left s = []"
  proof (cases "main_left s")
    case (Cons a as)
    then show ?thesis
      using assms empty create [OF assms(2)] create_fails [OF assms(2)] join [OF assms(2)] join_fails [OF assms(2)]
        say [OF assms(2)] return [OF assms(2)]
      by (cases a) (fastforce simp: inv_1_def)+
  qed
  with empty show ?thesis by (auto simp: in_set_conv_nth)
qed

lemma done_1:
  assumes "main_left s = []" "\<forall>ls \<in> set (to_print s). ls = []"
  shows "\<not> step_1 s u"
proof
  assume "step_1 s u"
  then show False
  proof cases
    case (thread k l ls)
    with assms(2) show False by (metis list.distinct(1) nth_mem)
  qed (use assms(1) in auto)
qed

lemma ends_mixed:
  assumes "joins_ok 0 as" "step_1\<^sup>*\<^sup>* (start_main as) t" "\<And>u. \<not> step_1 t u" "exit_code t = None"
  shows "mixes (says as # creates as) (console t)"
proof -
  have inv: "inv_1 (says as # creates as) t" by (rule printers.reachable_inv [OF _ assms(2)]) (simp add: assms(1))
  from stuck_1 [OF inv assms(4,3)] have "\<forall>xs \<in> set (rests t). xs = []" by (simp add: rests_def)
  then have "mixes (rests t) []" by (rule mixes_Nil)
  then have "mixes (says as # creates as) (console t @ [])" using inv assms(4) unfolding inv_1_def by blast
  then show ?thesis by simp
qed

section \<open>lab1\<close>

text \<open>Threads that are there can print in any order.\<close>

lemma threads_reach:
  "mixes (to_print s) zs \<Longrightarrow> exit_code s = None \<Longrightarrow> \<exists>t. step_1\<^sup>*\<^sup>* s t \<and> console t = console s @ zs
     \<and> main_left t = main_left s \<and> exit_code t = None \<and> length (to_print t) = length (to_print s) \<and> (\<forall>ls \<in> set (to_print t). ls = [])"
proof (induction zs arbitrary: s)
  case Nil
  then show ?case by (intro exI [of _ s]) (auto elim: mixes_NilE)
next
  case (Cons z zs)
  from Cons.prems(1) show ?case
  proof (rule mixes_ConsE)
    fix k xs assume k: "k < length (to_print s)" "to_print s ! k = z # xs" "mixes ((to_print s)[k := xs]) zs"
    let ?s = "s\<lparr>console := console s @ [z], to_print := (to_print s)[k := xs]\<rparr>"
    have "step_1 s ?s" using thread [OF Cons.prems(2) k(1,2)] .
    moreover obtain t where "step_1\<^sup>*\<^sup>* ?s t" "console t = console ?s @ zs" "main_left t = main_left s"
      "exit_code t = None" "length (to_print t) = length (to_print s)" "\<forall>ls \<in> set (to_print t). ls = []"
      using Cons.IH [of ?s] k(3) Cons.prems(2) by auto
    ultimately show ?thesis by (intro exI [of _ t]) (auto intro: converse_rtranclp_into_rtranclp)
  qed
qed

lemma main_and_thread_reach:
  "zs \<in> shuffles ls ms \<Longrightarrow> exit_code s = None \<Longrightarrow> main_left s = map Say ls \<Longrightarrow> to_print s = [ms] \<Longrightarrow>
   \<exists>t. step_1\<^sup>*\<^sup>* s t \<and> console t = console s @ zs \<and> exit_code t = None \<and> main_left t = [] \<and> to_print t = [[]]"
proof (induction zs arbitrary: s ls ms)
  case Nil
  then show ?case by (intro exI [of _ s]) auto
next
  case (Cons z zs)
  from Cons.prems(1) consider ls' where "ls = z # ls'" "zs \<in> shuffles ls' ms" | ms' where "ms = z # ms'" "zs \<in> shuffles ls ms'"
    by (cases ls; cases ms) (auto simp: Cons_in_shuffles_iff)
  then show ?case
  proof cases
    case 1
    let ?s = "s\<lparr>main_left := map Say ls', console := console s @ [z]\<rparr>"
    have "step_1 s ?s" using say [of s z "map Say ls'"] Cons.prems 1 by simp
    moreover have "\<exists>t. step_1\<^sup>*\<^sup>* ?s t \<and> console t = console ?s @ zs \<and> exit_code t = None \<and> main_left t = [] \<and> to_print t = [[]]"
      by (rule Cons.IH [OF 1(2)]) (use Cons.prems in simp_all)
    ultimately show ?thesis by (auto intro: converse_rtranclp_into_rtranclp)
  next
    case 2
    let ?s = "s\<lparr>console := console s @ [z], to_print := [ms']\<rparr>"
    have "step_1 s ?s" using thread [of s 0 z ms'] Cons.prems 2 by simp
    moreover have "\<exists>t. step_1\<^sup>*\<^sup>* ?s t \<and> console t = console ?s @ zs \<and> exit_code t = None \<and> main_left t = [] \<and> to_print t = [[]]"
      by (rule Cons.IH [OF 2(2)]) (use Cons.prems in simp_all)
    ultimately show ?thesis by (auto intro: converse_rtranclp_into_rtranclp)
  qed
qed

lemma says_map [simp]: "says (map Say ls) = ls" "says (map Say ls @ as) = ls @ says as"
  by (induction ls) simp_all

lemma creates_map [simp]: "creates (map Say ls) = []" "creates (map Say ls @ as) = creates as"
  by (induction ls) simp_all

lemma joins_ok_map [simp]: "joins_ok n (map Say ls)" "joins_ok n (map Say ls @ as) = joins_ok n as"
  by (induction ls) simp_all

text \<open>A \<open>main\<close> that cannot fail and does not return leaves the process running.\<close>

fun sound :: "'l statement \<Rightarrow> bool" where
  "sound (Create ls code) \<longleftrightarrow> code = CORRECT_CODE_1"
| "sound (Join k code) \<longleftrightarrow> code = CORRECT_CODE_1"
| "sound (Say l) \<longleftrightarrow> True"
| "sound (Return code) \<longleftrightarrow> False"

lemma sound_runs:
  assumes "step_1\<^sup>*\<^sup>* (start_main as) t" "list_all sound as"
  shows "exit_code t = None"
proof -
  from assms(1) have "exit_code t = None \<and> list_all sound (main_left t)"
  proof (induction rule: rtranclp_induct)
    case base
    then show ?case using assms(2) by (simp add: start_main_def)
  next
    case (step u v)
    from step.hyps(2) step.IH show ?case by (cases rule: step_1.cases) auto
  qed
  then show ?thesis ..
qed

text \<open>
  \<open>lab1\<close> starts a thread and does not wait for it: the process prints some interleaving of the ten lines of
  both, every interleaving is possible, and no run has more than 21 steps. If the thread cannot be
  created nothing is printed and the exit code is 1.
\<close>

theorem unjoined_child_interleaves:
  "(\<forall>n t. (step_1 ^^ n) (main_1 err) t \<longrightarrow> n \<le> 21)
   \<and> {console t | t. step_1\<^sup>*\<^sup>* (main_1 CORRECT_CODE_1) t \<and> (\<forall>u. \<not> step_1 t u)}
       = shuffles (printLines PARENT) threadFunction_1
   \<and> (err \<noteq> CORRECT_CODE_1 \<longrightarrow> (\<forall>t. step_1\<^sup>*\<^sup>* (main_1 err) t \<and> (\<forall>u. \<not> step_1 t u) \<longrightarrow>
        console t = [] \<and> exit_code t = Some EXCEPTION_EXIT_CODE_1))"
proof (intro conjI)
  have "work_1 (main_1 err) = 21"
    by (simp add: work_1_def main_1_def start_main_def threadFunction_1_def printLines_def LINES_TO_PRINT_COUNT_def o_def sum_list_triv)
  then show "\<forall>n t. (step_1 ^^ n) (main_1 err) t \<longrightarrow> n \<le> 21" using ending_1.steps_bounded by fastforce
next
  let ?as = "Create threadFunction_1 CORRECT_CODE_1 # map Say (printLines PARENT)"
  show "{console t | t. step_1\<^sup>*\<^sup>* (main_1 CORRECT_CODE_1) t \<and> (\<forall>u. \<not> step_1 t u)} = shuffles (printLines PARENT) threadFunction_1"
  proof (intro subset_antisym subsetI)
    fix zs assume "zs \<in> {console t | t. step_1\<^sup>*\<^sup>* (main_1 CORRECT_CODE_1) t \<and> (\<forall>u. \<not> step_1 t u)}"
    then obtain t where t: "zs = console t" "step_1\<^sup>*\<^sup>* (start_main ?as) t" "\<forall>u. \<not> step_1 t u" by (auto simp: main_1_def)
    have "list_all sound ?as" by (simp add: list_all_iff)
    then have "exit_code t = None" by (rule sound_runs [OF t(2)])
    then show "zs \<in> shuffles (printLines PARENT) threadFunction_1"
      using ends_mixed [of ?as t] t by (simp add: mixes_shuffles)
  next
    fix zs assume zs: "zs \<in> shuffles (printLines PARENT) threadFunction_1"
    define s where "s = (main_1 CORRECT_CODE_1)\<lparr>main_left := map Say (printLines PARENT), to_print := [threadFunction_1]\<rparr>"
    have "step_1 (main_1 CORRECT_CODE_1) s"
      using create [of "main_1 CORRECT_CODE_1" threadFunction_1 CORRECT_CODE_1] by (simp add: s_def main_1_def start_main_def)
    moreover obtain t where t: "step_1\<^sup>*\<^sup>* s t" "console t = zs" "exit_code t = None" "main_left t = []" "to_print t = [[]]"
      using main_and_thread_reach [OF zs, of s] by (auto simp: s_def main_1_def start_main_def)
    moreover have "\<not> step_1 t u" for u using t by (auto elim!: step_1E)
    ultimately show "zs \<in> {console t | t. step_1\<^sup>*\<^sup>* (main_1 CORRECT_CODE_1) t \<and> (\<forall>u. \<not> step_1 t u)}"
      by (auto intro: converse_rtranclp_into_rtranclp)
  qed
next
  show "err \<noteq> CORRECT_CODE_1 \<longrightarrow> (\<forall>t. step_1\<^sup>*\<^sup>* (main_1 err) t \<and> (\<forall>u. \<not> step_1 t u) \<longrightarrow>
        console t = [] \<and> exit_code t = Some EXCEPTION_EXIT_CODE_1)"
  proof (intro impI allI)
    fix t assume err: "err \<noteq> CORRECT_CODE_1" and t: "step_1\<^sup>*\<^sup>* (main_1 err) t \<and> (\<forall>u. \<not> step_1 t u)"
    let ?e = "(main_1 err)\<lparr>main_left := [], exit_code := Some EXCEPTION_EXIT_CODE_1\<rparr>"
    have first: "step_1 (main_1 err) u \<longleftrightarrow> u = ?e" for u
      using err create_fails [of "main_1 err" threadFunction_1 err]
      by (auto simp: main_1_def start_main_def elim!: step_1E)
    have "\<not> step_1 ?e u" for u by (auto elim!: step_1E)
    then have "t = ?e" using t first by (metis converse_rtranclpE)
    then show "console t = [] \<and> exit_code t = Some EXCEPTION_EXIT_CODE_1" by (simp add: main_1_def start_main_def)
  qed
qed

theorem unjoined_child_interleaves_witness:
  "\<exists>t. step_1\<^sup>*\<^sup>* (main_1 11) t \<and> console t = [] \<and> exit_code t = Some 1"
proof -
  obtain t where "step_1\<^sup>*\<^sup>* (main_1 11) t" "\<forall>u. \<not> step_1 t u" using ending_1.ends by blast
  then show ?thesis using unjoined_child_interleaves [of 11] by (auto simp: CORRECT_CODE_1_def EXCEPTION_EXIT_CODE_1_def)
qed

section \<open>lab2\<close>

text \<open>
  What \<open>lab2\<close> goes through: the thread is to be created, prints, was joined, and the process has ended,
  with or without a successful join.
\<close>

inductive phase_2 :: "int32 \<Rightarrow> (string \<times> nat) Printers \<Rightarrow> bool" where
  creating: "s = main_2 CORRECT_CODE_1 code \<Longrightarrow> phase_2 code s"
| printing: "exit_code s = None \<Longrightarrow> main_left s = Join 0 code # map Say (printLines_2 PARENT) @ [Return CORRECT_EXIT_CODE_1] \<Longrightarrow>
    to_print s = [cs] \<Longrightarrow> console s @ cs = threadFunction_2 \<Longrightarrow> phase_2 code s"
| joined: "exit_code s = None \<Longrightarrow> code = CORRECT_CODE_1 \<Longrightarrow> main_left s = map Say ps @ [Return CORRECT_EXIT_CODE_1] \<Longrightarrow>
    to_print s = [[]] \<Longrightarrow> console s @ ps = threadFunction_2 @ printLines_2 PARENT \<Longrightarrow> phase_2 code s"
| over: "exit_code s = Some CORRECT_EXIT_CODE_1 \<Longrightarrow> code = CORRECT_CODE_1 \<Longrightarrow>
    console s = threadFunction_2 @ printLines_2 PARENT \<Longrightarrow> phase_2 code s"
| given_up: "exit_code s = Some EXCEPTION_EXIT_CODE_1 \<Longrightarrow> code \<noteq> CORRECT_CODE_1 \<Longrightarrow>
    console s @ cs = threadFunction_2 \<Longrightarrow> phase_2 code s"

lemma phase_2_step:
  assumes "phase_2 code s" "step_1 s t"
  shows "phase_2 code t"
  using assms(1)
proof cases
  case creating
  with assms(2) show ?thesis
    by (auto simp: main_2_def start_main_def elim!: step_1E intro: phase_2.printing)
next
  case (printing cs)
  from assms(2) show ?thesis
  proof cases
    case (join k c as)
    with printing show ?thesis by (auto intro!: phase_2.joined)
  next
    case (join_fails k c as)
    with printing show ?thesis by (auto intro!: phase_2.given_up)
  next
    case (thread k l ls)
    with printing have "cs = l # ls" by (cases k) auto
    with printing thread show ?thesis by (auto intro!: phase_2.printing)
  qed (use printing in auto)
next
  case (joined ps)
  with assms(2) show ?thesis
    by (cases ps) (auto elim!: step_1E simp: nth_Cons split: nat.splits intro: phase_2.joined phase_2.over)
qed (use assms(2) in \<open>auto elim!: step_1E\<close>)

interpretation phases_2: invariant_system "\<lambda>s. s = main_2 CORRECT_CODE_1 code" step_1 "phase_2 code" for code
  by unfold_locales (auto intro: phase_2.creating phase_2_step)

text \<open>
  \<open>lab2\<close> joins the thread before it prints: every run ends within 23 steps with exit code 0, the
  ten lines of the thread and after them the ten of \<open>main\<close>. If the join fails the process ends at once
  with exit code 1, and a beginning of the thread's lines is all it has printed.
\<close>

theorem join_orders_lines:
  "(\<forall>n t. (step_1 ^^ n) (main_2 CORRECT_CODE_1 code) t \<longrightarrow> n \<le> 23)
   \<and> (\<forall>t. step_1\<^sup>*\<^sup>* (main_2 CORRECT_CODE_1 code) t \<and> (\<forall>u. \<not> step_1 t u) \<longrightarrow>
        (if code = CORRECT_CODE_1 then console t = threadFunction_2 @ printLines_2 PARENT \<and> exit_code t = Some CORRECT_EXIT_CODE_1
         else prefix (console t) threadFunction_2 \<and> exit_code t = Some EXCEPTION_EXIT_CODE_1))"
proof (intro conjI allI impI)
  have "work_1 (main_2 CORRECT_CODE_1 code) = 23"
    by (simp add: work_1_def main_2_def start_main_def threadFunction_2_def printLines_2_def LINES_TO_PRINT_COUNT_def o_def sum_list_triv)
  then show "n \<le> 23" if "(step_1 ^^ n) (main_2 CORRECT_CODE_1 code) t" for n t
    using ending_1.steps_bounded [OF that] by simp
next
  fix t assume t: "step_1\<^sup>*\<^sup>* (main_2 CORRECT_CODE_1 code) t \<and> (\<forall>u. \<not> step_1 t u)"
  then have "phase_2 code t" by (intro phases_2.reachable_inv) auto
  then show "if code = CORRECT_CODE_1 then console t = threadFunction_2 @ printLines_2 PARENT \<and> exit_code t = Some CORRECT_EXIT_CODE_1
         else prefix (console t) threadFunction_2 \<and> exit_code t = Some EXCEPTION_EXIT_CODE_1"
  proof cases
    case creating
    then show ?thesis using t create [of t] by (auto simp: main_2_def start_main_def)
  next
    case (printing cs)
    then show ?thesis
      using t join [of t 0 code] join_fails [of t 0 code] thread [of t 0] by (cases cs) auto
  next
    case (joined ps)
    then show ?thesis using t say [of t] return [of t] by (cases ps) auto
  qed (auto intro: prefixI [OF sym])
qed

theorem join_orders_lines_witness:
  "\<exists>t. step_1\<^sup>*\<^sup>* (main_2 0 0) t \<and> console t = threadFunction_2 @ printLines_2 PARENT"
proof -
  obtain t where "step_1\<^sup>*\<^sup>* (main_2 0 0) t" "\<forall>u. \<not> step_1 t u" using ending_1.ends by blast
  then show ?thesis using join_orders_lines [of 0] by (auto simp: CORRECT_CODE_1_def)
qed

section \<open>lab3\<close>

lemma mixes_Nil_front: "mixes ([] # xss) zs \<longleftrightarrow> mixes xss zs"
proof
  show "mixes ([] # xss) zs \<Longrightarrow> mixes xss zs"
  proof (induction zs arbitrary: xss)
    case (Cons z zs)
    from Cons.prems show ?case
    proof (rule mixes_ConsE)
      fix k xs assume k: "k < length ([] # xss)" "([] # xss) ! k = z # xs" "mixes (([] # xss)[k := xs]) zs"
      then obtain j where j: "k = Suc j" by (cases k) auto
      with k Cons.IH [of "xss[j := xs]"] show ?thesis using mixes_Cons [of j xss z xs zs] by simp
    qed
  qed simp
  show "mixes xss zs \<Longrightarrow> mixes ([] # xss) zs"
  proof (induction rule: mixes.induct)
    case (mixes_Cons k xss z xs zs)
    then show ?case using mixes.mixes_Cons [of "Suc k" "[] # xss" z xs zs] by simp
  qed simp
qed

lemma creates_reach:
  "exit_code s = None \<Longrightarrow> main_left s = map (\<lambda>ls. Create ls CORRECT_CODE_1) rows @ as \<Longrightarrow>
   step_1\<^sup>*\<^sup>* s (s\<lparr>main_left := as, to_print := to_print s @ rows\<rparr>)"
proof (induction rows arbitrary: s)
  case Nil
  then have "s\<lparr>main_left := as, to_print := to_print s @ []\<rparr> = s" by simp
  then show ?case by simp
next
  case (Cons row rows)
  let ?s = "s\<lparr>main_left := map (\<lambda>ls. Create ls CORRECT_CODE_1) rows @ as, to_print := to_print s @ [row]\<rparr>"
  have "step_1 s ?s" using create [of s row CORRECT_CODE_1] Cons.prems by simp
  moreover have "step_1\<^sup>*\<^sup>* ?s (?s\<lparr>main_left := as, to_print := to_print ?s @ rows\<rparr>)" by (rule Cons.IH) (use Cons.prems in simp_all)
  ultimately show ?case by (simp add: converse_rtranclp_into_rtranclp)
qed

lemma joins_reach:
  "exit_code s = None \<Longrightarrow> main_left s = map (\<lambda>k. Join k CORRECT_CODE_1) ks \<Longrightarrow> \<forall>k \<in> set ks. k < length (to_print s) \<Longrightarrow>
   \<forall>ls \<in> set (to_print s). ls = [] \<Longrightarrow> step_1\<^sup>*\<^sup>* s (s\<lparr>main_left := []\<rparr>)"
proof (induction ks arbitrary: s)
  case Nil
  then have "s\<lparr>main_left := []\<rparr> = s" by simp
  then show ?case by simp
next
  case (Cons k ks)
  let ?s = "s\<lparr>main_left := map (\<lambda>k. Join k CORRECT_CODE_1) ks\<rparr>"
  have "step_1 s ?s" using join [of s k CORRECT_CODE_1] Cons.prems by simp
  moreover have "step_1\<^sup>*\<^sup>* ?s (?s\<lparr>main_left := []\<rparr>)" by (rule Cons.IH) (use Cons.prems in simp_all)
  ultimately show ?case by (simp add: converse_rtranclp_into_rtranclp)
qed

abbreviation no_errors :: "int32 list" where
  "no_errors \<equiv> replicate 4 CORRECT_CODE_1"

lemma main_3_sound:
  "main_3 no_errors no_errors = start_main (map (\<lambda>ls. Create ls CORRECT_CODE_1) (map print_message messages)
     @ map (\<lambda>k. Join k CORRECT_CODE_1) [0..<4])"
  by (simp add: main_3_def NUM_OF_THREADS_3_def messages_def numeral_eq_Suc)

text \<open>
  C33: \<open>lab3\<close> starts four threads and joins them: the twelve lines are printed, each thread's three in
  their order and in every interleaving of the four, no run has more than 20 steps, and none is left waiting.
\<close>

theorem four_threads_interleave:
  "(\<forall>n t. (step_1 ^^ n) (main_3 no_errors no_errors) t \<longrightarrow> n \<le> 20)
   \<and> {console t | t. step_1\<^sup>*\<^sup>* (main_3 no_errors no_errors) t \<and> (\<forall>u. \<not> step_1 t u)}
       = {zs. mixes (map print_message messages) zs}
   \<and> (\<forall>t. step_1\<^sup>*\<^sup>* (main_3 no_errors no_errors) t \<and> (\<forall>u. \<not> step_1 t u) \<longrightarrow> main_left t = [] \<and> length (console t) = 12)"
proof -
  let ?rows = "map print_message messages"
  let ?as = "map (\<lambda>ls. Create ls CORRECT_CODE_1) ?rows @ map (\<lambda>k. Join k CORRECT_CODE_1) [0..<4]"
  have facts: "says ?as = []" "creates ?as = ?rows" "joins_ok 0 ?as" "list_all sound ?as"
    "sum_list (map length ?rows) = 12"
    by (simp_all add: messages_def numeral_eq_Suc)
  have "work_1 (start_main ?as) = 20" by (simp add: work_1_def start_main_def messages_def numeral_eq_Suc)
  then have "n \<le> 20" if "(step_1 ^^ n) (start_main ?as) t" for n t using ending_1.steps_bounded [OF that] by simp
  moreover have ends: "mixes ?rows (console t)" "main_left t = []" if "step_1\<^sup>*\<^sup>* (start_main ?as) t" "\<forall>u. \<not> step_1 t u" for t
  proof -
    from sound_runs [OF that(1) facts(4)] have running: "exit_code t = None" .
    show "mixes ?rows (console t)"
      using ends_mixed [OF facts(3) that(1) _ running] that(2) facts(1,2) by (simp add: mixes_Nil_front)
    show "main_left t = []"
      using stuck_1 [OF printers.reachable_inv [OF _ that(1)] running] that(2) facts(3) by blast
  qed
  moreover have "\<exists>t. zs = console t \<and> step_1\<^sup>*\<^sup>* (start_main ?as) t \<and> (\<forall>u. \<not> step_1 t u)" if "mixes ?rows zs" for zs
  proof -
    let ?joins = "map (\<lambda>k. Join k CORRECT_CODE_1) [0..<4]"
    define s where "s = (start_main ?as)\<lparr>main_left := ?joins, to_print := ?rows\<rparr>"
    have 1: "step_1\<^sup>*\<^sup>* (start_main ?as) s"
      using creates_reach [of "start_main ?as" ?rows ?joins] by (simp add: s_def start_main_def)
    have s: "to_print s = ?rows" "main_left s = ?joins" "console s = []" "exit_code s = None"
      by (simp_all only: s_def start_main_def Printers.simps)
    have mix: "mixes (to_print s) zs" using that s(1) by simp
    from threads_reach [OF mix s(4)] obtain t where t: "step_1\<^sup>*\<^sup>* s t" "console t = console s @ zs" "main_left t = main_left s"
      "exit_code t = None" "length (to_print t) = length (to_print s)" "\<forall>ls \<in> set (to_print t). ls = []" by blast
    have t3: "main_left t = ?joins" using t(3) s(2) by (rule trans)
    have t4: "length (to_print t) = 4" using t(5) s(1) by (simp add: messages_def)
    have 2: "step_1\<^sup>*\<^sup>* t (t\<lparr>main_left := []\<rparr>)" by (rule joins_reach [OF t(4) t3]) (use t(6) t4 in auto)
    have 3: "\<not> step_1 (t\<lparr>main_left := []\<rparr>) u" for u by (rule done_1) (use t(6) in simp_all)
    have "step_1\<^sup>*\<^sup>* (start_main ?as) (t\<lparr>main_left := []\<rparr>)" using 1 t(1) 2 by (meson rtranclp_trans)
    then show ?thesis using 3 t(2) s(3) by (intro exI [of _ "t\<lparr>main_left := []\<rparr>"]) simp
  qed
  moreover have "length zs = 12" if "mixes ?rows zs" for zs using mixes_length [OF that] facts(5) by (simp only:)
  ultimately show ?thesis unfolding main_3_sound by blast
qed

theorem four_threads_interleave_witness:
  "\<exists>t. step_1\<^sup>*\<^sup>* (main_3 no_errors no_errors) t \<and> length (console t) = 12"
proof -
  obtain t where "step_1\<^sup>*\<^sup>* (main_3 no_errors no_errors) t" "\<forall>u. \<not> step_1 t u" using ending_1.ends by blast
  then show ?thesis using four_threads_interleave by blast
qed

end
