(* ===== verification/Lab4_5.thy ===== *)
theory Lab4_5
  imports Threads
begin

text \<open>
  \<open>lab4\<close> and \<open>lab5\<close>: a thread that prints the letters in a circle until \<open>main\<close> cancels it. Cancellation is
  deferred: a request acts at a cancellation point, which \<open>pthread_testcancel\<close> and \<open>printf\<close> are, and
  only while it is enabled. A step is one statement of one thread that the other can notice. The codes
  of \<open>pthread_create\<close>, \<open>pthread_cancel\<close> and \<open>pthread_join\<close> are inputs. When \<open>main\<close> returns the process ends.
  Messages to \<open>stderr\<close> are left out.
\<close>

section \<open>State\<close>

definition CORRECT_CODE_4 :: int32 where
  "CORRECT_CODE_4 = 0"

definition EXCEPTION_EXIT_CODE_4 :: int32 where
  "EXCEPTION_EXIT_CODE_4 = 1"

definition START_SYMBOL :: char where
  "START_SYMBOL = CHR ''A''"

definition LAST_SYMBOL :: char where
  "LAST_SYMBOL = CHR ''z''"

datatype Item = Symbol char | Message string

datatype Loop_4 = TestCancel | Disable | Print_4 | Next_4 | Enable | Ended

text \<open>\<open>Unset\<close>: \<open>main\<close> compares a result that the failed join did not write.\<close>

datatype Main_4 = Sleeping | Cancelling | Announcing | Joining_4 | Reporting | Returned | Unset

record Lab4 =
  console_4 :: "Item list"
  symbol :: char
  loop_place :: Loop_4
  enabled :: bool
  requested :: bool
  main_place :: Main_4

section \<open>The thread\<close>

definition next_symbol :: "char \<Rightarrow> char" where
  "next_symbol c = (let c = char_of (Suc (of_char c)) in if c = LAST_SYMBOL then START_SYMBOL else c)"

text \<open>A cancellation point: the thread ends here after its handlers, or goes on.\<close>

definition cancel_point :: "Item list \<Rightarrow> Lab4 \<Rightarrow> Lab4 \<Rightarrow> Lab4" where
  "cancel_point handlers s goes_on =
     (if enabled s \<and> requested s then s\<lparr>loop_place := Ended, console_4 := console_4 s @ handlers\<rparr> else goes_on)"

definition print_loop :: "Item list \<Rightarrow> Lab4 \<Rightarrow> Lab4 option" where
  "print_loop handlers s = (case loop_place s of
     TestCancel \<Rightarrow> Some (cancel_point handlers s (s\<lparr>loop_place := Disable\<rparr>))
   | Disable \<Rightarrow> Some (s\<lparr>enabled := False, loop_place := Print_4\<rparr>)
   | Print_4 \<Rightarrow> Some (cancel_point handlers s (s\<lparr>console_4 := console_4 s @ [Symbol (symbol s)], loop_place := Next_4\<rparr>))
   | Next_4 \<Rightarrow> Some (s\<lparr>symbol := next_symbol (symbol s), loop_place := Enable\<rparr>)
   | Enable \<Rightarrow> Some (s\<lparr>enabled := True, loop_place := TestCancel\<rparr>)
   | Ended \<Rightarrow> None)"

definition thread_print_4 :: "Lab4 \<Rightarrow> Lab4 option" where
  "thread_print_4 = print_loop []"

definition cleanup_handler :: Item where
  "cleanup_handler = Message ''Thread canceled. Message from thread''"

definition thread_print_5 :: "Lab4 \<Rightarrow> Lab4 option" where
  "thread_print_5 = print_loop [cleanup_handler]"

section \<open>main\<close>

text \<open>The thread ends by cancellation only, so what a join yields is \<open>PTHREAD_CANCELED\<close>.\<close>

definition main_step_4 :: "int32 \<Rightarrow> int32 \<Rightarrow> Lab4 \<Rightarrow> Lab4 option" where
  "main_step_4 cancel_err join_err s = (case main_place s of
     Sleeping \<Rightarrow> Some (s\<lparr>main_place := Cancelling\<rparr>)
   | Cancelling \<Rightarrow> Some (s\<lparr>requested := (cancel_err = CORRECT_CODE_4), main_place := Announcing\<rparr>)
   | Announcing \<Rightarrow> Some (s\<lparr>console_4 := console_4 s @ [Message ''Cancel thread''], main_place := Joining_4\<rparr>)
   | Joining_4 \<Rightarrow>
       if join_err \<noteq> CORRECT_CODE_4 then Some (s\<lparr>main_place := Unset\<rparr>)
       else if loop_place s = Ended then Some (s\<lparr>main_place := Reporting\<rparr>) else None
   | Reporting \<Rightarrow> Some (s\<lparr>console_4 := console_4 s @ [Message ''Thread was canceled!''], main_place := Returned\<rparr>)
   | _ \<Rightarrow> None)"

definition main_step_5 :: "int32 \<Rightarrow> int32 \<Rightarrow> Lab4 \<Rightarrow> Lab4 option" where
  "main_step_5 cancel_err join_err s = (case main_place s of
     Sleeping \<Rightarrow> Some (s\<lparr>main_place := Cancelling\<rparr>)
   | Cancelling \<Rightarrow> Some (s\<lparr>requested := (cancel_err = CORRECT_CODE_4), main_place := Joining_4\<rparr>)
   | Joining_4 \<Rightarrow>
       if join_err \<noteq> CORRECT_CODE_4 then Some (s\<lparr>main_place := Unset\<rparr>)
       else if loop_place s = Ended then Some (s\<lparr>main_place := Reporting\<rparr>) else None
   | Reporting \<Rightarrow> Some (s\<lparr>console_4 := console_4 s @ [Message ''Thread canceled''], main_place := Returned\<rparr>)
   | _ \<Rightarrow> None)"

text \<open>\<open>main\<close> up to \<open>sleep\<close>: the exit code, or the state in which both threads run.\<close>

definition main_4 :: "int32 \<Rightarrow> int32 + Lab4" where
  "main_4 create_err =
     (if create_err \<noteq> CORRECT_CODE_4 then Inl EXCEPTION_EXIT_CODE_4
      else Inr \<lparr>console_4 = [], symbol = START_SYMBOL, loop_place = TestCancel, enabled = True, requested = False,
                main_place = Sleeping\<rparr>)"

definition main_5 :: "int32 \<Rightarrow> int32 + Lab4" where
  "main_5 create_err =
     (if create_err \<noteq> CORRECT_CODE_4 then Inl EXCEPTION_EXIT_CODE_4
      else Inr \<lparr>console_4 = [], symbol = START_SYMBOL, loop_place = TestCancel, enabled = True, requested = False,
                main_place = Sleeping\<rparr>)"

section \<open>Runs\<close>

text \<open>The process of a thread and a \<open>main\<close>.\<close>

inductive step_45 :: "(Lab4 \<Rightarrow> Lab4 option) \<Rightarrow> (Lab4 \<Rightarrow> Lab4 option) \<Rightarrow> Lab4 \<Rightarrow> Lab4 \<Rightarrow> bool"
  for thr :: "Lab4 \<Rightarrow> Lab4 option" and mn :: "Lab4 \<Rightarrow> Lab4 option" where
  thread_45: "main_place s \<noteq> Returned \<Longrightarrow> thr s = Some s' \<Longrightarrow> step_45 thr mn s s'"
| main_45: "mn s = Some s' \<Longrightarrow> step_45 thr mn s s'"

definition step_4 :: "int32 \<Rightarrow> int32 \<Rightarrow> Lab4 \<Rightarrow> Lab4 \<Rightarrow> bool" where
  "step_4 cancel_err join_err = step_45 thread_print_4 (main_step_4 cancel_err join_err)"

definition step_5 :: "int32 \<Rightarrow> int32 \<Rightarrow> Lab4 \<Rightarrow> Lab4 \<Rightarrow> bool" where
  "step_5 cancel_err join_err = step_45 thread_print_5 (main_step_5 cancel_err join_err)"

end
