(* ===== verification/Lab4_5_Correct.thy ===== *)
theory Lab4_5_Correct
  imports Lab4_5
begin

text \<open>
  Cancellation in \<open>lab4\<close> and \<open>lab5\<close>: the thread prints the circle of letters without a gap, ends at a
  cancellation point soon after the request, and \<open>main\<close> joins it. The locale holds what
  both programs share; it asks of \<open>main\<close> that it leaves the thread alone but for the request.
\<close>

section \<open>The circle of letters\<close>

definition symbol_at :: "nat \<Rightarrow> char" where
  "symbol_at k = char_of (65 + k mod 57)"

lemma char_A: "char_of (65 :: nat) = CHR ''A''"
  by code_simp

lemma char_z: "char_of (122 :: nat) = CHR ''z''"
  by code_simp

lemma next_symbol_at: "next_symbol (symbol_at k) = symbol_at (Suc k)"
proof -
  have k: "k mod 57 < 57" by simp
  have "of_char (char_of (65 + k mod 57) :: char) = 65 + k mod 57" using k by (simp add: of_char_of)
  then have succ: "next_symbol (symbol_at k)
      = (if char_of (66 + k mod 57) = CHR ''z'' then CHR ''A'' else char_of (66 + k mod 57))"
    by (simp add: next_symbol_def symbol_at_def LAST_SYMBOL_def START_SYMBOL_def Let_def)
  show ?thesis
  proof (cases "k mod 57 = 56")
    case True
    then have "Suc k mod 57 = 0" by presburger
    then show ?thesis using True succ by (simp add: symbol_at_def char_A char_z)
  next
    case False
    then have "Suc k mod 57 = Suc (k mod 57)" using k by (simp add: mod_Suc)
    moreover have "char_of (66 + k mod 57) \<noteq> CHR ''z''"
    proof
      assume "char_of (66 + k mod 57) = CHR ''z''"
      then have "of_char (char_of (66 + k mod 57) :: char) = (122 :: nat)" by simp
      with False k show False by (simp add: of_char_of)
    qed
    ultimately show ?thesis using succ by (simp add: symbol_at_def)
  qed
qed

lemma symbol_at_0: "symbol_at 0 = START_SYMBOL"
  by (simp add: symbol_at_def START_SYMBOL_def char_A)

fun syms :: "Item list \<Rightarrow> char list" where
  "syms [] = []"
| "syms (Symbol c # is) = c # syms is"
| "syms (Message m # is) = syms is"

lemma syms_append [simp]: "syms (is @ js) = syms is @ syms js"
  by (induction "is" rule: syms.induct) simp_all

section \<open>What both programs keep\<close>

definition printed_ok :: "Lab4 \<Rightarrow> bool" where
  "printed_ok s \<longleftrightarrow> (\<exists>k. syms (console_4 s) = map symbol_at [0..<k]
     \<and> (if loop_place s = Next_4 then 0 < k \<and> symbol s = symbol_at (k - 1) else symbol s = symbol_at k))"

definition inv_45 :: "Lab4 \<Rightarrow> bool" where
  "inv_45 s \<longleftrightarrow> printed_ok s
     \<and> (enabled s \<longleftrightarrow> loop_place s \<notin> {Print_4, Next_4, Enable})
     \<and> (loop_place s = Ended \<longrightarrow> requested s)
     \<and> (main_place s \<in> {Sleeping, Cancelling} \<longrightarrow> \<not> requested s)
     \<and> (main_place s \<in> {Reporting, Returned} \<longrightarrow> loop_place s = Ended)"

text \<open>The steps until the thread has ended, counted from where it is when the request comes.\<close>

fun loop_left :: "Loop_4 \<Rightarrow> nat" where
  "loop_left Ended = 0"
| "loop_left TestCancel = 1"
| "loop_left Enable = 2"
| "loop_left Next_4 = 3"
| "loop_left Print_4 = 4"
| "loop_left Disable = 5"

fun main_rest :: "Main_4 \<Rightarrow> nat" where
  "main_rest Sleeping = 5"
| "main_rest Cancelling = 4"
| "main_rest Announcing = 3"
| "main_rest Joining_4 = 2"
| "main_rest Reporting = 1"
| "main_rest _ = 0"

definition same_thread :: "Lab4 \<Rightarrow> Lab4 \<Rightarrow> bool" where
  "same_thread s t \<longleftrightarrow> symbol t = symbol s \<and> loop_place t = loop_place s \<and> enabled t = enabled s
     \<and> syms (console_4 t) = syms (console_4 s)"

lemma same_printed: "same_thread s t \<Longrightarrow> printed_ok t = printed_ok s"
  by (simp add: same_thread_def printed_ok_def)

locale cancelled_loop =
  fixes handlers :: "Item list"
    and mn :: "Lab4 \<Rightarrow> Lab4 option"
  assumes no_symbols: "syms handlers = []"
    and main_leaves: "mn s = Some t \<Longrightarrow> same_thread s t"
    and main_goes_on: "mn s = Some t \<Longrightarrow> main_rest (main_place t) < main_rest (main_place s)"
    and main_requests: "mn s = Some t \<Longrightarrow> requested t = (if main_place s = Cancelling then requested t else requested s)
      \<and> (main_place t = Cancelling \<longrightarrow> main_place s = Sleeping)"
    and main_joins: "mn s = Some t \<Longrightarrow> main_place t \<in> {Reporting, Returned} \<Longrightarrow>
      loop_place s = Ended \<or> main_place s \<in> {Reporting, Returned}"
begin

abbreviation "step \<equiv> step_45 (print_loop handlers) mn"

lemma inv_main:
  assumes "inv_45 s" "mn s = Some t"
  shows "inv_45 t"
proof -
  note same = main_leaves [OF assms(2)] and rest = main_goes_on [OF assms(2)]
    and req = main_requests [OF assms(2)] and join = main_joins [OF assms(2)]
  have "printed_ok t" using assms(1) same_printed [OF same] by (simp add: inv_45_def)
  moreover have "enabled t \<longleftrightarrow> loop_place t \<notin> {Print_4, Next_4, Enable}"
    using assms(1) same by (simp add: inv_45_def same_thread_def)
  moreover have "requested t" if "loop_place t = Ended"
    using assms(1) same req that by (auto simp: inv_45_def same_thread_def split: if_splits)
  moreover have "\<not> requested t" if "main_place t \<in> {Sleeping, Cancelling}"
  proof (cases "main_place t = Cancelling")
    case True
    then have "main_place s = Sleeping" using req by blast
    then show ?thesis using req assms(1) by (simp add: inv_45_def)
  next
    case False
    then have "main_place t = Sleeping" using that by simp
    then show ?thesis using rest by (cases "main_place s") simp_all
  qed
  moreover have "loop_place t = Ended" if "main_place t \<in> {Reporting, Returned}"
    using join [OF that] assms(1) same by (auto simp: inv_45_def same_thread_def)
  ultimately show ?thesis by (simp add: inv_45_def)
qed

lemma printed_thread:
  assumes "printed_ok s" "print_loop handlers s = Some t"
  shows "printed_ok t"
proof (cases "loop_place s")
  case Print_4
  then obtain k where k: "syms (console_4 s) = map symbol_at [0..<k]" "symbol s = symbol_at k"
    using assms(1) by (auto simp: printed_ok_def)
  then show ?thesis
  proof (cases "enabled s \<and> requested s")
    case True
    then show ?thesis using k Print_4 assms(2) no_symbols
      by (auto simp: print_loop_def cancel_point_def printed_ok_def)
  next
    case False
    then have "syms (console_4 t) = map symbol_at [0..<Suc k]" "symbol t = symbol_at k" "loop_place t = Next_4"
      using k Print_4 assms(2) by (auto simp: print_loop_def cancel_point_def)
    then show ?thesis unfolding printed_ok_def by (intro exI [of _ "Suc k"]) simp
  qed
next
  case Next_4
  then obtain k where k: "syms (console_4 s) = map symbol_at [0..<Suc k]" "symbol s = symbol_at k"
    using assms(1) by (auto simp: printed_ok_def gr0_conv_Suc)
  have "t = s\<lparr>symbol := next_symbol (symbol s), loop_place := Enable\<rparr>" using assms(2) Next_4 by (simp add: print_loop_def)
  then show ?thesis using k unfolding printed_ok_def by (intro exI [of _ "Suc k"]) (simp add: next_symbol_at)
qed (use assms no_symbols in \<open>auto simp: printed_ok_def print_loop_def cancel_point_def split: if_splits\<close>)

lemma inv_thread:
  assumes "inv_45 s" "print_loop handlers s = Some t" "main_place s \<noteq> Returned"
  shows "inv_45 t"
proof -
  have "printed_ok s" using assms(1) by (simp add: inv_45_def)
  then have "printed_ok t" by (rule printed_thread [OF _ assms(2)])
  then show ?thesis
    using assms by (cases "loop_place s") (auto simp: inv_45_def print_loop_def cancel_point_def split: if_splits)
qed

lemma inv_step: "inv_45 s \<Longrightarrow> step s t \<Longrightarrow> inv_45 t"
  by (auto elim!: step_45.cases intro: inv_main inv_thread)

lemma inv_reached: "step\<^sup>*\<^sup>* s t \<Longrightarrow> inv_45 s \<Longrightarrow> inv_45 t"
  by (induction rule: rtranclp_induct) (auto intro: inv_step)

text \<open>After the request every step brings the end nearer, and at most one letter is still printed.\<close>

lemma requested_main:
  assumes "inv_45 s" "requested s" "mn s = Some t"
  shows "requested t"
proof -
  have "main_place s \<noteq> Cancelling" using assms(1,2) by (auto simp: inv_45_def)
  then show ?thesis using main_requests [OF assms(3)] assms(2) by simp
qed

lemma requested_thread:
  assumes "inv_45 s" "requested s" "print_loop handlers s = Some t"
  shows "requested t \<and> main_place t = main_place s \<and> loop_left (loop_place t) < loop_left (loop_place s)
    \<and> length (syms (console_4 t)) + (if loop_place t \<in> {Disable, Print_4} then 1 else 0)
      \<le> length (syms (console_4 s)) + (if loop_place s \<in> {Disable, Print_4} then 1 else 0)"
  using assms no_symbols by (cases "loop_place s") (auto simp: print_loop_def cancel_point_def inv_45_def)

definition left_45 :: "Lab4 \<Rightarrow> nat" where
  "left_45 s = loop_left (loop_place s) + main_rest (main_place s)"

definition letters_45 :: "Lab4 \<Rightarrow> nat" where
  "letters_45 s = length (syms (console_4 s)) + (if loop_place s \<in> {Disable, Print_4} then 1 else 0)"

lemma requested_step:
  assumes "inv_45 s" "requested s" "step s t"
  shows "requested t" "left_45 t < left_45 s" "letters_45 t \<le> letters_45 s"
proof -
  have "requested t \<and> left_45 t < left_45 s \<and> letters_45 t \<le> letters_45 s"
    using assms(3)
  proof cases
    case thread_45
    then show ?thesis using requested_thread [OF assms(1,2)] by (simp add: left_45_def letters_45_def)
  next
    case main_45
    then show ?thesis
      using requested_main [OF assms(1,2) main_45] main_leaves [OF main_45] main_goes_on [OF main_45]
      by (simp add: left_45_def letters_45_def same_thread_def)
  qed
  then show "requested t" "left_45 t < left_45 s" "letters_45 t \<le> letters_45 s" by blast+
qed

lemma requested_run:
  assumes "inv_45 s" "requested s"
  shows "(step ^^ n) s t \<Longrightarrow> inv_45 t \<and> requested t \<and> n + left_45 t \<le> left_45 s \<and> letters_45 t \<le> letters_45 s"
proof (induction n arbitrary: t)
  case (Suc n)
  then obtain u where u: "(step ^^ n) s u" "step u t" by auto
  with Suc.IH [OF u(1)] show ?case using requested_step [of u t] inv_step [of u t] by fastforce
qed (use assms in simp)

lemma after_request:
  assumes "step\<^sup>*\<^sup>* s t" "inv_45 s" "requested t" "(step ^^ n) t u"
  shows "n \<le> 8 \<and> length (syms (console_4 u)) \<le> Suc (length (syms (console_4 t)))"
proof -
  have inv: "inv_45 t" by (rule inv_reached [OF assms(1,2)])
  then have "main_place t \<notin> {Sleeping, Cancelling}" using assms(3) by (auto simp: inv_45_def)
  then have "left_45 t \<le> 8" by (cases "main_place t"; cases "loop_place t") (simp_all add: left_45_def)
  then show ?thesis
    using requested_run [OF inv assms(3,4)] by (simp add: letters_45_def split: if_splits)
qed

lemma letters_reached: "step\<^sup>*\<^sup>* s t \<Longrightarrow> inv_45 s \<Longrightarrow> \<exists>k. syms (console_4 t) = map symbol_at [0..<k]"
  using inv_reached by (auto simp: inv_45_def printed_ok_def)

text \<open>Without a request the thread never stops.\<close>

lemma unstoppable: "inv_45 s \<Longrightarrow> \<not> requested s \<Longrightarrow> \<exists>t. step s t"
proof -
  assume s: "inv_45 s" "\<not> requested s"
  then have "loop_place s \<noteq> Ended" "main_place s \<noteq> Returned" by (auto simp: inv_45_def)
  then have "\<exists>t. print_loop handlers s = Some t" by (cases "loop_place s") (simp_all add: print_loop_def)
  with \<open>main_place s \<noteq> Returned\<close> show ?thesis by (auto intro: thread_45)
qed

end

section \<open>lab4\<close>

interpretation l4: cancelled_loop "[]" "main_step_4 c j" for c j
  by unfold_locales (auto simp: main_step_4_def same_thread_def split: Main_4.splits if_splits)

interpretation l5: cancelled_loop "[cleanup_handler]" "main_step_5 c j" for c j
  by unfold_locales (auto simp: main_step_5_def cleanup_handler_def same_thread_def split: Main_4.splits if_splits)

lemmas step_4_eq = step_4_def [unfolded thread_print_4_def]
lemmas step_5_eq = step_5_def [unfolded thread_print_5_def]

lemma start_inv_45: "main_4 code = Inr s \<Longrightarrow> inv_45 s" "main_5 code = Inr s \<Longrightarrow> inv_45 s"
  by (auto simp: main_4_def main_5_def inv_45_def printed_ok_def symbol_at_0 split: if_splits intro: exI [of _ 0])

fun msgs :: "Item list \<Rightarrow> string list" where
  "msgs [] = []"
| "msgs (Symbol c # is) = msgs is"
| "msgs (Message m # is) = m # msgs is"

lemma msgs_append [simp]: "msgs (is @ js) = msgs is @ msgs js"
  by (induction "is" rule: msgs.induct) simp_all

definition said_4 :: "Lab4 \<Rightarrow> bool" where
  "said_4 s \<longleftrightarrow> main_place s \<noteq> Unset \<and>
     msgs (console_4 s) = (if main_place s \<in> {Sleeping, Cancelling, Announcing} then [] else [''Cancel thread''])
       @ (if main_place s = Returned then [''Thread was canceled!''] else [])"

lemma said_4_step:
  assumes "said_4 s" "step_4 cancel_err CORRECT_CODE_4 s t"
  shows "said_4 t"
  using assms(2) unfolding step_4_eq
proof cases
  case thread_45
  then show ?thesis
    using assms(1) by (cases "loop_place s") (auto simp: said_4_def print_loop_def cancel_point_def split: if_splits)
next
  case main_45
  then show ?thesis using assms(1) by (cases "main_place s") (auto simp: said_4_def main_step_4_def split: if_splits)
qed

interpretation says_4: invariant_system "\<lambda>s. main_4 CORRECT_CODE_4 = Inr s" "step_4 cancel_err CORRECT_CODE_4" said_4 for cancel_err
proof unfold_locales
  show "said_4 s" if "main_4 CORRECT_CODE_4 = Inr s" for s using that by (auto simp: main_4_def said_4_def)
qed (rule said_4_step)

lemma syms_map [simp]: "syms (map Symbol cs) = cs"
  by (induction cs) simp_all

definition said_5 :: "Lab4 \<Rightarrow> bool" where
  "said_5 s \<longleftrightarrow> inv_45 s \<and> main_place s \<notin> {Unset, Announcing} \<and>
     (\<exists>cs. console_4 s = map Symbol cs @ (if loop_place s = Ended then [cleanup_handler] else [])
       @ (if main_place s = Returned then [Message ''Thread canceled''] else []))"

lemma said_5_thread:
  assumes "console_4 s = map Symbol cs @ (if loop_place s = Ended then [cleanup_handler] else [])"
    and "print_loop [cleanup_handler] s = Some t"
  shows "\<exists>cs. console_4 t = map Symbol cs @ (if loop_place t = Ended then [cleanup_handler] else [])"
proof (cases "loop_place s")
  case Print_4
  show ?thesis
  proof (cases "enabled s \<and> requested s")
    case False
    then show ?thesis using assms Print_4
      by (intro exI [of _ "cs @ [symbol s]"]) (auto simp: print_loop_def cancel_point_def)
  qed (use assms Print_4 in \<open>auto simp: print_loop_def cancel_point_def\<close>)
qed (use assms in \<open>auto simp: print_loop_def cancel_point_def split: if_splits\<close>)

lemma said_5_step:
  assumes "said_5 s" "step_5 cancel_err CORRECT_CODE_4 s t"
  shows "said_5 t"
proof -
  have invs: "inv_45 s" using assms(1) by (simp add: said_5_def)
  then have inv: "inv_45 t" using l5.inv_step assms(2) by (simp add: step_5_eq)
  obtain cs where cs: "console_4 s = map Symbol cs @ (if loop_place s = Ended then [cleanup_handler] else [])
       @ (if main_place s = Returned then [Message ''Thread canceled''] else [])" and m: "main_place s \<notin> {Unset, Announcing}"
    using assms(1) by (auto simp: said_5_def)
  from assms(2) show ?thesis unfolding step_5_eq
  proof cases
    case thread_45
    then have "main_place t = main_place s" by (cases "loop_place s") (auto simp: print_loop_def cancel_point_def split: if_splits)
    with thread_45 said_5_thread [of s cs t] cs m inv show ?thesis by (simp add: said_5_def)
  next
    case main_45
    have e: "main_place s \<in> {Reporting, Returned} \<Longrightarrow> loop_place s = Ended" using invs by (auto simp: inv_45_def)
    show ?thesis
      using main_45 m inv cs e
      by (cases "main_place s") (auto simp: said_5_def main_step_5_def split: if_splits)
  qed
qed

interpretation says_5: invariant_system "\<lambda>s. main_5 CORRECT_CODE_4 = Inr s" "step_5 cancel_err CORRECT_CODE_4" said_5 for cancel_err
proof unfold_locales
  show "said_5 s" if "main_5 CORRECT_CODE_4 = Inr s" for s
    using that start_inv_45(2) [OF that] by (auto simp: main_5_def said_5_def intro: exI [of _ "[]"])
qed (rule said_5_step)

section \<open>What the two programs do\<close>

lemma ended_4:
  assumes "inv_45 s" "said_4 s" "\<And>t. \<not> step_4 cancel_err CORRECT_CODE_4 s t"
  shows "main_place s = Returned"
proof (rule ccontr)
  assume m: "main_place s \<noteq> Returned"
  have "\<not> step_45 (print_loop []) (main_step_4 cancel_err CORRECT_CODE_4) s t" for t using assms(3) by (simp add: step_4_eq)
  then have "print_loop [] s = None" "main_step_4 cancel_err CORRECT_CODE_4 s = None"
    using m thread_45 main_45 by (metis option.exhaust)+
  then show False
    using m assms(2) by (cases "loop_place s"; cases "main_place s")
      (simp_all add: print_loop_def main_step_4_def said_4_def)
qed

lemma ended_5:
  assumes "said_5 s" "\<And>t. \<not> step_5 cancel_err CORRECT_CODE_4 s t"
  shows "main_place s = Returned"
proof (rule ccontr)
  assume m: "main_place s \<noteq> Returned"
  have "\<not> step_45 (print_loop [cleanup_handler]) (main_step_5 cancel_err CORRECT_CODE_4) s t" for t
    using assms(2) by (simp add: step_5_eq)
  then have "print_loop [cleanup_handler] s = None" "main_step_5 cancel_err CORRECT_CODE_4 s = None"
    using m thread_45 main_45 by (metis option.exhaust)+
  then show False
    using m assms(1) by (cases "loop_place s"; cases "main_place s")
      (simp_all add: print_loop_def main_step_5_def said_5_def)
qed

lemma no_request_without_cancel:
  assumes "(step_5 cancel_err join_err)\<^sup>*\<^sup>* s t" "cancel_err \<noteq> CORRECT_CODE_4" "\<not> requested s"
  shows "\<not> requested t"
  using assms(1)
proof (induction rule: rtranclp_induct)
  case (step u v)
  from step.hyps(2) step.IH assms(2) show ?case
    unfolding step_5_eq
    by (cases "loop_place u"; cases "main_place u")
       (auto elim!: step_45.cases simp: print_loop_def cancel_point_def main_step_5_def split: if_splits)
qed (use assms(3) in simp)

text \<open>
  C29: the thread of \<open>lab5\<close> prints the letters from A to y in a circle, without a gap, and never the z. Once
  cancellation is requested the process ends within eight steps, and at most one letter is
  printed after the request. At the end the console shows letters, the message of the cleanup handler, once, and that of
  \<open>main\<close>. If the request fails the thread is never ended, and \<open>main\<close> waits for it for ever.
\<close>

theorem cancelled_thread_cleans_up:
  assumes "main_5 CORRECT_CODE_4 = Inr s"
  shows "(\<forall>t. (step_5 code CORRECT_CODE_4)\<^sup>*\<^sup>* s t \<longrightarrow> (\<exists>k. syms (console_4 t) = map symbol_at [0..<k]))
    \<and> (\<forall>t n u. (step_5 code CORRECT_CODE_4)\<^sup>*\<^sup>* s t \<and> requested t \<and> (step_5 code CORRECT_CODE_4 ^^ n) t u \<longrightarrow>
         n \<le> 8 \<and> length (syms (console_4 u)) \<le> Suc (length (syms (console_4 t))))
    \<and> (\<forall>t. (step_5 code CORRECT_CODE_4)\<^sup>*\<^sup>* s t \<and> (\<forall>u. \<not> step_5 code CORRECT_CODE_4 t u) \<longrightarrow>
         (\<exists>k. console_4 t = map (\<lambda>i. Symbol (symbol_at i)) [0..<k] @ [cleanup_handler, Message ''Thread canceled'']))
    \<and> (code \<noteq> CORRECT_CODE_4 \<longrightarrow> (\<forall>t. (step_5 code CORRECT_CODE_4)\<^sup>*\<^sup>* s t \<longrightarrow>
         main_place t \<noteq> Returned \<and> (\<exists>u. step_5 code CORRECT_CODE_4 t u)))"
proof (intro conjI allI impI)
  note inv = start_inv_45(2) [OF assms]
  show "\<exists>k. syms (console_4 t) = map symbol_at [0..<k]" if "(step_5 code CORRECT_CODE_4)\<^sup>*\<^sup>* s t" for t
    using l5.letters_reached [OF that [unfolded step_5_eq] inv] .
  show "n \<le> 8" "length (syms (console_4 u)) \<le> Suc (length (syms (console_4 t)))"
    if "(step_5 code CORRECT_CODE_4)\<^sup>*\<^sup>* s t \<and> requested t \<and> (step_5 code CORRECT_CODE_4 ^^ n) t u" for t n u
    using l5.after_request [of code CORRECT_CODE_4 s t n u] that inv by (simp_all add: step_5_eq)
  show "\<exists>k. console_4 t = map (\<lambda>i. Symbol (symbol_at i)) [0..<k] @ [cleanup_handler, Message ''Thread canceled'']"
    if "(step_5 code CORRECT_CODE_4)\<^sup>*\<^sup>* s t \<and> (\<forall>u. \<not> step_5 code CORRECT_CODE_4 t u)" for t
  proof -
    have said: "said_5 t" using says_5.reachable_inv [OF assms] that by blast
    have "main_place t = Returned" using ended_5 [OF said] that by blast
    moreover have inv_t: "inv_45 t" using said by (simp add: said_5_def)
    ultimately have place: "main_place t = Returned" "loop_place t = Ended" by (simp_all add: inv_45_def)
    obtain cs where cs: "console_4 t = map Symbol cs @ [cleanup_handler, Message ''Thread canceled'']"
      using said place by (auto simp: said_5_def)
    obtain k where "syms (console_4 t) = map symbol_at [0..<k]" using inv_t by (auto simp: inv_45_def printed_ok_def)
    with cs have "cs = map symbol_at [0..<k]" by (simp add: cleanup_handler_def)
    with cs show ?thesis by (auto simp: o_def)
  qed
next
  note inv = start_inv_45(2) [OF assms]
  fix t assume code: "code \<noteq> CORRECT_CODE_4" and t: "(step_5 code CORRECT_CODE_4)\<^sup>*\<^sup>* s t"
  have "\<not> requested s" using assms by (auto simp: main_5_def)
  then have req: "\<not> requested t" by (rule no_request_without_cancel [OF t code])
  have inv_t: "inv_45 t" using l5.inv_reached inv t by (simp add: step_5_eq)
  with req show "main_place t \<noteq> Returned" by (auto simp: inv_45_def)
  show "\<exists>u. step_5 code CORRECT_CODE_4 t u" using l5.unstoppable [OF inv_t req] by (simp add: step_5_eq)
qed

theorem cancelled_thread_cleans_up_witness:
  "\<exists>s. main_5 0 = Inr s \<and> (\<forall>t. (step_5 3 0)\<^sup>*\<^sup>* s t \<longrightarrow> main_place t \<noteq> Returned)"
proof -
  obtain s where s: "main_5 CORRECT_CODE_4 = Inr s" by (simp add: main_5_def)
  have "main_place t \<noteq> Returned" if "(step_5 3 CORRECT_CODE_4)\<^sup>*\<^sup>* s t" for t
    using cancelled_thread_cleans_up [OF s, of 3] that by (auto simp: CORRECT_CODE_4_def)
  then show ?thesis using s by (auto simp: CORRECT_CODE_4_def)
qed

text \<open>
  The same for \<open>lab4\<close>, where \<open>main\<close> announces the cancellation before it joins: its two messages are printed in
  order, the first of them possibly in front of the last letter.
\<close>

theorem cancelled_thread_is_joined:
  assumes "main_4 CORRECT_CODE_4 = Inr s"
  shows "(\<forall>t n u. (step_4 code CORRECT_CODE_4)\<^sup>*\<^sup>* s t \<and> requested t \<and> (step_4 code CORRECT_CODE_4 ^^ n) t u \<longrightarrow>
         n \<le> 8 \<and> length (syms (console_4 u)) \<le> Suc (length (syms (console_4 t))))
    \<and> (\<forall>t. (step_4 code CORRECT_CODE_4)\<^sup>*\<^sup>* s t \<and> (\<forall>u. \<not> step_4 code CORRECT_CODE_4 t u) \<longrightarrow>
         (\<exists>k. syms (console_4 t) = map symbol_at [0..<k]) \<and> msgs (console_4 t) = [''Cancel thread'', ''Thread was canceled!''])"
proof (intro conjI allI impI)
  note inv = start_inv_45(1) [OF assms]
  show "n \<le> 8" "length (syms (console_4 u)) \<le> Suc (length (syms (console_4 t)))"
    if "(step_4 code CORRECT_CODE_4)\<^sup>*\<^sup>* s t \<and> requested t \<and> (step_4 code CORRECT_CODE_4 ^^ n) t u" for t n u
    using l4.after_request [of code CORRECT_CODE_4 s t n u] that inv by (simp_all add: step_4_eq)
next
  note inv = start_inv_45(1) [OF assms]
  fix t assume t: "(step_4 code CORRECT_CODE_4)\<^sup>*\<^sup>* s t \<and> (\<forall>u. \<not> step_4 code CORRECT_CODE_4 t u)"
  have said: "said_4 t" using says_4.reachable_inv [OF assms] t by blast
  have inv_t: "inv_45 t" using l4.inv_reached [of code CORRECT_CODE_4 s t] inv t by (simp add: step_4_eq)
  show "\<exists>k. syms (console_4 t) = map symbol_at [0..<k]" using inv_t by (auto simp: inv_45_def printed_ok_def)
  show "msgs (console_4 t) = [''Cancel thread'', ''Thread was canceled!'']"
    using ended_4 [OF inv_t said, of code] t said by (simp add: said_4_def)
qed

theorem cancelled_thread_is_joined_witness:
  "\<exists>s. main_4 0 = Inr s \<and> (\<forall>t. (step_4 0 0)\<^sup>*\<^sup>* s t \<and> (\<forall>u. \<not> step_4 0 0 t u) \<longrightarrow>
     msgs (console_4 t) = [''Cancel thread'', ''Thread was canceled!''])"
proof -
  obtain s where s: "main_4 CORRECT_CODE_4 = Inr s" by (simp add: main_4_def)
  then show ?thesis using cancelled_thread_is_joined [OF s, of 0] by (auto simp: CORRECT_CODE_4_def)
qed

end
