(* ===== verification/Lab6.thy ===== *)
theory Lab6
  imports Prelude "HOL-Library.Multiset"
begin

text \<open>
  \<open>lab6/main.c\<close>: sleep sort. One thread per string sleeps for a time that grows with the length of its
  string and prints it. Times are microseconds. The answers of \<open>malloc\<close>, \<open>getline\<close> and
  \<open>pthread_create\<close> are inputs; a thread that was created can be joined. Messages are left out.
\<close>

section \<open>Input\<close>

definition CORRECT_CODE_6 :: int32 where
  "CORRECT_CODE_6 = 0"

definition CORRECT_EXIT_CODE_6 :: int32 where
  "CORRECT_EXIT_CODE_6 = 0"

definition EXCEPTION_EXIT_CODE_6 :: int32 where
  "EXCEPTION_EXIT_CODE_6 = 1"

definition EXCEPTION_CODE_6 :: int32 where
  "EXCEPTION_CODE_6 = -1"

definition COEFFIECIENT :: int64 where
  "COEFFIECIENT = 100000"

definition MAX_NUM_STR :: nat where
  "MAX_NUM_STR = 100"

text \<open>What a round of reading meets; a line has its newline, unless the input ends with it.\<close>

datatype LineAnswer = NoMemory | NoLine | Line string

text \<open>The code returned and the strings read so far, \<open>*strCount\<close> of them.\<close>

fun read_lines :: "LineAnswer list \<Rightarrow> int32 \<Rightarrow> string list \<Rightarrow> (int32, string list) outcome" where
  "read_lines [] readCount strings =
     (if sint readCount > 1 \<and> length strings < 100 then Fault OutOfFuel else Done CORRECT_CODE_6 strings)"
| "read_lines (a # as) readCount strings =
     (if sint readCount > 1 \<and> length strings < 100 then
        (case a of
           NoMemory \<Rightarrow> Done EXCEPTION_CODE_6 strings
         | NoLine \<Rightarrow> Done EXCEPTION_CODE_6 strings
         | Line l \<Rightarrow>
             let readCount = of_nat (length l)
             in if readCount = EXCEPTION_CODE_6 then Done EXCEPTION_CODE_6 strings
                else read_lines as readCount (if readCount = 1 then strings else strings @ [l]))
      else Done CORRECT_CODE_6 strings)"

definition readStrings :: "LineAnswer list \<Rightarrow> (int32, string list) outcome" where
  "readStrings as = read_lines as 2 []"

section \<open>The threads\<close>

text \<open>The argument of \<open>usleep\<close>, a product of type \<open>size_t\<close> converted to 32 bits.\<close>

definition sleep_time :: "string \<Rightarrow> nat" where
  "sleep_time s = unat (ucast (COEFFIECIENT * of_nat (length (c_string s))) :: int32)"

text \<open>How long a thread waits before it prints, and what it prints.\<close>

definition printString :: "int32 \<Rightarrow> string \<Rightarrow> nat \<times> string" where
  "printString usleep_err args = (if usleep_err \<noteq> CORRECT_CODE_6 then 0 else sleep_time args, c_string args)"

fun create_printers :: "string list \<Rightarrow> int32 list \<Rightarrow> string list" where
  "create_printers (s # ss) (create_err # errs) =
     (if create_err \<noteq> CORRECT_CODE_6 then [] else s # create_printers ss errs)"
| "create_printers _ _ = []"

text \<open>
  \<open>main\<close>: the exit code and the strings that threads were created for. The second loop joins one thread
  per string; an identifier that was never written is indeterminate.
\<close>

definition main_6 :: "LineAnswer list \<Rightarrow> bool \<Rightarrow> int32 list \<Rightarrow> (int32, string list) outcome" where
  "main_6 lines threadsAllocated createErrs =
     bind (readStrings lines) (\<lambda>read_str_err strings.
     if read_str_err = EXCEPTION_CODE_6 then Done EXCEPTION_EXIT_CODE_6 []
     else if \<not> threadsAllocated then Done EXCEPTION_EXIT_CODE_6 []
     else let created = create_printers strings createErrs
          in if length created < length strings then Fault Indeterminate else Done CORRECT_EXIT_CODE_6 created)"

text \<open>
  The order in which threads may print: thread \<open>i\<close> begins to sleep at a time and wakes up with a delay,
  \<open>late i\<close> in sum, and the threads print in the order of their times.
\<close>

definition may_print :: "(nat \<Rightarrow> nat) \<Rightarrow> (nat \<Rightarrow> int32) \<Rightarrow> string list \<Rightarrow> nat list \<Rightarrow> bool" where
  "may_print late usleep_errs strings order \<longleftrightarrow> mset order = mset [0..<length strings]
     \<and> sorted (map (\<lambda>i. late i + fst (printString (usleep_errs i) (strings ! i))) order)"

definition output_6 :: "string list \<Rightarrow> nat list \<Rightarrow> string list" where
  "output_6 strings order = map (\<lambda>i. snd (printString CORRECT_CODE_6 (strings ! i))) order"

end
