(* ===== verification/Lab6_Correct.thy ===== *)
theory Lab6_Correct
  imports Lab6
begin

text \<open>
  Sleep sort sorts by length as long as no thread is late by the time that one character makes, and no
  product overflows; the inputs that the program loses.
\<close>

section \<open>Reading\<close>

lemma read_lines_all:
  assumes "\<forall>l \<in> set ls. 1 < length l \<and> length l < 2 ^ 31" "length strings + length ls < 100" "1 < sint rc"
  shows "\<exists>rc'. 1 < sint rc' \<and> read_lines (map Line ls @ as) rc strings = read_lines as rc' (strings @ ls)"
  using assms
proof (induction ls arbitrary: rc strings)
  case Nil
  then show ?case by auto
next
  case (Cons l ls)
  define n :: int32 where "n = of_nat (length l)"
  have l: "1 < length l" "length l < 2 ^ 31" using Cons.prems(1) by auto
  have n: "sint n = int (length l)"
    unfolding n_def by (rule sint32_of_nat_small [OF l(2)])
  then have "n \<noteq> EXCEPTION_CODE_6" "n \<noteq> 1" using l(1) by (auto simp: EXCEPTION_CODE_6_def)
  then have "read_lines (map Line (l # ls) @ as) rc strings = read_lines (map Line ls @ as) n (strings @ [l])"
    using Cons.prems by (simp add: n_def Let_def)
  moreover have "\<exists>rc'. 1 < sint rc' \<and> read_lines (map Line ls @ as) n (strings @ [l]) = read_lines as rc' ((strings @ [l]) @ ls)"
    by (rule Cons.IH) (use Cons.prems n l in auto)
  ultimately show ?case by simp
qed

lemma readStrings_lines:
  assumes "\<forall>l \<in> set ls. 1 < length l \<and> length l < 2 ^ 31" "length ls < 100"
  shows "length e = 1 \<Longrightarrow> readStrings (map Line ls @ Line e # as) = Done CORRECT_CODE_6 ls"
    and "readStrings (map Line ls @ NoLine # as) = Done EXCEPTION_CODE_6 ls"
proof -
  have two: "1 < sint (2 :: int32)" by simp
  have "read_lines (Line e # as) rc ls = Done CORRECT_CODE_6 ls" if "length e = 1" "1 < sint rc" for rc
    using that assms(2) by (cases as) (simp_all add: EXCEPTION_CODE_6_def)
  then show "length e = 1 \<Longrightarrow> readStrings (map Line ls @ Line e # as) = Done CORRECT_CODE_6 ls"
    using read_lines_all [OF assms(1), of "[]" 2 "Line e # as"] assms(2) two by (auto simp: readStrings_def)
  show "readStrings (map Line ls @ NoLine # as) = Done EXCEPTION_CODE_6 ls"
    using read_lines_all [OF assms(1), of "[]" 2 "NoLine # as"] assms(2) two by (auto simp: readStrings_def)
qed

section \<open>Sleeping\<close>

lemma sleep_time_mod: "sleep_time s = 100000 * length (c_string s) mod 2 ^ 32"
proof -
  have "COEFFIECIENT * of_nat (length (c_string s)) = of_nat (100000 * length (c_string s))"
    by (simp add: COEFFIECIENT_def)
  moreover have "unat (ucast (of_nat m :: int64) :: int32) = m mod 2 ^ 32" for m
    by (simp add: unsigned_ucast_eq take_bit_eq_mod unat_of_nat mod_mod_cancel)
  ultimately show ?thesis by (simp only: sleep_time_def)
qed

lemma sleep_time_short: "length (c_string s) < 42950 \<Longrightarrow> sleep_time s = 100000 * length (c_string s)"
  by (simp add: sleep_time_mod)

lemma create_printers_all: "create_printers ss (replicate (length ss) CORRECT_CODE_6) = ss"
  by (induction ss) simp_all

lemma created_below: "code \<noteq> CORRECT_CODE_6 \<Longrightarrow> length (create_printers ss (replicate k CORRECT_CODE_6 @ code # errs)) \<le> k"
proof (induction ss arbitrary: k)
  case (Cons s ss)
  then show ?case by (cases k) simp_all
qed simp

lemma c_string_zero_free: "CHR 0x00 \<notin> set s \<Longrightarrow> c_string s = s"
  by (auto simp: c_string_def takeWhile_eq_all_conv)

section \<open>Sorting\<close>

lemma sleeping_order:
  assumes "may_print late (\<lambda>_. CORRECT_CODE_6) ls order"
    and "\<forall>l \<in> set ls. length (c_string l) < 42950" "\<forall>i < length ls. late i < 100000"
  shows "sorted (map length (output_6 ls order))"
proof -
  have len: "i < length ls" if "i \<in> set order" for i
  proof -
    have "set order = set [0..<length ls]" using assms(1) unfolding may_print_def by (metis set_mset_mset)
    with that show ?thesis by simp
  qed
  have time: "fst (printString CORRECT_CODE_6 (ls ! i)) = 100000 * length (c_string (ls ! i))" if "i \<in> set order" for i
    using assms(2) len [OF that] by (simp add: printString_def sleep_time_short)
  have "sorted_wrt (\<lambda>i j. late i + fst (printString CORRECT_CODE_6 (ls ! i)) \<le> late j + fst (printString CORRECT_CODE_6 (ls ! j))) order"
    using assms(1) by (simp add: may_print_def sorted_map)
  then have "sorted_wrt (\<lambda>i j. length (c_string (ls ! i)) \<le> length (c_string (ls ! j))) order"
  proof (rule sorted_wrt_mono_rel [rotated])
    fix i j assume ij: "i \<in> set order" "j \<in> set order"
      and "late i + fst (printString CORRECT_CODE_6 (ls ! i)) \<le> late j + fst (printString CORRECT_CODE_6 (ls ! j))"
    then show "length (c_string (ls ! i)) \<le> length (c_string (ls ! j))"
      using time [OF ij(1)] time [OF ij(2)] assms(3) len [OF ij(2)] by fastforce
  qed
  then show ?thesis by (simp add: output_6_def printString_def sorted_map o_def)
qed

lemma printed_once:
  assumes "may_print late errs ls order" "\<forall>l \<in> set ls. c_string l = l"
  shows "mset (output_6 ls order) = mset ls"
proof -
  have "mset (output_6 ls order) = image_mset (\<lambda>i. c_string (ls ! i)) (mset order)"
    by (simp add: output_6_def printString_def)
  also have "\<dots> = image_mset (\<lambda>i. c_string (ls ! i)) (mset [0..<length ls])" using assms(1) by (simp add: may_print_def)
  also have "\<dots> = mset (map (\<lambda>i. c_string (ls ! i)) [0..<length ls])" by simp
  also have "map (\<lambda>i. c_string (ls ! i)) [0..<length ls] = ls"
    using assms(2) by (intro nth_equalityI) simp_all
  finally show ?thesis .
qed

text \<open>
  C38: lines up to an empty one, fewer than a hundred and each shorter than 42950 bytes, are printed each
  once and sorted by length, provided that no thread begins and wakes up later, in sum, than the
  tenth of a second that one byte makes; and there is an order in which the threads can print.
\<close>

theorem sleep_sort_sorts:
  assumes "\<forall>l \<in> set ls. 1 < length l \<and> length l < 42950 \<and> CHR 0x00 \<notin> set l" "length ls < 100" "length e = 1"
    and "\<forall>i < length ls. late i < 100000"
  shows "main_6 (map Line ls @ Line e # as) True (replicate (length ls) CORRECT_CODE_6) = Done CORRECT_EXIT_CODE_6 ls
    \<and> (\<exists>order. may_print late (\<lambda>_. CORRECT_CODE_6) ls order)
    \<and> (\<forall>order. may_print late (\<lambda>_. CORRECT_CODE_6) ls order \<longrightarrow>
        mset (output_6 ls order) = mset ls \<and> sorted (map length (output_6 ls order)))"
proof (intro conjI allI impI)
  have code: "CORRECT_CODE_6 \<noteq> EXCEPTION_CODE_6" by (simp add: CORRECT_CODE_6_def EXCEPTION_CODE_6_def)
  have "readStrings (map Line ls @ Line e # as) = Done CORRECT_CODE_6 ls"
    by (rule readStrings_lines(1)) (use assms in auto)
  then show "main_6 (map Line ls @ Line e # as) True (replicate (length ls) CORRECT_CODE_6) = Done CORRECT_EXIT_CODE_6 ls"
    using code by (simp add: main_6_def create_printers_all)
next
  let ?time = "\<lambda>i. late i + fst (printString CORRECT_CODE_6 (ls ! i))"
  have "may_print late (\<lambda>_. CORRECT_CODE_6) ls (sort_key ?time [0..<length ls])" by (simp add: may_print_def)
  then show "\<exists>order. may_print late (\<lambda>_. CORRECT_CODE_6) ls order" ..
next
  fix order assume order: "may_print late (\<lambda>_. CORRECT_CODE_6) ls order"
  have strings: "\<forall>l \<in> set ls. c_string l = l" using assms(1) c_string_zero_free by blast
  show "mset (output_6 ls order) = mset ls" by (rule printed_once [OF order strings])
  show "sorted (map length (output_6 ls order))"
    by (rule sleeping_order [OF order _ assms(4)]) (use assms(1) strings in simp)
qed

theorem sleep_sort_sorts_witness:
  "main_6 (map Line [''three'', ''four'', ''by''] @ Line [CHR 0x0A] # []) True [0, 0, 0] = Done 0 [''three'', ''four'', ''by'']"
proof -
  let ?ls = "[''three'', ''four'', ''by'']"
  have "main_6 (map Line ?ls @ Line [CHR 0x0A] # []) True (replicate (length ?ls) CORRECT_CODE_6) = Done CORRECT_EXIT_CODE_6 ?ls"
    by (rule sleep_sort_sorts [of ?ls "[CHR 0x0A]" "\<lambda>_. 0" "[]", THEN conjunct1]) simp_all
  then show ?thesis by (simp add: numeral_3_eq_3 CORRECT_CODE_6_def CORRECT_EXIT_CODE_6_def)
qed

text \<open>
  What goes wrong: input that ends without an empty line is an error, and nothing is printed; if a thread
  cannot be created the second loop joins an identifier that was never written; and a string of
  42950 bytes sleeps for less than a single byte, because the time is taken modulo 2^32.
\<close>

theorem sleep_sort_loses:
  "(\<forall>l \<in> set ls. 1 < length l \<and> length l < 2 ^ 31) \<and> length ls < 100 \<longrightarrow>
     main_6 (map Line ls @ NoLine # as) True errs = Done EXCEPTION_EXIT_CODE_6 []
   \<and> (length e = 1 \<and> k < length ls \<and> code \<noteq> CORRECT_CODE_6 \<longrightarrow>
        main_6 (map Line ls @ Line e # as) True (replicate k CORRECT_CODE_6 @ code # errs) = Fault Indeterminate)
   \<and> sleep_time (replicate 42950 CHR ''a'') < sleep_time [CHR ''b'']"
proof (intro conjI impI)
  assume ls: "(\<forall>l \<in> set ls. 1 < length l \<and> length l < 2 ^ 31) \<and> length ls < 100"
  show "main_6 (map Line ls @ NoLine # as) True errs = Done EXCEPTION_EXIT_CODE_6 []"
    using readStrings_lines(2) [of ls as] ls by (simp add: main_6_def)
  show "main_6 (map Line ls @ Line e # as) True (replicate k CORRECT_CODE_6 @ code # errs) = Fault Indeterminate"
    if *: "length e = 1 \<and> k < length ls \<and> code \<noteq> CORRECT_CODE_6"
  proof -
    have "length (create_printers ss (replicate k CORRECT_CODE_6 @ code # errs)) \<le> k" for ss
      using created_below * by blast
    then have "length (create_printers ls (replicate k CORRECT_CODE_6 @ code # errs)) < length ls"
      using * by (meson le_less_trans less_imp_le)
    then show ?thesis
      using readStrings_lines(1) [of ls e as] ls * by (simp add: main_6_def Let_def CORRECT_CODE_6_def EXCEPTION_CODE_6_def)
  qed
  have "c_string (replicate 42950 CHR ''a'') = replicate 42950 CHR ''a''" by (rule c_string_zero_free) simp
  moreover have "c_string [CHR ''b''] = [CHR ''b'']" by (simp add: c_string_def)
  ultimately show "sleep_time (replicate 42950 CHR ''a'') < sleep_time [CHR ''b'']" by (simp add: sleep_time_mod)
qed

theorem sleep_sort_loses_witness:
  "main_6 [Line ''xy'', NoLine] True [0] = Done 1 []"
  using sleep_sort_loses [of "[''xy'']" "[]" "[0]"] by (simp add: EXCEPTION_EXIT_CODE_6_def)

end
