(* ===== verification/Lab8.thy ===== *)
theory Lab8
  imports Parser
begin

text \<open>
  \<open>lab8/main.c\<close>: pi as a Leibniz sum of 200000000 terms, split among threads. The operations on
  \<open>double\<close> are a parameter, a record of functions, so that statements on indices hold for any
  arithmetic. The \<open>int\<close> indices are mathematical integers; that they stay far below 2^31 is shown in
  \<open>Lab8_Correct\<close>. The results of \<open>pthread_create\<close> and \<open>pthread_join\<close> are inputs, one per call. A
  thread's result depends on its arguments alone and is read after the join.
\<close>

section \<open>Arguments\<close>

definition NUM_OF_STEPS :: int where
  "NUM_OF_STEPS = 200000000"

definition MIN_NUM_OF_THREADS :: int64 where
  "MIN_NUM_OF_THREADS = 1"

definition MAX_NUM_OF_THREADS :: int64 where
  "MAX_NUM_OF_THREADS = 30000"

definition NUM_OF_ARGS :: int32 where
  "NUM_OF_ARGS = 2"

definition CORRECT_CODE_8 :: int32 where
  "CORRECT_CODE_8 = 0"

definition EXCEPTION_CODE_8 :: int32 where
  "EXCEPTION_CODE_8 = 1"

text \<open>What \<open>strtol\<close> leaves behind \<open>endptr\<close>: the whole text if there is no number at its beginning.\<close>

definition strtol_rest :: "string \<Rightarrow> string" where
  "strtol_rest s =
     (let t = dropWhile is_space s;
          u = (case t of c # r \<Rightarrow> if c = CHR ''-'' \<or> c = CHR ''+'' then r else t | [] \<Rightarrow> t)
      in if takeWhile is_digit u = [] then s else dropWhile is_digit u)"

definition is_valid_input :: "int32 \<Rightarrow> string \<Rightarrow> int32" where
  "is_valid_input num_of_args num_of_threads_arg =
     (if num_of_args \<noteq> NUM_OF_ARGS then EXCEPTION_CODE_8
      else
        let num_of_threads = strtol10 num_of_threads_arg
        in if strtol_rest num_of_threads_arg \<noteq> [] then EXCEPTION_CODE_8
           else if sint num_of_threads < sint MIN_NUM_OF_THREADS \<or> sint num_of_threads > sint MAX_NUM_OF_THREADS
           then EXCEPTION_CODE_8 else CORRECT_CODE_8)"

section \<open>The sum\<close>

record 'd doubles =
  of_int_d :: "int \<Rightarrow> 'd"
  add_d :: "'d \<Rightarrow> 'd \<Rightarrow> 'd"
  sub_d :: "'d \<Rightarrow> 'd \<Rightarrow> 'd"
  mul_d :: "'d \<Rightarrow> 'd \<Rightarrow> 'd"
  div_d :: "'d \<Rightarrow> 'd \<Rightarrow> 'd"

record partial_sum_args =
  start_index :: int
  end_index :: int

definition one_over :: "'d doubles \<Rightarrow> int \<Rightarrow> int \<Rightarrow> 'd" where
  "one_over D i k = div_d D (of_int_d D 1) (add_d D (mul_d D (of_int_d D i) (of_int_d D 4)) (of_int_d D k))"

fun calc_loop :: "'d doubles \<Rightarrow> nat \<Rightarrow> int \<Rightarrow> 'd \<Rightarrow> 'd" where
  "calc_loop D 0 i partial_sum = partial_sum"
| "calc_loop D (Suc n) i partial_sum =
     (let partial_sum = add_d D partial_sum (one_over D i 1);
          partial_sum = sub_d D partial_sum (one_over D i 3)
      in calc_loop D n (i + 1) partial_sum)"

definition calc_partial_sum :: "'d doubles \<Rightarrow> partial_sum_args \<Rightarrow> 'd" where
  "calc_partial_sum D args =
     calc_loop D (nat (end_index args - start_index args)) (start_index args) (of_int_d D 0)"

section \<open>The threads\<close>

text \<open>The arguments of the threads that were created, and the code the loop returns.\<close>

definition thread_range :: "int \<Rightarrow> int \<Rightarrow> partial_sum_args" where
  "thread_range num_of_threads thread_num =
     (let iteration_num_for_thread = NUM_OF_STEPS div num_of_threads;
          num_of_additional_iterations = NUM_OF_STEPS mod num_of_threads;
          start = thread_num * iteration_num_for_thread;
          end = start + iteration_num_for_thread
      in \<lparr>start_index = start,
          end_index = (if thread_num < num_of_additional_iterations then end + 1 else end)\<rparr>)"

fun create_from :: "nat \<Rightarrow> nat \<Rightarrow> int \<Rightarrow> int32 list \<Rightarrow> partial_sum_args list \<Rightarrow> (int32, partial_sum_args list) outcome" where
  "create_from 0 thread_num num_of_threads codes created = Done CORRECT_CODE_8 created"
| "create_from (Suc n) thread_num num_of_threads [] created = Fault OutOfFuel"
| "create_from (Suc n) thread_num num_of_threads (return_code # codes) created =
     (if return_code \<noteq> CORRECT_CODE_8 then Done return_code created
      else create_from n (Suc thread_num) num_of_threads codes
             (created @ [thread_range num_of_threads (int thread_num)]))"

definition create_threads_for_partial_sum ::
    "int \<Rightarrow> int32 list \<Rightarrow> (int32, partial_sum_args list) outcome" where
  "create_threads_for_partial_sum num_of_threads codes = create_from (nat num_of_threads) 0 num_of_threads codes []"

text \<open>
  The loop joins as many threads as were asked for; beyond those created it reads an identifier that
  was never written. The \<open>return_code\<close> inside the loop is a variable of its own, so what the
  function returns is the outer one.
\<close>

fun join_from ::
    "nat \<Rightarrow> 'd doubles \<Rightarrow> partial_sum_args list \<Rightarrow> int32 list \<Rightarrow> 'd \<Rightarrow> (int32, 'd) outcome" where
  "join_from 0 D threads codes acc = Done CORRECT_CODE_8 acc"
| "join_from (Suc n) D [] codes acc = Fault Indeterminate"
| "join_from (Suc n) D (args # threads) [] acc = Fault OutOfFuel"
| "join_from (Suc n) D (args # threads) (return_code # codes) acc =
     join_from n D threads codes (add_d D acc (calc_partial_sum D args))"

definition join_threads_with_partial_sum ::
    "int \<Rightarrow> 'd doubles \<Rightarrow> partial_sum_args list \<Rightarrow> int32 list \<Rightarrow> 'd \<Rightarrow> (int32, 'd) outcome" where
  "join_threads_with_partial_sum num_of_threads = join_from (nat num_of_threads)"

definition calculate_pi :: "'d doubles \<Rightarrow> int \<Rightarrow> int32 list \<Rightarrow> int32 list \<Rightarrow> (int32, 'd) outcome" where
  "calculate_pi D num_of_threads createCodes joinCodes =
     (case create_threads_for_partial_sum num_of_threads createCodes of
        Fault x \<Rightarrow> Fault x
      | Throws e threads \<Rightarrow> Throws e (of_int_d D 0)
      | Done return_code threads \<Rightarrow>
          bind (join_threads_with_partial_sum num_of_threads D threads joinCodes (of_int_d D 0)) (\<lambda>return_code pi.
            if return_code \<noteq> CORRECT_CODE_8 then Done EXCEPTION_CODE_8 pi
            else Done CORRECT_CODE_8 (mul_d D pi (of_int_d D 4))))"

text \<open>\<open>main\<close> gives its exit code and what it printed, if anything.\<close>

definition main_8 ::
    "'d doubles \<Rightarrow> int32 \<Rightarrow> string \<Rightarrow> int32 list \<Rightarrow> int32 list \<Rightarrow> (int32, 'd option) outcome" where
  "main_8 D argc argv1 createCodes joinCodes =
     (if is_valid_input argc argv1 \<noteq> CORRECT_CODE_8 then Done 1 None
      else
        let num_of_threads = sint (ucast (strtol10 argv1) :: int32)
        in case calculate_pi D num_of_threads createCodes joinCodes of
             Fault x \<Rightarrow> Fault x
           | Throws e pi \<Rightarrow> Throws e None
           | Done return_code pi \<Rightarrow> if return_code \<noteq> CORRECT_CODE_8 then Done 1 None else Done 0 (Some pi))"

end
