(* ===== verification/Lab8_Correct.thy ===== *)
theory Lab8_Correct
  imports Lab8 Parser_Correct Complex_Main
begin

text \<open>
  What \<open>lab8\<close> adds up. The threads' ranges stay inside the steps and cover all of them exactly when
  their number divides the number of steps; otherwise some terms are counted twice and the last ones not at all.
\<close>

section \<open>The input\<close>

lemma dropWhile_digits: "list_all is_digit ds \<Longrightarrow> dropWhile is_digit ds = []"
  by (simp add: list_all_iff)

lemma digit_no_space: "is_digit c \<Longrightarrow> \<not> is_space c"
  by (auto simp: is_digit_def is_space_def Let_def)

lemma digit_no_sign: "is_digit c \<Longrightarrow> c \<noteq> CHR ''-'' \<and> c \<noteq> CHR ''+''"
  by (auto simp: is_digit_def Let_def)

lemma strtol_rest_digits: "list_all is_digit ds \<Longrightarrow> strtol_rest ds = []"
  by (cases ds) (auto simp: strtol_rest_def Let_def digit_no_space digit_no_sign dropWhile_digits)

lemma is_valid_input_number:
  assumes "n < 2 ^ 63"
  shows "is_valid_input 2 (dec n) = CORRECT_CODE_8 \<longleftrightarrow> 1 \<le> n \<and> n \<le> 30000"
proof -
  have "sint (strtol10 (dec n)) = int n"
    using assms by (simp add: strtol10_digits dec_digits digits_value_dec min_def sint_of_nat_small)
  then show ?thesis
    by (auto simp: is_valid_input_def strtol_rest_digits dec_digits NUM_OF_ARGS_def MIN_NUM_OF_THREADS_def
        MAX_NUM_OF_THREADS_def CORRECT_CODE_8_def EXCEPTION_CODE_8_def)
qed

section \<open>The ranges\<close>

definition term_at :: "int \<Rightarrow> real" where
  "term_at i = 1 / (4 * of_int i + 1) - 1 / (4 * of_int i + 3)"

definition exact :: "real doubles" where
  "exact = \<lparr>of_int_d = of_int, add_d = (+), sub_d = (-), mul_d = (*), div_d = (/)\<rparr>"

lemma exact_simps [simp]:
  "of_int_d exact i = real_of_int i" "add_d exact a b = a + b" "sub_d exact a b = a - b" "mul_d exact a b = a * b"
  "one_over exact i k = 1 / (4 * real_of_int i + real_of_int k)"
  by (simp_all add: exact_def one_over_def algebra_simps)

lemma calc_loop_exact: "calc_loop exact n i s = s + (\<Sum>k \<in> {i..<i + int n}. term_at k)"
proof (induction n arbitrary: i s)
  case (Suc n)
  have "{i..<i + int (Suc n)} = insert i {i + 1..<(i + 1) + int n}" by auto
  then show ?case
    by (simp add: Suc.IH term_at_def Let_def algebra_simps)
qed simp

lemma calc_partial_sum_exact:
  "start_index r \<le> end_index r \<Longrightarrow> calc_partial_sum exact r = (\<Sum>k \<in> {start_index r..<end_index r}. term_at k)"
  by (simp add: calc_partial_sum_def calc_loop_exact)

text \<open>Joining adds up the results of the first threads, in order.\<close>

lemma join_exact:
  "n \<le> length ths \<Longrightarrow> n \<le> length codes \<Longrightarrow>
   join_from n exact ths codes s = Done CORRECT_CODE_8 (s + (\<Sum>r \<leftarrow> take n ths. calc_partial_sum exact r))"
proof (induction n exact ths codes s rule: join_from.induct)
  case (4 n r ths code codes s)
  then show ?case by simp
qed auto

lemma create_all:
  assumes "n \<le> length codes" "\<forall>c \<in> set (take n codes). c = CORRECT_CODE_8"
  shows "create_from n k t codes l = Done CORRECT_CODE_8 (l @ map (\<lambda>i. thread_range t (int i)) [k..<k + n])"
  using assms
proof (induction n k t codes l rule: create_from.induct)
  case (3 n k t code codes l)
  then show ?case by (simp add: upt_rec)
qed auto

lemma sum_pieces:
  fixes f :: "int \<Rightarrow> real"
  assumes "0 \<le> q"
  shows "(\<Sum>k<t. \<Sum>i \<in> {int k * q..<(int k + 1) * q}. f i) = (\<Sum>i \<in> {0..<int t * q}. f i)"
proof (induction t)
  case (Suc t)
  have "{0..<int (Suc t) * q} = {0..<int t * q} \<union> {int t * q..<(int t + 1) * q}"
    using assms by (auto simp: algebra_simps) (smt (verit) mult_nonneg_nonneg of_nat_0_le_iff)
  moreover have "{0..<int t * q} \<inter> {int t * q..<(int t + 1) * q} = {}" by auto
  ultimately show ?case using Suc by (simp add: sum.union_disjoint)
qed simp

lemma term_at_decreasing:
  assumes "0 \<le> i" "i < j"
  shows "term_at j < term_at i"
proof -
  have eq: "term_at k = 2 / ((4 * of_int k + 1) * (4 * of_int k + 3))" if "0 \<le> k" for k
    using that by (simp add: term_at_def field_simps)
  have "(4 * real_of_int i + 1) * (4 * of_int i + 3) < (4 * of_int j + 1) * (4 * of_int j + 3)"
    using assms by (intro mult_strict_mono) auto
  then show ?thesis
    unfolding eq [OF assms(1)] eq [OF order_trans [OF assms(1) less_imp_le [OF assms(2)]]]
    using assms by (intro divide_strict_left_mono) (auto intro!: mult_pos_pos)
qed

definition leibniz :: "int \<Rightarrow> real" where
  "leibniz n = (\<Sum>i \<in> {0..<n}. term_at i)"

text \<open>The terms that some thread counts a second time, and those that no thread counts.\<close>

definition twice :: "int \<Rightarrow> real" where
  "twice t = (\<Sum>k < nat (NUM_OF_STEPS mod t). term_at ((int k + 1) * (NUM_OF_STEPS div t)))"

definition missed_terms :: "int \<Rightarrow> real" where
  "missed_terms t = (\<Sum>k < nat (NUM_OF_STEPS mod t). term_at (t * (NUM_OF_STEPS div t) + int k))"

lemma ranges_sum:
  assumes "1 \<le> t" "t \<le> 30000"
  shows "(\<Sum>r \<leftarrow> map (\<lambda>i. thread_range t (int i)) [0..<nat t]. calc_partial_sum exact r)
    = leibniz NUM_OF_STEPS + (twice t - missed_terms t)"
proof -
  define q r where "q = NUM_OF_STEPS div t" and "r = NUM_OF_STEPS mod t"
  have q: "0 \<le> q" using assms by (simp add: q_def NUM_OF_STEPS_def pos_imp_zdiv_nonneg_iff)
  have r: "0 \<le> r" "r < t" using assms by (simp_all add: r_def)
  have n: "NUM_OF_STEPS = t * q + r" by (simp add: q_def r_def)
  have part: "calc_partial_sum exact (thread_range t (int k)) = (\<Sum>i \<in> {int k * q..<(int k + 1) * q}. term_at i)
      + (if k < nat r then term_at ((int k + 1) * q) else 0)" for k
  proof -
    let ?e = "int k * q + q"
    have le: "int k * q \<le> ?e" using q by simp
    have "{int k * q..<?e + 1} = insert ?e {int k * q..<?e}" using le by auto
    then have "calc_partial_sum exact (thread_range t (int k))
        = (\<Sum>i \<in> {int k * q..<?e}. term_at i) + (if int k < r then term_at ?e else 0)"
      using le by (subst calc_partial_sum_exact)
        (auto simp: thread_range_def Let_def q_def [symmetric] r_def [symmetric])
    moreover have "(int k + 1) * q = ?e" by (simp add: algebra_simps)
    moreover have "int k < r \<longleftrightarrow> k < nat r" by linarith
    ultimately show ?thesis by simp
  qed
  have "(\<Sum>r \<leftarrow> map (\<lambda>i. thread_range t (int i)) [0..<nat t]. calc_partial_sum exact r)
      = (\<Sum>k<nat t. calc_partial_sum exact (thread_range t (int k)))"
    by (simp add: o_def interv_sum_list_conv_sum_set_nat atLeast0LessThan)
  also have "\<dots> = (\<Sum>i \<in> {0..<t * q}. term_at i) + (\<Sum>k<nat t. if k < nat r then term_at ((int k + 1) * q) else 0)"
    unfolding part sum.distrib sum_pieces [OF q] using assms by simp
  also have "(\<Sum>k<nat t. if k < nat r then term_at ((int k + 1) * q) else 0) = twice t"
  proof -
    have "{..<nat t} \<inter> {k. k < nat r} = {..<nat r}" using r by auto
    then show ?thesis by (simp add: sum.If_cases twice_def q_def r_def)
  qed
  also have "(\<Sum>i \<in> {0..<t * q}. term_at i) = leibniz NUM_OF_STEPS - missed_terms t"
  proof -
    have tq: "0 \<le> t * q" using q assms by simp
    then have "{0..<t * q + r} = {0..<t * q} \<union> {t * q..<t * q + r}" using r by auto
    then have "leibniz NUM_OF_STEPS = (\<Sum>i \<in> {0..<t * q}. term_at i) + (\<Sum>i \<in> {t * q..<t * q + r}. term_at i)"
      by (simp add: leibniz_def n sum.union_disjoint ivl_disj_int_two(3))
    moreover have "(\<Sum>i \<in> {t * q..<t * q + r}. term_at i) = missed_terms t"
      unfolding missed_terms_def q_def [symmetric] r_def [symmetric]
      by (rule sum.reindex_bij_witness [of _ "\<lambda>k. t * q + int k" "\<lambda>i. nat (i - t * q)"]) auto
    ultimately show ?thesis by simp
  qed
  finally show ?thesis by simp
qed

lemma twice_exceeds:
  assumes "1 \<le> t" "t \<le> 30000"
  shows "missed_terms t \<le> twice t" and "missed_terms t = twice t \<longleftrightarrow> t dvd NUM_OF_STEPS"
proof -
  define q r where "q = NUM_OF_STEPS div t" and "r = NUM_OF_STEPS mod t"
  have "30000 * 1 \<le> NUM_OF_STEPS" by (simp add: NUM_OF_STEPS_def)
  then have q: "1 \<le> q" using assms by (simp add: q_def pos_imp_zdiv_pos_iff int_one_le_iff_zero_less)
  have less: "term_at (t * q + int k) < term_at ((int k + 1) * q)" if "k < nat r" for k
  proof (rule term_at_decreasing)
    have "r < t" using assms by (simp add: r_def)
    with that have "int k + 1 < t" by linarith
    then have "(int k + 1) * q < t * q" using q by simp
    then show "(int k + 1) * q < t * q + int k" by simp
    show "0 \<le> (int k + 1) * q" using q by simp
  qed
  show "missed_terms t \<le> twice t"
    unfolding missed_terms_def twice_def q_def [symmetric] r_def [symmetric]
    by (rule sum_mono) (use less in \<open>auto intro: less_imp_le\<close>)
  have "missed_terms t < twice t" if "r \<noteq> 0"
    unfolding missed_terms_def twice_def q_def [symmetric] r_def [symmetric]
  proof (rule sum_strict_mono)
    have "0 \<le> r" using assms by (simp add: r_def)
    with that show "{..<nat r} \<noteq> {}" by (auto simp: lessThan_empty_iff)
  qed (use less in auto)
  moreover have "missed_terms t = twice t" if "r = 0"
    using that by (simp add: missed_terms_def twice_def r_def)
  moreover have "r = 0 \<longleftrightarrow> t dvd NUM_OF_STEPS" by (simp add: r_def dvd_eq_mod_eq_0)
  ultimately show "missed_terms t = twice t \<longleftrightarrow> t dvd NUM_OF_STEPS" by fastforce
qed

section \<open>Properties\<close>

text \<open>
  C34: how the terms are shared out. Every range stays inside the 200000000 steps, so no \<open>int\<close>
  overflows, and with exact arithmetic the result is four times the Leibniz sum plus an error: the
  first threads also count the term where the next range begins, and nobody counts the last terms.
  The result is exact only if the number of threads divides the number of steps, and too big otherwise.
\<close>

theorem pi_counts_terms_twice:
  assumes "1 \<le> t" "t \<le> 30000" "length createCodes = nat t" "list_all (\<lambda>c. c = CORRECT_CODE_8) createCodes"
    and "length joinCodes = nat t"
  shows "(\<exists>p. calculate_pi exact t createCodes joinCodes = Done CORRECT_CODE_8 p
        \<and> p = 4 * leibniz NUM_OF_STEPS + 4 * (twice t - missed_terms t)
        \<and> 4 * leibniz NUM_OF_STEPS \<le> p \<and> (p = 4 * leibniz NUM_OF_STEPS \<longleftrightarrow> t dvd NUM_OF_STEPS))
    \<and> (\<forall>k < nat t. 0 \<le> start_index (thread_range t (int k))
        \<and> start_index (thread_range t (int k)) \<le> end_index (thread_range t (int k))
        \<and> end_index (thread_range t (int k)) \<le> NUM_OF_STEPS)"
proof -
  let ?ths = "map (\<lambda>i. thread_range t (int i)) [0..<nat t]"
  have "create_threads_for_partial_sum t createCodes = Done CORRECT_CODE_8 ?ths"
    using create_all [of "nat t" createCodes 0 t "[]"] assms(3,4)
    by (simp add: create_threads_for_partial_sum_def list_all_iff)
  moreover have "join_threads_with_partial_sum t exact ?ths joinCodes 0
      = Done CORRECT_CODE_8 (leibniz NUM_OF_STEPS + (twice t - missed_terms t))"
    using join_exact [of "nat t" ?ths joinCodes 0] assms(5) ranges_sum [OF assms(1,2)]
    by (simp add: join_threads_with_partial_sum_def)
  ultimately have pi: "calculate_pi exact t createCodes joinCodes
      = Done CORRECT_CODE_8 (4 * leibniz NUM_OF_STEPS + 4 * (twice t - missed_terms t))"
    by (simp add: calculate_pi_def algebra_simps)
  have "0 \<le> start_index (thread_range t (int k)) \<and> start_index (thread_range t (int k)) \<le> end_index (thread_range t (int k))
        \<and> end_index (thread_range t (int k)) \<le> NUM_OF_STEPS" if k: "k < nat t" for k
  proof -
    define q r where "q = NUM_OF_STEPS div t" and "r = NUM_OF_STEPS mod t"
    have n: "NUM_OF_STEPS = t * q + r" "0 \<le> r" "r < t" using assms(1) by (simp_all add: q_def r_def)
    have q: "0 \<le> q" using assms(1) by (simp add: q_def NUM_OF_STEPS_def pos_imp_zdiv_nonneg_iff)
    have "(int k + 1) * q \<le> t * q" using k q by (intro mult_right_mono) auto
    then have "int k * q + q \<le> t * q" by (simp add: algebra_simps)
    moreover have "0 \<le> int k * q" using q by simp
    ultimately show ?thesis
      using n q by (auto simp: thread_range_def Let_def q_def [symmetric] r_def [symmetric])
  qed
  then show ?thesis using pi twice_exceeds [OF assms(1,2)] by auto
qed

theorem pi_counts_terms_twice_witness:
  "\<exists>p. calculate_pi exact 3 [0, 0, 0] [0, 0, 0] = Done CORRECT_CODE_8 p \<and> p > 4 * leibniz NUM_OF_STEPS"
proof -
  have "\<not> (3 :: int) dvd NUM_OF_STEPS" by (simp add: NUM_OF_STEPS_def)
  then show ?thesis
    using pi_counts_terms_twice [of 3 "[0, 0, 0]" "[0, 0, 0]"] by (auto simp: CORRECT_CODE_8_def)
qed

text \<open>
  When a thread cannot be created the error is reported and the sum goes on: the join of the first
  thread that is missing reads an identifier that was never set.
\<close>

theorem failed_create_joins_garbage:
  assumes "n < nat t" "code \<noteq> CORRECT_CODE_8" "createCodes = replicate n CORRECT_CODE_8 @ code # rest"
    and "n \<le> length joinCodes"
  shows "calculate_pi D t createCodes joinCodes = Fault Indeterminate"
proof -
  have create: "create_from (m + Suc d) k t (replicate m CORRECT_CODE_8 @ code # rest) l
      = Done code (l @ map (\<lambda>i. thread_range t (int i)) [k..<k + m])" for m d k l
  proof (induction m arbitrary: k l)
    case (Suc m)
    have "[k..<k + Suc m] = k # [Suc k..<Suc k + m]" by (simp add: upt_rec)
    then show ?case using Suc [of "Suc k"] by simp
  qed (use assms(2) in simp)
  have join: "join_from (length ths + Suc d) D ths codes s = Fault Indeterminate" if "length ths \<le> length codes" for ths d codes s
    using that
  proof (induction ths arbitrary: codes s)
    case (Cons a ths)
    then show ?case by (cases codes) auto
  qed simp
  obtain d where d: "nat t = n + Suc d" using assms(1) less_imp_Suc_add by fastforce
  show ?thesis
    using create [of n d 0 "[]"] join [of "map (\<lambda>i. thread_range t (int i)) [0..<n]" joinCodes d "of_int_d D 0"] assms(3,4)
    by (simp add: calculate_pi_def create_threads_for_partial_sum_def join_threads_with_partial_sum_def d)
qed

theorem failed_create_joins_garbage_witness:
  "calculate_pi exact 2 [0, 11] [0, 0] = Fault Indeterminate"
  by (rule failed_create_joins_garbage [of 1 2 11 "[0, 11]" "[]"]) (simp_all add: CORRECT_CODE_8_def)

end
