(* ===== verification/Lab11.thy ===== *)
theory Lab11
  imports Threads
begin

text \<open>
  \<open>lab11/main.c\<close>: two threads that print ten lines each in turn, by three mutexes handed round. A
  state holds what both threads share and where each of them is; a step is one statement of one
  thread that the other can notice. Mutexes are of the type \<open>PTHREAD_MUTEX_ERRORCHECK\<close>: a thread
  that locks what it holds, or unlocks what it does not hold, gets an error code; one that locks
  what the other holds waits, which is the absence of a step. The busy loop on \<open>ready\<close> is taken for
  a wait, too. Messages to \<open>stderr\<close> are left out.
\<close>

section \<open>Mutexes\<close>

definition CORRECT_CODE_11 :: int32 where
  "CORRECT_CODE_11 = 0"

definition EXCEPTION_CODE_11 :: int32 where
  "EXCEPTION_CODE_11 = 1"

definition START_MUTEX :: nat where
  "START_MUTEX = 0"

definition SRT_COUNT_11 :: nat where
  "SRT_COUNT_11 = 10"

definition COUNT_MUTEXES :: nat where
  "COUNT_MUTEXES = 3"

type_synonym mutexes = "nat \<Rightarrow> Tid option"

text \<open>The code returned and the mutexes after the call, or \<open>None\<close> while the caller waits.\<close>

definition lock_mutex :: "Tid \<Rightarrow> nat \<Rightarrow> mutexes \<Rightarrow> (int32 \<times> mutexes) option" where
  "lock_mutex t i m = (case m i of
     None \<Rightarrow> Some (CORRECT_CODE_11, m(i \<mapsto> t))
   | Some owner \<Rightarrow> if owner = t then Some (EXCEPTION_CODE_11, m) else None)"

definition unlock_mutex :: "Tid \<Rightarrow> nat \<Rightarrow> mutexes \<Rightarrow> int32 \<times> mutexes" where
  "unlock_mutex t i m =
     (if m i = Some t then (CORRECT_CODE_11, m(i := None)) else (EXCEPTION_CODE_11, m))"

text \<open>The codes that the calls of the system return are inputs, those of \<open>pthread_mutex_init\<close> in order.\<close>

definition initialize_mutexes :: "int32 \<Rightarrow> int32 \<Rightarrow> int32 list \<Rightarrow> int32" where
  "initialize_mutexes attrCode typeCode initCodes =
     (if attrCode \<noteq> CORRECT_CODE_11 then EXCEPTION_CODE_11
      else if typeCode \<noteq> CORRECT_CODE_11 then EXCEPTION_CODE_11
      else if list_ex (\<lambda>code. code \<noteq> CORRECT_CODE_11) (take COUNT_MUTEXES initCodes) then EXCEPTION_CODE_11
      else CORRECT_CODE_11)"

text \<open>\<open>destroy_mutexes\<close> gives the number of mutexes that could not be destroyed: the locked ones.\<close>

definition destroy_mutexes :: "mutexes \<Rightarrow> nat" where
  "destroy_mutexes m = length (filter (\<lambda>i. m i \<noteq> None) [0..<COUNT_MUTEXES])"

section \<open>The threads\<close>

text \<open>
  The places in \<open>print_text_in_thread\<close> and, \<open>Spinning\<close> and \<open>Joining\<close>, in \<open>main\<close>. The arguments are
  \<open>i\<close>, \<open>thisMutex\<close> and \<open>nextMutex\<close>.
\<close>

datatype Place = Spinning | Entered | FirstLock | SetReady | NextLock nat nat | Printf nat nat nat
  | PrevUnlock nat nat nat | LastUnlock nat | Joining | Finished

record Lab11 =
  mutex_array :: mutexes
  ready :: bool
  printed :: "(nat \<times> string) list"
  place :: "Tid \<Rightarrow> Place"
  message :: "Tid \<Rightarrow> string"
  notDestroyed :: nat

definition goto :: "Tid \<Rightarrow> Place \<Rightarrow> Lab11 \<Rightarrow> Lab11" where
  "goto t p s = s\<lparr>place := (place s)(t := p)\<rparr>"

definition returns :: "Tid \<Rightarrow> Lab11 \<Rightarrow> Lab11" where
  "returns t = goto t (case t of MainThread \<Rightarrow> Joining | NewThread \<Rightarrow> Finished)"

definition loop_at :: "nat \<Rightarrow> nat \<Rightarrow> Place" where
  "loop_at i thisMutex = (if i < SRT_COUNT_11 then NextLock i thisMutex else LastUnlock thisMutex)"

definition after_lock :: "Tid \<Rightarrow> nat \<Rightarrow> Place \<Rightarrow> Lab11 \<Rightarrow> Lab11 option" where
  "after_lock t i p s = (case lock_mutex t i (mutex_array s) of
     None \<Rightarrow> None
   | Some (code, m) \<Rightarrow>
       let s = s\<lparr>mutex_array := m\<rparr>
       in Some (if code \<noteq> CORRECT_CODE_11 then returns t s else goto t p s))"

definition after_unlock :: "Tid \<Rightarrow> nat \<Rightarrow> Place \<Rightarrow> Lab11 \<Rightarrow> Lab11" where
  "after_unlock t i p s =
     (let (code, m) = unlock_mutex t i (mutex_array s); s = s\<lparr>mutex_array := m\<rparr>
      in if code \<noteq> CORRECT_CODE_11 then returns t s else goto t p s)"

definition print_text_in_thread :: "Tid \<Rightarrow> Lab11 \<Rightarrow> Lab11 option" where
  "print_text_in_thread t s = (case place s t of
     Entered \<Rightarrow> Some (goto t (if \<not> ready s then FirstLock else loop_at 0 0) s)
   | FirstLock \<Rightarrow> after_lock t 2 SetReady s
   | SetReady \<Rightarrow> Some (goto t (loop_at 0 2) (s\<lparr>ready := True\<rparr>))
   | NextLock i thisMutex \<Rightarrow>
       let nextMutex = (thisMutex + 1) mod COUNT_MUTEXES
       in after_lock t nextMutex (Printf i thisMutex nextMutex) s
   | Printf i thisMutex nextMutex \<Rightarrow>
       Some (goto t (PrevUnlock i thisMutex nextMutex) (s\<lparr>printed := printed s @ [(i, message s t)]\<rparr>))
   | PrevUnlock i thisMutex nextMutex \<Rightarrow> Some (after_unlock t thisMutex (loop_at (Suc i) nextMutex) s)
   | LastUnlock thisMutex \<Rightarrow> Some (returns t (s\<lparr>mutex_array := snd (unlock_mutex t thisMutex (mutex_array s))\<rparr>))
   | _ \<Rightarrow> None)"

definition thread_step :: "Tid \<Rightarrow> Lab11 \<Rightarrow> Lab11 option" where
  "thread_step t s = (case place s t of
     Spinning \<Rightarrow> if ready s then Some (goto t Entered s) else None
   | Joining \<Rightarrow> if place s NewThread = Finished
       then Some (goto t Finished (s\<lparr>notDestroyed := destroy_mutexes (mutex_array s)\<rparr>)) else None
   | _ \<Rightarrow> print_text_in_thread t s)"

inductive step_11 :: "Lab11 \<Rightarrow> Lab11 \<Rightarrow> bool" where
  "thread_step t s = Some s' \<Longrightarrow> step_11 s s'"

inductive_cases step_11E: "step_11 s s'"

text \<open>
  \<open>main\<close> up to the busy loop: an exit code, or the state in which both threads run. A thread that
  could not be created has no step; \<open>main\<close> goes on all the same.
\<close>

definition main_11 :: "int32 \<Rightarrow> int32 \<Rightarrow> int32 list \<Rightarrow> int32 \<Rightarrow> int32 + Lab11" where
  "main_11 attrCode typeCode initCodes createCode =
     (if initialize_mutexes attrCode typeCode initCodes \<noteq> CORRECT_CODE_11 then Inl EXCEPTION_CODE_11
      else case lock_mutex MainThread START_MUTEX (\<lambda>_. None) of
        None \<Rightarrow> Inl EXCEPTION_CODE_11
      | Some (lock_status, m) \<Rightarrow>
          if lock_status \<noteq> CORRECT_CODE_11 then Inl EXCEPTION_CODE_11
          else Inr \<lparr>mutex_array = m, ready = False, printed = [],
            place = (\<lambda>t. case t of MainThread \<Rightarrow> Spinning
               | NewThread \<Rightarrow> if createCode = CORRECT_CODE_11 then Entered else Finished),
            message = (\<lambda>t. case t of MainThread \<Rightarrow> ''Hello, I'm main thread''
               | NewThread \<Rightarrow> ''Hello, I'm new thread''),
            notDestroyed = 0\<rparr>)"

section \<open>What every state keeps\<close>

text \<open>The mutexes a thread holds at a place, and how many lines it has printed by then.\<close>

fun held :: "Tid \<Rightarrow> Place \<Rightarrow> nat set" where
  "held t Spinning = {0}"
| "held t Entered = (if t = MainThread then {0} else {})"
| "held t FirstLock = {}"
| "held t SetReady = {2}"
| "held t (NextLock i a) = {a}"
| "held t (Printf i a b) = {a, b}"
| "held t (PrevUnlock i a b) = {a, b}"
| "held t (LastUnlock a) = {a}"
| "held t Joining = {}"
| "held t Finished = {}"

fun lines_of :: "Place \<Rightarrow> nat" where
  "lines_of (NextLock i a) = i"
| "lines_of (Printf i a b) = i"
| "lines_of (PrevUnlock i a b) = Suc i"
| "lines_of (LastUnlock a) = 10"
| "lines_of Joining = 10"
| "lines_of Finished = 10"
| "lines_of p = 0"

text \<open>The main thread starts from mutex 0, the new one from mutex 2.\<close>

fun in_turn :: "nat \<Rightarrow> Place \<Rightarrow> bool" where
  "in_turn k (NextLock i a) \<longleftrightarrow> i < 10 \<and> a = (i + k) mod 3"
| "in_turn k (Printf i a b) \<longleftrightarrow> i < 10 \<and> a = (i + k) mod 3 \<and> b = (i + k + 1) mod 3"
| "in_turn k (PrevUnlock i a b) \<longleftrightarrow> i < 10 \<and> a = (i + k) mod 3 \<and> b = (i + k + 1) mod 3"
| "in_turn k (LastUnlock a) \<longleftrightarrow> a = (10 + k) mod 3"
| "in_turn k p \<longleftrightarrow> True"

definition inv_11 :: "Lab11 \<Rightarrow> bool" where
  "inv_11 s \<longleftrightarrow> (\<forall>t m. mutex_array s m = Some t \<longleftrightarrow> m \<in> held t (place s t))
     \<and> in_turn 0 (place s MainThread) \<and> in_turn 2 (place s NewThread)
     \<and> place s MainThread \<notin> {FirstLock, SetReady} \<and> place s NewThread \<notin> {Spinning, Joining}
     \<and> (ready s \<longleftrightarrow> place s NewThread \<notin> {Entered, FirstLock, SetReady})
     \<and> (place s MainThread \<noteq> Spinning \<longrightarrow> ready s)
     \<and> lines_of (place s MainThread) \<in> {lines_of (place s NewThread), Suc (lines_of (place s NewThread))}
     \<and> printed s = alternating (message s MainThread) (message s NewThread)
         (lines_of (place s MainThread) + lines_of (place s NewThread))
     \<and> (place s MainThread = Finished \<longrightarrow> place s NewThread = Finished \<and> notDestroyed s = 0)"

end
