(* ===== verification/Lab11_Correct.thy ===== *)
theory Lab11_Correct
  imports Lab11
begin

text \<open>
  The two threads of \<open>lab11\<close> print strictly in turn, and both come to an end: the invariant holds
  in every state, no state in which a thread is not finished is stuck, and every step is counted.
\<close>

section \<open>Whose turn it is\<close>

lemma inv_11D:
  assumes "inv_11 s"
  shows "mutex_array s m = Some t \<longleftrightarrow> m \<in> held t (place s t)"
    and "in_turn 0 (place s MainThread)" "in_turn 2 (place s NewThread)"
    and "place s MainThread \<notin> {FirstLock, SetReady}" "place s NewThread \<notin> {Spinning, Joining}"
    and "ready s \<longleftrightarrow> place s NewThread \<notin> {Entered, FirstLock, SetReady}"
    and "place s MainThread \<noteq> Spinning \<Longrightarrow> ready s"
    and "lines_of (place s MainThread) \<in> {lines_of (place s NewThread), Suc (lines_of (place s NewThread))}"
    and "printed s = alternating (message s MainThread) (message s NewThread) (lines_of (place s MainThread) + lines_of (place s NewThread))"
    and "place s MainThread = Finished \<Longrightarrow> place s NewThread = Finished \<and> notDestroyed s = 0"
  using assms unfolding inv_11_def by blast+

lemma held_apart:
  assumes "inv_11 s" "m \<in> held MainThread (place s MainThread)" "m \<in> held NewThread (place s NewThread)"
  shows False
  using inv_11D(1) [OF assms(1), of m] assms(2,3) by (metis Tid.distinct(1) option.inject)

lemma main_turn:
  assumes "inv_11 s" "place s MainThread = Printf i a b"
  shows "lines_of (place s NewThread) = i"
proof -
  note d = inv_11D(2-8) [OF assms(1)]
  have ab: "i < 10" "a = i mod 3" "b = (i + 1) mod 3" using d(1) assms(2) by simp_all
  have turn: "i = lines_of (place s NewThread) \<or> i = Suc (lines_of (place s NewThread))" "ready s"
    using d(6,7) assms(2) by simp_all
  have apart: "a \<notin> held NewThread (place s NewThread)" "b \<notin> held NewThread (place s NewThread)"
    using held_apart [OF assms(1)] assms(2) by auto
  show ?thesis
  proof (rule ccontr)
    assume "lines_of (place s NewThread) \<noteq> i"
    with turn have i: "i = Suc (lines_of (place s NewThread))" by blast
    show False
      using d(2,4,5) i apart turn(2) ab by (cases "place s NewThread") simp_all
  qed
qed

lemma new_turn:
  assumes "inv_11 s" "place s NewThread = Printf j a b"
  shows "lines_of (place s MainThread) = Suc j"
proof -
  note d = inv_11D(2-8) [OF assms(1)]
  have ab: "j < 10" "a = (j + 2) mod 3" "b = (j + 3) mod 3" using d(2) assms(2) by simp_all
  have turn: "lines_of (place s MainThread) = j \<or> lines_of (place s MainThread) = Suc j" "ready s"
    using d(5,7) assms(2) by auto
  have apart: "a \<notin> held MainThread (place s MainThread)" "b \<notin> held MainThread (place s MainThread)"
    using held_apart [OF assms(1)] assms(2) by auto
  show ?thesis
  proof (rule ccontr)
    assume "lines_of (place s MainThread) \<noteq> Suc j"
    with turn have i: "lines_of (place s MainThread) = j" by blast
    show False
      using d(1,3) i apart ab by (cases "place s MainThread") simp_all
  qed
qed

section \<open>Every step keeps the invariant\<close>

lemma codes_11 [simp]: "CORRECT_CODE_11 = 0" "EXCEPTION_CODE_11 = 1"
  by (simp_all add: CORRECT_CODE_11_def EXCEPTION_CODE_11_def)

lemma goto_simps [simp]:
  "place (goto t p s) = (place s)(t := p)" "mutex_array (goto t p s) = mutex_array s" "ready (goto t p s) = ready s"
  "printed (goto t p s) = printed s" "message (goto t p s) = message s" "notDestroyed (goto t p s) = notDestroyed s"
  by (simp_all add: goto_def)

lemma after_lock_free:
  assumes "inv_11 s" "after_lock t i p s = Some s'" "i \<notin> held t (place s t)"
  shows "mutex_array s i = None \<and> s' = goto t p (s\<lparr>mutex_array := (mutex_array s)(i \<mapsto> t)\<rparr>)"
  using assms(2,3) inv_11D(1) [OF assms(1), of i t]
  by (auto simp: after_lock_def lock_mutex_def Let_def split: option.splits if_splits)

lemma after_unlock_held:
  assumes "inv_11 s" "i \<in> held t (place s t)"
  shows "after_unlock t i p s = goto t p (s\<lparr>mutex_array := (mutex_array s)(i := None)\<rparr>)"
  using assms(2) inv_11D(1) [OF assms(1), of i t] by (simp add: after_unlock_def unlock_mutex_def)

text \<open>Taking a free mutex, giving one back, and moving between places that hold the same.\<close>

lemma owners_take:
  assumes "\<And>m u. M m = Some u \<longleftrightarrow> m \<in> held u (P u)" "M i = None" "held t p = insert i (held t (P t))"
  shows "(M(i \<mapsto> t)) m = Some u \<longleftrightarrow> m \<in> held u ((P(t := p)) u)"
  using assms(1) [of m u] assms(2,3) assms(1) [of i u] by auto

lemma owners_give:
  assumes "\<And>m u. M m = Some u \<longleftrightarrow> m \<in> held u (P u)" "M i = Some t" "held t p = held t (P t) - {i}"
  shows "(M(i := None)) m = Some u \<longleftrightarrow> m \<in> held u ((P(t := p)) u)"
  using assms(1) [of m u] assms(2,3) assms(1) [of i u] by auto

lemma owners_keep:
  assumes "\<And>m u. M m = Some u \<longleftrightarrow> m \<in> held u (P u)" "held t p = held t (P t)"
  shows "M m = Some u \<longleftrightarrow> m \<in> held u ((P(t := p)) u)"
  using assms by auto

lemma held_loop_at [simp]: "held t (loop_at i a) = {a}"
  and lines_of_loop_at [simp]: "i \<le> 10 \<Longrightarrow> lines_of (loop_at i a) = i"
  and in_turn_loop_at [simp]: "i \<le> 10 \<Longrightarrow> in_turn k (loop_at i a) \<longleftrightarrow> a = (i + k) mod 3"
  and loop_at_place [simp]: "loop_at i a \<notin> {Spinning, Entered, FirstLock, SetReady, Joining, Finished}"
  by (auto simp: loop_at_def SRT_COUNT_11_def)

lemma main_step:
  assumes "inv_11 s" "thread_step MainThread s = Some s'"
  shows "inv_11 s'"
proof -
  note own = inv_11D(1) [OF assms(1)]
  note d = inv_11D(2-10) [OF assms(1)]
  show ?thesis
  proof (cases "place s MainThread")
    case Spinning
    with assms(2) have s': "ready s" "s' = goto MainThread Entered s" by (auto simp: thread_step_def split: if_splits)
    then show ?thesis
      using d Spinning owners_keep [of "mutex_array s" "place s" MainThread Entered, OF own]
      unfolding inv_11_def by simp
  next
    case Entered
    with d(4,6) assms(2) have s': "s' = goto MainThread (loop_at 0 0) s" "ready s"
      by (auto simp: thread_step_def print_text_in_thread_def)
    then show ?thesis
      using d Entered owners_keep [of "mutex_array s" "place s" MainThread "loop_at 0 0", OF own] loop_at_place [of 0 0]
      unfolding inv_11_def by (simp del: loop_at_place)
  next
    case (NextLock i a)
    let ?b = "(a + 1) mod 3"
    from NextLock d(1) have a: "i < 10" "a = i mod 3" by simp_all
    then have ne: "?b \<noteq> a" by presburger
    from NextLock assms(2) have "after_lock MainThread ?b (Printf i a ?b) s = Some s'"
      by (simp add: thread_step_def print_text_in_thread_def COUNT_MUTEXES_def Let_def)
    from after_lock_free [OF assms(1) this] NextLock ne
    have s': "mutex_array s ?b = None" "s' = goto MainThread (Printf i a ?b) (s\<lparr>mutex_array := (mutex_array s)(?b \<mapsto> MainThread)\<rparr>)"
      by simp_all
    show ?thesis
      unfolding inv_11_def s'(2)
      using d NextLock a owners_take [of "mutex_array s" "place s" ?b MainThread "Printf i a ?b", OF own s'(1)]
      by (simp add: insert_commute mod_simps)
  next
    case (Printf i a b)
    then have s': "s' = goto MainThread (PrevUnlock i a b) (s\<lparr>printed := printed s @ [(i, message s MainThread)]\<rparr>)"
      using assms(2) by (simp add: thread_step_def print_text_in_thread_def)
    show ?thesis
      unfolding inv_11_def s'
      using d Printf main_turn [OF assms(1) Printf] owners_keep [of "mutex_array s" "place s" MainThread "PrevUnlock i a b", OF own]
      by (simp add: alternating_Suc)
  next
    case (PrevUnlock i a b)
    from PrevUnlock d(1) have a: "i < 10" "a = i mod 3" "b = (i + 1) mod 3" by simp_all
    then have ne: "b \<noteq> a" by presburger
    have s': "s' = goto MainThread (loop_at (Suc i) b) (s\<lparr>mutex_array := (mutex_array s)(a := None)\<rparr>)"
      using assms(2) PrevUnlock after_unlock_held [OF assms(1), of a MainThread]
      by (simp add: thread_step_def print_text_in_thread_def)
    show ?thesis
      unfolding inv_11_def s'
      using d PrevUnlock a ne loop_at_place [of "Suc i" b] own [of a MainThread]
        owners_give [of "mutex_array s" "place s" a MainThread "loop_at (Suc i) b", OF own]
      by (simp add: insert_Diff_if del: loop_at_place)
  next
    case (LastUnlock a)
    have s': "s' = goto MainThread Joining (s\<lparr>mutex_array := (mutex_array s)(a := None)\<rparr>)"
      using assms(2) LastUnlock own [of a MainThread]
      by (simp add: thread_step_def print_text_in_thread_def returns_def unlock_mutex_def)
    show ?thesis
      unfolding inv_11_def s'
      using d LastUnlock own [of a MainThread] owners_give [of "mutex_array s" "place s" a MainThread Joining, OF own]
      by simp
  next
    case Joining
    with assms(2) have s': "place s NewThread = Finished"
      "s' = goto MainThread Finished (s\<lparr>notDestroyed := destroy_mutexes (mutex_array s)\<rparr>)"
      by (auto simp: thread_step_def split: if_splits)
    have "mutex_array s m = None" for m
      using own [of m MainThread] own [of m NewThread] Joining s'(1) by (cases "mutex_array s m") (auto, metis Tid.exhaust)
    then show ?thesis
      unfolding inv_11_def s'(2)
      using d Joining s'(1) owners_keep [of "mutex_array s" "place s" MainThread Finished, OF own]
      by (simp add: destroy_mutexes_def)
  qed (use d(3) assms(2) in \<open>simp_all add: thread_step_def print_text_in_thread_def\<close>)
qed

lemma new_step:
  assumes "inv_11 s" "thread_step NewThread s = Some s'"
  shows "inv_11 s'"
proof -
  note own = inv_11D(1) [OF assms(1)]
  note d = inv_11D(2-10) [OF assms(1)]
  have nf: "place s NewThread \<noteq> Finished \<Longrightarrow> place s MainThread \<noteq> Finished" using d(9) by blast
  show ?thesis
  proof (cases "place s NewThread")
    case Entered
    with d(5) assms(2) have s': "s' = goto NewThread FirstLock s" "\<not> ready s"
      by (auto simp: thread_step_def print_text_in_thread_def)
    then show ?thesis
      using d Entered owners_keep [of "mutex_array s" "place s" NewThread FirstLock, OF own]
      unfolding inv_11_def by auto
  next
    case FirstLock
    then have "after_lock NewThread 2 SetReady s = Some s'"
      using assms(2) by (simp add: thread_step_def print_text_in_thread_def)
    from after_lock_free [OF assms(1) this] FirstLock
    have s': "mutex_array s 2 = None" "s' = goto NewThread SetReady (s\<lparr>mutex_array := (mutex_array s)(2 \<mapsto> NewThread)\<rparr>)"
      by simp_all
    show ?thesis
      unfolding inv_11_def s'(2)
      using d FirstLock owners_take [of "mutex_array s" "place s" 2 NewThread SetReady, OF own s'(1)] by auto
  next
    case SetReady
    then have s': "s' = goto NewThread (loop_at 0 2) (s\<lparr>ready := True\<rparr>)"
      using assms(2) by (simp add: thread_step_def print_text_in_thread_def)
    show ?thesis
      unfolding inv_11_def s'
      using d nf SetReady loop_at_place [of 0 2] owners_keep [of "mutex_array s" "place s" NewThread "loop_at 0 2", OF own]
      by (simp del: loop_at_place)
  next
    case (NextLock i a)
    let ?b = "(a + 1) mod 3"
    from NextLock d(2) have a: "i < 10" "a = (i + 2) mod 3" by simp_all
    then have ne: "?b \<noteq> a" by presburger
    from NextLock assms(2) have "after_lock NewThread ?b (Printf i a ?b) s = Some s'"
      by (simp add: thread_step_def print_text_in_thread_def COUNT_MUTEXES_def Let_def)
    from after_lock_free [OF assms(1) this] NextLock ne
    have s': "mutex_array s ?b = None" "s' = goto NewThread (Printf i a ?b) (s\<lparr>mutex_array := (mutex_array s)(?b \<mapsto> NewThread)\<rparr>)"
      by simp_all
    show ?thesis
      unfolding inv_11_def s'(2)
      using d nf NextLock a owners_take [of "mutex_array s" "place s" ?b NewThread "Printf i a ?b", OF own s'(1)]
      by (simp add: insert_commute mod_simps)
  next
    case (Printf i a b)
    then have s': "s' = goto NewThread (PrevUnlock i a b) (s\<lparr>printed := printed s @ [(i, message s NewThread)]\<rparr>)"
      using assms(2) by (simp add: thread_step_def print_text_in_thread_def)
    show ?thesis
      unfolding inv_11_def s'
      using d nf Printf new_turn [OF assms(1) Printf] owners_keep [of "mutex_array s" "place s" NewThread "PrevUnlock i a b", OF own]
      by (simp add: alternating_Suc)
  next
    case (PrevUnlock i a b)
    from PrevUnlock d(2) have a: "i < 10" "a = (i + 2) mod 3" "b = (i + 3) mod 3" by simp_all
    then have ne: "b \<noteq> a" by presburger
    have s': "s' = goto NewThread (loop_at (Suc i) b) (s\<lparr>mutex_array := (mutex_array s)(a := None)\<rparr>)"
      using assms(2) PrevUnlock after_unlock_held [OF assms(1), of a NewThread]
      by (simp add: thread_step_def print_text_in_thread_def)
    show ?thesis
      unfolding inv_11_def s'
      using d nf PrevUnlock a ne loop_at_place [of "Suc i" b] own [of a NewThread]
        owners_give [of "mutex_array s" "place s" a NewThread "loop_at (Suc i) b", OF own]
      by (simp add: insert_Diff_if del: loop_at_place)
  next
    case (LastUnlock a)
    have s': "s' = goto NewThread Finished (s\<lparr>mutex_array := (mutex_array s)(a := None)\<rparr>)"
      using assms(2) LastUnlock own [of a NewThread]
      by (simp add: thread_step_def print_text_in_thread_def returns_def unlock_mutex_def)
    show ?thesis
      unfolding inv_11_def s'
      using d nf LastUnlock own [of a NewThread] owners_give [of "mutex_array s" "place s" a NewThread Finished, OF own]
      by simp
  qed (use d(4) assms(2) in \<open>simp_all add: thread_step_def print_text_in_thread_def\<close>)
qed

text \<open>The states \<open>main\<close> starts from when no call fails.\<close>

definition start_11 :: "Lab11 \<Rightarrow> bool" where
  "start_11 s \<longleftrightarrow> main_11 0 0 [0, 0, 0] 0 = Inr s"

lemma start_11_inv: "start_11 s \<Longrightarrow> inv_11 s"
  by (auto simp: start_11_def main_11_def initialize_mutexes_def COUNT_MUTEXES_def lock_mutex_def START_MUTEX_def
      inv_11_def alternating_def split: Tid.splits if_splits)

interpretation turns: invariant_system start_11 step_11 inv_11
proof
  show "inv_11 s" if "start_11 s" for s using that by (rule start_11_inv)
  show "inv_11 t" if "inv_11 s" "step_11 s t" for s t
    using that(2) main_step [OF that(1)] new_step [OF that(1)] by (elim step_11E) (metis Tid.exhaust)
qed

section \<open>Every run ends\<close>

fun places_left :: "Place \<Rightarrow> nat" where
  "places_left Spinning = 39"
| "places_left Entered = 38"
| "places_left FirstLock = 37"
| "places_left SetReady = 36"
| "places_left (NextLock i a) = 5 + 3 * (10 - i)"
| "places_left (Printf i a b) = 4 + 3 * (10 - i)"
| "places_left (PrevUnlock i a b) = 3 + 3 * (10 - i)"
| "places_left (LastUnlock a) = 2"
| "places_left Joining = 1"
| "places_left Finished = 0"

definition work_left :: "Lab11 \<Rightarrow> nat" where
  "work_left s = places_left (place s MainThread) + places_left (place s NewThread)"

lemma places_left_loop_at [simp]: "places_left (loop_at i a) = (if i < 10 then 5 + 3 * (10 - i) else 2)"
  by (simp add: loop_at_def SRT_COUNT_11_def)

lemma goto_work:
  "place s t = p \<Longrightarrow> place s' = (place s)(t := q) \<Longrightarrow> places_left q < places_left p \<Longrightarrow> work_left s' < work_left s"
  by (cases t) (simp_all add: work_left_def)

lemma lock_place:
  assumes "after_lock t i q s = Some s'"
  shows "place s' = (place s)(t := q) \<or> place s' = place (returns t s)"
  using assms by (auto simp: after_lock_def Let_def returns_def split: option.splits if_splits)

lemma unlock_place: "place (after_unlock t i q s) = (place s)(t := q) \<or> place (after_unlock t i q s) = place (returns t s)"
  by (auto simp: after_unlock_def Let_def returns_def split: prod.splits)

lemma step_work:
  assumes "thread_step t s = Some s'"
  shows "work_left s' < work_left s"
proof -
  obtain q where q: "place s' = (place s)(t := q)" "places_left q < places_left (place s t)"
  proof -
    have "\<exists>q. place s' = (place s)(t := q) \<and> places_left q < places_left (place s t)"
    proof (cases "place s t")
      case (NextLock i a)
      with assms have "after_lock t ((a + 1) mod COUNT_MUTEXES) (Printf i a ((a + 1) mod COUNT_MUTEXES)) s = Some s'"
        by (simp add: thread_step_def print_text_in_thread_def Let_def)
      from lock_place [OF this] NextLock show ?thesis by (cases t) (auto simp: returns_def)
    next
      case FirstLock
      with assms have "after_lock t 2 SetReady s = Some s'" by (simp add: thread_step_def print_text_in_thread_def)
      from lock_place [OF this] FirstLock show ?thesis by (cases t) (auto simp: returns_def)
    next
      case (PrevUnlock i a b)
      with assms have "s' = after_unlock t a (loop_at (Suc i) b) s" by (simp add: thread_step_def print_text_in_thread_def)
      with unlock_place [of t a "loop_at (Suc i) b" s] PrevUnlock show ?thesis
        by (cases t) (auto simp: returns_def fun_upd_eq_iff)
    qed (use assms in \<open>auto simp: thread_step_def print_text_in_thread_def returns_def split: if_splits Tid.splits\<close>)
    then show ?thesis using that by blast
  qed
  then show ?thesis by (rule goto_work [OF refl])
qed

interpretation ending_11: terminating_system step_11 work_left
  by unfold_locales (auto elim!: step_11E intro: step_work)

section \<open>No state is stuck\<close>

lemma stuck_NextLock:
  assumes "inv_11 s" "place s t = NextLock i a" "thread_step t s = None" "t \<noteq> u"
  shows "(a + 1) mod 3 \<in> held u (place s u)"
proof -
  have "after_lock t ((a + 1) mod 3) (Printf i a ((a + 1) mod 3)) s = None"
    using assms(2,3) by (simp add: thread_step_def print_text_in_thread_def Let_def COUNT_MUTEXES_def)
  then obtain v where "mutex_array s ((a + 1) mod 3) = Some v" "v \<noteq> t"
    by (auto simp: after_lock_def lock_mutex_def Let_def split: option.splits if_splits)
  moreover from this have "v = u" using assms(4) by (cases t; cases u; cases v) auto
  ultimately show ?thesis using inv_11D(1) [OF assms(1)] by blast
qed

lemma places_stuck:
  assumes "thread_step t s = None"
  shows "place s t \<in> {Spinning, FirstLock, Joining, Finished} \<or> (\<exists>i a. place s t = NextLock i a)"
  using assms by (cases "place s t") (auto simp: thread_step_def print_text_in_thread_def)

lemma finished_11:
  assumes "inv_11 s" "\<forall>u. \<not> step_11 s u"
  shows "place s MainThread = Finished \<and> place s NewThread = Finished"
proof -
  note d = inv_11D(2-10) [OF assms(1)]
  have none: "thread_step t s = None" for t using assms(2) step_11.intros [of t s] by (cases "thread_step t s") auto
  have main: "place s MainThread \<in> {Spinning, Joining, Finished} \<or> (\<exists>i a. place s MainThread = NextLock i a)"
    using places_stuck [OF none [of MainThread]] d(3) by auto
  have "place s NewThread = Finished"
  proof (rule ccontr)
    assume nf: "place s NewThread \<noteq> Finished"
    then have "place s NewThread = FirstLock \<or> (\<exists>j a. place s NewThread = NextLock j a)"
      using places_stuck [OF none [of NewThread]] d(4) by auto
    then show False
    proof (elim disjE exE)
      assume f: "place s NewThread = FirstLock"
      with d(5,6) have "place s MainThread = Spinning" by auto
      moreover have "after_lock NewThread 2 SetReady s = None"
        using none [of NewThread] f by (simp add: thread_step_def print_text_in_thread_def)
      then have "mutex_array s 2 = Some MainThread"
        by (auto simp: after_lock_def lock_mutex_def Let_def split: option.splits if_splits) (metis Tid.exhaust)
      ultimately show False using inv_11D(1) [OF assms(1), of 2 MainThread] by simp
    next
      fix j a assume n: "place s NewThread = NextLock j a"
      with d(2,5) have ja: "j < 10" "a = (j + 2) mod 3" "ready s" by auto
      have m: "(a + 1) mod 3 \<in> held MainThread (place s MainThread)"
        by (rule stuck_NextLock [OF assms(1) n none]) simp
      have "place s MainThread \<noteq> Spinning" using none [of MainThread] ja(3) by (auto simp: thread_step_def)
      with m main obtain i b where i: "place s MainThread = NextLock i b" by auto
      have "(b + 1) mod 3 \<in> held NewThread (place s NewThread)"
        by (rule stuck_NextLock [OF assms(1) i none]) simp
      then have "(b + 1) mod 3 = a" "(a + 1) mod 3 = b" using n m i by simp_all
      then show False using ja(2) d(1) i by simp presburger
    qed
  qed
  moreover from this have "place s MainThread \<notin> {Spinning, Joining}"
    using none [of MainThread] d(5) by (auto simp: thread_step_def)
  moreover have "place s MainThread \<noteq> NextLock i a" for i a
    using stuck_NextLock [OF assms(1) _ none, of MainThread i a NewThread] \<open>place s NewThread = Finished\<close> by auto
  ultimately show ?thesis using main by auto
qed

text \<open>
  C19: the two threads print strictly in turn, the main thread first, and both come to an end. In
  every reachable state what has been printed is a beginning of the alternating sequence of twenty
  lines; a run has at most 77 steps; a state without a further step is reached, and in every such
  state all twenty lines are printed, both threads have returned and every mutex was destroyed.
\<close>

theorem lines_alternate:
  assumes "start_11 s"
  shows "(\<forall>t. step_11\<^sup>*\<^sup>* s t \<longrightarrow> (\<exists>n \<le> 20. printed t = alternating (message t MainThread) (message t NewThread) n))
    \<and> (\<forall>n t. (step_11 ^^ n) s t \<longrightarrow> n \<le> 77)
    \<and> (\<exists>t. step_11\<^sup>*\<^sup>* s t \<and> (\<forall>u. \<not> step_11 t u))
    \<and> (\<forall>t. step_11\<^sup>*\<^sup>* s t \<and> (\<forall>u. \<not> step_11 t u) \<longrightarrow> printed t = alternating (message t MainThread) (message t NewThread) 20
        \<and> place t MainThread = Finished \<and> place t NewThread = Finished \<and> notDestroyed t = 0)"
proof -
  have lines_le: "lines_of p \<le> 10" if "in_turn k p" for k p using that by (cases p) auto
  have "\<exists>n \<le> 20. printed t = alternating (message t MainThread) (message t NewThread) n" if "step_11\<^sup>*\<^sup>* s t" for t
  proof -
    from turns.reachable_inv [OF assms that] have inv: "inv_11 t" .
    have "lines_of (place t MainThread) + lines_of (place t NewThread) \<le> 20"
      using lines_le [OF inv_11D(2) [OF inv]] lines_le [OF inv_11D(3) [OF inv]] by simp
    then show ?thesis using inv_11D(9) [OF inv] by blast
  qed
  moreover have "work_left s = 77"
    using assms by (auto simp: start_11_def main_11_def initialize_mutexes_def COUNT_MUTEXES_def lock_mutex_def
        work_left_def split: if_splits)
  then have "n \<le> 77" if "(step_11 ^^ n) s t" for n t using ending_11.steps_bounded [OF that] by simp
  moreover have "printed t = alternating (message t MainThread) (message t NewThread) 20 \<and> place t MainThread = Finished
      \<and> place t NewThread = Finished \<and> notDestroyed t = 0" if "step_11\<^sup>*\<^sup>* s t" "\<forall>u. \<not> step_11 t u" for t
  proof -
    from turns.reachable_inv [OF assms that(1)] have inv: "inv_11 t" .
    from finished_11 [OF inv that(2)] have f: "place t MainThread = Finished" "place t NewThread = Finished" by blast+
    show ?thesis using inv_11D(9,10) [OF inv] f by simp
  qed
  ultimately show ?thesis using ending_11.ends [of s] by blast
qed

lemma start_11_exists: "\<exists>s. start_11 s \<and> message s MainThread = ''Hello, I'm main thread''"
  by (simp add: start_11_def main_11_def initialize_mutexes_def COUNT_MUTEXES_def lock_mutex_def)

theorem lines_alternate_witness:
  "\<exists>s t. start_11 s \<and> step_11\<^sup>*\<^sup>* s t \<and> printed t = alternating (message t MainThread) (message t NewThread) 20"
proof -
  obtain s where "start_11 s" using start_11_exists by blast
  with lines_alternate [OF this] show ?thesis by blast
qed

text \<open>
  When the thread cannot be created \<open>main\<close> reports it and then waits for \<open>ready\<close> all the same:
  nobody will ever set it.
\<close>

theorem failed_create_spins:
  assumes "code \<noteq> 0" "main_11 0 0 [0, 0, 0] code = Inr s"
  shows "place s MainThread = Spinning \<and> (\<forall>t. \<not> step_11 s t)"
proof -
  have s: "place s MainThread = Spinning" "place s NewThread = Finished" "\<not> ready s"
    using assms by (auto simp: main_11_def initialize_mutexes_def COUNT_MUTEXES_def lock_mutex_def split: if_splits)
  then have "thread_step t s = None" for t by (cases t) (simp_all add: thread_step_def print_text_in_thread_def)
  with s(1) show ?thesis by (auto elim: step_11E)
qed

theorem failed_create_spins_witness: "\<exists>s. main_11 0 0 [0, 0, 0] 11 = Inr s \<and> (\<forall>t. \<not> step_11 s t)"
proof -
  obtain s where "main_11 0 0 [0, 0, 0] 11 = Inr s"
    by (simp add: main_11_def initialize_mutexes_def COUNT_MUTEXES_def lock_mutex_def)
  then show ?thesis using failed_create_spins [of 11 s] by auto
qed

end
