(* ===== verification/Lab12.thy ===== *)
theory Lab12
  imports Threads
begin

text \<open>
  \<open>lab12/main.c\<close>: an attempt to make two threads print in turn with two mutexes, which its own
  comment calls unsuitable. The mutexes are of the default type: a thread that locks one that is
  locked waits, also when it is the holder itself. Unlocking a mutex that the caller does not hold
  has no defined behaviour; the model does what implementations do, which is to free the
  mutex, and notes in \<open>foreign\<close> that it happened. No return code is looked at in this program.
\<close>

section \<open>The threads\<close>

text \<open>
  \<open>StartLock\<close> is the lock of \<open>mutex2\<close> before the loop of \<open>main\<close>; the others are the statements of
  the loops, at the value of \<open>i\<close>.
\<close>

datatype Place_12 = StartLock | LockOne nat | PrintOne nat | UnlockOne nat | Exited

record Lab12 =
  mutex1 :: "Tid option"
  mutex2 :: "Tid option"
  printed_12 :: "(nat \<times> string) list"
  place_12 :: "Tid \<Rightarrow> Place_12"
  foreign :: bool

definition at_12 :: "nat \<Rightarrow> Place_12" where
  "at_12 i = (if i < 5 then LockOne i else Exited)"

definition goto_12 :: "Tid \<Rightarrow> Place_12 \<Rightarrow> Lab12 \<Rightarrow> Lab12" where
  "goto_12 t p s = s\<lparr>place_12 := (place_12 s)(t := p)\<rparr>"

definition print_12 :: "Tid \<Rightarrow> string \<Rightarrow> nat \<Rightarrow> Lab12 \<Rightarrow> Lab12" where
  "print_12 t label i s = goto_12 t (UnlockOne i) (s\<lparr>printed_12 := printed_12 s @ [(i, label)]\<rparr>)"

definition threadFunction :: "Lab12 \<Rightarrow> Lab12 option" where
  "threadFunction s = (case place_12 s NewThread of
     LockOne i \<Rightarrow> if mutex2 s = None
       then Some (goto_12 NewThread (PrintOne i) (s\<lparr>mutex2 := Some NewThread\<rparr>)) else None
   | PrintOne i \<Rightarrow> Some (print_12 NewThread ''Thread - '' i s)
   | UnlockOne i \<Rightarrow> Some (goto_12 NewThread (at_12 (Suc i))
       (s\<lparr>mutex1 := None, foreign := (foreign s \<or> mutex1 s \<noteq> Some NewThread)\<rparr>))
   | _ \<Rightarrow> None)"

definition mainFunction :: "Lab12 \<Rightarrow> Lab12 option" where
  "mainFunction s = (case place_12 s MainThread of
     StartLock \<Rightarrow> if mutex2 s = None
       then Some (goto_12 MainThread (at_12 0) (s\<lparr>mutex2 := Some MainThread\<rparr>)) else None
   | LockOne i \<Rightarrow> if mutex1 s = None
       then Some (goto_12 MainThread (PrintOne i) (s\<lparr>mutex1 := Some MainThread\<rparr>)) else None
   | PrintOne i \<Rightarrow> Some (print_12 MainThread ''Main thread - '' i s)
   | UnlockOne i \<Rightarrow> Some (goto_12 MainThread (at_12 (Suc i))
       (s\<lparr>mutex2 := None, foreign := (foreign s \<or> mutex2 s \<noteq> Some MainThread)\<rparr>))
   | Exited \<Rightarrow> None)"

inductive step_12 :: "Lab12 \<Rightarrow> Lab12 \<Rightarrow> bool" where
  by_thread: "threadFunction s = Some s' \<Longrightarrow> step_12 s s'"
| by_main: "mainFunction s = Some s' \<Longrightarrow> step_12 s s'"

inductive_cases step_12E: "step_12 s s'"

text \<open>Both mutexes are free and the thread was created.\<close>

definition main_12 :: Lab12 where
  "main_12 = \<lparr>mutex1 = None, mutex2 = None, printed_12 = [],
     place_12 = (\<lambda>t. case t of MainThread \<Rightarrow> StartLock | NewThread \<Rightarrow> at_12 0), foreign = False\<rparr>"

section \<open>What every state keeps\<close>

text \<open>The thread was first at \<open>mutex2\<close>.\<close>

definition thread_first :: "Lab12 \<Rightarrow> bool" where
  "thread_first s \<longleftrightarrow> place_12 s MainThread = StartLock \<and> mutex1 s = None \<and>
     (place_12 s NewThread = LockOne 0 \<and> mutex2 s = None \<and> printed_12 s = []
      \<or> place_12 s NewThread = PrintOne 0 \<and> mutex2 s = Some NewThread \<and> printed_12 s = []
      \<or> place_12 s NewThread = UnlockOne 0 \<and> mutex2 s = Some NewThread \<and> printed_12 s = [(0, ''Thread - '')]
      \<or> place_12 s NewThread = LockOne 1 \<and> mutex2 s = Some NewThread \<and> printed_12 s = [(0, ''Thread - '')])"

text \<open>
  The main thread was first. A round of both goes through six phases; \<open>b\<close> is the number of rounds
  done, and the mutexes matter only as locked or free.
\<close>

definition in_phase :: "Place_12 \<Rightarrow> bool \<Rightarrow> bool \<Rightarrow> Place_12 \<Rightarrow> nat \<Rightarrow> Lab12 \<Rightarrow> bool" where
  "in_phase m locked1 locked2 n k s \<longleftrightarrow> place_12 s MainThread = m \<and> (mutex1 s \<noteq> None \<longleftrightarrow> locked1)
     \<and> (mutex2 s \<noteq> None \<longleftrightarrow> locked2) \<and> place_12 s NewThread = n
     \<and> printed_12 s = alternating ''Main thread - '' ''Thread - '' k"

inductive main_first :: "Lab12 \<Rightarrow> bool" where
  main_locks: "b \<le> 5 \<Longrightarrow> in_phase (at_12 b) False True (at_12 b) (2 * b) s \<Longrightarrow> main_first s"
| main_prints: "b < 5 \<Longrightarrow> in_phase (PrintOne b) True True (at_12 b) (2 * b) s \<Longrightarrow> main_first s"
| main_unlocks: "b < 5 \<Longrightarrow> in_phase (UnlockOne b) True True (at_12 b) (2 * b + 1) s \<Longrightarrow> main_first s"
| thread_locks: "b < 5 \<Longrightarrow> in_phase (at_12 (Suc b)) True False (at_12 b) (2 * b + 1) s \<Longrightarrow> main_first s"
| thread_prints: "b < 5 \<Longrightarrow> in_phase (at_12 (Suc b)) True True (PrintOne b) (2 * b + 1) s \<Longrightarrow> main_first s"
| thread_unlocks: "b < 5 \<Longrightarrow> in_phase (at_12 (Suc b)) True True (UnlockOne b) (2 * b + 2) s \<Longrightarrow> main_first s"

definition inv_12 :: "Lab12 \<Rightarrow> bool" where
  "inv_12 s \<longleftrightarrow> thread_first s \<or> main_first s"

end
