(* ===== verification/Lab12_Correct.thy ===== *)
theory Lab12_Correct
  imports Lab12
begin

text \<open>
  What two mutexes achieve in \<open>lab12\<close>: every run ends, either with all lines printed in turn or, when
  the thread is first at the mutex, after a single line with both threads waiting for ever.
\<close>

lemma goto_12_simps [simp]:
  "place_12 (goto_12 t p s) = (place_12 s)(t := p)" "mutex1 (goto_12 t p s) = mutex1 s"
  "mutex2 (goto_12 t p s) = mutex2 s" "printed_12 (goto_12 t p s) = printed_12 s" "foreign (goto_12 t p s) = foreign s"
  by (simp_all add: goto_12_def)

lemma at_12_simps [simp]: "at_12 5 = Exited" "i < 5 \<Longrightarrow> at_12 i = LockOne i"
  by (simp_all add: at_12_def)

lemma at_12_cases: "at_12 i = LockOne i \<and> i < 5 \<or> at_12 i = Exited \<and> 5 \<le> i"
  by (simp add: at_12_def)

lemma thread_step_first:
  assumes "main_first s" "threadFunction s = Some s'"
  shows "main_first s'"
  using assms(1)
proof cases
  case (main_locks b)
  then show ?thesis using assms(2) at_12_cases [of b] by (auto simp: threadFunction_def in_phase_def)
next
  case (main_prints b)
  then show ?thesis using assms(2) by (auto simp: threadFunction_def in_phase_def)
next
  case (main_unlocks b)
  then show ?thesis using assms(2) by (auto simp: threadFunction_def in_phase_def)
next
  case (thread_locks b)
  then have "in_phase (at_12 (Suc b)) True True (PrintOne b) (2 * b + 1) s'"
    using assms(2) by (auto simp: threadFunction_def in_phase_def)
  with thread_locks(1) show ?thesis by (rule main_first.thread_prints)
next
  case (thread_prints b)
  then have "in_phase (at_12 (Suc b)) True True (UnlockOne b) (2 * b + 2) s'"
    using assms(2) by (auto simp: threadFunction_def print_12_def in_phase_def alternating_Suc)
  with thread_prints(1) show ?thesis by (rule main_first.thread_unlocks)
next
  case (thread_unlocks b)
  then have "in_phase (at_12 (Suc b)) False True (at_12 (Suc b)) (2 * Suc b) s'"
    using assms(2) by (auto simp: threadFunction_def in_phase_def)
  then show ?thesis by (rule main_first.main_locks [rotated]) (use thread_unlocks(1) in simp)
qed

lemma main_step_first:
  assumes "main_first s" "mainFunction s = Some s'"
  shows "main_first s'"
  using assms(1)
proof cases
  case (main_locks b)
  then have "b < 5" "in_phase (PrintOne b) True True (at_12 b) (2 * b) s'"
    using assms(2) at_12_cases [of b] by (auto simp: mainFunction_def in_phase_def)
  then show ?thesis by (rule main_first.main_prints)
next
  case (main_prints b)
  then have "in_phase (UnlockOne b) True True (at_12 b) (2 * b + 1) s'"
    using assms(2) by (auto simp: mainFunction_def print_12_def in_phase_def alternating_Suc)
  with main_prints(1) show ?thesis by (rule main_first.main_unlocks)
next
  case (main_unlocks b)
  then have "in_phase (at_12 (Suc b)) True False (at_12 b) (2 * b + 1) s'"
    using assms(2) by (auto simp: mainFunction_def in_phase_def)
  with main_unlocks(1) show ?thesis by (rule main_first.thread_locks)
next
  case (thread_locks b)
  then show ?thesis using assms(2) at_12_cases [of "Suc b"] by (auto simp: mainFunction_def in_phase_def)
next
  case (thread_prints b)
  then show ?thesis using assms(2) at_12_cases [of "Suc b"] by (auto simp: mainFunction_def in_phase_def)
next
  case (thread_unlocks b)
  then show ?thesis using assms(2) at_12_cases [of "Suc b"] by (auto simp: mainFunction_def in_phase_def)
qed

lemma thread_first_step:
  assumes "step_12 s s'" "thread_first s \<and> place_12 s NewThread \<noteq> LockOne 0"
  shows "thread_first s' \<and> place_12 s' NewThread \<noteq> LockOne 0"
  using assms(1)
proof cases
  case by_thread
  then show ?thesis using assms(2) by (auto simp: thread_first_def threadFunction_def print_12_def)
next
  case by_main
  then show ?thesis using assms(2) by (auto simp: thread_first_def mainFunction_def)
qed

lemma thread_step_12:
  assumes "inv_12 s" "threadFunction s = Some s'"
  shows "inv_12 s'"
proof (cases "main_first s")
  case True
  then show ?thesis using thread_step_first assms(2) by (simp add: inv_12_def)
next
  case False
  with assms(1) have "thread_first s" by (simp add: inv_12_def)
  then have "thread_first s'"
    using assms(2) by (auto simp: thread_first_def threadFunction_def print_12_def)
  then show ?thesis by (simp add: inv_12_def)
qed

lemma main_step_12:
  assumes "inv_12 s" "mainFunction s = Some s'"
  shows "inv_12 s'"
proof (cases "main_first s")
  case True
  then show ?thesis using main_step_first assms(2) by (simp add: inv_12_def)
next
  case False
  with assms(1) have t: "thread_first s" by (simp add: inv_12_def)
  then have "in_phase (at_12 0) False True (at_12 0) (2 * 0) s'"
    using assms(2) by (auto simp: thread_first_def mainFunction_def in_phase_def split: if_splits)
  then have "main_first s'" by (intro main_first.main_locks [of 0]) simp_all
  then show ?thesis by (simp add: inv_12_def)
qed

interpretation turns_12: invariant_system "\<lambda>s. s = main_12" step_12 inv_12
proof
  show "inv_12 s" if "s = main_12" for s using that by (simp add: inv_12_def thread_first_def main_12_def)
  show "inv_12 t" if "inv_12 s" "step_12 s t" for s t
    using that by (auto elim!: step_12E intro: thread_step_12 main_step_12)
qed

fun left_12 :: "Place_12 \<Rightarrow> nat" where
  "left_12 StartLock = 19"
| "left_12 (LockOne i) = 3 + 3 * (5 - i)"
| "left_12 (PrintOne i) = 2 + 3 * (5 - i)"
| "left_12 (UnlockOne i) = 1 + 3 * (5 - i)"
| "left_12 Exited = 0"

definition work_12 :: "Lab12 \<Rightarrow> nat" where
  "work_12 s = left_12 (place_12 s MainThread) + left_12 (place_12 s NewThread)"

lemma left_12_at: "left_12 (at_12 i) = (if i < 5 then 3 + 3 * (5 - i) else 0)"
  by (simp add: at_12_def)

lemma work_12_step: "step_12 s s' \<Longrightarrow> work_12 s' < work_12 s"
proof (elim step_12E)
  show "work_12 s' < work_12 s" if "threadFunction s = Some s'"
    using that by (cases "place_12 s NewThread")
      (auto simp: threadFunction_def print_12_def work_12_def left_12_at split: if_splits)
  show "work_12 s' < work_12 s" if "mainFunction s = Some s'"
    using that by (cases "place_12 s MainThread")
      (auto simp: mainFunction_def print_12_def work_12_def left_12_at split: if_splits)
qed

interpretation ending_12: terminating_system step_12 work_12
  by unfold_locales (rule work_12_step)

lemma ends_of_12:
  assumes "inv_12 s" "\<forall>u. \<not> step_12 s u"
  shows "printed_12 s = alternating ''Main thread - '' ''Thread - '' 10
      \<and> place_12 s MainThread = Exited \<and> place_12 s NewThread = Exited
    \<or> printed_12 s = [(0, ''Thread - '')] \<and> place_12 s MainThread = StartLock \<and> place_12 s NewThread = LockOne 1
      \<and> mutex2 s = Some NewThread"
proof -
  have none: "threadFunction s = None" "mainFunction s = None"
    using assms(2) step_12.intros [of s] by (cases "threadFunction s"; cases "mainFunction s"; auto)+
  show ?thesis
  proof (cases "main_first s")
    case True
    then show ?thesis
    proof cases
      case (main_locks b)
      then have "b = 5" using none(2) at_12_cases [of b] by (auto simp: mainFunction_def in_phase_def split: if_splits)
      with main_locks(2) show ?thesis by (simp add: in_phase_def)
    next
      case (thread_locks b)
      then show ?thesis using none(1) by (simp add: threadFunction_def in_phase_def split: if_splits)
    qed (use none in \<open>auto simp: threadFunction_def mainFunction_def in_phase_def\<close>)
  next
    case False
    with assms(1) have "thread_first s" by (simp add: inv_12_def)
    then show ?thesis using none by (auto simp: thread_first_def threadFunction_def mainFunction_def)
  qed
qed

lemma two_ends:
  assumes "step_12\<^sup>*\<^sup>* main_12 t" "\<forall>u. \<not> step_12 t u"
  shows "printed_12 t = alternating ''Main thread - '' ''Thread - '' 10
          \<and> place_12 t MainThread = Exited \<and> place_12 t NewThread = Exited
        \<or> printed_12 t = [(0, ''Thread - '')] \<and> place_12 t MainThread = StartLock
          \<and> place_12 t NewThread = LockOne 1 \<and> mutex2 t = Some NewThread"
  using ends_of_12 [OF turns_12.reachable_inv [OF refl assms(1)] assms(2)] .

text \<open>The new thread locks \<open>mutex2\<close> first.\<close>

lemma deadlock_reached: "\<exists>t. step_12\<^sup>*\<^sup>* main_12 t \<and> (\<forall>u. \<not> step_12 t u) \<and> printed_12 t = [(0, ''Thread - '')]"
proof -
  define s where "s = main_12\<lparr>place_12 := (place_12 main_12)(NewThread := PrintOne 0), mutex2 := Some NewThread\<rparr>"
  have first: "step_12 main_12 s"
    by (rule by_thread) (simp add: threadFunction_def main_12_def s_def goto_12_def)
  obtain t where t: "step_12\<^sup>*\<^sup>* s t" "\<forall>u. \<not> step_12 t u" using ending_12.ends by blast
  have s: "thread_first s \<and> place_12 s NewThread \<noteq> LockOne 0"
    unfolding thread_first_def s_def main_12_def by simp
  from t(1) have "thread_first t \<and> place_12 t NewThread \<noteq> LockOne 0"
  proof (induction rule: rtranclp_induct)
    case base
    show ?case by (rule s)
  next
    case (step y z)
    from step.hyps(2) step.IH show ?case by (rule thread_first_step)
  qed
  then have "place_12 t MainThread = StartLock" by (simp add: thread_first_def)
  moreover have run: "step_12\<^sup>*\<^sup>* main_12 t" using first t(1) by (rule converse_rtranclp_into_rtranclp)
  ultimately have "printed_12 t = [(0, ''Thread - '')]" using two_ends [OF run t(2)] by (elim disjE conjE) simp_all
  with run t(2) show ?thesis by blast
qed

text \<open>The main thread does.\<close>

lemma end_reached: "\<exists>t. step_12\<^sup>*\<^sup>* main_12 t \<and> (\<forall>u. \<not> step_12 t u) \<and> place_12 t NewThread = Exited"
proof -
  define s where "s = main_12\<lparr>place_12 := (place_12 main_12)(MainThread := LockOne 0), mutex2 := Some MainThread\<rparr>"
  have first: "step_12 main_12 s"
    by (rule by_main) (simp add: mainFunction_def main_12_def s_def goto_12_def)
  obtain t where t: "step_12\<^sup>*\<^sup>* s t" "\<forall>u. \<not> step_12 t u" using ending_12.ends by blast
  have "in_phase (at_12 0) False True (at_12 0) (2 * 0) s" by (simp add: in_phase_def s_def main_12_def)
  then have "main_first s" by (intro main_first.main_locks [of 0]) simp_all
  with t(1) have "main_first t"
    by (induction rule: rtranclp_induct) (auto elim!: step_12E intro: thread_step_first main_step_first)
  then have "place_12 t MainThread \<noteq> StartLock" by cases (auto simp: in_phase_def at_12_def)
  moreover have run: "step_12\<^sup>*\<^sup>* main_12 t" using first t(1) by (rule converse_rtranclp_into_rtranclp)
  ultimately have "place_12 t NewThread = Exited" using two_ends [OF run t(2)] by (elim disjE conjE) simp_all
  with run t(2) show ?thesis by blast
qed

text \<open>
  C24: two mutexes do not suffice. Every run ends within 37 steps, in one of two ways: all ten lines
  are printed in turn and both threads have exited, or just the thread's first line is printed and
  both wait for ever for the mutex the thread holds. Which it is depends on who is first: both ends are reached.
\<close>

theorem two_mutexes_may_deadlock:
  "(\<forall>n t. (step_12 ^^ n) main_12 t \<longrightarrow> n \<le> 37)
   \<and> (\<forall>t. step_12\<^sup>*\<^sup>* main_12 t \<and> (\<forall>u. \<not> step_12 t u) \<longrightarrow>
        printed_12 t = alternating ''Main thread - '' ''Thread - '' 10
          \<and> place_12 t MainThread = Exited \<and> place_12 t NewThread = Exited
        \<or> printed_12 t = [(0, ''Thread - '')] \<and> place_12 t MainThread = StartLock
          \<and> place_12 t NewThread = LockOne 1 \<and> mutex2 t = Some NewThread)
   \<and> (\<exists>t. step_12\<^sup>*\<^sup>* main_12 t \<and> (\<forall>u. \<not> step_12 t u) \<and> printed_12 t = [(0, ''Thread - '')])
   \<and> (\<exists>t. step_12\<^sup>*\<^sup>* main_12 t \<and> (\<forall>u. \<not> step_12 t u) \<and> place_12 t NewThread = Exited)"
proof -
  have "work_12 main_12 = 37" by (simp add: work_12_def main_12_def)
  then have "n \<le> 37" if "(step_12 ^^ n) main_12 t" for n t using ending_12.steps_bounded [OF that] by simp
  then show ?thesis by (intro conjI allI impI) (use two_ends deadlock_reached end_reached in blast)+
qed

theorem two_mutexes_may_deadlock_witness:
  "\<exists>t. step_12\<^sup>*\<^sup>* main_12 t \<and> (\<forall>u. \<not> step_12 t u) \<and> printed_12 t = [(0, ''Thread - '')]"
  using two_mutexes_may_deadlock by blast

end
