(* ===== verification/Lab14.thy ===== *)
theory Lab14
  imports Threads
begin

text \<open>
  \<open>lab14/main.c\<close>: two threads that print ten lines each in turn, by two semaphores. \<open>sem_wait\<close> on
  a semaphore that is zero has no step; it fails only when a signal handler interrupts it, and none
  is installed. A step is one statement of one thread that the other can notice.
\<close>

section \<open>Semaphores\<close>

definition SUCCESS_14 :: int32 where
  "SUCCESS_14 = 0"

definition EXCEPTION_CODE_14 :: int32 where
  "EXCEPTION_CODE_14 = 1"

definition NUMBER_OF_SEMAPHORES :: nat where
  "NUMBER_OF_SEMAPHORES = 2"

definition SRT_COUNT_14 :: nat where
  "SRT_COUNT_14 = 10"

text \<open>The codes that the calls return are inputs; the messages are left out.\<close>

definition error_check :: "int32 \<Rightarrow> int32" where
  "error_check code = (if code \<noteq> SUCCESS_14 then code else SUCCESS_14)"

fun destroy_sems :: "(int32 \<times> int32) list \<Rightarrow> int32" where
  "destroy_sems [] = SUCCESS_14"
| "destroy_sems ((post_code, destroy_code) # codes) =
     (if error_check post_code \<noteq> SUCCESS_14 then EXCEPTION_CODE_14
      else if error_check destroy_code \<noteq> SUCCESS_14 then EXCEPTION_CODE_14
      else destroy_sems codes)"

text \<open>Semaphore \<open>i\<close> starts with the value \<open>i\<close>.\<close>

fun init_sems_from :: "nat \<Rightarrow> int32 list \<Rightarrow> (nat \<Rightarrow> nat) \<Rightarrow> int32 \<times> (nat \<Rightarrow> nat)" where
  "init_sems_from i [] sems = (SUCCESS_14, sems)"
| "init_sems_from i (init_code # codes) sems =
     (if error_check init_code \<noteq> SUCCESS_14 then (EXCEPTION_CODE_14, sems)
      else init_sems_from (Suc i) codes (sems(i := i)))"

definition initialize_sems :: "int32 list \<Rightarrow> int32 \<times> (nat \<Rightarrow> nat)" where
  "initialize_sems codes = init_sems_from 0 (take NUMBER_OF_SEMAPHORES codes) (\<lambda>_. 0)"

definition semaphore_wait :: "nat \<Rightarrow> (nat \<Rightarrow> nat) \<Rightarrow> (int32 \<times> (nat \<Rightarrow> nat)) option" where
  "semaphore_wait num sems =
     (if sems num = 0 then None else Some (SUCCESS_14, sems(num := sems num - 1)))"

definition semaphore_post :: "nat \<Rightarrow> (nat \<Rightarrow> nat) \<Rightarrow> int32 \<times> (nat \<Rightarrow> nat)" where
  "semaphore_post num sems = (SUCCESS_14, sems(num := Suc (sems num)))"

section \<open>The threads\<close>

text \<open>The argument of a place is \<open>i\<close>; \<open>this_sem\<close> and \<open>next_sem\<close> are the same in every round.\<close>

datatype Place_14 = SemWait nat | SemPrint nat | SemPost nat | Joins | Over

record thread_arg_14 =
  arg_text :: string
  arg_start :: nat

record Lab14 =
  sems :: "nat \<Rightarrow> nat"
  printed_14 :: "(nat \<times> string) list"
  place_14 :: "Tid \<Rightarrow> Place_14"

definition thread_args :: "Tid \<Rightarrow> thread_arg_14" where
  "thread_args t = (case t of
     NewThread \<Rightarrow> \<lparr>arg_text = ''Hello, I'm new thread'', arg_start = 0\<rparr>
   | MainThread \<Rightarrow> \<lparr>arg_text = ''Hello, I'm main thread'', arg_start = 1\<rparr>)"

definition this_sem :: "Tid \<Rightarrow> nat" where
  "this_sem t = (arg_start (thread_args t) + 1) mod NUMBER_OF_SEMAPHORES"

definition next_sem :: "Tid \<Rightarrow> nat" where
  "next_sem t = (this_sem t + 1) mod NUMBER_OF_SEMAPHORES"

definition goto_14 :: "Tid \<Rightarrow> Place_14 \<Rightarrow> Lab14 \<Rightarrow> Lab14" where
  "goto_14 t p s = s\<lparr>place_14 := (place_14 s)(t := p)\<rparr>"

definition returns_14 :: "Tid \<Rightarrow> Place_14" where
  "returns_14 t = (case t of MainThread \<Rightarrow> Joins | NewThread \<Rightarrow> Over)"

definition loop_14 :: "Tid \<Rightarrow> nat \<Rightarrow> Place_14" where
  "loop_14 t i = (if i < SRT_COUNT_14 then SemWait i else returns_14 t)"

text \<open>After the post it is the code of the wait that the code checks a second time.\<close>

definition printTextInThread :: "Tid \<Rightarrow> Lab14 \<Rightarrow> Lab14 option" where
  "printTextInThread t s = (case place_14 s t of
     SemWait i \<Rightarrow> (case semaphore_wait (this_sem t) (sems s) of
         None \<Rightarrow> None
       | Some (wait_code, m) \<Rightarrow>
           Some (goto_14 t (if error_check wait_code \<noteq> SUCCESS_14 then returns_14 t else SemPrint i) (s\<lparr>sems := m\<rparr>)))
   | SemPrint i \<Rightarrow>
       Some (goto_14 t (SemPost i) (s\<lparr>printed_14 := printed_14 s @ [(i, arg_text (thread_args t))]\<rparr>))
   | SemPost i \<Rightarrow>
       let (post_code, m) = semaphore_post (next_sem t) (sems s)
       in Some (goto_14 t (loop_14 t (Suc i)) (s\<lparr>sems := m\<rparr>))
   | _ \<Rightarrow> None)"

definition thread_step_14 :: "Tid \<Rightarrow> Lab14 \<Rightarrow> Lab14 option" where
  "thread_step_14 t s = (case place_14 s t of
     Joins \<Rightarrow> if place_14 s NewThread = Over then Some (goto_14 t Over s) else None
   | _ \<Rightarrow> printTextInThread t s)"

inductive step_14 :: "Lab14 \<Rightarrow> Lab14 \<Rightarrow> bool" where
  "thread_step_14 t s = Some s' \<Longrightarrow> step_14 s s'"

inductive_cases step_14E: "step_14 s s'"

text \<open>\<open>main\<close> up to its own loop: the exit code, or the state in which both threads run.\<close>

definition main_14 :: "int32 list \<Rightarrow> int32 \<Rightarrow> int32 + Lab14" where
  "main_14 initCodes createCode =
     (let (init_code, m) = initialize_sems initCodes
      in if init_code \<noteq> SUCCESS_14 then Inl init_code
         else if createCode \<noteq> SUCCESS_14 then Inl createCode
         else Inr \<lparr>sems = m, printed_14 = [], place_14 = (\<lambda>t. loop_14 t 0)\<rparr>)"

section \<open>What every state keeps\<close>

fun lines_14 :: "Place_14 \<Rightarrow> nat" where
  "lines_14 (SemWait i) = i"
| "lines_14 (SemPrint i) = i"
| "lines_14 (SemPost i) = Suc i"
| "lines_14 Joins = 10"
| "lines_14 Over = 10"

fun inside :: "Place_14 \<Rightarrow> bool" where
  "inside (SemPrint i) = True"
| "inside (SemPost i) = True"
| "inside p = False"

fun loop_ok :: "Place_14 \<Rightarrow> bool" where
  "loop_ok (SemWait i) = (i < 10)"
| "loop_ok (SemPrint i) = (i < 10)"
| "loop_ok (SemPost i) = (i < 10)"
| "loop_ok p = True"

text \<open>
  There is one permit: in a semaphore, or with the thread between its wait and its post. Where it
  is tells how many lines each thread has printed; the new thread is the first.
\<close>

definition inv_14 :: "Lab14 \<Rightarrow> bool" where
  "inv_14 s \<longleftrightarrow> (let m = place_14 s MainThread; n = place_14 s NewThread
     in loop_ok m \<and> loop_ok n \<and> n \<noteq> Joins
        \<and> sems s 0 + sems s 1 + (if inside m then 1 else 0) + (if inside n then 1 else 0) = 1
        \<and> (sems s 1 = 1 \<or> (\<exists>i. n = SemPrint i) \<or> (\<exists>i. m = SemPost i) \<longrightarrow> lines_14 n = lines_14 m)
        \<and> (sems s 0 = 1 \<or> (\<exists>i. m = SemPrint i) \<or> (\<exists>i. n = SemPost i) \<longrightarrow> lines_14 n = Suc (lines_14 m))
        \<and> (m = Over \<longrightarrow> n = Over)
        \<and> printed_14 s = alternating (arg_text (thread_args NewThread)) (arg_text (thread_args MainThread))
            (lines_14 n + lines_14 m))"

end
