(* ===== verification/Lab14_Correct.thy ===== *)
theory Lab14_Correct
  imports Lab14
begin

text \<open>The two threads of \<open>lab14\<close> print strictly in turn, and both come to an end.\<close>

section \<open>Every step keeps the invariant\<close>

lemma codes_14 [simp]: "SUCCESS_14 = 0" "EXCEPTION_CODE_14 = 1"
  by (simp_all add: SUCCESS_14_def EXCEPTION_CODE_14_def)

lemma sems_of [simp]:
  "this_sem MainThread = 0" "next_sem MainThread = 1" "this_sem NewThread = 1" "next_sem NewThread = 0"
  by (simp_all add: this_sem_def next_sem_def thread_args_def NUMBER_OF_SEMAPHORES_def)

lemma goto_14_simps [simp]:
  "place_14 (goto_14 t p s) = (place_14 s)(t := p)" "sems (goto_14 t p s) = sems s"
  "printed_14 (goto_14 t p s) = printed_14 s"
  by (simp_all add: goto_14_def)

lemma loop_14_simps [simp]:
  "i \<le> 10 \<Longrightarrow> lines_14 (loop_14 t i) = i" "\<not> inside (loop_14 t i)" "loop_ok (loop_14 t i)"
  "loop_14 t i \<noteq> SemPrint k" "loop_14 t i \<noteq> SemPost k" "loop_14 NewThread i \<noteq> Joins" "loop_14 MainThread i \<noteq> Over"
  by (auto simp: loop_14_def SRT_COUNT_14_def returns_14_def split: Tid.splits)

lemma thread_step_14_cases:
  assumes "thread_step_14 t s = Some s'"
  obtains (waits) i where "place_14 s t = SemWait i" "sems s (this_sem t) \<noteq> 0"
      "s' = goto_14 t (SemPrint i) (s\<lparr>sems := (sems s)(this_sem t := sems s (this_sem t) - 1)\<rparr>)"
  | (prints) i where "place_14 s t = SemPrint i"
      "s' = goto_14 t (SemPost i) (s\<lparr>printed_14 := printed_14 s @ [(i, arg_text (thread_args t))]\<rparr>)"
  | (posts) i where "place_14 s t = SemPost i"
      "s' = goto_14 t (loop_14 t (Suc i)) (s\<lparr>sems := (sems s)(next_sem t := Suc (sems s (next_sem t)))\<rparr>)"
  | (joins) "place_14 s t = Joins" "place_14 s NewThread = Over" "s' = goto_14 t Over s"
  using assms
  by (cases "place_14 s t")
     (auto simp: thread_step_14_def printTextInThread_def semaphore_wait_def semaphore_post_def error_check_def
       split: if_splits)

lemma inv_14_step:
  assumes "inv_14 s" "thread_step_14 t s = Some s'"
  shows "inv_14 s'"
  using assms(2)
proof (cases rule: thread_step_14_cases)
  case (waits i)
  then show ?thesis using assms(1) by (cases t) (auto simp: inv_14_def Let_def)
next
  case (prints i)
  then show ?thesis using assms(1) by (cases t) (auto simp: inv_14_def Let_def alternating_Suc)
next
  case (posts i)
  then show ?thesis using assms(1) by (cases t) (auto simp: inv_14_def Let_def)
next
  case joins
  then show ?thesis using assms(1) by (cases t) (auto simp: inv_14_def Let_def)
qed

definition start_14 :: "Lab14 \<Rightarrow> bool" where
  "start_14 s \<longleftrightarrow> main_14 [0, 0] 0 = Inr s"

lemma start_14_eq:
  "start_14 s \<longleftrightarrow> s = \<lparr>sems = (\<lambda>_. 0)(1 := 1), printed_14 = [], place_14 = (\<lambda>t. SemWait 0)\<rparr>"
  by (auto simp: start_14_def main_14_def initialize_sems_def NUMBER_OF_SEMAPHORES_def error_check_def loop_14_def
      SRT_COUNT_14_def fun_eq_iff)

interpretation turns_14: invariant_system start_14 step_14 inv_14
proof
  show "inv_14 s" if "start_14 s" for s using that by (simp add: start_14_eq inv_14_def)
  show "inv_14 t" if "inv_14 s" "step_14 s t" for s t
    using that by (auto elim!: step_14E intro: inv_14_step)
qed

section \<open>Every run ends\<close>

fun left_14 :: "Place_14 \<Rightarrow> nat" where
  "left_14 (SemWait i) = 4 + 3 * (10 - i)"
| "left_14 (SemPrint i) = 3 + 3 * (10 - i)"
| "left_14 (SemPost i) = 2 + 3 * (10 - i)"
| "left_14 Joins = 1"
| "left_14 Over = 0"

definition work_14 :: "Lab14 \<Rightarrow> nat" where
  "work_14 s = left_14 (place_14 s MainThread) + left_14 (place_14 s NewThread)"

lemma left_14_loop: "left_14 (loop_14 t i) \<le> (if i < 10 then 4 + 3 * (10 - i) else 1)"
  by (cases t) (simp_all add: loop_14_def SRT_COUNT_14_def returns_14_def)

lemma work_14_step:
  assumes "thread_step_14 t s = Some s'"
  shows "work_14 s' < work_14 s"
proof -
  have "\<exists>p. place_14 s' = (place_14 s)(t := p) \<and> left_14 p < left_14 (place_14 s t)"
    using assms
  proof (cases rule: thread_step_14_cases)
    case (posts i)
    then show ?thesis using left_14_loop [of t "Suc i"] by (auto simp: fun_upd_eq_iff split: if_splits)
  qed (auto simp: fun_upd_eq_iff)
  then show ?thesis by (cases t) (auto simp: work_14_def)
qed

interpretation ending_14: terminating_system step_14 work_14
  by unfold_locales (auto elim!: step_14E intro: work_14_step)

lemma finished_14:
  assumes "inv_14 s" "\<forall>u. \<not> step_14 s u"
  shows "place_14 s MainThread = Over \<and> place_14 s NewThread = Over"
proof -
  have none: "thread_step_14 t s = None" for t using assms(2) step_14.intros [of t s] by (cases "thread_step_14 t s") auto
  have stuck: "place_14 s t = SemWait i \<Longrightarrow> sems s (this_sem t) = 0" "\<not> inside (place_14 s t)" for t i
    using none [of t]
    by (cases "place_14 s t"; simp add: thread_step_14_def printTextInThread_def semaphore_wait_def semaphore_post_def
        split: if_splits)+
  have "place_14 s MainThread = Joins \<Longrightarrow> place_14 s NewThread \<noteq> Over"
    using none [of MainThread] by (simp add: thread_step_14_def split: if_splits)
  then show ?thesis
    using assms(1) stuck [of MainThread] stuck [of NewThread] by (cases "place_14 s MainThread"; cases "place_14 s NewThread") (auto simp: inv_14_def Let_def)
qed

text \<open>
  C23: the two threads print strictly in turn, the new thread first, and both come to an end. In
  every reachable state what has been printed is a beginning of the alternating sequence of twenty
  lines and at most one thread is between its wait and its post; a run has at most 68 steps; and
  in every state without a further step, of which one is reached, all lines are printed and both
  threads have returned.
\<close>

theorem semaphores_alternate:
  assumes "start_14 s"
  shows "(\<forall>t. step_14\<^sup>*\<^sup>* s t \<longrightarrow> \<not> (inside (place_14 t MainThread) \<and> inside (place_14 t NewThread))
        \<and> (\<exists>n \<le> 20. printed_14 t = alternating ''Hello, I'm new thread'' ''Hello, I'm main thread'' n))
    \<and> (\<forall>n t. (step_14 ^^ n) s t \<longrightarrow> n \<le> 68)
    \<and> (\<exists>t. step_14\<^sup>*\<^sup>* s t \<and> (\<forall>u. \<not> step_14 t u))
    \<and> (\<forall>t. step_14\<^sup>*\<^sup>* s t \<and> (\<forall>u. \<not> step_14 t u) \<longrightarrow>
        printed_14 t = alternating ''Hello, I'm new thread'' ''Hello, I'm main thread'' 20
        \<and> place_14 t MainThread = Over \<and> place_14 t NewThread = Over)"
proof -
  have le: "loop_ok p \<Longrightarrow> lines_14 p \<le> 10" for p by (cases p) auto
  have texts: "arg_text (thread_args NewThread) = ''Hello, I'm new thread''"
    "arg_text (thread_args MainThread) = ''Hello, I'm main thread''" by (simp_all add: thread_args_def)
  have "\<not> (inside (place_14 t MainThread) \<and> inside (place_14 t NewThread))
      \<and> (\<exists>n \<le> 20. printed_14 t = alternating ''Hello, I'm new thread'' ''Hello, I'm main thread'' n)"
    if "step_14\<^sup>*\<^sup>* s t" for t
  proof -
    from turns_14.reachable_inv [OF assms that] have inv: "inv_14 t" .
    have "lines_14 (place_14 t NewThread) + lines_14 (place_14 t MainThread) \<le> 20"
      using inv le [of "place_14 t MainThread"] le [of "place_14 t NewThread"] by (simp add: inv_14_def Let_def)
    with inv show ?thesis by (auto simp: inv_14_def Let_def texts)
  qed
  moreover have "work_14 s = 68" using assms by (simp add: start_14_eq work_14_def)
  then have "n \<le> 68" if "(step_14 ^^ n) s t" for n t using ending_14.steps_bounded [OF that] by simp
  moreover have "printed_14 t = alternating ''Hello, I'm new thread'' ''Hello, I'm main thread'' 20
        \<and> place_14 t MainThread = Over \<and> place_14 t NewThread = Over"
    if "step_14\<^sup>*\<^sup>* s t" "\<forall>u. \<not> step_14 t u" for t
  proof -
    from turns_14.reachable_inv [OF assms that(1)] have inv: "inv_14 t" .
    with finished_14 [OF inv that(2)] show ?thesis by (simp add: inv_14_def Let_def texts)
  qed
  ultimately show ?thesis using ending_14.ends [of s] by blast
qed

theorem semaphores_alternate_witness:
  "\<exists>s t. start_14 s \<and> step_14\<^sup>*\<^sup>* s t \<and> length (printed_14 t) = 20"
proof -
  obtain s where "start_14 s" using start_14_eq by blast
  with semaphores_alternate [OF this] show ?thesis by (metis length_alternating)
qed

end
