(* ===== verification/Spec2Isabelle.thy ===== *)
theory Spec2Isabelle
  imports Parser_Correct CashImpl_Correct Buffer_Correct Handler_Correct Server_Correct Handler_Visit Subscribers Loggers
    Lab31_BinaryString_Correct Lab31_Cash_Correct Lab31_Buffer_Correct Lab31_Server_Correct
    Lab32_Thread_Correct Lab32_Server_Correct Lab31_V1_Client Lab31_V1_Bounds
    Lab1_3_Correct Lab4_5_Correct Lab6_Correct Lab8_Correct Lab11_Correct Lab12_Correct Lab14_Correct
begin

text \<open>
  A verification development for the exercises of a course on operating systems. The repository holds
  one directory per exercise. The three proxies in C++ are its largest programs:

  \<^item> \<open>lab32v2\<close>, a proxy with a thread per user, in which each thread polls its user's and its
    origin's sockets and several threads share one cache;
  \<^item> \<open>lab31/v2\<close>, a proxy with one thread that polls all sockets;
  \<^item> \<open>lab32\<close>, a proxy with a thread per user that handles one request with blocking calls, and a
    thread that joins the finished ones.

  The others are in C: \<open>lab31/v1\<close>, the first proxy and its client, and exercises on threads: \<open>lab1\<close> to
  \<open>lab3\<close> (creation and join), \<open>lab4\<close> and \<open>lab5\<close> (cancellation), \<open>lab6\<close> (sleep sort), \<open>lab8\<close> (a sum split
  among threads), \<open>lab11\<close>, \<open>lab12\<close> and \<open>lab14\<close> (taking turns by mutexes and semaphores).

  \<^bold>\<open>How the code is translated.\<close> A class is a record with its data members, one definition per
  method under the method's name; \<open>_31\<close> and \<open>_32\<close> mark what belongs to \<open>lab31/v2\<close> and \<open>lab32\<close>
  where \<open>lab32v2\<close> has a method of the same name. A method that can fail has a result of type
  \<open>outcome\<close> (\<open>Prelude\<close>): a value and the new state, an exception and the state it was thrown in,
  or a fault, which is undefined behaviour such as a null dereference, the use of a freed object or
  an index out of bounds, or an exception that ends the process. Objects that several others point
  to live in heaps, functions from addresses to objects in which a freed object is \<open>None\<close>. \<open>int\<close>,
  \<open>long\<close> and \<open>size_t\<close> are words of 32 and 64 bits. The hash function of the standard library is a
  parameter of the operations that use it, and so is whatever other threads do to a shared
  object between two accesses. What the operating system answers is an input, one list per call.

  \<^bold>\<open>Theories.\<close>

  \<^item> \<open>Prelude\<close>: outcomes, exceptions, facts on words; \<open>Regex\<close>: the backtracking search of
    \<open>std::regex\<close> for the two patterns used; \<open>Lru\<close>: look-up by key and the eviction loop both list
    caches share; \<open>CacheInterface\<close>: the locale of a response cache, interpreted by the caches of
    \<open>lab32v2\<close> (\<open>lru\<close>) and of \<open>lab31/v2\<close> (\<open>lru31\<close>); \<open>Invariants\<close>: the locales of step relations
    with an invariant and of terminating ones, interpreted in \<open>Subscribers\<close>, \<open>Lab32_Cash\<close> and the theories
    on exercises with threads; \<open>Threads\<close>: what the exercises with two threads share.
  \<^item> \<open>lab32v2\<close>: \<open>Parser\<close> (\<open>parser/\<close>), \<open>CashElement\<close> and \<open>CashImpl\<close> (\<open>cash/\<close>), \<open>Buffer\<close> (\<open>buffer/\<close>: the
    state machine of one exchange), \<open>Client\<close> (\<open>client/\<close>, \<open>socket/\<close>), \<open>Handler\<close>
    (\<open>server/HandlerOneClientImpl\<close>: the thread that serves one user), \<open>Server\<close>
    (\<open>server/NewServerImpl\<close>, \<open>main.cpp\<close>), \<open>Handler_Service\<close> (a whole visit of a user whom the cache can
    serve, over all of these), \<open>Handler_Relay\<close> and \<open>Handler_Visit\<close> (the events and rounds in which a response is
    fetched, as a refinement of an abstract queue; visits one after the other) and \<open>Subscribers\<close> (a thread that reads a cache element
    while another downloads it, as a step relation).
  \<^item> \<open>lab31/v2\<close>: \<open>Lab31_BinaryString\<close> (\<open>binaryString/\<close>: a byte string with its own allocation, over
    an explicit memory), \<open>Lab31_Parser\<close>, \<open>Lab31_Cash\<close>, \<open>Lab31_Buffer\<close>, \<open>Lab31_Client\<close> and
    \<open>Lab31_Server\<close> (\<open>server/ServerImpl\<close>: the poll loop over all connections, \<open>main.cpp\<close>).
  \<^item> \<open>lab32\<close>: \<open>Lab32_Parser\<close>, \<open>Lab32_Cash\<close> (\<open>context/cash/\<close>), \<open>Lab32_Thread\<close> (\<open>context/thread/\<close>)
    and \<open>Lab32_Server\<close> (\<open>context/Context\<close>, \<open>cleaner/\<close>, \<open>socket/\<close>, \<open>server/\<close>, \<open>main.cpp\<close>).
  \<^item> \<open>lab31/v1\<close>: \<open>Lab31_V1\<close> (\<open>proxy.c\<close>), with \<open>Lab31_V1_Correct\<close> (URLs, fetching) and
    \<open>Lab31_V1_Service\<close> (the main loop, sending, unguarded requests), \<open>Lab31_V1_Bounds\<close> (where every fault of a run
    comes from) and \<open>Lab31_V1_Exchange\<close> (whole exchanges);
    \<open>Lab31_V1_Client\<close> (\<open>proxy_test.c\<close>, \<open>client.c\<close>).
  \<^item> \<open>Loggers\<close>: the three \<open>logger/Logger.h\<close>.
  \<^item> exercises: \<open>Lab1_3\<close>, \<open>Lab4_5\<close>, \<open>Lab6\<close>, \<open>Lab8\<close>, \<open>Lab11\<close>, \<open>Lab12\<close>, \<open>Lab14\<close>, each one \<open>main.c\<close>, or several.
    A program with threads is a step relation: a step is one statement of one thread that another
    thread can notice, and a thread that waits has no step.

  \<^bold>\<open>What is shown.\<close> The \<open>_Correct\<close> theories hold the lemmas on the theory they are named after.

  \<^item> Parsers: what a heading is parsed to, the round trip for type, host, port and length, the modulus of
    a port and of a length; the three parsers agree (\<open>parsers_agree\<close> below).
  \<^item> Caches: the laws of the interface, the invariants of the lists, eviction that spares elements in
    use, what the byte counter means, and where eviction and hashing go wrong.
  \<^item> Buffers: well-formedness, which calls keep it, and the one race of \<open>lab32v2\<close> that ends in a null pointer and the
    one call of \<open>lab31/v2\<close> that leaves it; the order of the states,
    body bytes mirrored into the element, what is sent and what is left; the races of \<open>lab32v2\<close>;
    lengths that wrap.
  \<^item> Handlers and servers: which descriptors, buffers and elements a leaving user or
    origin frees, that a cached response is delivered and the loops that deliver it end, from the
    start of the thread to the closed descriptor; that one which is not cached is fetched, relayed and stored,
    whichever socket is ready when, and is what the next user gets; the poll sets and their bounds, failures of system calls.
  \<^item> \<open>Subscribers\<close>: the protocol ends, delivers everything if no signal is missed, and can hang if
    one is.
  \<^item> \<open>lab32\<close>: the response stored first is served from the cache as it was received; what is relayed and stored; errors
    that end the process; what a round of the cleaner joins and frees, and that it returns only when everybody in its table is joined.
  \<^item> \<open>lab31/v1\<close>: the arrays, buffers and pages are left only in a round in which a stated condition on client,
    server and earlier writes is broken; pages are stored and sent as they came, from the request to the
    last byte, and again from the cache; the requests that end in undefined behaviour; the copy with \<open>getline\<close> serves the same; the client forwards lines.
  \<^item> Exercises: every run ends, within a number of steps that is given; what can be printed, exactly,
    as a set of interleavings or as the alternating sequence; the deadlock of \<open>lab12\<close>; cancellation ends the
    thread and its handler runs once; sleep sort sorts under a bound on lateness; \<open>lab8\<close> counts terms twice.

  \<^bold>\<open>Fuel.\<close> Loops bounded by their data are recursive functions. The loops of servers, of handlers and
  of a thread that waits for others get fuel, and give the fault \<open>OutOfFuel\<close> without; so
  does a system call with an empty list of answers, which stands for a call that has not returned.
  The theorems on loops that end say how much fuel is enough: \<open>sendAll_delivers\<close> one unit per
  chunk, \<open>getFromCash_serves_what_there_is\<close> the same and one more; a visit in which a response is fetched takes three
  units more than the rounds its two sockets are ready in, and four for the connections visited in a round; the mutual recursion of
  \<open>deleteClient\<close> is two calls deep.

  \<^bold>\<open>Not modelled.\<close> The calls of the loggers and other output to the console where it is not what the program is about, and
  destructors and functions that only free memory; the
  abstract interface classes, which declare what the models define; signals to the process
  (\<open>SIGPIPE\<close>); data races below the level of whole accesses, apart from those the
  hooks for other threads express; the empty classes of \<open>lab32/buffer\<close> and \<open>lab32/client\<close>; in \<open>lab31/v1\<close> the
  set-up of the listening socket, whose results the program does not look at, and failing \<open>malloc\<close>; in
  the exercises messages to \<open>stderr\<close>. The directories \<open>cmake-build-debug\<close> hold files that CMake generated.
\<close>

text \<open>
  The parsers of the three proxies, each with its own patterns and functions, compute the same, so that
  what \<open>Parser_Correct\<close> shows of the parser of \<open>lab32v2\<close> holds for the three.
\<close>

lemma parsers_agree:
  "findEndHeading_31 s = findEndHeading s \<and> findEndHeading_32 s = findEndHeading s
   \<and> findEndBody_31 s = findEndBody s \<and> findEndBody_32 s = findEndBody s
   \<and> parsingHeading_31 s = parsingHeading s \<and> parsingHeading_32 s = parsingHeading s
   \<and> parsingResponseHeading_31 s = parsingResponseHeading s \<and> parsingResponseHeading_32 s = parsingResponseHeading s"
  by (simp add: searches_31 headings_31 searches_32 headings_32)

end
